(* ===== verification/Prelude.thy ===== *)
theory Prelude
  imports Complex_Main "HOL-Library.Word" "HOL-Library.Monad_Syntax"
begin

text \<open>
  Shared vocabulary of the development: the C integer types as words, the fact collections the
  components extend, and the generic lemmas on lists, options and words that the component proofs
  rest on.

  Conventions used everywhere:
  \<^item> \<open>uint8_t\<close>, \<open>uint16_t\<close> and \<open>uint32_t\<close> (and \<open>size_t\<close>, pointers and addresses, which are 32 bits
    wide on the i386 target) are the word types \<open>u8\<close>, \<open>u16\<close>, \<open>u32\<close>; arithmetic on them wraps as
    it does in C;
  \<^item> \<open>int\<close>, \<open>int8_t\<close> and \<open>int32_t\<close> results that the code only compares with small constants are
    HOL integers;
  \<^item> an operation that can run into undefined behaviour (an array access outside the array, a
    block outside the disk image) or that can loop forever returns an \<^typ>\<open>'a option\<close>: \<^const>\<open>None\<close> says
    that the C code has no defined result there, and a theorem that an operation returns states
    that the result is \<^const>\<open>Some\<close>.
\<close>

unbundle bit_operations_syntax

section \<open>Types\<close>

type_synonym u8 = "8 word"
type_synonym u16 = "16 word"
type_synonym u32 = "32 word"

section \<open>Fact collections\<close>

named_theorems mem_simps \<open>rewriting facts about flat memory, byte ranges and storage\<close>
named_theorems codec_simps \<open>rewriting facts about the byte layout of the packed structs\<close>
named_theorems frame_simps \<open>what an operation leaves unchanged\<close>
named_theorems run_simps \<open>unfolding rules for the loops of the model on given states\<close>

section \<open>Checked array access\<close>

text \<open>
  The C array accesses \<open>a[i]\<close> and \<open>a[i] = v\<close>: outside the array they have no defined result.
\<close>

definition get_at :: "'a list \<Rightarrow> nat \<Rightarrow> 'a option" where
  "get_at xs i = (if i < length xs then Some (xs ! i) else None)"

definition put_at :: "'a list \<Rightarrow> nat \<Rightarrow> 'a \<Rightarrow> 'a list option" where
  "put_at xs i v = (if i < length xs then Some (xs[i := v]) else None)"

lemma get_at_Some [simp]: "i < length xs \<Longrightarrow> get_at xs i = Some (xs ! i)"
  by (simp add: get_at_def)

lemma get_at_None [simp]: "length xs \<le> i \<Longrightarrow> get_at xs i = None"
  by (simp add: get_at_def)

lemma put_at_Some [simp]: "i < length xs \<Longrightarrow> put_at xs i v = Some (xs[i := v])"
  by (simp add: put_at_def)

lemma put_at_None [simp]: "length xs \<le> i \<Longrightarrow> put_at xs i v = None"
  by (simp add: put_at_def)

lemma get_at_eq_Some_iff: "get_at xs i = Some v \<longleftrightarrow> i < length xs \<and> xs ! i = v"
  by (auto simp: get_at_def)

lemma put_at_eq_Some_iff: "put_at xs i v = Some ys \<longleftrightarrow> i < length xs \<and> ys = xs[i := v]"
  by (auto simp: put_at_def)

section \<open>Searching an array\<close>

text \<open>
  \<open>first_index P xs\<close> is the shape of every search loop of the program: the least index whose
  element satisfies \<open>P\<close>, if there is one.
\<close>

fun first_index :: "('a \<Rightarrow> bool) \<Rightarrow> 'a list \<Rightarrow> nat option" where
  "first_index P [] = None"
| "first_index P (x # xs) = (if P x then Some 0 else map_option Suc (first_index P xs))"

lemma first_index_Some_iff:
  "first_index P xs = Some i \<longleftrightarrow> i < length xs \<and> P (xs ! i) \<and> (\<forall>j < i. \<not> P (xs ! j))"
proof (induction xs arbitrary: i)
  case Nil
  then show ?case by simp
next
  case (Cons x xs)
  show ?case
  proof (cases i)
    case 0
    then show ?thesis by auto
  next
    case (Suc k)
    have "first_index P (x # xs) = Some (Suc k) \<longleftrightarrow> \<not> P x \<and> first_index P xs = Some k"
      by auto
    also have "\<dots> \<longleftrightarrow> Suc k < length (x # xs) \<and> P ((x # xs) ! Suc k) \<and> (\<forall>j < Suc k. \<not> P ((x # xs) ! j))"
      by (auto simp: Cons.IH less_Suc_eq_0_disj)
    finally show ?thesis using Suc by simp
  qed
qed

lemma first_index_None_iff: "first_index P xs = None \<longleftrightarrow> (\<forall>x \<in> set xs. \<not> P x)"
  by (induction xs) auto

lemma first_index_SomeD:
  assumes "first_index P xs = Some i"
  shows "i < length xs" and "P (xs ! i)" and "\<And>j. j < i \<Longrightarrow> \<not> P (xs ! j)"
  using assms by (auto simp: first_index_Some_iff)

lemma first_index_exists: "\<exists>x \<in> set xs. P x \<Longrightarrow> \<exists>i. first_index P xs = Some i"
  using first_index_None_iff by (metis not_None_eq)

section \<open>Slices and chunks\<close>

text \<open>\<open>chunk n i xs\<close> is the \<open>i\<close>-th run of \<open>n\<close> elements: \<open>xs[n*i .. n*i+n)\<close>.\<close>

definition chunk :: "nat \<Rightarrow> nat \<Rightarrow> 'a list \<Rightarrow> 'a list" where
  "chunk n i xs = take n (drop (n * i) xs)"

lemma length_chunk [simp]: "length (chunk n i xs) = min n (length xs - n * i)"
  by (simp add: chunk_def)

lemma nth_chunk: "k < n \<Longrightarrow> n * i + k < length xs \<Longrightarrow> chunk n i xs ! k = xs ! (n * i + k)"
  by (simp add: chunk_def)

lemma length_concat_uniform:
  "(\<And>x. x \<in> set xs \<Longrightarrow> length (f x) = n) \<Longrightarrow> length (concat (map f xs)) = n * length xs"
  by (induction xs) auto

lemma chunk_concat_uniform:
  assumes "\<And>x. x \<in> set xs \<Longrightarrow> length (f x) = n" and "i < length xs"
  shows "chunk n i (concat (map f xs)) = f (xs ! i)"
  using assms
proof (induction xs arbitrary: i)
  case Nil
  then show ?case by simp
next
  case (Cons x xs)
  show ?case
  proof (cases i)
    case 0
    then show ?thesis using Cons.prems(1) [of x] by (simp add: chunk_def)
  next
    case (Suc k)
    have "chunk n (Suc k) (concat (map f (x # xs))) = chunk n k (concat (map f xs))"
      using Cons.prems(1) [of x] by (simp add: chunk_def)
    with Suc Cons show ?thesis by simp
  qed
qed

lemma concat_chunks:
  assumes "length xs = n * m"
  shows "concat (map (\<lambda>i. chunk n i xs) [0..<m]) = xs"
  using assms
proof (induction m arbitrary: xs)
  case 0
  then show ?case by simp
next
  case (Suc m)
  have shift: "map (\<lambda>i. chunk n i xs) [Suc 0..<Suc m] = map (\<lambda>i. chunk n i (drop n xs)) [0..<m]"
    by (simp add: chunk_def map_Suc_upt [symmetric] del: upt_Suc) (simp add: add.commute)
  have "concat (map (\<lambda>i. chunk n i xs) [0..<Suc m])
    = chunk n 0 xs @ concat (map (\<lambda>i. chunk n i (drop n xs)) [0..<m])"
    by (simp add: upt_conv_Cons shift del: upt_Suc)
  also have "concat (map (\<lambda>i. chunk n i (drop n xs)) [0..<m]) = drop n xs"
    using Suc.prems by (intro Suc.IH) simp
  finally show ?case by (simp add: chunk_def)
qed

lemma replicate_8: "replicate 8 x = [x, x, x, x, x, x, x, x]"
  by (simp add: numeral_eq_Suc)

lemma replicate_3: "replicate 3 x = [x, x, x]"
  by (simp add: numeral_eq_Suc)

section \<open>Words\<close>

lemma of_nat_eq_iff_small:
  assumes "m < 2 ^ LENGTH('a)" and "n < 2 ^ LENGTH('a)"
  shows "((of_nat m :: 'a::len word) = of_nat n) \<longleftrightarrow> m = n"
  using assms by (simp add: word_of_nat_eq_iff take_bit_nat_eq_self)

lemma unat_of_nat_small:
  "n < 2 ^ LENGTH('a) \<Longrightarrow> unat (of_nat n :: 'a::len word) = n"
  by (simp add: unat_of_nat)

lemma unat_add_small:
  fixes p :: "'a::len word"
  shows "unat p + n < 2 ^ LENGTH('a) \<Longrightarrow> unat (p + of_nat n) = unat p + n"
  by (simp add: unat_word_ariths unat_of_nat)

lemma add_of_nat_eq_iff:
  fixes p :: "'a::len word"
  assumes "m < 2 ^ LENGTH('a)" and "n < 2 ^ LENGTH('a)"
  shows "p + of_nat m = p + of_nat n \<longleftrightarrow> m = n"
  using of_nat_eq_iff_small [OF assms] by simp

lemma unat_lt_2p32 [simp]: "unat (x :: u32) < 4294967296"
  using unsigned_less [of x, where ?'a = nat] by simp

lemma unat_diff_small:
  fixes x :: u32
  assumes "n \<le> unat x"
  shows "unat (x - of_nat n) = unat x - n"
proof -
  have "n < 2 ^ LENGTH(32)" using assms unat_lt_2p32 [of x] by (simp del: unat_lt_2p32)
  then have "unat (of_nat n :: u32) = n" by (rule unat_of_nat_small)
  with assms show ?thesis by (simp add: unat_sub word_le_nat_alt)
qed

end
