(* ===== verification/Portio.thy ===== *)
theory Portio
  imports Prelude
begin

text \<open>
  Port I/O (\<open>src/src/portio.c\<close>). The hardware behind the ports is a parameter: a \<open>bus\<close> says what an access
  to a port does to the state of the devices. \<open>io\<close> joins that state with the interrupt flag
  of the CPU, which \<open>cli\<close> and \<open>sti\<close> change. A theorem about a driver names what it relies on of
  the device as a hypothesis about the bus, or holds for every bus.
\<close>

record 'd bus =
  bus_in :: "u16 \<Rightarrow> 'd \<Rightarrow> u8 \<times> 'd"
  bus_out :: "u16 \<Rightarrow> u8 \<Rightarrow> 'd \<Rightarrow> 'd"
  bus_in16 :: "u16 \<Rightarrow> 'd \<Rightarrow> u16 \<times> 'd"
  bus_out16 :: "u16 \<Rightarrow> u16 \<Rightarrow> 'd \<Rightarrow> 'd"

record 'd io =
  dev :: 'd
  interrupt_flag :: bool

definition out :: "'d bus \<Rightarrow> u16 \<Rightarrow> u8 \<Rightarrow> 'd io \<Rightarrow> 'd io" where
  "out bus port data io = io\<lparr>dev := bus_out bus port data (dev io)\<rparr>"

definition in8 :: "'d bus \<Rightarrow> u16 \<Rightarrow> 'd io \<Rightarrow> u8 \<times> 'd io" where
  "in8 bus port io = (let (result, d) = bus_in bus port (dev io) in (result, io\<lparr>dev := d\<rparr>))"

definition out16 :: "'d bus \<Rightarrow> u16 \<Rightarrow> u16 \<Rightarrow> 'd io \<Rightarrow> 'd io" where
  "out16 bus port data io = io\<lparr>dev := bus_out16 bus port data (dev io)\<rparr>"

definition in16 :: "'d bus \<Rightarrow> u16 \<Rightarrow> 'd io \<Rightarrow> u16 \<times> 'd io" where
  "in16 bus port io = (let (result, d) = bus_in16 bus port (dev io) in (result, io\<lparr>dev := d\<rparr>))"

text \<open>The instructions \<open>cli\<close> and \<open>sti\<close>.\<close>

definition cli :: "'d io \<Rightarrow> 'd io" where
  "cli io = io\<lparr>interrupt_flag := False\<rparr>"

definition sti :: "'d io \<Rightarrow> 'd io" where
  "sti io = io\<lparr>interrupt_flag := True\<rparr>"

text \<open>
  A bus that only records: port reads answer from a given function, and the bytes written are kept in order.
  It is the instance that the concrete runs use.
\<close>

definition log_bus :: "(u16 \<Rightarrow> u8) \<Rightarrow> ((u16 \<times> u8) list) bus" where
  "log_bus answer = \<lparr>bus_in = (\<lambda>port d. (answer port, d)), bus_out = (\<lambda>port v d. d @ [(port, v)]),
     bus_in16 = (\<lambda>port d. (0, d)), bus_out16 = (\<lambda>port v d. d)\<rparr>"

text \<open>A sequence of byte writes.\<close>

definition outs :: "'d bus \<Rightarrow> (u16 \<times> u8) list \<Rightarrow> 'd io \<Rightarrow> 'd io" where
  "outs bus ws io = fold (\<lambda>(port, v). out bus port v) ws io"

lemma outs_simps [run_simps]: "outs bus [] io = io" "outs bus ((p, v) # ws) io = outs bus ws (out bus p v io)"
  by (simp_all add: outs_def)

lemma outs_append [run_simps]: "outs bus (ws @ vs) io = outs bus vs (outs bus ws io)"
  by (simp add: outs_def)

lemma interrupt_flag_io [simp]:
  "interrupt_flag (out bus p v io) = interrupt_flag io" "interrupt_flag (snd (in8 bus p io)) = interrupt_flag io"
  by (simp_all add: out_def in8_def split_def Let_def)

lemma interrupt_flag_outs [simp]: "interrupt_flag (outs bus ws io) = interrupt_flag io"
  by (induction ws arbitrary: io) (simp_all add: outs_def split_def)

lemma dev_out [simp]: "dev (out bus p v io) = bus_out bus p v (dev io)"
  by (simp add: out_def)

lemma dev_in8 [simp]: "dev (snd (in8 bus p io)) = snd (bus_in bus p (dev io))" "fst (in8 bus p io) = fst (bus_in bus p (dev io))"
  by (simp_all add: in8_def split_def Let_def)

end
