(* ===== verification/CMemory.thy ===== *)
theory CMemory
  imports Prelude
begin

text \<open>
  The flat memory the C code works on: a total map from 32-bit addresses to bytes, ranges of bytes
  in it, and NUL-terminated strings in it. Address arithmetic wraps at \<open>2\<^sup>3\<^sup>2\<close>, as on the i386 target.
  The locale \<open>byte_memory\<close> states what the drivers rely on when they move bytes between a buffer
  and such a memory; flat memory is its instance.
\<close>

section \<open>Memory and byte ranges\<close>

type_synonym mem = "u32 \<Rightarrow> u8"

definition load_bytes :: "mem \<Rightarrow> u32 \<Rightarrow> nat \<Rightarrow> u8 list" where
  "load_bytes m p n = map (\<lambda>i. m (p + of_nat i)) [0..<n]"

definition store_bytes :: "mem \<Rightarrow> u32 \<Rightarrow> u8 list \<Rightarrow> mem" where
  "store_bytes m p bs = (\<lambda>a. if unat (a - p) < length bs then bs ! unat (a - p) else m a)"

text \<open>Two address ranges share no address.\<close>

definition ranges_disjoint :: "u32 \<Rightarrow> nat \<Rightarrow> u32 \<Rightarrow> nat \<Rightarrow> bool" where
  "ranges_disjoint p n q k \<longleftrightarrow> (\<forall>i < n. \<forall>j < k. p + of_nat i \<noteq> q + of_nat j)"

text \<open>A range that does not run past the end of the address space.\<close>

definition no_wrap :: "u32 \<Rightarrow> nat \<Rightarrow> bool" where
  "no_wrap p n \<longleftrightarrow> unat p + n \<le> 2 ^ 32"

lemma unat_diff_of_nat [simp]: "i < 2 ^ 32 \<Longrightarrow> unat (p + of_nat i - p :: u32) = i"
  by (simp add: unat_of_nat)

lemma unat_of_nat_u32 [simp]: "i < 4294967296 \<Longrightarrow> unat (of_nat i :: u32) = i"
  by (simp add: unat_of_nat)

lemma add_unat_diff [simp]: "p + of_nat (unat (a - p)) = (a :: u32)"
  by simp

lemma in_range_iff:
  "n \<le> 2 ^ 32 \<Longrightarrow> (\<exists>i < n. a = p + of_nat i) \<longleftrightarrow> unat (a - p :: u32) < n"
  by (auto intro!: exI [of _ "unat (a - p)"])

lemma length_load_bytes [simp]: "length (load_bytes m p n) = n"
  by (simp add: load_bytes_def)

lemma nth_load_bytes [simp]: "i < n \<Longrightarrow> load_bytes m p n ! i = m (p + of_nat i)"
  by (simp add: load_bytes_def)

lemma load_bytes_0 [simp]: "load_bytes m p 0 = []"
  by (simp add: load_bytes_def)

lemma load_bytes_Suc: "load_bytes m p (Suc n) = m p # load_bytes m (p + 1) n"
  by (simp add: load_bytes_def upt_conv_Cons map_Suc_upt [symmetric] add.assoc del: upt_Suc)

lemma load_bytes_cong: "(\<And>i. i < n \<Longrightarrow> m (p + of_nat i) = m' (p + of_nat i)) \<Longrightarrow> load_bytes m p n = load_bytes m' p n"
  by (simp add: load_bytes_def)

lemma load_bytes_add:
  "load_bytes m p (i + j) = load_bytes m p i @ load_bytes m (p + of_nat i) j"
  by (rule nth_equalityI) (auto simp: nth_append of_nat_diff add.assoc)

lemma take_load_bytes: "k \<le> n \<Longrightarrow> take k (load_bytes m p n) = load_bytes m p k"
  by (rule nth_equalityI) auto

lemma drop_load_bytes: "drop k (load_bytes m p n) = load_bytes m (p + of_nat k) (n - k)"
  by (rule nth_equalityI) (auto simp: add.assoc)

lemma store_bytes_Nil [simp]: "store_bytes m p [] = m"
  by (simp add: store_bytes_def)

lemma store_bytes_outside: "\<not> unat (a - p) < length bs \<Longrightarrow> store_bytes m p bs a = m a"
  by (simp add: store_bytes_def)

lemma store_bytes_at:
  "i < length bs \<Longrightarrow> length bs \<le> 2 ^ 32 \<Longrightarrow> store_bytes m p bs (p + of_nat i) = bs ! i"
  by (simp add: store_bytes_def)

lemma load_store_bytes:
  "length bs \<le> 2 ^ 32 \<Longrightarrow> load_bytes (store_bytes m p bs) p (length bs) = bs"
  by (rule nth_equalityI) (auto simp: store_bytes_at)

lemma store_bytes_Cons:
  assumes "length xs < 2 ^ 32"
  shows "store_bytes m p (x # xs) = store_bytes (m(p := x)) (p + 1) xs"
proof
  fix a
  show "store_bytes m p (x # xs) a = store_bytes (m(p := x)) (p + 1) xs a"
  proof (cases "a = p")
    case True
    have "unat (p - (p + 1)) = 4294967295"
      by (simp add: unsigned_minus_1_eq_mask mask_eq_exp_minus_1)
    with assms True show ?thesis by (simp add: store_bytes_def)
  next
    case False
    then have "a - p \<noteq> 0" by simp
    then have "unat (a - p - 1) = unat (a - p) - 1" "0 < unat (a - p)"
      by (simp_all add: unat_minus_one unat_gt_0)
    then have "unat (a - p) = Suc (unat (a - (p + 1)))"
      by (simp add: diff_diff_eq)
    then show ?thesis using False by (simp add: store_bytes_def)
  qed
qed

lemma store_bytes_append:
  assumes "length xs + length ys \<le> 2 ^ 32"
  shows "store_bytes m p (xs @ ys) = store_bytes (store_bytes m p xs) (p + of_nat (length xs)) ys"
  using assms
proof (induction xs arbitrary: m p)
  case Nil
  then show ?case by simp
next
  case (Cons x xs)
  then show ?case by (simp add: store_bytes_Cons add.assoc)
qed

lemma ranges_disjoint_sym: "ranges_disjoint p n q k \<Longrightarrow> ranges_disjoint q k p n"
  by (auto simp: ranges_disjoint_def dest: sym)

lemma load_store_bytes_disjoint:
  assumes "ranges_disjoint p n q (length bs)"
  shows "load_bytes (store_bytes m q bs) p n = load_bytes m p n"
proof (rule load_bytes_cong)
  fix i
  assume "i < n"
  have "\<not> unat (p + of_nat i - q) < length bs"
  proof
    assume "unat (p + of_nat i - q) < length bs"
    then have "p + of_nat i \<noteq> q + of_nat (unat (p + of_nat i - q))"
      using assms \<open>i < n\<close> unfolding ranges_disjoint_def by blast
    then show False by simp
  qed
  then show "store_bytes m q bs (p + of_nat i) = m (p + of_nat i)"
    by (rule store_bytes_outside)
qed

lemma ranges_disjointI:
  assumes "no_wrap p n" and "no_wrap q k" and "unat p + n \<le> unat q \<or> unat q + k \<le> unat p"
  shows "ranges_disjoint p n q k"
  unfolding ranges_disjoint_def
proof (intro allI impI notI)
  fix i j
  assume ij: "i < n" "j < k" and eq: "p + of_nat i = q + of_nat j"
  have "unat (p + of_nat i) = unat p + i" "unat (q + of_nat j) = unat q + j"
    using assms(1,2) ij by (auto intro!: unat_add_small simp: no_wrap_def)
  with eq assms(3) ij show False by auto
qed

lemma ranges_disjoint_adjacent:
  assumes "i + j \<le> 2 ^ 32"
  shows "ranges_disjoint p i (p + of_nat i) j"
proof -
  have "p + of_nat a \<noteq> p + of_nat i + of_nat b" if "a < i" "b < j" for a b
    using that assms add_of_nat_eq_iff [of a "i + b" p] by (auto simp: add.assoc)
  then show ?thesis by (auto simp: ranges_disjoint_def)
qed

section \<open>The interface of a byte memory\<close>

locale byte_memory =
  fixes load :: "'m \<Rightarrow> u32 \<Rightarrow> nat \<Rightarrow> u8 list"
    and store :: "'m \<Rightarrow> u32 \<Rightarrow> u8 list \<Rightarrow> 'm"
  assumes load_length: "length (load m p n) = n"
    and load_split: "load m p (i + j) = load m p i @ load m (p + of_nat i) j"
    and load_store: "length bs \<le> 2 ^ 32 \<Longrightarrow> load (store m p bs) p (length bs) = bs"
    and load_store_disjoint:
      "ranges_disjoint p n q (length bs) \<Longrightarrow> load (store m q bs) p n = load m p n"
begin

text \<open>
  A buffer filled from left to right: what was stored in the first \<open>n\<close> bytes is kept by the next
  store, and the two together are the concatenation.
\<close>

lemma load_store_next:
  assumes "load m p n = xs" and "n + length bs \<le> 2 ^ 32"
  shows "load (store m (p + of_nat n) bs) p (n + length bs) = xs @ bs"
proof -
  have "load (store m (p + of_nat n) bs) p n = load m p n"
    using assms(2) by (intro load_store_disjoint ranges_disjoint_adjacent)
  moreover have "load (store m (p + of_nat n) bs) (p + of_nat n) (length bs) = bs"
    using assms(2) by (intro load_store) simp
  ultimately show ?thesis
    using assms(1) load_split [of "store m (p + of_nat n) bs" p n "length bs"] by simp
qed

end

interpretation flat: byte_memory load_bytes store_bytes
  by unfold_locales
    (simp_all only: length_load_bytes load_bytes_add load_store_bytes load_store_bytes_disjoint)

section \<open>NUL-terminated strings\<close>

text \<open>\<open>cstr m p xs\<close>: the characters \<open>xs\<close>, none of them NUL, stand at \<open>p\<close>, followed by a NUL.\<close>

fun cstr :: "mem \<Rightarrow> u32 \<Rightarrow> u8 list \<Rightarrow> bool" where
  "cstr m p [] \<longleftrightarrow> m p = 0"
| "cstr m p (x # xs) \<longleftrightarrow> m p = x \<and> x \<noteq> 0 \<and> cstr m (p + 1) xs"

lemma cstr_unique: "cstr m p xs \<Longrightarrow> cstr m p ys \<Longrightarrow> xs = ys"
proof (induction xs arbitrary: p ys)
  case Nil
  then show ?case by (cases ys) auto
next
  case (Cons x xs)
  then show ?case by (cases ys) auto
qed

lemma cstr_iff_load:
  "cstr m p xs \<longleftrightarrow> load_bytes m p (length xs) = xs \<and> 0 \<notin> set xs \<and> m (p + of_nat (length xs)) = 0"
  by (induction xs arbitrary: p) (auto simp: load_bytes_Suc add.assoc)

lemma cstr_no_nul: "cstr m p xs \<Longrightarrow> 0 \<notin> set xs"
  by (simp add: cstr_iff_load)

lemma cstr_append:
  "cstr m p (xs @ ys) \<longleftrightarrow> load_bytes m p (length xs) = xs \<and> 0 \<notin> set xs \<and> cstr m (p + of_nat (length xs)) ys"
  by (induction xs arbitrary: p) (auto simp: load_bytes_Suc add.assoc)

lemma cstr_upd:
  "(\<And>j. j \<le> length xs \<Longrightarrow> a \<noteq> p + of_nat j) \<Longrightarrow> cstr (m(a := v)) p xs \<longleftrightarrow> cstr m p xs"
proof (induction xs arbitrary: p)
  case Nil
  from Nil [of 0] show ?case by auto
next
  case (Cons x xs)
  have "a \<noteq> p" using Cons.prems [of 0] by simp
  moreover have "cstr (m(a := v)) (p + 1) xs \<longleftrightarrow> cstr m (p + 1) xs"
    using Cons.prems [of "Suc j" for j] by (intro Cons.IH) (simp add: add.assoc)
  ultimately show ?case by (simp add: fun_upd_other del: fun_upd_apply)
qed

end
