(* ===== verification/Storage.thy ===== *)
theory Storage
  imports CMemory
begin

text \<open>
  The block storage under the file system, as \<open>src/src/external-inserter.c\<close> implements it: a disk
  image of 4 MiB in memory, \<open>read_blocks\<close> and \<open>write_blocks\<close> on it, and the cluster wrappers of
  \<open>src/src/fat32.c\<close> (\<open>cluster_to_lba\<close>, \<open>read_clusters\<close>, \<open>write_clusters\<close>). A block outside the image
  has no defined content. The locale \<open>cluster_store\<close> is what the file system relies on: the content of a
  cluster is what was last written to it, and writing a cluster changes no other one.
\<close>

section \<open>Blocks of the disk image\<close>

definition BLOCK_SIZE :: nat where "BLOCK_SIZE = 512"
definition CLUSTER_BLOCK_COUNT :: nat where "CLUSTER_BLOCK_COUNT = 4"
definition CLUSTER_SIZE :: nat where "CLUSTER_SIZE = BLOCK_SIZE * CLUSTER_BLOCK_COUNT"

text \<open>The size of \<open>image_storage\<close>: \<open>malloc(4*1024*1024)\<close>.\<close>

definition IMAGE_SIZE :: nat where "IMAGE_SIZE = 4 * 1024 * 1024"

text \<open>
  \<open>image_storage\<close> as a map from offsets to bytes. A run of \<open>BLOCK_SIZE\<close> bytes at an offset is inside the
  image or the access has no defined result.
\<close>

type_synonym image = mem

definition block_in_image :: "u32 \<Rightarrow> bool" where
  "block_in_image off \<longleftrightarrow> unat off + BLOCK_SIZE \<le> IMAGE_SIZE"

text \<open>The byte offset of block \<open>i\<close> of a transfer: \<open>BLOCK_SIZE*(logical_block_address+i)\<close>, on 32 bits.\<close>

definition block_offset :: "u32 \<Rightarrow> nat \<Rightarrow> u32" where
  "block_offset lba i = of_nat BLOCK_SIZE * (lba + of_nat i)"

text \<open>The loop of \<open>read_blocks\<close> from block \<open>i\<close> with \<open>k\<close> blocks left; it returns the bytes read.\<close>

fun read_blocks_from :: "image \<Rightarrow> u32 \<Rightarrow> nat \<Rightarrow> nat \<Rightarrow> u8 list option" where
  "read_blocks_from img lba i 0 = Some []"
| "read_blocks_from img lba i (Suc k) =
     (if block_in_image (block_offset lba i)
      then do { rest \<leftarrow> read_blocks_from img lba (Suc i) k;
                Some (load_bytes img (block_offset lba i) BLOCK_SIZE @ rest) }
      else None)"

definition read_blocks :: "image \<Rightarrow> u32 \<Rightarrow> u8 \<Rightarrow> u8 list option" where
  "read_blocks img logical_block_address block_count =
     read_blocks_from img logical_block_address 0 (unat block_count)"

text \<open>The loop of \<open>write_blocks\<close>: \<open>ptr\<close> is the source buffer, which must hold every block written.\<close>

fun write_blocks_from :: "image \<Rightarrow> u8 list \<Rightarrow> u32 \<Rightarrow> nat \<Rightarrow> nat \<Rightarrow> image option" where
  "write_blocks_from img ptr lba i 0 = Some img"
| "write_blocks_from img ptr lba i (Suc k) =
     (if block_in_image (block_offset lba i) \<and> BLOCK_SIZE * Suc i \<le> length ptr
      then write_blocks_from (store_bytes img (block_offset lba i) (chunk BLOCK_SIZE i ptr)) ptr lba (Suc i) k
      else None)"

definition write_blocks :: "image \<Rightarrow> u8 list \<Rightarrow> u32 \<Rightarrow> u8 \<Rightarrow> image option" where
  "write_blocks img ptr logical_block_address block_count =
     write_blocks_from img ptr logical_block_address 0 (unat block_count)"

section \<open>Clusters\<close>

definition cluster_to_lba :: "u32 \<Rightarrow> u32" where
  "cluster_to_lba cluster = cluster * of_nat CLUSTER_BLOCK_COUNT"

text \<open>The product \<open>cluster_count*CLUSTER_BLOCK_COUNT\<close> is converted to the \<open>uint8_t\<close> parameter.\<close>

definition read_clusters :: "image \<Rightarrow> u32 \<Rightarrow> u8 \<Rightarrow> u8 list option" where
  "read_clusters img cluster_number cluster_count =
     read_blocks img (cluster_to_lba cluster_number) (cluster_count * of_nat CLUSTER_BLOCK_COUNT)"

definition write_clusters :: "image \<Rightarrow> u8 list \<Rightarrow> u32 \<Rightarrow> u8 \<Rightarrow> image option" where
  "write_clusters img ptr cluster_number cluster_count =
     write_blocks img ptr (cluster_to_lba cluster_number) (cluster_count * of_nat CLUSTER_BLOCK_COUNT)"

section \<open>The content of a cluster\<close>

definition cluster_ok :: "u32 \<Rightarrow> bool" where
  "cluster_ok c \<longleftrightarrow> unat c < 2048"

definition content :: "image \<Rightarrow> u32 \<Rightarrow> u8 list" where
  "content img c = load_bytes img (2048 * c) CLUSTER_SIZE"

definition set_content :: "image \<Rightarrow> u32 \<Rightarrow> u8 list \<Rightarrow> image" where
  "set_content img c bs = store_bytes img (2048 * c) bs"

lemmas size_defs = BLOCK_SIZE_def CLUSTER_BLOCK_COUNT_def CLUSTER_SIZE_def IMAGE_SIZE_def

lemma CLUSTER_SIZE_eq [simp]: "CLUSTER_SIZE = 2048"
  by (simp add: size_defs)

lemma cluster_offset:
  "cluster_ok c \<Longrightarrow> k \<le> 2048 \<Longrightarrow> unat (2048 * c + of_nat k) = 2048 * unat c + k"
  by (simp add: cluster_ok_def unat_word_ariths unat_of_nat)

lemma cluster_offset_0: "cluster_ok c \<Longrightarrow> unat (2048 * c) = 2048 * unat c"
  using cluster_offset [of c 0] by simp

lemma block_offset_cluster: "block_offset (cluster_to_lba c) i = 2048 * c + of_nat (512 * i)"
  by (simp add: block_offset_def cluster_to_lba_def size_defs algebra_simps)

lemma block_in_cluster:
  "cluster_ok c \<Longrightarrow> i < 4 \<Longrightarrow> block_in_image (2048 * c + of_nat (512 * i))"
  using cluster_offset [of c "512 * i"] by (simp add: block_in_image_def size_defs cluster_ok_def)

lemma read_clusters_1: "read_clusters img c 1 = read_blocks_from img (cluster_to_lba c) 0 4"
  by (simp add: read_clusters_def read_blocks_def CLUSTER_BLOCK_COUNT_def)

lemma write_clusters_1: "write_clusters img bs c 1 = write_blocks_from img bs (cluster_to_lba c) 0 4"
  by (simp add: write_clusters_def write_blocks_def CLUSTER_BLOCK_COUNT_def)

lemma blocks_in_cluster:
  assumes "cluster_ok c"
  shows "block_in_image (2048 * c)" and "block_in_image (2048 * c + 512)"
    and "block_in_image (2048 * c + 1024)" and "block_in_image (2048 * c + 1536)"
  using block_in_cluster [OF assms, of 0] block_in_cluster [OF assms, of 1]
    block_in_cluster [OF assms, of 2] block_in_cluster [OF assms, of 3] by simp_all

lemma read_clusters_content [mem_simps]:
  assumes "cluster_ok c"
  shows "read_clusters img c 1 = Some (content img c)"
proof -
  have "content img c = load_bytes img (2048 * c) 512 @ load_bytes img (2048 * c + 512) 512
      @ load_bytes img (2048 * c + 1024) 512 @ load_bytes img (2048 * c + 1536) 512"
    using load_bytes_add [of img "2048 * c" 512 1536] load_bytes_add [of img "2048 * c + 512" 512 1024]
      load_bytes_add [of img "2048 * c + 1024" 512 512]
    by (simp add: content_def add.assoc)
  then show ?thesis
    using blocks_in_cluster [OF assms]
    by (simp add: read_clusters_1 eval_nat_numeral(2,3) block_offset_cluster BLOCK_SIZE_def)
qed

lemma store_4_chunks:
  assumes "length bs = 2048"
  shows "store_bytes (store_bytes (store_bytes (store_bytes img p (chunk 512 0 bs))
      (p + 512) (chunk 512 1 bs)) (p + 1024) (chunk 512 2 bs)) (p + 1536) (chunk 512 3 bs)
    = store_bytes img p bs"
proof -
  have "bs = concat (map (\<lambda>i. chunk 512 i bs) [0..<4])"
    using assms by (simp add: concat_chunks)
  also have "\<dots> = chunk 512 0 bs @ chunk 512 1 bs @ chunk 512 2 bs @ chunk 512 3 bs"
    by (simp add: upt_rec eval_nat_numeral(2,3))
  finally have bs: "store_bytes img p bs
      = store_bytes img p (chunk 512 0 bs @ chunk 512 1 bs @ chunk 512 2 bs @ chunk 512 3 bs)"
    by simp
  show ?thesis unfolding bs using assms by (simp add: store_bytes_append ac_simps)
qed

lemma write_clusters_content [mem_simps]:
  assumes "cluster_ok c" and "length bs = 2048"
  shows "write_clusters img bs c 1 = Some (set_content img c bs)"
  using blocks_in_cluster [OF assms(1)] assms(2) store_4_chunks [OF assms(2), of img "2048 * c"]
  by (simp add: write_clusters_1 eval_nat_numeral(2,3) block_offset_cluster BLOCK_SIZE_def set_content_def)

lemma read_clusters_bad:
  assumes "\<not> cluster_ok c" and "unat c < 2 ^ 21"
  shows "read_clusters img c 1 = None"
proof -
  have "unat (2048 * c) = 2048 * unat c"
    using assms(2) by (simp add: unat_word_ariths)
  then have "\<not> block_in_image (block_offset (cluster_to_lba c) 0)"
    using assms(1) by (simp add: block_offset_cluster block_in_image_def size_defs cluster_ok_def)
  moreover have "(4 :: nat) = Suc 3" by simp
  ultimately show ?thesis
    by (simp only: read_clusters_1 read_blocks_from.simps if_False)
qed

lemma length_content [simp]: "length (content img c) = 2048"
  by (simp add: content_def)

lemma content_set_same: "length bs = 2048 \<Longrightarrow> content (set_content img c bs) c = bs"
  using load_store_bytes [of bs img "2048 * c"] by (simp add: content_def set_content_def)

lemma content_set_other:
  assumes "cluster_ok c" and "cluster_ok c'" and "c \<noteq> c'" and "length bs = 2048"
  shows "content (set_content img c bs) c' = content img c'"
proof -
  have "unat c + 1 \<le> unat c' \<or> unat c' + 1 \<le> unat c"
    using assms(3) by (metis Suc_eq_plus1 Suc_leI linorder_neqE_nat word_unat_eq_iff)
  then have "ranges_disjoint (2048 * c') CLUSTER_SIZE (2048 * c) (length bs)"
    using assms(1,2,4) by (intro ranges_disjointI)
      (auto simp: no_wrap_def cluster_offset_0 cluster_ok_def)
  then show ?thesis
    unfolding content_def set_content_def by (rule load_store_bytes_disjoint)
qed

section \<open>The interface of a cluster store\<close>

locale cluster_store =
  fixes content :: "'d \<Rightarrow> u32 \<Rightarrow> u8 list"
    and set_content :: "'d \<Rightarrow> u32 \<Rightarrow> u8 list \<Rightarrow> 'd"
    and ok :: "u32 \<Rightarrow> bool"
  assumes content_same: "length bs = 2048 \<Longrightarrow> content (set_content d c bs) c = bs"
    and content_other:
      "ok c \<Longrightarrow> ok c' \<Longrightarrow> c \<noteq> c' \<Longrightarrow> length bs = 2048 \<Longrightarrow> content (set_content d c bs) c' = content d c'"
begin

text \<open>Writing a list of clusters: each cluster of the list holds what was written, the others are unchanged.\<close>

lemma content_fold_other:
  assumes "\<forall>(c, bs) \<in> set ws. ok c \<and> length bs = 2048" and "ok c" and "c \<notin> fst ` set ws"
  shows "content (fold (\<lambda>(c, bs) d. set_content d c bs) ws d) c = content d c"
  using assms by (induction ws arbitrary: d) (auto simp: content_other)

lemma content_fold:
  assumes "\<forall>(c, bs) \<in> set ws. ok c \<and> length bs = 2048" and "distinct (map fst ws)" and "(c, bs) \<in> set ws"
  shows "content (fold (\<lambda>(c, bs) d. set_content d c bs) ws d) c = bs"
  using assms
proof (induction ws arbitrary: d)
  case Nil
  then show ?case by simp
next
  case (Cons w ws)
  then show ?case
    by (auto simp: content_fold_other content_same image_iff split: prod.splits)
qed

lemma content_fold_zip:
  assumes "distinct cs" and "length cs = length bss" and "\<forall>c \<in> set cs. ok c" and "\<forall>bs \<in> set bss. length bs = 2048"
  shows "map (content (fold (\<lambda>(c, bs) d. set_content d c bs) (zip cs bss) d)) cs = bss"
proof (rule nth_equalityI)
  fix i
  assume "i < length (map (content (fold (\<lambda>(c, bs) d. set_content d c bs) (zip cs bss) d)) cs)"
  then have i: "i < length cs" by simp
  then have "(cs ! i, bss ! i) \<in> set (zip cs bss)" using assms(2) by (auto simp: in_set_zip)
  then have "content (fold (\<lambda>(c, bs) d. set_content d c bs) (zip cs bss) d) (cs ! i) = bss ! i"
    using assms by (intro content_fold) (auto dest: set_zip_leftD set_zip_rightD)
  then show "map (content (fold (\<lambda>(c, bs) d. set_content d c bs) (zip cs bss) d)) cs ! i = bss ! i"
    using i by simp
qed (use assms(2) in simp)

end

interpretation disk_image: cluster_store content set_content cluster_ok
  by unfold_locales (simp_all add: content_set_same content_set_other)

lemmas content_set_simps [mem_simps] = content_set_same content_set_other

end
