(* ===== verification/Layout.thy ===== *)
theory Layout
  imports Prelude
begin

text \<open>
  The packed structs of \<open>src/src/header/filesystem/fat32.h\<close> and their byte layout on disk: the
  directory entry, the directory table, the file allocation table and the driver request. The
  integers are little-endian, as on the i386 target. The locale \<open>fixed_codec\<close> states what an array of
  fixed-width elements needs for its own byte layout to be faithful; the 32-byte directory entry and
  the 4-byte cluster number are its instances.
\<close>

section \<open>Constants\<close>

definition CLUSTER_MAP_SIZE :: nat where "CLUSTER_MAP_SIZE = 512"
definition CLUSTER_0_VALUE :: u32 where "CLUSTER_0_VALUE = 0x0FFFFFF0"
definition CLUSTER_1_VALUE :: u32 where "CLUSTER_1_VALUE = 0x0FFFFFFF"
definition FAT32_FAT_END_OF_FILE :: u32 where "FAT32_FAT_END_OF_FILE = 0x0FFFFFFF"
definition FAT32_FAT_EMPTY_ENTRY :: u32 where "FAT32_FAT_EMPTY_ENTRY = 0x00000000"
definition FAT_CLUSTER_NUMBER :: u32 where "FAT_CLUSTER_NUMBER = 1"
definition ROOT_CLUSTER_NUMBER :: u32 where "ROOT_CLUSTER_NUMBER = 2"
definition BOOT_SECTOR :: u32 where "BOOT_SECTOR = 0"
definition ATTR_SUBDIRECTORY :: u8 where "ATTR_SUBDIRECTORY = 0b00010000"
definition UATTR_NOT_EMPTY :: u8 where "UATTR_NOT_EMPTY = 0b10101010"

lemmas fat_consts = CLUSTER_MAP_SIZE_def CLUSTER_0_VALUE_def CLUSTER_1_VALUE_def
  FAT32_FAT_END_OF_FILE_def FAT32_FAT_EMPTY_ENTRY_def FAT_CLUSTER_NUMBER_def
  ROOT_CLUSTER_NUMBER_def BOOT_SECTOR_def ATTR_SUBDIRECTORY_def UATTR_NOT_EMPTY_def

section \<open>Data structures\<close>

text \<open>
  The field \<open>undelete\<close> is kept as its storage byte: the driver copies entries as raw bytes and
  interprets only the other fields.
\<close>

record FAT32DirectoryEntry =
  e_name :: "u8 list"
  e_ext :: "u8 list"
  e_attribute :: u8
  e_user_attribute :: u8
  e_undelete :: u8
  e_create_time :: u16
  e_create_date :: u16
  e_access_date :: u16
  e_cluster_high :: u16
  e_modified_time :: u16
  e_modified_date :: u16
  e_cluster_low :: u16
  e_filesize :: u32

text \<open>A directory table is the list of its 64 entries, a file allocation table the list of its 512 values.\<close>

type_synonym FAT32DirectoryTable = "FAT32DirectoryEntry list"
type_synonym FAT32FileAllocationTable = "u32 list"

definition DIR_ENTRY_COUNT :: nat where "DIR_ENTRY_COUNT = 64"

record FAT32DriverRequest =
  r_buf :: u32
  r_name :: "u8 list"
  r_ext :: "u8 list"
  r_parent_cluster_number :: u32
  r_buffer_size :: u32

text \<open>The fixed array sizes \<open>name[8]\<close> and \<open>ext[3]\<close>.\<close>

definition wf_entry :: "FAT32DirectoryEntry \<Rightarrow> bool" where
  "wf_entry e \<longleftrightarrow> length (e_name e) = 8 \<and> length (e_ext e) = 3"

definition wf_request :: "FAT32DriverRequest \<Rightarrow> bool" where
  "wf_request r \<longleftrightarrow> length (r_name r) = 8 \<and> length (r_ext r) = 3"

definition wf_table :: "FAT32DirectoryTable \<Rightarrow> bool" where
  "wf_table t \<longleftrightarrow> length t = DIR_ENTRY_COUNT \<and> (\<forall>e \<in> set t. wf_entry e)"

definition wf_fat :: "FAT32FileAllocationTable \<Rightarrow> bool" where
  "wf_fat f \<longleftrightarrow> length f = CLUSTER_MAP_SIZE"

text \<open>The first cluster of an entry: \<open>(cluster_high << 16) | cluster_low\<close>.\<close>

definition entry_cluster :: "FAT32DirectoryEntry \<Rightarrow> u32" where
  "entry_cluster e = push_bit 16 (ucast (e_cluster_high e)) OR ucast (e_cluster_low e)"

text \<open>The fields for a cluster number: \<open>(c >> 16) & 0xFFFF\<close> and \<open>c & 0xFFFF\<close>.\<close>

definition cluster_high_of :: "u32 \<Rightarrow> u16" where
  "cluster_high_of c = ucast (drop_bit 16 c AND 0xFFFF)"

definition cluster_low_of :: "u32 \<Rightarrow> u16" where
  "cluster_low_of c = ucast (c AND 0xFFFF)"

section \<open>Little-endian integers\<close>

definition le16 :: "u16 \<Rightarrow> u8 list" where
  "le16 x = [ucast x, ucast (drop_bit 8 x)]"

definition of_le16 :: "u8 list \<Rightarrow> u16" where
  "of_le16 bs = ucast (bs ! 0) OR push_bit 8 (ucast (bs ! 1))"

definition le32 :: "u32 \<Rightarrow> u8 list" where
  "le32 x = [ucast x, ucast (drop_bit 8 x), ucast (drop_bit 16 x), ucast (drop_bit 24 x)]"

definition of_le32 :: "u8 list \<Rightarrow> u32" where
  "of_le32 bs = ucast (bs ! 0) OR push_bit 8 (ucast (bs ! 1))
     OR push_bit 16 (ucast (bs ! 2)) OR push_bit 24 (ucast (bs ! 3))"

lemma length_le16 [simp]: "length (le16 x) = 2"
  by (simp add: le16_def)

lemma length_le32 [simp]: "length (le32 x) = 4"
  by (simp add: le32_def)

lemma bit_u8_high [simp]: "8 \<le> n \<Longrightarrow> \<not> bit (x :: u8) n"
  using bit_imp_le_length [of x n] by auto

lemma of_le16_le16 [simp]: "of_le16 (le16 x) = x"
  by (rule bit_word_eqI) (auto simp: of_le16_def le16_def bit_simps)

lemma of_le32_le32 [simp]: "of_le32 (le32 x) = x"
proof (rule bit_word_eqI)
  fix n
  assume "n < LENGTH(32)"
  then consider "n < 8" | "8 \<le> n" "n < 16" | "16 \<le> n" "n < 24" | "24 \<le> n" "n < 32"
    by (simp, linarith)
  then show "bit (of_le32 (le32 x)) n = bit x n"
    by cases (auto simp: of_le32_def le32_def bit_simps)
qed

lemma le16_of_le16: "length bs = 2 \<Longrightarrow> le16 (of_le16 bs) = bs"
proof (rule nth_equalityI)
  fix i
  assume "length bs = 2" and "i < length (le16 (of_le16 bs))"
  then consider "i = 0" | "i = 1" by (simp, linarith)
  then show "le16 (of_le16 bs) ! i = bs ! i"
    by cases (auto simp: le16_def of_le16_def bit_simps intro!: bit_word_eqI)
qed simp

lemma le32_of_le32: "length bs = 4 \<Longrightarrow> le32 (of_le32 bs) = bs"
proof (rule nth_equalityI)
  fix i
  assume "length bs = 4" and "i < length (le32 (of_le32 bs))"
  then consider "i = 0" | "i = 1" | "i = 2" | "i = 3" by (simp, linarith)
  then show "le32 (of_le32 bs) ! i = bs ! i"
    by cases (auto simp: le32_def of_le32_def bit_simps intro!: bit_word_eqI)
qed simp

lemma mask_16: "(0xFFFF :: u32) = mask 16"
  by (simp add: mask_eq_exp_minus_1)

lemma entry_cluster_fields:
  assumes "e_cluster_high e = cluster_high_of c" and "e_cluster_low e = cluster_low_of c"
  shows "entry_cluster e = c"
  unfolding entry_cluster_def assms cluster_high_of_def cluster_low_of_def mask_16
  by (rule bit_word_eqI) (auto simp: bit_simps)

section \<open>Arrays of fixed-width elements\<close>

text \<open>The array layout of a struct: its elements one after the other, element \<open>i\<close> at \<open>w * i\<close>.\<close>

locale fixed_codec =
  fixes w :: nat
    and enc :: "'a \<Rightarrow> u8 list"
    and dec :: "u8 list \<Rightarrow> 'a"
    and wf :: "'a \<Rightarrow> bool"
  assumes enc_length: "wf x \<Longrightarrow> length (enc x) = w"
    and dec_enc: "wf x \<Longrightarrow> dec (enc x) = x"
    and enc_dec: "length bs = w \<Longrightarrow> enc (dec bs) = bs"
    and wf_dec: "length bs = w \<Longrightarrow> wf (dec bs)"
begin

lemma length_enc_array:
  "\<forall>x \<in> set xs. wf x \<Longrightarrow> length (concat (map enc xs)) = w * length xs"
  by (rule length_concat_uniform) (simp add: enc_length)

lemma dec_enc_array:
  assumes "\<forall>x \<in> set xs. wf x" and "n = length xs"
  shows "map (\<lambda>i. dec (chunk w i (concat (map enc xs)))) [0..<n] = xs"
  using assms by (intro nth_equalityI) (simp_all add: chunk_concat_uniform enc_length dec_enc)

lemma enc_dec_array:
  assumes "length bs = w * n"
  shows "concat (map enc (map (\<lambda>i. dec (chunk w i bs)) [0..<n])) = bs"
proof -
  have "length (chunk w i bs) = w" if "i < n" for i
  proof -
    have "w * Suc i \<le> w * n" using that by (intro mult_le_mono2) simp
    then show ?thesis using assms by simp
  qed
  then have "map enc (map (\<lambda>i. dec (chunk w i bs)) [0..<n]) = map (\<lambda>i. chunk w i bs) [0..<n]"
    by (simp add: enc_dec)
  then show ?thesis by (simp only: concat_chunks [OF assms])
qed

lemma wf_dec_array:
  assumes "length bs = w * n" and "x \<in> set (map (\<lambda>i. dec (chunk w i bs)) [0..<n])"
  shows "wf x"
proof -
  obtain i where i: "i < n" "x = dec (chunk w i bs)" using assms(2) by auto
  have "w * Suc i \<le> w * n" using i(1) by (intro mult_le_mono2) simp
  with i assms(1) show ?thesis by (simp add: wf_dec)
qed

end

interpretation u32_codec: fixed_codec 4 le32 of_le32 "\<lambda>_. True"
  by unfold_locales (simp_all add: le32_of_le32)

section \<open>The directory entry, the directory table and the file allocation table in bytes\<close>

definition entry_bytes :: "FAT32DirectoryEntry \<Rightarrow> u8 list" where
  "entry_bytes e = e_name e @ e_ext e @ [e_attribute e, e_user_attribute e, e_undelete e]
     @ le16 (e_create_time e) @ le16 (e_create_date e) @ le16 (e_access_date e) @ le16 (e_cluster_high e)
     @ le16 (e_modified_time e) @ le16 (e_modified_date e) @ le16 (e_cluster_low e) @ le32 (e_filesize e)"

definition entry_of_bytes :: "u8 list \<Rightarrow> FAT32DirectoryEntry" where
  "entry_of_bytes bs =
     \<lparr> e_name = take 8 bs, e_ext = take 3 (drop 8 bs),
       e_attribute = bs ! 11, e_user_attribute = bs ! 12, e_undelete = bs ! 13,
       e_create_time = of_le16 (take 2 (drop 14 bs)), e_create_date = of_le16 (take 2 (drop 16 bs)),
       e_access_date = of_le16 (take 2 (drop 18 bs)), e_cluster_high = of_le16 (take 2 (drop 20 bs)),
       e_modified_time = of_le16 (take 2 (drop 22 bs)), e_modified_date = of_le16 (take 2 (drop 24 bs)),
       e_cluster_low = of_le16 (take 2 (drop 26 bs)), e_filesize = of_le32 (take 4 (drop 28 bs)) \<rparr>"

definition table_bytes :: "FAT32DirectoryTable \<Rightarrow> u8 list" where
  "table_bytes t = concat (map entry_bytes t)"

definition table_of_bytes :: "u8 list \<Rightarrow> FAT32DirectoryTable" where
  "table_of_bytes bs = map (\<lambda>i. entry_of_bytes (chunk 32 i bs)) [0..<DIR_ENTRY_COUNT]"

definition fat_bytes :: "FAT32FileAllocationTable \<Rightarrow> u8 list" where
  "fat_bytes f = concat (map le32 f)"

definition fat_of_bytes :: "u8 list \<Rightarrow> FAT32FileAllocationTable" where
  "fat_of_bytes bs = map (\<lambda>i. of_le32 (chunk 4 i bs)) [0..<CLUSTER_MAP_SIZE]"

lemma length_entry_bytes: "wf_entry e \<Longrightarrow> length (entry_bytes e) = 32"
  by (simp add: wf_entry_def entry_bytes_def)

lemma entry_of_entry_bytes: "wf_entry e \<Longrightarrow> entry_of_bytes (entry_bytes e) = e"
  by (simp add: wf_entry_def entry_bytes_def entry_of_bytes_def nth_append take_Cons' drop_Cons')

lemma drop_split: "drop k xs = take n (drop k xs) @ drop (k + n) xs"
  by (metis append_take_drop_id drop_drop add.commute)

lemma entry_bytes_of_bytes:
  assumes "length bs = 32"
  shows "entry_bytes (entry_of_bytes bs) = bs"
proof -
  have "bs = take 8 bs @ drop 8 bs" by simp
  also have "drop 8 bs = take 3 (drop 8 bs) @ drop 11 bs" by (subst drop_split [of 8 _ 3]) simp
  also have "drop 11 bs = [bs ! 11, bs ! 12, bs ! 13] @ drop 14 bs"
    using assms by (simp add: Cons_nth_drop_Suc numeral_eq_Suc)
  also have "drop 14 bs = take 2 (drop 14 bs) @ drop 16 bs" by (subst drop_split [of 14 _ 2]) simp
  also have "drop 16 bs = take 2 (drop 16 bs) @ drop 18 bs" by (subst drop_split [of 16 _ 2]) simp
  also have "drop 18 bs = take 2 (drop 18 bs) @ drop 20 bs" by (subst drop_split [of 18 _ 2]) simp
  also have "drop 20 bs = take 2 (drop 20 bs) @ drop 22 bs" by (subst drop_split [of 20 _ 2]) simp
  also have "drop 22 bs = take 2 (drop 22 bs) @ drop 24 bs" by (subst drop_split [of 22 _ 2]) simp
  also have "drop 24 bs = take 2 (drop 24 bs) @ drop 26 bs" by (subst drop_split [of 24 _ 2]) simp
  also have "drop 26 bs = take 2 (drop 26 bs) @ drop 28 bs" by (subst drop_split [of 26 _ 2]) simp
  also have "drop 28 bs = take 4 (drop 28 bs)" using assms by simp
  finally show ?thesis
    using assms by (simp add: entry_bytes_def entry_of_bytes_def le16_of_le16 le32_of_le32)
qed

lemma wf_entry_of_bytes: "length bs = 32 \<Longrightarrow> wf_entry (entry_of_bytes bs)"
  by (simp add: wf_entry_def entry_of_bytes_def)

interpretation entry_codec: fixed_codec 32 entry_bytes entry_of_bytes wf_entry
  by unfold_locales
    (simp_all add: length_entry_bytes entry_of_entry_bytes entry_bytes_of_bytes wf_entry_of_bytes)

lemma length_table_bytes [codec_simps]: "wf_table t \<Longrightarrow> length (table_bytes t) = 2048"
  by (simp add: wf_table_def table_bytes_def entry_codec.length_enc_array DIR_ENTRY_COUNT_def)

lemma table_of_table_bytes [codec_simps]: "wf_table t \<Longrightarrow> table_of_bytes (table_bytes t) = t"
  unfolding wf_table_def table_bytes_def table_of_bytes_def by (rule entry_codec.dec_enc_array) auto

lemma table_bytes_of_bytes [codec_simps]: "length bs = 2048 \<Longrightarrow> table_bytes (table_of_bytes bs) = bs"
  unfolding table_bytes_def table_of_bytes_def
  by (rule entry_codec.enc_dec_array) (simp add: DIR_ENTRY_COUNT_def)

lemma wf_table_of_bytes [codec_simps]: "length bs = 2048 \<Longrightarrow> wf_table (table_of_bytes bs)"
  unfolding wf_table_def table_of_bytes_def
  using entry_codec.wf_dec_array [of bs DIR_ENTRY_COUNT] by (simp add: DIR_ENTRY_COUNT_def)

lemma length_fat_bytes [codec_simps]: "wf_fat f \<Longrightarrow> length (fat_bytes f) = 2048"
  using u32_codec.length_enc_array [of f] by (simp add: wf_fat_def fat_bytes_def CLUSTER_MAP_SIZE_def)

lemma fat_of_fat_bytes [codec_simps]: "wf_fat f \<Longrightarrow> fat_of_bytes (fat_bytes f) = f"
  unfolding wf_fat_def fat_bytes_def fat_of_bytes_def by (rule u32_codec.dec_enc_array) auto

lemma fat_bytes_of_bytes [codec_simps]: "length bs = 2048 \<Longrightarrow> fat_bytes (fat_of_bytes bs) = bs"
  unfolding fat_bytes_def fat_of_bytes_def
  by (rule u32_codec.enc_dec_array) (simp add: CLUSTER_MAP_SIZE_def)

lemma wf_fat_of_bytes [codec_simps]: "wf_fat (fat_of_bytes bs)"
  by (simp add: wf_fat_def fat_of_bytes_def)

lemma wf_table_update [codec_simps]: "wf_table t \<Longrightarrow> wf_entry e \<Longrightarrow> wf_table (t[i := e])"
  by (auto simp: wf_table_def dest!: set_update_subset_insert [THEN subsetD])

lemma wf_fat_update [codec_simps]: "wf_fat f \<Longrightarrow> wf_fat (f[i := v])"
  by (simp add: wf_fat_def)

text \<open>
  The directory table and the file allocation table survive the trip to disk and back, in both
  directions: every well-formed table is recovered from its 2048 bytes, and every 2048 bytes are the
  layout of the table read from them, so no information is lost when the driver loads and stores a
  cluster as one of its structs.
\<close>

theorem layout_roundtrip:
  "(\<forall>t. wf_table t \<longrightarrow> length (table_bytes t) = 2048 \<and> table_of_bytes (table_bytes t) = t) \<and>
   (\<forall>f. wf_fat f \<longrightarrow> length (fat_bytes f) = 2048 \<and> fat_of_bytes (fat_bytes f) = f) \<and>
   (\<forall>bs. length bs = 2048 \<longrightarrow> table_bytes (table_of_bytes bs) = bs \<and> fat_bytes (fat_of_bytes bs) = bs)"
  by (simp add: codec_simps)

theorem layout_roundtrip_witness:
  "wf_fat (replicate 512 7) \<and> fat_of_bytes (fat_bytes (replicate 512 7)) = replicate 512 7 \<and>
   table_bytes (table_of_bytes (replicate 2048 1)) = replicate 2048 1"
proof -
  have "wf_fat (replicate 512 7)" by (simp add: wf_fat_def CLUSTER_MAP_SIZE_def)
  moreover have "length (replicate 2048 (1 :: u8)) = 2048" by simp
  ultimately show ?thesis using layout_roundtrip by blast
qed

end
