(* ===== verification/Disk.thy ===== *)
theory Disk
  imports Portio Storage Layout
begin

text \<open>
  The ATA PIO disk driver of the kernel (\<open>src/src/disk.c\<close>), and its equivalence with the block functions of
  the inserter: on a drive that behaves as an ATA drive in PIO mode does, reading and writing
  blocks through the ports has the effect of \<^const>\<open>read_blocks\<close> and \<^const>\<open>write_blocks\<close> on the content of
  the drive. The file system theorems, that rest on those, therefore speak about the kernel as well.
\<close>

section \<open>Definitions\<close>

definition ATA_STATUS_BSY :: u8 where "ATA_STATUS_BSY = 0x80"
definition ATA_STATUS_RDY :: u8 where "ATA_STATUS_RDY = 0x40"
definition HALF_BLOCK_SIZE :: nat where "HALF_BLOCK_SIZE = BLOCK_SIZE div 2"

partial_function (option) ATA_busy_wait :: "'d bus \<Rightarrow> 'd io \<Rightarrow> 'd io option" where
  "ATA_busy_wait bus io =
     (case in8 bus 0x1F7 io of (status, io) \<Rightarrow>
        if status AND ATA_STATUS_BSY \<noteq> 0 then ATA_busy_wait bus io else Some io)"

partial_function (option) ATA_DRQ_wait :: "'d bus \<Rightarrow> 'd io \<Rightarrow> 'd io option" where
  "ATA_DRQ_wait bus io =
     (case in8 bus 0x1F7 io of (status, io) \<Rightarrow>
        if status AND ATA_STATUS_RDY = 0 then ATA_DRQ_wait bus io else Some io)"

text \<open>The register writes that both functions start with, up to the command.\<close>

definition ata_command :: "'d bus \<Rightarrow> u32 \<Rightarrow> u8 \<Rightarrow> u8 \<Rightarrow> 'd io \<Rightarrow> 'd io" where
  "ata_command bus logical_block_address block_count command io =
     (let io = out bus 0x1F6 (0xE0 OR ucast (drop_bit 24 logical_block_address AND 0xF)) io;
          io = out bus 0x1F2 block_count io;
          io = out bus 0x1F3 (ucast logical_block_address) io;
          io = out bus 0x1F4 (ucast (drop_bit 8 logical_block_address)) io;
          io = out bus 0x1F5 (ucast (drop_bit 16 logical_block_address)) io
      in out bus 0x1F7 command io)"

text \<open>\<open>for (j = 0; j < HALF_BLOCK_SIZE; j++) target[j] = in16(0x1F0)\<close>, from \<open>j\<close> with \<open>k\<close> words left.\<close>

fun read_words :: "'d bus \<Rightarrow> mem \<Rightarrow> u32 \<Rightarrow> nat \<Rightarrow> nat \<Rightarrow> 'd io \<Rightarrow> mem \<times> 'd io" where
  "read_words bus m target j 0 io = (m, io)"
| "read_words bus m target j (Suc k) io =
     (case in16 bus 0x1F0 io of (w, io) \<Rightarrow>
        read_words bus (store_bytes m (target + of_nat (2 * j)) (le16 w)) target (Suc j) k io)"

fun ata_read_loop :: "'d bus \<Rightarrow> mem \<Rightarrow> u32 \<Rightarrow> nat \<Rightarrow> 'd io \<Rightarrow> (mem \<times> 'd io) option" where
  "ata_read_loop bus m target 0 io = Some (m, io)"
| "ata_read_loop bus m target (Suc k) io =
     do { io \<leftarrow> ATA_busy_wait bus io;
          io \<leftarrow> ATA_DRQ_wait bus io;
          (m, io) \<leftarrow> Some (read_words bus m target 0 HALF_BLOCK_SIZE io);
          ata_read_loop bus m (target + of_nat (2 * HALF_BLOCK_SIZE)) k io }"

definition ata_read_blocks :: "'d bus \<Rightarrow> mem \<Rightarrow> u32 \<Rightarrow> u32 \<Rightarrow> u8 \<Rightarrow> 'd io \<Rightarrow> (mem \<times> 'd io) option" where
  "ata_read_blocks bus m ptr logical_block_address block_count io =
     do { io \<leftarrow> ATA_busy_wait bus io;
          ata_read_loop bus m ptr (unat block_count) (ata_command bus logical_block_address block_count 0x20 io) }"

fun write_words :: "'d bus \<Rightarrow> mem \<Rightarrow> u32 \<Rightarrow> nat \<Rightarrow> nat \<Rightarrow> nat \<Rightarrow> 'd io \<Rightarrow> 'd io" where
  "write_words bus m ptr i j 0 io = io"
| "write_words bus m ptr i j (Suc k) io =
     write_words bus m ptr i (Suc j) k
       (out16 bus 0x1F0 (of_le16 (load_bytes m (ptr + of_nat (2 * (HALF_BLOCK_SIZE * i + j))) 2)) io)"

fun ata_write_loop :: "'d bus \<Rightarrow> mem \<Rightarrow> u32 \<Rightarrow> nat \<Rightarrow> nat \<Rightarrow> 'd io \<Rightarrow> 'd io option" where
  "ata_write_loop bus m ptr i 0 io = Some io"
| "ata_write_loop bus m ptr i (Suc k) io =
     do { io \<leftarrow> ATA_busy_wait bus io;
          io \<leftarrow> ATA_DRQ_wait bus io;
          ata_write_loop bus m ptr (Suc i) k (write_words bus m ptr i 0 HALF_BLOCK_SIZE io) }"

definition ata_write_blocks :: "'d bus \<Rightarrow> mem \<Rightarrow> u32 \<Rightarrow> u32 \<Rightarrow> u8 \<Rightarrow> 'd io \<Rightarrow> 'd io option" where
  "ata_write_blocks bus m ptr logical_block_address block_count io =
     do { io \<leftarrow> ATA_busy_wait bus io;
          ata_write_loop bus m ptr 0 (unat block_count) (ata_command bus logical_block_address block_count 0x30 io) }"

section \<open>The drive\<close>

text \<open>
  What the driver relies on of a drive in PIO mode with 28-bit block addresses. While the drive is not busy and no transfer is open, its registers
  keep what is written to them, and the commands 0x20 and 0x30 start a transfer from the address in the registers, if these select the first drive and block
  addresses. The transfer has as many sectors as the count register says, 256 for a count of 0. While the drive is neither busy nor unready, the data port gives
  or takes the next word, low byte first, and the transfer is over after the last word of the last sector; at any other time nothing is known of the data port.
  After a command and after each sector the drive can be busy (bit 7 of the status) for finitely many reads of the status register, and then not ready (bit 6) for finitely many.
\<close>

datatype ata_mode = Idle | Reading | Writing

record ata =
  a_image :: image
  a_drive :: u8
  a_count :: u8
  a_lba0 :: u8
  a_lba1 :: u8
  a_lba2 :: u8
  a_mode :: ata_mode
  a_left :: nat
  a_pos :: nat

definition ata_address :: "ata \<Rightarrow> u32" where
  "ata_address a = push_bit 24 (ucast (a_drive a AND 0xF)) OR push_bit 16 (ucast (a_lba2 a)) OR push_bit 8 (ucast (a_lba1 a)) OR ucast (a_lba0 a)"

definition ata_byte :: "ata \<Rightarrow> u32" where
  "ata_byte a = 512 * ata_address a + of_nat (a_pos a)"

definition ata_start :: "u8 \<Rightarrow> ata \<Rightarrow> ata" where
  "ata_start command a =
     (if (command = 0x20 \<or> command = 0x30) \<and> bit (a_drive a) 6 \<and> \<not> bit (a_drive a) 4
      then a\<lparr>a_mode := if command = 0x20 then Reading else Writing, a_left := if a_count a = 0 then 256 else unat (a_count a), a_pos := 0\<rparr>
      else a)"

definition ata_register :: "u16 \<Rightarrow> u8 \<Rightarrow> ata \<Rightarrow> ata" where
  "ata_register port v a =
     (if port = 0x1F6 then a\<lparr>a_drive := v\<rparr> else if port = 0x1F2 then a\<lparr>a_count := v\<rparr>
      else if port = 0x1F3 then a\<lparr>a_lba0 := v\<rparr> else if port = 0x1F4 then a\<lparr>a_lba1 := v\<rparr>
      else if port = 0x1F5 then a\<lparr>a_lba2 := v\<rparr> else ata_start v a)"

text \<open>One word further: a sector less at its end, and the end of the transfer after the last one.\<close>

definition ata_advance :: "ata \<Rightarrow> ata" where
  "ata_advance a =
     (if (a_pos a + 2) mod 512 = 0
      then a\<lparr>a_pos := a_pos a + 2, a_left := a_left a - 1, a_mode := if a_left a = 1 then Idle else a_mode a\<rparr>
      else a\<lparr>a_pos := a_pos a + 2\<rparr>)"

definition ata_bus :: "'d bus \<Rightarrow> ('d \<Rightarrow> ata) \<Rightarrow> ('d \<Rightarrow> nat) \<Rightarrow> ('d \<Rightarrow> nat) \<Rightarrow> bool" where
  "ata_bus bus view busy unready \<longleftrightarrow>
     (\<forall>port v d. port \<in> {0x1F2, 0x1F3, 0x1F4, 0x1F5, 0x1F6, 0x1F7} \<and> busy d = 0 \<and> a_mode (view d) = Idle \<longrightarrow>
        view (bus_out bus port v d) = ata_register port v (view d) \<and> (port \<noteq> 0x1F7 \<longrightarrow> busy (bus_out bus port v d) = 0)) \<and>
     (\<forall>d. view (snd (bus_in bus 0x1F7 d)) = view d) \<and>
     (\<forall>d. 0 < busy d \<longrightarrow> bit (fst (bus_in bus 0x1F7 d)) 7 \<and> busy (snd (bus_in bus 0x1F7 d)) < busy d) \<and>
     (\<forall>d. busy d = 0 \<longrightarrow> \<not> bit (fst (bus_in bus 0x1F7 d)) 7 \<and> busy (snd (bus_in bus 0x1F7 d)) = 0 \<and>
        (bit (fst (bus_in bus 0x1F7 d)) 6 \<longleftrightarrow> unready d = 0) \<and>
        (if unready d = 0 then unready (snd (bus_in bus 0x1F7 d)) = 0 else unready (snd (bus_in bus 0x1F7 d)) < unready d)) \<and>
     (\<forall>d. busy d = 0 \<and> unready d = 0 \<and> a_mode (view d) = Reading \<longrightarrow>
        fst (bus_in16 bus 0x1F0 d) = of_le16 (load_bytes (a_image (view d)) (ata_byte (view d)) 2) \<and>
        view (snd (bus_in16 bus 0x1F0 d)) = ata_advance (view d) \<and>
        ((a_pos (view d) + 2) mod 512 \<noteq> 0 \<longrightarrow> busy (snd (bus_in16 bus 0x1F0 d)) = 0 \<and> unready (snd (bus_in16 bus 0x1F0 d)) = 0)) \<and>
     (\<forall>w d. busy d = 0 \<and> unready d = 0 \<and> a_mode (view d) = Writing \<longrightarrow>
        view (bus_out16 bus 0x1F0 w d) =
          ata_advance ((view d)\<lparr>a_image := store_bytes (a_image (view d)) (ata_byte (view d)) (le16 w)\<rparr>) \<and>
        ((a_pos (view d) + 2) mod 512 \<noteq> 0 \<longrightarrow> busy (bus_out16 bus 0x1F0 w d) = 0 \<and> unready (bus_out16 bus 0x1F0 w d) = 0))"

section \<open>Waiting\<close>

lemma and_power_bit: "(x AND 0x80 = (0 :: u8)) \<longleftrightarrow> \<not> bit x 7" "(x AND 0x40 = (0 :: u8)) \<longleftrightarrow> \<not> bit x 6"
  using and_exp_eq_0_iff_not_bit [of x 7] and_exp_eq_0_iff_not_bit [of x 6] by simp_all

lemma busy_wait_ends:
  assumes "ata_bus bus view busy unready"
  shows "\<exists>io'. ATA_busy_wait bus io = Some io' \<and> view (dev io') = view (dev io) \<and> busy (dev io') = 0"
proof (induction "busy (dev io)" arbitrary: io rule: less_induct)
  case less
  obtain v io1 where r: "in8 bus 0x1F7 io = (v, io1)" by fastforce
  then have v: "v = fst (bus_in bus 0x1F7 (dev io))" "dev io1 = snd (bus_in bus 0x1F7 (dev io))"
    by (auto simp: in8_def split_def Let_def)
  have view: "view (dev io1) = view (dev io)" using assms v by (simp add: ata_bus_def)
  show ?case
  proof (cases "busy (dev io) = 0")
    case True
    then have "\<not> bit v 7" "busy (dev io1) = 0" using assms v by (simp_all add: ata_bus_def)
    then show ?thesis using r view by (subst ATA_busy_wait.simps) (simp add: ATA_STATUS_BSY_def and_power_bit)
  next
    case False
    then have "bit v 7" "busy (dev io1) < busy (dev io)" using assms v by (simp_all add: ata_bus_def)
    then show ?thesis using less [of io1] r view by (subst ATA_busy_wait.simps) (simp add: ATA_STATUS_BSY_def and_power_bit)
  qed
qed

lemma drq_wait_ends:
  assumes "ata_bus bus view busy unready" and "busy (dev io) = 0"
  shows "\<exists>io'. ATA_DRQ_wait bus io = Some io' \<and> view (dev io') = view (dev io) \<and> busy (dev io') = 0 \<and> unready (dev io') = 0"
  using assms(2)
proof (induction "unready (dev io)" arbitrary: io rule: less_induct)
  case less
  obtain v io1 where r: "in8 bus 0x1F7 io = (v, io1)" by fastforce
  then have v: "v = fst (bus_in bus 0x1F7 (dev io))" "dev io1 = snd (bus_in bus 0x1F7 (dev io))"
    by (auto simp: in8_def split_def Let_def)
  have io1: "view (dev io1) = view (dev io)" "busy (dev io1) = 0" "bit v 6 \<longleftrightarrow> unready (dev io) = 0"
    "if unready (dev io) = 0 then unready (dev io1) = 0 else unready (dev io1) < unready (dev io)"
    using assms(1) less.prems v by (simp_all add: ata_bus_def)
  show ?case
  proof (cases "unready (dev io) = 0")
    case True
    then show ?thesis using r io1 by (subst ATA_DRQ_wait.simps) (simp add: ATA_STATUS_RDY_def and_power_bit)
  next
    case False
    then show ?thesis using less.hyps [of io1] r io1 by (subst ATA_DRQ_wait.simps) (simp add: ATA_STATUS_RDY_def and_power_bit)
  qed
qed

section \<open>The command\<close>

lemma and_0xF: "x AND 0xF = take_bit 4 (x :: u32)" "y AND 0xF = take_bit 4 (y :: u8)"
  by (simp_all add: take_bit_eq_mask mask_eq_exp_minus_1)

lemma address_roundtrip:
  assumes "unat lba < 2 ^ 28"
  shows "push_bit 24 (ucast ((0xE0 OR ucast (drop_bit 24 lba AND 0xF) :: u8) AND 0xF)) OR push_bit 16 (ucast (ucast (drop_bit 16 lba) :: u8)) OR
    push_bit 8 (ucast (ucast (drop_bit 8 lba) :: u8)) OR ucast (ucast lba :: u8) = (lba :: u32)"
proof -
  have hi: "\<not> bit lba n" if "28 \<le> n" for n
  proof -
    have "(2 :: nat) ^ 28 \<le> 2 ^ n" using that by (intro power_increasing) simp_all
    then have "unat lba div 2 ^ n = 0" using assms by simp
    moreover have "bit lba n \<longleftrightarrow> bit (unat lba) n" by (simp add: bit_unsigned_iff)
    ultimately show ?thesis by (simp add: bit_iff_odd)
  qed
  have e0: "(0xE0 :: u8) = push_bit 5 7" by simp
  show ?thesis
    unfolding and_0xF e0
  proof (rule bit_word_eqI, goal_cases)
    case (1 n)
    have "n < 8 \<or> 8 \<le> n \<and> n < 16 \<or> 16 \<le> n \<and> n < 24 \<or> 24 \<le> n \<and> n < 28 \<or> 28 \<le> n" by linarith
    then show ?case using 1 hi [of n]
      by (elim disjE) (auto simp: bit_or_iff bit_take_bit_iff bit_push_bit_iff bit_drop_bit_eq bit_ucast_iff)
  qed
qed

lemma drive_select: "bit (0xE0 OR ucast (drop_bit 24 (lba :: u32) AND 0xF) :: u8) 6" "\<not> bit (0xE0 OR ucast (drop_bit 24 (lba :: u32) AND 0xF) :: u8) 4"
  unfolding and_0xF by (simp_all add: bit_or_iff bit_ucast_iff bit_take_bit_iff bit_numeral_simps)

lemma command_effect:
  assumes bus: "ata_bus bus view busy unready" and idle: "busy (dev io) = 0" "a_mode (view (dev io)) = Idle"
    and lba: "unat lba < 2 ^ 28" and cmd: "cmd = 0x20 \<or> cmd = 0x30"
  shows "\<exists>a. view (dev (ata_command bus lba cnt cmd io)) = a \<and> ata_address a = lba \<and> a_pos a = 0 \<and> a_image a = a_image (view (dev io)) \<and>
    a_mode a = (if cmd = 0x20 then Reading else Writing) \<and> a_left a = (if cnt = 0 then 256 else unat cnt)"
proof -
  have reg: "view (dev (out bus port v io)) = ata_register port v (view (dev io)) \<and> (port \<noteq> 0x1F7 \<longrightarrow> busy (dev (out bus port v io)) = 0)"
    if "busy (dev io) = 0" "a_mode (view (dev io)) = Idle" "port \<in> {0x1F2, 0x1F3, 0x1F4, 0x1F5, 0x1F6, 0x1F7}" for port v io
    using bus [unfolded ata_bus_def, THEN conjunct1, rule_format, of port "dev io" v] that by simp
  have keep: "a_mode (ata_register port v a) = a_mode a" if "port \<in> {0x1F2, 0x1F3, 0x1F4, 0x1F5, 0x1F6}" for port v a
    using that by (auto simp: ata_register_def)
  have "view (dev (ata_command bus lba cnt cmd io)) = ata_register 0x1F7 cmd (ata_register 0x1F5 (ucast (drop_bit 16 lba))
      (ata_register 0x1F4 (ucast (drop_bit 8 lba)) (ata_register 0x1F3 (ucast lba) (ata_register 0x1F2 cnt
      (ata_register 0x1F6 (0xE0 OR ucast (drop_bit 24 lba AND 0xF)) (view (dev io)))))))"
    using idle by (simp add: ata_command_def Let_def reg keep del: dev_out)
  then show ?thesis using address_roundtrip [OF lba] drive_select [of lba] cmd by (auto simp: ata_register_def ata_address_def ata_start_def)
qed

section \<open>Transferring words\<close>

text \<open>The drive after the last word of sector \<open>i\<close>.\<close>

definition sector_done :: "nat \<Rightarrow> ata \<Rightarrow> ata" where
  "sector_done i a = a\<lparr>a_pos := 512 * Suc i, a_left := a_left a - 1, a_mode := if a_left a = 1 then Idle else a_mode a\<rparr>"

lemma advance_word:
  assumes "a_pos a = 512 * i + 2 * j" and "j < 256"
  shows "Suc j < 256 \<Longrightarrow> (a_pos a + 2) mod 512 \<noteq> 0" "Suc j < 256 \<Longrightarrow> ata_advance a = a\<lparr>a_pos := 512 * i + 2 * Suc j\<rparr>"
    "Suc j = 256 \<Longrightarrow> ata_advance a = sector_done i a"
proof -
  have "a_pos a + 2 = 2 * Suc j + 512 * i" using assms(1) by simp
  then have mod: "(a_pos a + 2) mod 512 = 2 * Suc j mod 512" by (simp only: mod_mult_self2)
  show "Suc j < 256 \<Longrightarrow> (a_pos a + 2) mod 512 \<noteq> 0" unfolding mod by simp
  show "Suc j < 256 \<Longrightarrow> ata_advance a = a\<lparr>a_pos := 512 * i + 2 * Suc j\<rparr>" unfolding ata_advance_def mod using assms(1) by simp
  show "Suc j = 256 \<Longrightarrow> ata_advance a = sector_done i a" unfolding ata_advance_def mod using assms(1) by (simp add: sector_done_def)
qed

lemma read_words_effect:
  assumes bus: "ata_bus bus view busy unready"
    and "busy (dev io) = 0" and "unready (dev io) = 0" and "a_mode (view (dev io)) = Reading" and "a_pos (view (dev io)) = 512 * i + 2 * j"
    and "j + Suc k = 256"
  shows "\<exists>io'. read_words bus m target j (Suc k) io =
      (store_bytes m (target + of_nat (2 * j)) (load_bytes (a_image (view (dev io))) (ata_byte (view (dev io))) (2 * Suc k)), io') \<and>
    view (dev io') = sector_done i (view (dev io))"
  using assms(2-6)
proof (induction k arbitrary: m j io)
  case (0 m j io)
  let ?a = "view (dev io)"
  obtain w io1 where r: "in16 bus 0x1F0 io = (w, io1)" by fastforce
  then have w: "w = fst (bus_in16 bus 0x1F0 (dev io))" "dev io1 = snd (bus_in16 bus 0x1F0 (dev io))"
    by (auto simp: in16_def split_def Let_def)
  have step: "w = of_le16 (load_bytes (a_image ?a) (ata_byte ?a) 2)" "view (dev io1) = ata_advance ?a"
    using bus 0 w unfolding ata_bus_def by simp_all
  then show ?case using r 0 advance_word(3) [OF 0(4)] by (simp add: le16_of_le16)
next
  case (Suc k)
  let ?a = "view (dev io)"
  obtain w io1 where r: "in16 bus 0x1F0 io = (w, io1)" by fastforce
  then have w: "w = fst (bus_in16 bus 0x1F0 (dev io))" "dev io1 = snd (bus_in16 bus 0x1F0 (dev io))"
    by (auto simp: in16_def split_def Let_def)
  have j: "j < 256" "Suc j < 256" using Suc.prems(5) by simp_all
  note adv = advance_word(1,2) [OF Suc.prems(4) j(1,2)]
  have step: "w = of_le16 (load_bytes (a_image ?a) (ata_byte ?a) 2)" "view (dev io1) = ?a\<lparr>a_pos := 512 * i + 2 * Suc j\<rparr>"
    "busy (dev io1) = 0" "unready (dev io1) = 0"
    using bus Suc.prems(1-3) w adv unfolding ata_bus_def by simp_all
  have byte: "ata_byte (view (dev io1)) = ata_byte ?a + 2" using step(2) Suc.prems(4) by (simp add: ata_byte_def ata_address_def)
  have split: "load_bytes (a_image ?a) (ata_byte ?a) (2 * Suc (Suc k)) =
      le16 w @ load_bytes (a_image ?a) (ata_byte ?a + 2) (2 * Suc k)"
    using load_bytes_add [of "a_image ?a" "ata_byte ?a" 2 "2 * Suc k"] by (simp add: step(1) le16_of_le16)
  have run: "read_words bus m target j (Suc (Suc k)) io = read_words bus (store_bytes m (target + of_nat (2 * j)) (le16 w)) target (Suc j) (Suc k) io1"
    by (simp add: r)
  have joined: "store_bytes m (target + of_nat (2 * j)) (load_bytes (a_image ?a) (ata_byte ?a) (2 * Suc (Suc k))) =
      store_bytes (store_bytes m (target + of_nat (2 * j)) (le16 w)) (target + of_nat (2 * Suc j)) (load_bytes (a_image ?a) (ata_byte ?a + 2) (2 * Suc k))"
    unfolding split using Suc.prems(5) by (subst store_bytes_append) (simp_all add: algebra_simps)
  have same: "sector_done i (view (dev io1)) = sector_done i ?a" using step(2) by (simp add: sector_done_def)
  show ?case
    using Suc.IH [of io1 "Suc j" "store_bytes m (target + of_nat (2 * j)) (le16 w)"] step Suc.prems unfolding run joined same byte by simp
qed

lemma write_words_effect:
  assumes bus: "ata_bus bus view busy unready"
    and "busy (dev io) = 0" and "unready (dev io) = 0" and "a_mode (view (dev io)) = Writing" and "a_pos (view (dev io)) = 512 * i + 2 * j"
    and "j + Suc k = 256"
  shows "view (dev (write_words bus m ptr b j (Suc k) io)) = sector_done i ((view (dev io))
    \<lparr>a_image := store_bytes (a_image (view (dev io))) (ata_byte (view (dev io))) (load_bytes m (ptr + of_nat (2 * (256 * b + j))) (2 * Suc k))\<rparr>)"
  using assms(2-6)
proof (induction k arbitrary: j io)
  case (0 j io)
  let ?a = "view (dev io)" and ?q = "ptr + of_nat (2 * (256 * b + j))"
  let ?io = "out16 bus 0x1F0 (of_le16 (load_bytes m ?q 2)) io" and ?a1 = "?a\<lparr>a_image := store_bytes (a_image ?a) (ata_byte ?a) (load_bytes m ?q 2)\<rparr>"
  have "view (dev ?io) = ata_advance ?a1" using bus 0 unfolding ata_bus_def out16_def by (simp add: le16_of_le16)
  moreover have "ata_advance ?a1 = sector_done i ?a1" using 0 by (intro advance_word(3)) simp_all
  ultimately show ?case by (simp add: HALF_BLOCK_SIZE_def BLOCK_SIZE_def)
next
  case (Suc k)
  let ?a = "view (dev io)" and ?q = "ptr + of_nat (2 * (256 * b + j))"
  let ?w = "of_le16 (load_bytes m ?q 2)"
  let ?io = "out16 bus 0x1F0 ?w io" and ?a1 = "?a\<lparr>a_image := store_bytes (a_image ?a) (ata_byte ?a) (load_bytes m ?q 2)\<rparr>"
  have j: "j < 256" "Suc j < 256" using Suc.prems(5) by simp_all
  have pos: "a_pos ?a1 = 512 * i + 2 * j" using Suc.prems(4) by simp
  note adv = advance_word(1,2) [OF pos j(1,2)]
  have step: "view (dev ?io) = ?a1\<lparr>a_pos := 512 * i + 2 * Suc j\<rparr>" "busy (dev ?io) = 0" "unready (dev ?io) = 0"
    using bus Suc.prems(1-3) adv unfolding ata_bus_def out16_def by (simp_all add: le16_of_le16)
  have byte: "ata_byte (view (dev ?io)) = ata_byte ?a + 2" using step(1) Suc.prems(4) by (simp add: ata_byte_def ata_address_def)
  have nxt: "?q + 2 = ptr + of_nat (2 * (256 * b + Suc j))" by (simp add: algebra_simps)
  have split: "store_bytes (a_image ?a) (ata_byte ?a) (load_bytes m ?q (2 * Suc (Suc k))) =
      store_bytes (store_bytes (a_image ?a) (ata_byte ?a) (load_bytes m ?q 2)) (ata_byte ?a + 2) (load_bytes m (?q + 2) (2 * Suc k))"
    using load_bytes_add [of m ?q 2 "2 * Suc k"] store_bytes_append [of "load_bytes m ?q 2" "load_bytes m (?q + 2) (2 * Suc k)" "a_image ?a" "ata_byte ?a"]
      Suc.prems(5) by simp
  have run: "write_words bus m ptr b j (Suc (Suc k)) io = write_words bus m ptr b (Suc j) (Suc k) ?io"
    by (simp add: HALF_BLOCK_SIZE_def BLOCK_SIZE_def)
  have IH: "view (dev (write_words bus m ptr b (Suc j) (Suc k) ?io)) = sector_done i ((view (dev ?io))
      \<lparr>a_image := store_bytes (a_image (view (dev ?io))) (ata_byte (view (dev ?io))) (load_bytes m (?q + 2) (2 * Suc k))\<rparr>)"
    unfolding nxt using step Suc.prems by (intro Suc.IH) simp_all
  show ?case unfolding run IH split byte using step(1) by (simp add: sector_done_def)
qed

section \<open>Transferring blocks\<close>

text \<open>The drive at the beginning of sector \<open>i\<close> of a transfer with \<open>k\<close> sectors to come.\<close>

definition in_transfer :: "ata_mode \<Rightarrow> nat \<Rightarrow> nat \<Rightarrow> ata \<Rightarrow> bool" where
  "in_transfer mode i k a \<longleftrightarrow> a_mode a = (if k = 0 then Idle else mode) \<and> a_left a = k \<and> a_pos a = 512 * i"

lemma in_transfer_next: "in_transfer mode i (Suc k) a \<Longrightarrow> in_transfer mode (Suc i) k (sector_done i a)"
  by (simp add: in_transfer_def sector_done_def)

lemma sector_done_byte: "a_pos a = 512 * i \<Longrightarrow> ata_byte (sector_done i a) = ata_byte a + 512" "a_image (sector_done i a) = a_image a"
  by (simp_all add: sector_done_def ata_byte_def ata_address_def)

lemma read_loop_effect:
  assumes bus: "ata_bus bus view busy unready" and "in_transfer Reading i k (view (dev io))" and "k \<le> 256"
  shows "\<exists>io'. ata_read_loop bus m target k io =
      Some (store_bytes m target (load_bytes (a_image (view (dev io))) (ata_byte (view (dev io))) (512 * k)), io') \<and>
    a_image (view (dev io')) = a_image (view (dev io)) \<and> a_mode (view (dev io')) = Idle"
  using assms(2,3)
proof (induction k arbitrary: m target i io)
  case (Suc k)
  let ?a = "view (dev io)"
  have a: "a_mode ?a = Reading" "a_pos ?a = 512 * i" using Suc.prems(1) by (simp_all add: in_transfer_def)
  obtain io1 where io1: "ATA_busy_wait bus io = Some io1" "view (dev io1) = ?a" "busy (dev io1) = 0"
    using busy_wait_ends [OF bus] by blast
  obtain io2 where io2: "ATA_DRQ_wait bus io1 = Some io2" "view (dev io2) = ?a" "busy (dev io2) = 0" "unready (dev io2) = 0"
    using drq_wait_ends [OF bus io1(3)] io1(2) by auto
  obtain io3 where io3: "read_words bus m target 0 (Suc 255) io2 = (store_bytes m target (load_bytes (a_image ?a) (ata_byte ?a) 512), io3)"
    "view (dev io3) = sector_done i ?a"
    using read_words_effect [OF bus io2(3,4), of i 0 255 m target] io2(2) a by auto
  note byte = sector_done_byte(1) [OF a(2), folded io3(2)] sector_done_byte(2) [of i ?a, folded io3(2)]
  have half: "HALF_BLOCK_SIZE = Suc 255" by (simp add: HALF_BLOCK_SIZE_def BLOCK_SIZE_def)
  have split: "store_bytes m target (load_bytes (a_image ?a) (ata_byte ?a) (512 * Suc k)) =
      store_bytes (store_bytes m target (load_bytes (a_image ?a) (ata_byte ?a) 512)) (target + 512) (load_bytes (a_image ?a) (ata_byte ?a + 512) (512 * k))"
    using load_bytes_add [of "a_image ?a" "ata_byte ?a" 512 "512 * k"] Suc.prems(2)
      store_bytes_append [of "load_bytes (a_image ?a) (ata_byte ?a) 512" "load_bytes (a_image ?a) (ata_byte ?a + 512) (512 * k)" m target] by simp
  have run: "ata_read_loop bus m target (Suc k) io =
      ata_read_loop bus (store_bytes m target (load_bytes (a_image ?a) (ata_byte ?a) 512)) (target + 512) k io3"
    using io3(1) by (simp add: io1(1) io2(1) half del: read_words.simps)
  show ?case
    using Suc.IH [OF in_transfer_next [OF Suc.prems(1), folded io3(2)], of "store_bytes m target (load_bytes (a_image ?a) (ata_byte ?a) 512)" "target + 512"]
      Suc.prems(2) byte unfolding run split by simp
qed (auto simp: in_transfer_def)

lemma write_loop_effect:
  assumes bus: "ata_bus bus view busy unready" and "in_transfer Writing i k (view (dev io))" and "i + k \<le> 256"
  shows "\<exists>io'. ata_write_loop bus m ptr i k io = Some io' \<and> a_mode (view (dev io')) = Idle \<and>
    a_image (view (dev io')) = store_bytes (a_image (view (dev io))) (ata_byte (view (dev io))) (load_bytes m (ptr + of_nat (512 * i)) (512 * k))"
  using assms(2,3)
proof (induction k arbitrary: i io)
  case (Suc k)
  let ?a = "view (dev io)" and ?q = "ptr + of_nat (512 * i)"
  let ?a1 = "?a\<lparr>a_image := store_bytes (a_image ?a) (ata_byte ?a) (load_bytes m ?q 512)\<rparr>"
  have a: "a_mode ?a = Writing" "a_pos ?a1 = 512 * i" "in_transfer Writing i (Suc k) ?a1" using Suc.prems(1) by (simp_all add: in_transfer_def)
  obtain io1 where io1: "ATA_busy_wait bus io = Some io1" "view (dev io1) = ?a" "busy (dev io1) = 0"
    using busy_wait_ends [OF bus] by blast
  obtain io2 where io2: "ATA_DRQ_wait bus io1 = Some io2" "view (dev io2) = ?a" "busy (dev io2) = 0" "unready (dev io2) = 0"
    using drq_wait_ends [OF bus io1(3)] io1(2) by auto
  let ?io = "write_words bus m ptr i 0 (Suc 255) io2"
  have io3: "view (dev ?io) = sector_done i ?a1"
    using write_words_effect [OF bus io2(3,4), of i 0 255 m ptr i] io2(2) a by (simp del: write_words.simps)
  note byte = sector_done_byte(1) [OF a(2), folded io3] sector_done_byte(2) [of i ?a1, folded io3]
  have half: "HALF_BLOCK_SIZE = Suc 255" by (simp add: HALF_BLOCK_SIZE_def BLOCK_SIZE_def)
  have split: "store_bytes (a_image ?a) (ata_byte ?a) (load_bytes m ?q (512 * Suc k)) =
      store_bytes (store_bytes (a_image ?a) (ata_byte ?a) (load_bytes m ?q 512)) (ata_byte ?a + 512) (load_bytes m (?q + 512) (512 * k))"
    using load_bytes_add [of m ?q 512 "512 * k"] Suc.prems(2)
      store_bytes_append [of "load_bytes m ?q 512" "load_bytes m (?q + 512) (512 * k)" "a_image ?a" "ata_byte ?a"] by simp
  have nxt: "ptr + of_nat (512 * Suc i) = ?q + 512" by (simp add: algebra_simps)
  have run: "ata_write_loop bus m ptr i (Suc k) io = ata_write_loop bus m ptr (Suc i) k ?io"
    by (simp add: io1(1) io2(1) half del: write_words.simps)
  have "ata_byte ?a1 = ata_byte ?a" by (simp add: ata_byte_def ata_address_def)
  then show ?case
    using Suc.IH [OF in_transfer_next [OF a(3), folded io3]] Suc.prems(2) byte unfolding run split nxt by simp
qed (auto simp: in_transfer_def)

section \<open>The blocks of the image\<close>

lemma block_inside: "unat lba + i < 8192 \<Longrightarrow> block_in_image (block_offset lba i)"
  by (simp add: block_in_image_def block_offset_def size_defs unat_word_ariths unat_of_nat)

lemma block_next: "block_offset lba (Suc i) = block_offset lba i + 512"
  by (simp add: block_offset_def size_defs algebra_simps)

lemma read_blocks_run:
  assumes "unat lba + i + k \<le> 8192"
  shows "read_blocks_from img lba i k = Some (load_bytes img (block_offset lba i) (512 * k))"
  using assms
proof (induction k arbitrary: i)
  case (Suc k)
  then show ?case
    using block_inside [of lba i] load_bytes_add [of img "block_offset lba i" 512 "512 * k"] by (simp add: block_next BLOCK_SIZE_def)
qed simp

lemma write_blocks_run:
  assumes "unat lba + i + k \<le> 8192" and "i + k \<le> n" and "n \<le> 256"
  shows "write_blocks_from img (load_bytes m ptr (512 * n)) lba i k =
    Some (store_bytes img (block_offset lba i) (load_bytes m (ptr + of_nat (512 * i)) (512 * k)))"
  using assms(1,2)
proof (induction k arbitrary: i img)
  case (Suc k)
  let ?q = "ptr + of_nat (512 * i)"
  have chunk: "chunk 512 i (load_bytes m ptr (512 * n)) = load_bytes m ?q 512"
    using Suc.prems assms(3) by (simp add: chunk_def drop_load_bytes take_load_bytes)
  have nxt: "ptr + of_nat (512 * Suc i) = ?q + 512" by (simp add: algebra_simps)
  have "store_bytes img (block_offset lba i) (load_bytes m ?q (512 * Suc k)) =
      store_bytes (store_bytes img (block_offset lba i) (load_bytes m ?q 512)) (block_offset lba i + 512) (load_bytes m (?q + 512) (512 * k))"
    using load_bytes_add [of m ?q 512 "512 * k"] Suc.prems assms(3)
      store_bytes_append [of "load_bytes m ?q 512" "load_bytes m (?q + 512) (512 * k)" img "block_offset lba i"] by simp
  then show ?case
    using Suc.IH [of "Suc i" "store_bytes img (block_offset lba i) (load_bytes m ?q 512)"] Suc.prems block_inside [of lba i] chunk
    unfolding nxt by (simp add: block_next BLOCK_SIZE_def)
qed simp

section \<open>Properties\<close>

lemma unat_lt_u8: "unat (x :: u8) < 256"
  using unsigned_less [of x] by simp

text \<open>
  C32: the kernel's disk driver and the block functions of the inserter agree. On a drive with PIO transfers that is idle, for every run of at least one block
  inside the 4 MiB of the image, \<open>read_blocks\<close> of \<open>disk.c\<close> returns with exactly the bytes in the caller's
  buffer that \<open>read_blocks\<close> of the inserter gives for the content of the drive and leaves the drive's content alone,
  and \<open>write_blocks\<close> returns with the drive holding what \<open>write_blocks\<close> of the inserter makes of it. Both transfer all sectors that the drive was asked
  for and leave it idle.
\<close>

theorem disk_driver_equivalent:
  assumes "ata_bus bus view busy unready" and "a_mode (view (dev io)) = Idle" and "cnt \<noteq> 0" and "unat lba + unat cnt \<le> 8192"
  shows "(\<exists>bs io'. read_blocks (a_image (view (dev io))) lba cnt = Some bs \<and>
      ata_read_blocks bus m ptr lba cnt io = Some (store_bytes m ptr bs, io') \<and>
      a_image (view (dev io')) = a_image (view (dev io)) \<and> a_mode (view (dev io')) = Idle) \<and>
    (\<exists>img io'. write_blocks (a_image (view (dev io))) (load_bytes m ptr (512 * unat cnt)) lba cnt = Some img \<and>
      ata_write_blocks bus m ptr lba cnt io = Some io' \<and> a_image (view (dev io')) = img \<and> a_mode (view (dev io')) = Idle)"
proof -
  let ?img = "a_image (view (dev io))" and ?n = "unat cnt"
  have lba: "unat lba < 2 ^ 28" using assms(4) by simp
  have cnt: "?n \<le> 256" by (rule less_imp_le, rule unat_lt_u8)
  have pos: "?n \<noteq> 0" using assms(3) by (simp add: unat_eq_0)
  obtain io1 where io1: "ATA_busy_wait bus io = Some io1" "view (dev io1) = view (dev io)" "busy (dev io1) = 0"
    using busy_wait_ends [OF assms(1)] by blast
  have idle: "a_mode (view (dev io1)) = Idle" using assms(2) io1(2) by simp
  have byte: "ata_byte a = block_offset lba 0" if "ata_address a = lba" "a_pos a = 0" for a
    using that by (simp add: ata_byte_def block_offset_def BLOCK_SIZE_def)
  let ?r = "ata_command bus lba cnt 0x20 io1" and ?w = "ata_command bus lba cnt 0x30 io1"
  have r: "ata_byte (view (dev ?r)) = block_offset lba 0" "a_image (view (dev ?r)) = ?img" "in_transfer Reading 0 ?n (view (dev ?r))"
    using command_effect [OF assms(1) io1(3) idle lba, of "0x20" cnt] byte io1(2) assms(3) pos by (auto simp: in_transfer_def)
  have w: "ata_byte (view (dev ?w)) = block_offset lba 0" "a_image (view (dev ?w)) = ?img" "in_transfer Writing 0 ?n (view (dev ?w))"
    using command_effect [OF assms(1) io1(3) idle lba, of "0x30" cnt] byte io1(2) assms(3) pos by (auto simp: in_transfer_def)
  show ?thesis
    using read_loop_effect [OF assms(1) r(3) cnt, of m ptr] write_loop_effect [OF assms(1) w(3), of m ptr]
      read_blocks_run [of lba 0 ?n ?img] write_blocks_run [of lba 0 ?n ?n ?img m ptr] r w cnt assms(4) io1(1)
    by (auto simp: ata_read_blocks_def ata_write_blocks_def read_blocks_def write_blocks_def)
qed

text \<open>
  A count of 0. The drive is asked for 256 sectors, of which the loop transfers none: the call returns and leaves the transfer open.
\<close>

theorem no_blocks_left_open:
  assumes "ata_bus bus view busy unready" and "a_mode (view (dev io)) = Idle" and "unat lba < 2 ^ 28"
  shows "\<exists>io'. ata_read_blocks bus m ptr lba 0 io = Some (m, io') \<and> a_mode (view (dev io')) = Reading \<and> a_left (view (dev io')) = 256"
proof -
  obtain io1 where io1: "ATA_busy_wait bus io = Some io1" "view (dev io1) = view (dev io)" "busy (dev io1) = 0"
    using busy_wait_ends [OF assms(1)] by blast
  have idle: "a_mode (view (dev io1)) = Idle" using assms(2) io1(2) by simp
  show ?thesis using command_effect [OF assms(1) io1(3) idle assms(3), of "0x20" 0] io1(1) by (auto simp: ata_read_blocks_def)
qed

text \<open>A drive that is busy for three status reads and unready for one after a command, and busy for two and unready for two after each block.\<close>

definition slow_drive :: "(ata \<times> nat \<times> nat) bus" where
  "slow_drive = \<lparr>bus_in = (\<lambda>port (a, n, r). if 0 < n then (0x80, (a, n - 1, r)) else if 0 < r then (0, (a, 0, r - 1)) else (0x40, (a, 0, 0))),
     bus_out = (\<lambda>port v (a, n, r). (ata_register port v a, if port = 0x1F7 then (3, 1) else (n, r))),
     bus_in16 = (\<lambda>port (a, n, r). (of_le16 (load_bytes (a_image a) (ata_byte a) 2),
        (ata_advance a, if (a_pos a + 2) mod 512 = 0 then (2, 2) else (n, r)))),
     bus_out16 = (\<lambda>port w (a, n, r). (ata_advance (a\<lparr>a_image := store_bytes (a_image a) (ata_byte a) (le16 w)\<rparr>),
        if (a_pos a + 2) mod 512 = 0 then (2, 2) else (n, r)))\<rparr>"

definition fresh_drive :: "(ata \<times> nat \<times> nat) io" where
  "fresh_drive = \<lparr>dev = (\<lparr>a_image = (\<lambda>_. 9), a_drive = 0, a_count = 0, a_lba0 = 0, a_lba1 = 0, a_lba2 = 0, a_mode = Idle, a_left = 0, a_pos = 0\<rparr>, 7, 0),
     interrupt_flag = True\<rparr>"

lemma slow_drive_ok: "ata_bus slow_drive fst (\<lambda>d. fst (snd d)) (\<lambda>d. snd (snd d))"
  by (auto simp: ata_bus_def slow_drive_def split_def bit_numeral_simps)

theorem disk_driver_equivalent_witness:
  "\<exists>io'. ata_read_blocks slow_drive (\<lambda>_. 0) 0x1000 8190 2 fresh_drive = Some (store_bytes (\<lambda>_. 0) 0x1000 (replicate 1024 9), io') \<and>
     a_mode (fst (dev io')) = Idle"
proof -
  have "read_blocks (\<lambda>_. 9) 8190 2 = Some (replicate 1024 9)"
    using read_blocks_run [of 8190 0 2 "\<lambda>_. 9"] by (simp add: read_blocks_def load_bytes_def map_replicate_const)
  moreover have "a_image (fst (dev fresh_drive)) = (\<lambda>_. 9)" "a_mode (fst (dev fresh_drive)) = Idle" by (simp_all add: fresh_drive_def)
  ultimately show ?thesis
    using disk_driver_equivalent [OF slow_drive_ok, of fresh_drive 2 8190 "\<lambda>_. 0" "0x1000"] by auto
qed

theorem no_blocks_left_open_witness:
  "\<exists>io'. ata_read_blocks slow_drive (\<lambda>_. 0) 0x1000 8190 0 fresh_drive = Some (\<lambda>_. 0, io') \<and> a_left (fst (dev io')) = 256"
proof -
  have "a_mode (fst (dev fresh_drive)) = Idle" by (simp add: fresh_drive_def)
  then show ?thesis using no_blocks_left_open [OF slow_drive_ok, of fresh_drive 8190 "\<lambda>_. 0" "0x1000"] by auto
qed

end
