(* ===== verification/CString.thy ===== *)
theory CString
  imports CMemory
begin

text \<open>
  The byte and string routines of \<open>src/src/string.c\<close> on flat memory, loop by loop. The counted
  loops (\<open>memset\<close>, \<open>memcpy\<close>, \<open>memcmp\<close>, \<open>memmove\<close>, \<open>strncpy\<close>) recurse on the number of iterations
  left and always end; the loops that run up to a NUL byte (\<open>strchr\<close>, \<open>strspn\<close>, \<open>strcmp\<close>, \<open>strcpy\<close>,
  \<open>strtok\<close>) are partial: \<^const>\<open>None\<close> stands for a run that never meets one. The lemmas give the result of
  each routine on memory ranges and on NUL-terminated strings, where the partial ones return.
\<close>

section \<open>Definitions\<close>

subsection \<open>memset, memcpy, memcmp, memmove\<close>

fun memset_from :: "mem \<Rightarrow> u32 \<Rightarrow> int \<Rightarrow> nat \<Rightarrow> nat \<Rightarrow> mem" where
  "memset_from m buf c i 0 = m"
| "memset_from m buf c i (Suc k) = memset_from (m(buf + of_nat i := word_of_int c)) buf c (Suc i) k"

definition memset :: "mem \<Rightarrow> u32 \<Rightarrow> int \<Rightarrow> u32 \<Rightarrow> mem \<times> u32" where
  "memset m s c n = (memset_from m s c 0 (unat n), s)"

fun memcpy_from :: "mem \<Rightarrow> u32 \<Rightarrow> u32 \<Rightarrow> nat \<Rightarrow> nat \<Rightarrow> mem" where
  "memcpy_from m dstbuf srcbuf i 0 = m"
| "memcpy_from m dstbuf srcbuf i (Suc k) =
     memcpy_from (m(dstbuf + of_nat i := m (srcbuf + of_nat i))) dstbuf srcbuf (Suc i) k"

definition memcpy :: "mem \<Rightarrow> u32 \<Rightarrow> u32 \<Rightarrow> u32 \<Rightarrow> mem \<times> u32" where
  "memcpy m dest src n = (memcpy_from m dest src 0 (unat n), dest)"

fun memcmp_from :: "mem \<Rightarrow> u32 \<Rightarrow> u32 \<Rightarrow> nat \<Rightarrow> nat \<Rightarrow> int" where
  "memcmp_from m buf1 buf2 i 0 = 0"
| "memcmp_from m buf1 buf2 i (Suc k) =
     (if m (buf1 + of_nat i) < m (buf2 + of_nat i) then - 1
      else if m (buf1 + of_nat i) > m (buf2 + of_nat i) then 1
      else memcmp_from m buf1 buf2 (Suc i) k)"

definition memcmp :: "mem \<Rightarrow> u32 \<Rightarrow> u32 \<Rightarrow> u32 \<Rightarrow> int" where
  "memcmp m s1 s2 n = memcmp_from m s1 s2 0 (unat n)"

text \<open>The descending loop of \<open>memmove\<close>: \<open>i\<close> counts down from \<open>n\<close> and byte \<open>i - 1\<close> is copied.\<close>

fun memmove_down :: "mem \<Rightarrow> u32 \<Rightarrow> u32 \<Rightarrow> nat \<Rightarrow> mem" where
  "memmove_down m dstbuf srcbuf 0 = m"
| "memmove_down m dstbuf srcbuf (Suc i) =
     memmove_down (m(dstbuf + of_nat i := m (srcbuf + of_nat i))) dstbuf srcbuf i"

definition memmove :: "mem \<Rightarrow> u32 \<Rightarrow> u32 \<Rightarrow> u32 \<Rightarrow> mem \<times> u32" where
  "memmove m dest src n =
     (if dest < src then memcpy_from m dest src 0 (unat n) else memmove_down m dest src (unat n), dest)"

text \<open>The comparison loop on two byte arrays of their own, as the drivers call it on struct fields.\<close>

fun memcmp_bytes :: "u8 list \<Rightarrow> u8 list \<Rightarrow> int" where
  "memcmp_bytes (x # xs) (y # ys) =
     (if x < y then - 1 else if x > y then 1 else memcmp_bytes xs ys)"
| "memcmp_bytes _ _ = 0"

subsection \<open>strchr, strtok, strspn, strcmp, strcpy, strncpy\<close>

text \<open>\<open>char\<close> is signed: \<open>*str == c\<close> compares the sign-extended character with the \<open>int\<close> argument.\<close>

partial_function (option) strchr :: "mem \<Rightarrow> u32 \<Rightarrow> int \<Rightarrow> u32 option" where
  "strchr m str c =
     (if m str \<noteq> 0 then (if sint (m str) = c then Some str else strchr m (str + 1) c)
      else if c = 0 then Some str
      else Some 0)"

text \<open>The loop of \<open>strtok\<close>; it returns the memory and the advanced \<open>next_token\<close>.\<close>

partial_function (option) strtok_scan :: "mem \<Rightarrow> u32 \<Rightarrow> u32 \<Rightarrow> (mem \<times> u32) option" where
  "strtok_scan m delimiters next_token =
     (if m next_token \<noteq> 0 then
        do { r \<leftarrow> strchr m delimiters (sint (m next_token));
             if r \<noteq> 0 then Some (m(next_token := 0), next_token + 1)
             else strtok_scan m delimiters (next_token + 1) }
      else Some (m, next_token))"

text \<open>
  \<open>strtok\<close> with its static variable \<open>next_token\<close> (0 is NULL) as an argument and a result: the memory,
  the new \<open>next_token\<close> and the returned pointer.
\<close>

definition strtok :: "mem \<Rightarrow> u32 \<Rightarrow> u32 \<Rightarrow> u32 \<Rightarrow> (mem \<times> u32 \<times> u32) option" where
  "strtok m next_token str delimiters =
     (let next_token = (if str \<noteq> 0 then str else next_token) in
      if next_token = 0 then Some (m, next_token, 0)
      else do { (m', next_token') \<leftarrow> strtok_scan m delimiters next_token;
                Some (m', next_token', next_token) })"

partial_function (option) strspn_inner :: "mem \<Rightarrow> u32 \<Rightarrow> u32 \<Rightarrow> u32 option" where
  "strspn_inner m p a =
     (if m a \<noteq> 0 then (if m p = m a then Some a else strspn_inner m p (a + 1)) else Some a)"

partial_function (option) strspn_outer :: "mem \<Rightarrow> u32 \<Rightarrow> u32 \<Rightarrow> u32 \<Rightarrow> u32 option" where
  "strspn_outer m p str2 count =
     (if m p \<noteq> 0 then
        do { a \<leftarrow> strspn_inner m p str2;
             if m a = 0 then Some count else strspn_outer m (p + 1) str2 (count + 1) }
      else Some count)"

definition strspn :: "mem \<Rightarrow> u32 \<Rightarrow> u32 \<Rightarrow> u32 option" where
  "strspn m str1 str2 = strspn_outer m str1 str2 0"

partial_function (option) strcmp :: "mem \<Rightarrow> u32 \<Rightarrow> u32 \<Rightarrow> int option" where
  "strcmp m str1 str2 =
     (if m str1 \<noteq> 0 \<and> m str1 = m str2 then strcmp m (str1 + 1) (str2 + 1)
      else Some (uint (m str1) - uint (m str2)))"

partial_function (option) strcpy_loop :: "mem \<Rightarrow> u32 \<Rightarrow> u32 \<Rightarrow> mem option" where
  "strcpy_loop m dest src =
     (if m src \<noteq> 0 then strcpy_loop (m(dest := m src)) (dest + 1) (src + 1)
      else Some (m(dest := m src)))"

definition strcpy :: "mem \<Rightarrow> u32 \<Rightarrow> u32 \<Rightarrow> (mem \<times> u32) option" where
  "strcpy m dest src = do { m' \<leftarrow> strcpy_loop m dest src; Some (m', dest) }"

fun strncpy_pad :: "mem \<Rightarrow> u32 \<Rightarrow> nat \<Rightarrow> nat \<Rightarrow> mem" where
  "strncpy_pad m dest i 0 = m"
| "strncpy_pad m dest i (Suc k) = strncpy_pad (m(dest + of_nat i := 0)) dest (Suc i) k"

fun strncpy_copy :: "mem \<Rightarrow> u32 \<Rightarrow> u32 \<Rightarrow> nat \<Rightarrow> nat \<Rightarrow> mem" where
  "strncpy_copy m dest src i 0 = m"
| "strncpy_copy m dest src i (Suc k) =
     (if m (src + of_nat i) \<noteq> 0
      then strncpy_copy (m(dest + of_nat i := m (src + of_nat i))) dest src (Suc i) k
      else strncpy_pad m dest i (Suc k))"

definition strncpy :: "mem \<Rightarrow> u32 \<Rightarrow> u32 \<Rightarrow> u32 \<Rightarrow> mem \<times> u32" where
  "strncpy m dest src n = (strncpy_copy m dest src 0 (unat n), dest)"

section \<open>Counted loops\<close>

text \<open>
  Both copying loops are one store of the source range, as long as no byte is overwritten before it
  is read: for the ascending loop, byte \<open>j\<close> of the destination is no later byte of the source, for
  the descending loop no earlier one.
\<close>

definition copy_up_safe :: "u32 \<Rightarrow> u32 \<Rightarrow> nat \<Rightarrow> bool" where
  "copy_up_safe d s n \<longleftrightarrow> (\<forall>j j'. j < j' \<and> j' < n \<longrightarrow> d + of_nat j \<noteq> s + of_nat j')"

definition copy_down_safe :: "u32 \<Rightarrow> u32 \<Rightarrow> nat \<Rightarrow> bool" where
  "copy_down_safe d s n \<longleftrightarrow> (\<forall>j j'. j' < j \<and> j < n \<longrightarrow> d + of_nat j \<noteq> s + of_nat j')"

lemma upd_between_iff:
  fixes d a :: u32
  assumes "i < 2 ^ 32"
  shows "a = d + of_nat i \<longleftrightarrow> unat (a - d) = i"
  using assms by auto

lemma memset_from_eq:
  "i + k \<le> 2 ^ 32 \<Longrightarrow>
    memset_from m b c i k a = (if i \<le> unat (a - b) \<and> unat (a - b) < i + k then word_of_int c else m a)"
proof (induction k arbitrary: m i)
  case 0
  then show ?case by auto
next
  case (Suc k)
  then show ?case by (auto simp: upd_between_iff)
qed

lemma memcpy_from_eq:
  assumes "i + k \<le> 2 ^ 32"
    and "\<forall>j j'. i \<le> j \<and> j < j' \<and> j' < i + k \<longrightarrow> d + of_nat j \<noteq> s + of_nat j'"
  shows "memcpy_from m d s i k a =
    (if i \<le> unat (a - d) \<and> unat (a - d) < i + k then m (s + of_nat (unat (a - d))) else m a)"
  using assms
proof (induction k arbitrary: m i)
  case 0
  then show ?case by auto
next
  case (Suc k)
  let ?m = "m(d + of_nat i := m (s + of_nat i))"
  have rd: "?m (s + of_nat j) = m (s + of_nat j)" if "i < j" "j < i + Suc k" for j
    using Suc.prems(2) that by fastforce
  have "memcpy_from m d s i (Suc k) a =
      (if Suc i \<le> unat (a - d) \<and> unat (a - d) < Suc i + k then ?m (s + of_nat (unat (a - d))) else ?m a)"
    unfolding memcpy_from.simps
    using Suc.prems by (intro Suc.IH) (auto simp del: of_nat_Suc)
  also have "\<dots> = (if i \<le> unat (a - d) \<and> unat (a - d) < i + Suc k
      then m (s + of_nat (unat (a - d))) else m a)"
    using Suc.prems(1) rd [of "unat (a - d)"] by (auto simp: upd_between_iff simp del: of_nat_unat)
  finally show ?case .
qed

lemma memmove_down_eq:
  assumes "k \<le> 2 ^ 32" and "copy_down_safe d s k"
  shows "memmove_down m d s k a =
    (if unat (a - d) < k then m (s + of_nat (unat (a - d))) else m a)"
  using assms
proof (induction k arbitrary: m)
  case 0
  then show ?case by simp
next
  case (Suc k)
  let ?m = "m(d + of_nat k := m (s + of_nat k))"
  have rd: "?m (s + of_nat j) = m (s + of_nat j)" if "j < k" for j
    using Suc.prems(2) that by (fastforce simp: copy_down_safe_def)
  have "memmove_down m d s (Suc k) a =
      (if unat (a - d) < k then ?m (s + of_nat (unat (a - d))) else ?m a)"
    unfolding memmove_down.simps
    using Suc.prems by (intro Suc.IH) (auto simp: copy_down_safe_def)
  also have "\<dots> = (if unat (a - d) < Suc k then m (s + of_nat (unat (a - d))) else m a)"
    using Suc.prems(1) rd [of "unat (a - d)"]
    by (auto simp: upd_between_iff less_Suc_eq simp del: of_nat_unat)
  finally show ?case .
qed

lemma memset_store: "fst (memset m s c n) = store_bytes m s (replicate (unat n) (word_of_int c))"
  by (rule ext) (simp add: memset_def memset_from_eq store_bytes_def less_imp_le [OF unat_lt_2p32])

lemma memcpy_from_store:
  assumes "n \<le> 2 ^ 32" and "copy_up_safe d s n"
  shows "memcpy_from m d s 0 n = store_bytes m d (load_bytes m s n)"
  using assms by (intro ext) (simp add: memcpy_from_eq copy_up_safe_def store_bytes_def)

lemma memmove_down_store:
  assumes "n \<le> 2 ^ 32" and "copy_down_safe d s n"
  shows "memmove_down m d s n = store_bytes m d (load_bytes m s n)"
  using assms by (intro ext) (simp add: memmove_down_eq store_bytes_def)

lemma copy_up_safe_disjoint: "ranges_disjoint d n s n \<Longrightarrow> copy_up_safe d s n"
  by (auto simp: ranges_disjoint_def copy_up_safe_def)

lemma unat_range_inj:
  assumes "no_wrap d n" and "no_wrap s n" and "j < n" and "j' < n"
  shows "d + of_nat j = s + of_nat j' \<longleftrightarrow> unat d + j = unat s + j'"
proof -
  have "unat (d + of_nat j) = unat d + j" "unat (s + of_nat j') = unat s + j'"
    using assms by (auto intro!: unat_add_small simp: no_wrap_def)
  then show ?thesis by (metis word_unat_eq_iff)
qed

lemma copy_up_safe_le: "no_wrap d n \<Longrightarrow> no_wrap s n \<Longrightarrow> d \<le> s \<Longrightarrow> copy_up_safe d s n"
  by (auto simp: copy_up_safe_def unat_range_inj word_le_nat_alt)

lemma copy_down_safe_ge: "no_wrap d n \<Longrightarrow> no_wrap s n \<Longrightarrow> s \<le> d \<Longrightarrow> copy_down_safe d s n"
  by (auto simp: copy_down_safe_def unat_range_inj word_le_nat_alt)

lemma memcmp_from_eq:
  "memcmp_from m p q i k = memcmp_bytes (load_bytes m (p + of_nat i) k) (load_bytes m (q + of_nat i) k)"
  by (induction k arbitrary: i) (simp_all add: load_bytes_Suc ac_simps)

lemma memcmp_eq: "memcmp m p q n = memcmp_bytes (load_bytes m p (unat n)) (load_bytes m q (unat n))"
  by (simp add: memcmp_def memcmp_from_eq)

lemma memcmp_bytes_eq_0_iff:
  "length xs = length ys \<Longrightarrow> memcmp_bytes xs ys = 0 \<longleftrightarrow> xs = ys"
  by (induction xs ys rule: memcmp_bytes.induct) auto

lemma memcmp_bytes_refl [simp]: "memcmp_bytes xs xs = 0"
  by (simp add: memcmp_bytes_eq_0_iff)

lemma memcmp_bytes_less_iff:
  "length xs = length ys \<Longrightarrow> memcmp_bytes xs ys < 0 \<longleftrightarrow> (xs, ys) \<in> lexord {(x, y). x < y}"
  by (induction xs ys rule: memcmp_bytes.induct) auto

lemma memcmp_bytes_antisym:
  "length xs = length ys \<Longrightarrow> memcmp_bytes ys xs = - memcmp_bytes xs ys"
  by (induction xs ys rule: memcmp_bytes.induct) auto

section \<open>Loops up to a NUL byte\<close>

lemma sint_eq_iff_u8: "sint (x :: u8) = sint y \<longleftrightarrow> x = y"
  by (rule word_eq_iff_signed [symmetric])

lemma sint_eq_0_iff_u8: "sint (x :: u8) = 0 \<longleftrightarrow> x = 0"
  using sint_eq_iff_u8 [of x 0] by simp

lemma strchr_cstr:
  assumes "cstr m p xs"
  shows "strchr m p c = Some
    (if c = 0 then p + of_nat (length xs)
     else case first_index (\<lambda>x. sint x = c) xs of Some i \<Rightarrow> p + of_nat i | None \<Rightarrow> 0)"
  using assms
proof (induction xs arbitrary: p)
  case Nil
  then show ?case by (subst strchr.simps) simp
next
  case (Cons x xs)
  then have "strchr m (p + 1) c = Some
    (if c = 0 then p + 1 + of_nat (length xs)
     else case first_index (\<lambda>x. sint x = c) xs of Some i \<Rightarrow> p + 1 + of_nat i | None \<Rightarrow> 0)"
    by simp
  with Cons.prems show ?case
    by (subst strchr.simps) (auto simp: sint_eq_0_iff_u8 ac_simps split: option.splits)
qed

text \<open>Membership of a character in a string of delimiters, as \<open>strtok\<close> tests it.\<close>

lemma strchr_found_iff:
  assumes "cstr m q ys" and "q \<noteq> 0" and "no_wrap q (length ys)" and "c \<noteq> 0"
  shows "\<exists>r. strchr m q (sint c) = Some r \<and> (r \<noteq> 0 \<longleftrightarrow> c \<in> set ys)"
proof (cases "first_index (\<lambda>x. sint x = sint c) ys")
  case None
  then have "c \<notin> set ys" by (auto simp: first_index_None_iff)
  with None assms show ?thesis by (simp add: strchr_cstr sint_eq_0_iff_u8)
next
  case (Some i)
  then have i: "i < length ys" "ys ! i = c"
    by (auto simp: first_index_Some_iff sint_eq_iff_u8)
  have "unat (q + of_nat i) = unat q + i"
    using assms(3) i by (intro unat_add_small) (simp add: no_wrap_def)
  then have "q + of_nat i \<noteq> 0" using assms(2) by (auto simp: unat_gt_0)
  with Some i assms show ?thesis by (auto simp: strchr_cstr sint_eq_0_iff_u8)
qed

lemma strspn_inner_cstr:
  assumes "cstr m q ys" and "m p \<noteq> 0"
  shows "\<exists>a. strspn_inner m p q = Some a \<and> (m a = 0 \<longleftrightarrow> m p \<notin> set ys)"
  using assms
proof (induction ys arbitrary: q)
  case Nil
  then show ?case by (subst strspn_inner.simps) simp
next
  case (Cons y ys)
  then obtain a where "strspn_inner m p (q + 1) = Some a" "m a = 0 \<longleftrightarrow> m p \<notin> set ys"
    by auto
  with Cons.prems show ?case by (subst strspn_inner.simps) auto
qed

lemma strspn_outer_cstr:
  assumes "cstr m p xs" and "cstr m q ys"
  shows "strspn_outer m p q n = Some (n + of_nat (length (takeWhile (\<lambda>x. x \<in> set ys) xs)))"
  using assms
proof (induction xs arbitrary: p n)
  case Nil
  then show ?case by (subst strspn_outer.simps) simp
next
  case (Cons x xs)
  obtain a where "strspn_inner m p q = Some a" "m a = 0 \<longleftrightarrow> m p \<notin> set ys"
    using strspn_inner_cstr [OF Cons.prems(2), of p] Cons.prems(1) by auto
  with Cons show ?case by (subst strspn_outer.simps) auto
qed

lemma strcmp_cstr:
  assumes "cstr m p xs" and "cstr m q ys"
  shows "\<exists>r. strcmp m p q = Some r \<and> (r = 0 \<longleftrightarrow> xs = ys) \<and> (r < 0 \<longleftrightarrow> (xs, ys) \<in> lexord {(x, y). x < y})"
  using assms
proof (induction xs arbitrary: p q ys)
  case Nil
  then show ?case by (subst strcmp.simps) (cases ys; auto simp: word_less_def word_uint_eq_iff order.strict_iff_order)
next
  case (Cons x xs)
  show ?case
  proof (cases ys)
    case Nil
    with Cons.prems show ?thesis by (subst strcmp.simps) (auto simp: uint_0_iff)
  next
    case (Cons y ys')
    with Cons.prems Cons.IH [of "p + 1" "q + 1" ys'] show ?thesis
      by (subst strcmp.simps) (auto simp flip: word_less_def word_uint_eq_iff)
  qed
qed

lemma strcpy_loop_cstr:
  assumes "cstr m s xs" and "length xs < 2 ^ 32" and "copy_up_safe d s (Suc (length xs))"
  shows "strcpy_loop m d s = Some (store_bytes m d (xs @ [0]))"
  using assms
proof (induction xs arbitrary: m d s)
  case Nil
  then show ?case by (subst strcpy_loop.simps) (simp add: store_bytes_Cons)
next
  case (Cons x xs)
  let ?m = "m(d := x)"
  have ne: "d + of_nat j \<noteq> s + of_nat j'" if "j < j'" "j' \<le> Suc (length xs)" for j j'
    using Cons.prems(3) that by (simp add: copy_up_safe_def)
  have "cstr ?m (s + 1) xs"
    using Cons.prems(1) ne [of 0 "Suc j" for j] by (subst cstr_upd) (auto simp: add.assoc)
  moreover have "copy_up_safe (d + 1) (s + 1) (Suc (length xs))"
    using ne [of "Suc j" "Suc j'" for j j'] by (auto simp: copy_up_safe_def add.assoc)
  ultimately have "strcpy_loop ?m (d + 1) (s + 1) = Some (store_bytes ?m (d + 1) (xs @ [0]))"
    using Cons.prems(2) by (intro Cons.IH) (simp_all del: fun_upd_apply)
  with Cons.prems show ?case
    by (subst strcpy_loop.simps) (auto simp: store_bytes_Cons)
qed

lemma strncpy_pad_store:
  "k < 2 ^ 32 \<Longrightarrow> strncpy_pad m d i k = store_bytes m (d + of_nat i) (replicate k 0)"
  by (induction k arbitrary: m i) (simp_all add: store_bytes_Cons ac_simps)

lemma strncpy_copy_store:
  assumes "cstr m (s + of_nat i) xs" and "k < 2 ^ 32" and "length xs < 2 ^ 32"
    and "\<forall>j < k. \<forall>j' \<le> length xs. d + of_nat i + of_nat j \<noteq> s + of_nat i + of_nat j'"
  shows "strncpy_copy m d s i k = store_bytes m (d + of_nat i) (take k (xs @ replicate k 0))"
  using assms
proof (induction k arbitrary: m i xs)
  case 0
  then show ?case by simp
next
  case (Suc k)
  show ?case
  proof (cases xs)
    case Nil
    with Suc.prems show ?thesis by (simp add: store_bytes_Cons strncpy_pad_store ac_simps)
  next
    case (Cons x ys)
    let ?m = "m(d + of_nat i := x)"
    have "cstr ?m (s + of_nat (Suc i)) ys"
      using Suc.prems(1,4) Cons by (subst cstr_upd) (force simp: ac_simps)+
    moreover have "\<forall>j < k. \<forall>j' \<le> length ys.
        d + of_nat (Suc i) + of_nat j \<noteq> s + of_nat (Suc i) + of_nat j'"
      using Suc.prems(4) Cons by (auto simp: ac_simps)
    ultimately have "strncpy_copy ?m d s (Suc i) k =
        store_bytes ?m (d + of_nat (Suc i)) (take k (ys @ replicate k 0))"
      using Suc.prems(2,3) Cons by (intro Suc.IH) (simp_all del: fun_upd_apply)
    moreover have "take (Suc k) (xs @ replicate (Suc k) 0) = x # take k (ys @ replicate k 0)"
      using Cons by (simp add: replicate_append_same [symmetric] del: replicate_append_same replicate_Suc)
    ultimately show ?thesis
      using Suc.prems(1,2) Cons by (simp add: store_bytes_Cons ac_simps)
  qed
qed

lemma strtok_scan_cstr:
  assumes "cstr m p xs" and "cstr m q ys" and "q \<noteq> 0" and "no_wrap q (length ys)"
  shows "strtok_scan m q p = Some
    (let n = length (takeWhile (\<lambda>x. x \<notin> set ys) xs) in
     if n = length xs then (m, p + of_nat n) else (m(p + of_nat n := 0), p + of_nat n + 1))"
  using assms(1)
proof (induction xs arbitrary: p)
  case Nil
  then show ?case by (subst strtok_scan.simps) simp
next
  case (Cons x xs)
  obtain r where r: "strchr m q (sint x) = Some r" "r \<noteq> 0 \<longleftrightarrow> x \<in> set ys"
    using strchr_found_iff [OF assms(2-4), of x] Cons.prems by auto
  show ?case
  proof (cases "x \<in> set ys")
    case True
    with Cons.prems r show ?thesis by (subst strtok_scan.simps) simp
  next
    case False
    with Cons.prems r have "strtok_scan m q p = strtok_scan m q (p + 1)"
      by (subst strtok_scan.simps) simp
    with False Cons show ?thesis by (simp add: Let_def ac_simps)
  qed
qed

lemma cstr_cut:
  assumes "cstr m p xs" and "n < length xs" and "length xs < 2 ^ 32"
  shows "cstr (m(p + of_nat n := 0)) p (take n xs)"
    and "cstr (m(p + of_nat n := 0)) (p + of_nat n + 1) (drop (Suc n) xs)"
proof -
  have xs: "xs = take n xs @ xs ! n # drop (Suc n) xs"
    using assms(2) by (rule id_take_nth_drop)
  have "cstr m p (take n xs @ xs ! n # drop (Suc n) xs)"
    using assms(1) by (simp flip: xs)
  then have parts: "load_bytes m p n = take n xs" "0 \<notin> set (take n xs)"
      "cstr m (p + of_nat n + 1) (drop (Suc n) xs)"
    using assms(2) by (simp_all add: cstr_append)
  have "load_bytes (m(p + of_nat n := 0)) p n = load_bytes m p n"
    using assms(2,3) by (intro load_bytes_cong) (simp add: of_nat_eq_iff_small)
  with parts assms(2) show "cstr (m(p + of_nat n := 0)) p (take n xs)"
    by (simp add: cstr_iff_load)
  have "p + of_nat n \<noteq> p + of_nat n + 1 + of_nat j" if "j \<le> length (drop (Suc n) xs)" for j
    using assms(2,3) that add_of_nat_eq_iff [of n "n + 1 + j" p] by (simp add: add.assoc)
  with parts show "cstr (m(p + of_nat n := 0)) (p + of_nat n + 1) (drop (Suc n) xs)"
    by (subst cstr_upd) auto
qed

section \<open>Properties\<close>

text \<open>
  C22: \<open>memmove\<close> copies \<open>n\<close> bytes from \<open>src\<close> to \<open>dest\<close> as if through a separate buffer, whether or not
  the two ranges overlap, changes no other byte and returns \<open>dest\<close>, for ranges inside the address space.
\<close>

theorem memmove_copies:
  assumes "no_wrap dest (unat n)" and "no_wrap src (unat n)"
  shows "memmove m dest src n = (store_bytes m dest (load_bytes m src (unat n)), dest)"
  using assms
  by (simp add: memmove_def memcpy_from_store memmove_down_store copy_up_safe_le copy_down_safe_ge
      less_imp_le [OF unat_lt_2p32])

theorem memmove_copies_witness:
  "no_wrap 100 (unat (3 :: u32)) \<and> no_wrap 101 (unat (3 :: u32)) \<and>
   load_bytes (fst (memmove (\<lambda>a. ucast a) 101 100 3)) 101 3 = [100, 101, 102]"
proof -
  have nw: "no_wrap 100 (unat (3 :: u32))" "no_wrap 101 (unat (3 :: u32))"
    by (simp_all add: no_wrap_def)
  have "load_bytes (fst (memmove (\<lambda>a. ucast a) 101 100 3)) 101 3
      = load_bytes (\<lambda>a. ucast a) 100 3"
    using memmove_copies [OF nw(2,1), of "\<lambda>a. ucast a"]
      load_store_bytes [of "load_bytes (\<lambda>a. ucast a) 100 3" "\<lambda>a. ucast a" 101] by simp
  also have "\<dots> = [100, 101, 102]"
    by (simp add: load_bytes_def upt_rec)
  finally show ?thesis using nw by simp
qed

text \<open>
  \<open>strtok\<close> on a NUL-terminated string returns, ends the token at the first delimiter with a NUL,
  leaves \<open>next_token\<close> at the text after that delimiter, and changes no byte outside the string: the
  token is the longest delimiter-free prefix, and the rest of the string is what the next call sees.
\<close>

theorem strtok_splits:
  assumes "cstr m p xs" and "p \<noteq> 0" and "length xs < 2 ^ 32"
    and "cstr m delimiters ys" and "delimiters \<noteq> 0" and "no_wrap delimiters (length ys)"
    and "p = (if str \<noteq> 0 then str else next_token)"
    and "tok = takeWhile (\<lambda>x. x \<notin> set ys) xs"
  shows "\<exists>m' next_token'. strtok m next_token str delimiters = Some (m', next_token', p)
    \<and> cstr m' p tok \<and> cstr m' next_token' (drop (Suc (length tok)) xs)
    \<and> (\<forall>a. a \<noteq> p + of_nat (length tok) \<longrightarrow> m' a = m a)"
proof (cases "length tok = length xs")
  case True
  then have tok: "tok = xs"
    using assms(8) by (metis takeWhile_eq_take take_all order_refl)
  have "strtok_scan m delimiters p = Some (m, p + of_nat (length xs))"
    using strtok_scan_cstr [OF assms(1,4,5,6)] assms(8) True by (simp add: Let_def)
  with assms(1,2,7) show ?thesis
    by (simp add: strtok_def Let_def tok cstr_iff_load)
next
  case False
  then have lt: "length tok < length xs"
    using assms(8) by (metis length_takeWhile_le le_neq_implies_less)
  moreover have "tok = take (length tok) xs"
    using assms(8) by (metis takeWhile_eq_take)
  ultimately have "cstr (m(p + of_nat (length tok) := 0)) p tok"
    and "cstr (m(p + of_nat (length tok) := 0)) (p + of_nat (length tok) + 1) (drop (Suc (length tok)) xs)"
    using cstr_cut [OF assms(1) lt assms(3)] by simp_all
  then show ?thesis
    using assms False by (simp add: strtok_def strtok_scan_cstr Let_def)
qed

text \<open>The command line \<open>"ls a"\<close> at address 16 with the delimiter string \<open>" "\<close> at address 8.\<close>

definition tok_example :: mem where
  "tok_example = (\<lambda>_. 0)(8 := 32, 16 := 108, 17 := 115, 18 := 32, 19 := 97)"

theorem strtok_splits_witness:
  "\<exists>m' next_token'. strtok tok_example 0 16 8 = Some (m', next_token', 16)
    \<and> cstr m' 16 [108, 115] \<and> cstr m' next_token' [97]"
  using strtok_splits [of tok_example 16 "[108, 115, 32, 97]" 8 "[32]" 16 0 "[108, 115]"]
  by (auto simp: tok_example_def no_wrap_def)

text \<open>
  \<open>strcmp\<close> on two NUL-terminated strings returns, with 0 exactly when the strings are equal and a
  negative result exactly when the first is smaller in the lexicographic order of unsigned bytes.
\<close>

theorem strcmp_correct:
  assumes "cstr m p xs" and "cstr m q ys"
  shows "\<exists>r. strcmp m p q = Some r \<and> (r = 0 \<longleftrightarrow> xs = ys) \<and> (r < 0 \<longleftrightarrow> (xs, ys) \<in> lexord {(x, y). x < y})"
  using assms by (rule strcmp_cstr)

theorem strcmp_correct_witness:
  "\<exists>r. strcmp ((\<lambda>_. 0)(4 := 99, 5 := 100, 8 := 99)) 4 8 = Some r \<and> r \<noteq> 0 \<and> \<not> r < 0"
  using strcmp_correct [of "(\<lambda>_. 0)(4 := 99, 5 := 100, 8 := 99)" 4 "[99, 100]" 8 "[99]"] by auto

end
