(* ===== verification/Shell_Input.thy ===== *)
theory Shell_Input
  imports CString
begin

text \<open>
  The input line of the shell (\<open>src/src/user-shell.c\<close>): its own string routines, and \<open>handleInput\<close>, which reads
  a line from the keyboard with echo. The loop is a client of two system calls: \<open>polled\<close> is the sequence of the values that
  system call 4 stores into \<open>charBuffer\<close>, one for each turn of the loop (0 as long as no key was pressed), and the characters
  that are passed to system call 5 are returned in order.
\<close>

section \<open>Definitions\<close>

definition SHELL_MAX_LENGTH :: nat where "SHELL_MAX_LENGTH = 256"

text \<open>\<open>strlen\<close> from index \<open>retval\<close>; memory without a NUL makes it run on, and \<open>retval\<close> is an \<open>int\<close>.\<close>

partial_function (option) strlen_from :: "mem \<Rightarrow> u32 \<Rightarrow> nat \<Rightarrow> nat option" where
  "strlen_from m str retval = (if m (str + of_nat retval) \<noteq> 0 then strlen_from m str (Suc retval) else Some retval)"

definition strlen :: "mem \<Rightarrow> u32 \<Rightarrow> u32 option" where
  "strlen m str = map_option of_nat (strlen_from m str 0)"

fun invert_memcpy_from :: "mem \<Rightarrow> u32 \<Rightarrow> u32 \<Rightarrow> nat \<Rightarrow> nat \<Rightarrow> nat \<Rightarrow> mem" where
  "invert_memcpy_from m dstbuf srcbuf n i 0 = m"
| "invert_memcpy_from m dstbuf srcbuf n i (Suc k) =
     invert_memcpy_from (m(dstbuf + of_nat i := m (srcbuf + of_nat (n - i - 1)))) dstbuf srcbuf n (Suc i) k"

definition invert_memcpy :: "mem \<Rightarrow> u32 \<Rightarrow> u32 \<Rightarrow> u32 \<Rightarrow> mem" where
  "invert_memcpy m dest src n = invert_memcpy_from m dest src (unat n) 0 (unat n)"

text \<open>The loop of \<open>strcat\<close> from index \<open>i\<close> on, and the NUL behind it.\<close>

partial_function (option) strcat_loop :: "mem \<Rightarrow> u32 \<Rightarrow> u32 \<Rightarrow> u32 \<Rightarrow> nat \<Rightarrow> mem option" where
  "strcat_loop m dest src dest_len i =
     (if m (src + of_nat i) \<noteq> 0
      then strcat_loop (m(dest + (dest_len + of_nat i) := m (src + of_nat i))) dest src dest_len (Suc i)
      else Some (m(dest + (dest_len + of_nat i) := 0)))"

definition strcat :: "mem \<Rightarrow> u32 \<Rightarrow> u32 \<Rightarrow> (mem \<times> u32) option" where
  "strcat m dest src = do { dest_len \<leftarrow> strlen m dest; m \<leftarrow> strcat_loop m dest src dest_len 0; Some (m, dest) }"

fun clearBuffer_from :: "u8 list \<Rightarrow> nat \<Rightarrow> nat \<Rightarrow> u8 list option" where
  "clearBuffer_from buffer i 0 = Some buffer"
| "clearBuffer_from buffer i (Suc k) = Option.bind (put_at buffer i 0) (\<lambda>buffer. clearBuffer_from buffer (Suc i) k)"

definition clearBuffer :: "u8 list \<Rightarrow> nat \<Rightarrow> u8 list option" where
  "clearBuffer buffer len = clearBuffer_from buffer 0 len"

text \<open>
  \<open>handleInput\<close>: the result is the buffer, the length, the echoed characters and the values not polled yet. Without a
  newline among the polled values the loop goes on: \<^const>\<open>None\<close>.
\<close>

fun handleInput :: "u8 list \<Rightarrow> nat \<Rightarrow> u8 list \<Rightarrow> (u8 list \<times> nat \<times> u8 list \<times> u8 list) option" where
  "handleInput inputBuffer inputLength [] = None"
| "handleInput inputBuffer inputLength (charBuffer # polled) =
     (if charBuffer \<noteq> 0 then
        if charBuffer = 10 then Some (inputBuffer, inputLength, [charBuffer], polled)
        else if charBuffer = 8 then
          if inputLength > 0 then
            do { inputBuffer \<leftarrow> put_at inputBuffer inputLength 0;
                 (b, n, e, rest) \<leftarrow> handleInput inputBuffer (inputLength - 1) polled;
                 Some (b, n, charBuffer # e, rest) }
          else handleInput inputBuffer inputLength polled
        else if inputLength < SHELL_MAX_LENGTH - 1 then
          do { inputBuffer \<leftarrow> put_at inputBuffer inputLength charBuffer;
               (b, n, e, rest) \<leftarrow> handleInput inputBuffer (inputLength + 1) polled;
               Some (b, n, charBuffer # e, rest) }
        else handleInput inputBuffer inputLength polled
      else handleInput inputBuffer inputLength polled)"

section \<open>String routines\<close>

lemma strlen_from_cstr: "cstr m (str + of_nat i) xs \<Longrightarrow> strlen_from m str i = Some (i + length xs)"
proof (induction xs arbitrary: i)
  case Nil
  then show ?case by (subst strlen_from.simps) simp
next
  case (Cons x xs)
  then have "strlen_from m str (Suc i) = Some (Suc i + length xs)" by (intro Cons.IH) (simp add: algebra_simps)
  then show ?case using Cons.prems by (subst strlen_from.simps) simp
qed

lemma strlen_cstr: "cstr m str xs \<Longrightarrow> strlen m str = Some (of_nat (length xs))"
  using strlen_from_cstr [of m str 0 xs] by (simp add: strlen_def)

text \<open>\<open>invert_memcpy\<close> copies backwards, \<open>strcat\<close> appends.\<close>

lemma invert_memcpy_from_store:
  assumes "ranges_disjoint d n s n" and "i + k = n" and "n < 2 ^ 32"
  shows "invert_memcpy_from m d s n i k = store_bytes m (d + of_nat i) (map (\<lambda>j. m (s + of_nat (n - j - 1))) [i..<n])"
  using assms(2)
proof (induction k arbitrary: m i)
  case (Suc k)
  define m' where "m' = m(d + of_nat i := m (s + of_nat (n - i - 1)))"
  have same: "m' (s + of_nat (n - j - 1)) = m (s + of_nat (n - j - 1))" if "j < n" for j
  proof -
    have "i < n" "n - j - 1 < n" using Suc.prems that by simp_all
    then have "d + of_nat i \<noteq> s + of_nat (n - j - 1)" using assms(1) unfolding ranges_disjoint_def by blast
    then show ?thesis by (simp only: m'_def fun_upd_other not_sym)
  qed
  let ?xs = "map (\<lambda>j. m (s + of_nat (n - j - 1))) [Suc i..<n]"
  have tail: "map (\<lambda>j. m' (s + of_nat (n - j - 1))) [Suc i..<n] = ?xs"
    by (rule map_cong [OF refl]) (simp only: set_upt atLeastLessThan_iff same)
  have "invert_memcpy_from m d s n i (Suc k) = invert_memcpy_from m' d s n (Suc i) k" by (simp only: invert_memcpy_from.simps m'_def)
  also have "\<dots> = store_bytes m' (d + of_nat (Suc i)) ?xs" using Suc.IH [of "Suc i" m'] Suc.prems by (simp only: tail add_Suc_right add_Suc)
  also have "d + of_nat (Suc i) = d + of_nat i + (1 :: u32)" by (simp add: algebra_simps)
  also have "store_bytes m' (d + of_nat i + 1) ?xs = store_bytes m (d + of_nat i) (m (s + of_nat (n - i - 1)) # ?xs)"
    unfolding m'_def by (rule store_bytes_Cons [symmetric]) (use assms(3) in simp)
  also have "m (s + of_nat (n - i - 1)) # ?xs = map (\<lambda>j. m (s + of_nat (n - j - 1))) [i..<n]"
    using Suc.prems by (subst upt_conv_Cons [of i]) (simp_all only: list.map less_add_Suc1 refl)
  finally show ?case .
qed simp

lemma invert_memcpy_reverses:
  assumes "ranges_disjoint d (unat n) s (unat n)"
  shows "load_bytes (invert_memcpy m d s n) d (unat n) = rev (load_bytes m s (unat n))"
proof -
  have "map (\<lambda>j. m (s + of_nat (unat n - j - 1))) [0..<unat n] = rev (load_bytes m s (unat n))"
    by (rule nth_equalityI) (simp_all add: rev_nth)
  moreover have "unat n < 2 ^ 32" by simp
  ultimately have "invert_memcpy m d s n = store_bytes m d (rev (load_bytes m s (unat n)))"
    using invert_memcpy_from_store [OF assms, of 0 "unat n" m] by (simp add: invert_memcpy_def)
  then show ?thesis using load_store_bytes [of "rev (load_bytes m s (unat n))" m d] by (simp add: less_imp_le)
qed

lemma clearBuffer_zeros: "length buffer = i + k \<Longrightarrow> clearBuffer_from buffer i k = Some (take i buffer @ replicate k 0)"
proof (induction k arbitrary: buffer i)
  case (Suc k)
  then have "take (Suc i) (buffer[i := 0]) = take i buffer @ [0]" by (simp add: take_Suc_conv_app_nth)
  then show ?case using Suc by (simp add: replicate_app_Cons_same)
qed simp

lemma clearBuffer_all: "length buffer = n \<Longrightarrow> clearBuffer buffer n = Some (replicate n 0)"
  using clearBuffer_zeros [of buffer 0 n] by (simp add: clearBuffer_def)

section \<open>The line editor\<close>

text \<open>
  What the loop does to the line: the line so far, and the character behind it in the buffer that the last backspace has
  left there. A character extends the line up to 255 characters, a backspace takes its last one.
\<close>

type_synonym line = "u8 list \<times> u8 list"

definition edit :: "u8 \<Rightarrow> line \<Rightarrow> line" where
  "edit c l = (case l of (xs, left) \<Rightarrow>
     if c = 0 then l
     else if c = 8 then (if xs = [] then l else (butlast xs, [last xs]))
     else if length xs < 255 then (xs @ [c], []) else l)"

definition echoes :: "u8 \<Rightarrow> line \<Rightarrow> u8 list" where
  "echoes c l = (if fst (edit c l) = fst l then [] else [c])"

fun echo_of :: "u8 list \<Rightarrow> line \<Rightarrow> u8 list" where
  "echo_of [] l = []"
| "echo_of (c # cs) l = echoes c l @ echo_of cs (edit c l)"

definition line_buffer :: "line \<Rightarrow> u8 list" where
  "line_buffer l = fst l @ snd l @ replicate (256 - length (fst l) - length (snd l)) 0"

definition line_ok :: "line \<Rightarrow> bool" where
  "line_ok l \<longleftrightarrow> length (fst l) + length (snd l) \<le> 255 \<and> length (snd l) \<le> 1 \<and> 0 \<notin> set (fst l) \<union> set (snd l)"

lemma edit_ok: "line_ok l \<Longrightarrow> line_ok (edit c l)"
  by (cases l) (auto simp: line_ok_def edit_def dest: in_set_butlastD last_in_set)

lemma length_line_buffer [simp]: "line_ok l \<Longrightarrow> length (line_buffer l) = 256"
  by (simp add: line_ok_def line_buffer_def)

lemma buffer_append:
  assumes "line_ok (xs, left)" and "length xs < 255"
  shows "(line_buffer (xs, left))[length xs := c] = line_buffer (xs @ [c], [])"
proof (cases left)
  case Nil
  have "replicate (256 - length xs) (0 :: u8) = 0 # replicate (255 - length xs) 0" using assms(2) by (simp add: Suc_diff_le flip: replicate_Suc)
  then show ?thesis using Nil by (simp add: line_buffer_def list_update_append)
next
  case (Cons y ys)
  then have "ys = []" using assms(1) by (simp add: line_ok_def)
  then show ?thesis using Cons by (simp add: line_buffer_def list_update_append)
qed

lemma buffer_backspace:
  assumes "line_ok (xs, left)" and "xs \<noteq> []"
  shows "(line_buffer (xs, left))[length xs := 0] = line_buffer (butlast xs, [last xs])"
proof -
  have n: "length xs \<le> 255" "0 < length xs" using assms by (simp_all add: line_ok_def)
  have z: "replicate (256 - length xs) (0 :: u8) = 0 # replicate (255 - length xs) 0" using n by (simp add: Suc_diff_le flip: replicate_Suc)
  have e: "butlast xs @ last xs # zs = xs @ zs" for zs
    using append_butlast_last_id [OF assms(2)] by (metis append.assoc append_Cons append_Nil)
  have r: "line_buffer (butlast xs, [last xs]) = xs @ replicate (256 - length xs) 0"
    using n by (simp add: line_buffer_def e)
  show ?thesis
  proof (cases left)
    case Nil
    then show ?thesis using r z by (simp add: line_buffer_def list_update_append)
  next
    case (Cons y ys)
    then have "ys = []" using assms(1) by (simp add: line_ok_def)
    then show ?thesis using Cons r z by (simp add: line_buffer_def list_update_append)
  qed
qed

text \<open>The loop on a buffer that holds the line \<open>l\<close>.\<close>

lemma handle_input_edits:
  assumes "line_ok l" and "10 \<notin> set cs"
  shows "handleInput (line_buffer l) (length (fst l)) (cs @ 10 # rest) =
    Some (line_buffer (fold edit cs l), length (fst (fold edit cs l)), echo_of cs l @ [10], rest)"
  using assms
proof (induction cs arbitrary: l)
  case Nil
  then show ?case by simp
next
  case (Cons c cs)
  obtain xs left where l: "l = (xs, left)" by fastforce
  note IH = Cons.IH [OF edit_ok [OF Cons.prems(1), of c]]
  have shorter: "butlast xs \<noteq> xs" if "xs \<noteq> []" using that by (metis append_butlast_last_id append_self_conv list.discI)
  have len: "length xs \<le> 255" "length (line_buffer l) = 256" using Cons.prems(1) l by (auto simp: line_ok_def)
  consider (none) "c = 0" | (bs) "c = 8" "xs \<noteq> []" | (start) "c = 8" "xs = []" | (full) "c \<noteq> 0" "c \<noteq> 8" "\<not> length xs < 255"
    | (char) "c \<noteq> 0" "c \<noteq> 8" "length xs < 255" by blast
  then show ?case
  proof cases
    case bs
    have e: "edit c l = (butlast xs, [last xs])" "echoes c l = [8]"
      using bs l shorter by (auto simp: edit_def echoes_def)
    have "(line_buffer l)[length xs := 0] = line_buffer (edit c l)" using buffer_backspace [of xs left] bs Cons.prems(1) l e by simp
    then show ?thesis using IH Cons.prems(2) bs l e len by simp
  next
    case char
    have e: "edit c l = (xs @ [c], [])" "echoes c l = [c]" using char l by (auto simp: edit_def echoes_def)
    have "(line_buffer l)[length xs := c] = line_buffer (edit c l)" using buffer_append [of xs left c] char Cons.prems(1) l e by simp
    then show ?thesis using IH Cons.prems(2) char l e len by (simp add: SHELL_MAX_LENGTH_def)
  qed (use IH Cons.prems(2) l in \<open>simp_all add: edit_def echoes_def SHELL_MAX_LENGTH_def\<close>)
qed

section \<open>Properties\<close>

text \<open>
  The shell reads a line. When the keys before the first newline are polled, the loop ends there, whatever the keys
  are: the length is that of the edited line, every key that changed the line is echoed once and in order, and the keys
  after the newline stay. The buffer never overflows. As a C string it holds the edited line followed by the character that the last backspace
  removed, if no character was typed after it: the backspace clears the cell behind the character and not the character itself.
\<close>

theorem handle_input_reads_line:
  assumes "10 \<notin> set cs"
  shows "\<exists>xs left. fold edit cs ([], []) = (xs, left) \<and> length left \<le> 1 \<and> length xs \<le> 255 \<and>
    handleInput (replicate 256 0) 0 (cs @ 10 # rest) =
      Some (xs @ left @ replicate (256 - length xs - length left) 0, length xs, echo_of cs ([], []) @ [10], rest) \<and>
    takeWhile (\<lambda>c. c \<noteq> 0) (xs @ left @ replicate (256 - length xs - length left) 0) = xs @ left"
proof -
  have fold_ok: "line_ok (fold edit cs l)" if "line_ok l" for l using that edit_ok by (induction cs arbitrary: l) auto
  have start: "line_ok ([], [])" "line_buffer ([], []) = replicate 256 0" by (simp_all add: line_ok_def line_buffer_def)
  obtain xs left where l: "fold edit cs ([], []) = (xs, left)" by fastforce
  have ok: "line_ok (xs, left)" using fold_ok [OF start(1)] l by simp
  have "takeWhile (\<lambda>c. c \<noteq> 0) (ys @ replicate n 0) = ys" if "0 \<notin> set ys" for ys :: "u8 list" and n
    using that by (induction ys) (auto simp: takeWhile_replicate)
  from this [of "xs @ left"] show ?thesis
    using handle_input_edits [OF start(1) assms, of rest] start(2) l ok by (auto simp: line_ok_def line_buffer_def)
qed

text \<open>The keys a, b, backspace and newline: one character is left, but the command is still \<open>ab\<close>.\<close>

theorem handle_input_reads_line_witness:
  "\<exists>buf. handleInput (replicate 256 0) 0 ([97, 98, 8] @ 10 # []) = Some (buf, 1, [97, 98, 8, 10], []) \<and>
     takeWhile (\<lambda>c. c \<noteq> 0) buf = [97, 98]"
  using handle_input_reads_line [of "[97, 98, 8]" "[]"] by (auto simp: edit_def echoes_def)

end
