(* ===== verification/Fat32.thy ===== *)
theory Fat32
  imports CString Storage Layout
begin

text \<open>
  The file system driver of \<open>src/src/fat32.c\<close>: its static state, the disk it works on and the memory
  of its callers, and one definition per function. The driver state is the \<open>memory\<close> struct; the
  disk is the block storage of theory \<open>Storage\<close>; \<open>ram\<close> is the memory that \<open>request.buf\<close> points into.
  A request's buffer lies outside the driver's own static state. Error codes are the integers the code
  returns. \<^const>\<open>None\<close> marks a run that leaves an array, leaves the disk or never ends.
\<close>

section \<open>State\<close>

record fs_state =
  cluster_map :: FAT32FileAllocationTable
  dir_table_buf :: FAT32DirectoryTable
  cluster_buf :: "u8 list"
  disk :: image
  ram :: mem

definition bytes_of :: "string \<Rightarrow> u8 list" where
  "bytes_of s = map of_char s"

definition fs_signature :: "u8 list" where
  "fs_signature =
     bytes_of ''Course          '' @ bytes_of ''Designed by     '' @ bytes_of ''Lab Sister ITB  '' @
     bytes_of ''Made with <3    '' @ bytes_of ''-----------2024'' @ [10] @
     replicate (BLOCK_SIZE - 82) 0 @ bytes_of ''Ok''"

text \<open>An entry of all zero bytes, what \<open>memset(..., 0, sizeof(struct FAT32DirectoryEntry))\<close> leaves.\<close>

definition zero_entry :: FAT32DirectoryEntry where
  "zero_entry =
     \<lparr> e_name = replicate 8 0, e_ext = replicate 3 0, e_attribute = 0, e_user_attribute = 0,
       e_undelete = 0, e_create_time = 0, e_create_date = 0, e_access_date = 0, e_cluster_high = 0,
       e_modified_time = 0, e_modified_date = 0, e_cluster_low = 0, e_filesize = 0 \<rparr>"

text \<open>\<open>(int) x\<close> for a double: rounding towards zero. The doubles that occur are exact quotients.\<close>

definition int_of_double :: "rat \<Rightarrow> int" where
  "int_of_double x = (if x < 0 then \<lceil>x\<rceil> else \<lfloor>x\<rfloor>)"

definition ceil :: "rat \<Rightarrow> rat" where
  "ceil x = (let intPart = int_of_double x in if x > of_int intPart then of_int (intPart + 1) else of_int intPart)"

section \<open>Loading and storing the driver's structs\<close>

text \<open>\<open>read_clusters(memory.fat_table.cluster_map, c, 1)\<close>\<close>

definition load_fat :: "fs_state \<Rightarrow> u32 \<Rightarrow> fs_state option" where
  "load_fat s c = do { bs \<leftarrow> read_clusters (disk s) c 1; Some (s\<lparr>cluster_map := fat_of_bytes bs\<rparr>) }"

text \<open>\<open>read_clusters(memory.dir_table_buf.table, c, 1)\<close>\<close>

definition load_dir :: "fs_state \<Rightarrow> u32 \<Rightarrow> fs_state option" where
  "load_dir s c = do { bs \<leftarrow> read_clusters (disk s) c 1; Some (s\<lparr>dir_table_buf := table_of_bytes bs\<rparr>) }"

text \<open>\<open>read_clusters(ptr, c, 1)\<close> for a caller's buffer\<close>

definition load_ram :: "fs_state \<Rightarrow> u32 \<Rightarrow> u32 \<Rightarrow> fs_state option" where
  "load_ram s ptr c = do { bs \<leftarrow> read_clusters (disk s) c 1; Some (s\<lparr>ram := store_bytes (ram s) ptr bs\<rparr>) }"

text \<open>\<open>write_clusters(ptr, c, 1)\<close> for a buffer with the given bytes\<close>

definition put_cluster :: "fs_state \<Rightarrow> u8 list \<Rightarrow> u32 \<Rightarrow> fs_state option" where
  "put_cluster s bs c = do { d \<leftarrow> write_clusters (disk s) bs c 1; Some (s\<lparr>disk := d\<rparr>) }"

section \<open>Formatting and initialisation\<close>

text \<open>
  \<open>for (i = lo; i < n; i++) if (P(xs[i])) { index = i; break; }\<close>
\<close>

definition search_from :: "('a \<Rightarrow> bool) \<Rightarrow> nat \<Rightarrow> 'a list \<Rightarrow> nat option" where
  "search_from P lo xs = map_option ((+) lo) (first_index P (drop lo xs))"

text \<open>
  \<open>init_directory_table(&memory.dir_table_buf, name, parent_dir_cluster)\<close>; both callers pass this
  directory table. A search that finds nothing leaves \<open>index = 0xFFFFFFFF\<close> or \<open>tempindex = -1\<close>, and the
  store that follows is outside its array.
\<close>

definition init_directory_table :: "fs_state \<Rightarrow> u8 list \<Rightarrow> u32 \<Rightarrow> fs_state option" where
  "init_directory_table s name parent_dir_cluster =
     do { index \<leftarrow> Some (case search_from (\<lambda>v. v = FAT32_FAT_EMPTY_ENTRY) 1 (cluster_map s) of
                           Some i \<Rightarrow> of_nat i | None \<Rightarrow> - 1);
          f \<leftarrow> put_at (cluster_map s) (unat (index :: u32)) FAT32_FAT_END_OF_FILE;
          s \<leftarrow> Some (s\<lparr>cluster_map := f, cluster_buf := fat_bytes f\<rparr>);
          s \<leftarrow> put_cluster s (cluster_buf s) FAT_CLUSTER_NUMBER;
          self \<leftarrow> Some (zero_entry\<lparr>e_attribute := ATTR_SUBDIRECTORY, e_user_attribute := UATTR_NOT_EMPTY,
             e_cluster_high := cluster_high_of index, e_cluster_low := cluster_low_of index,
             e_filesize := 0, e_name := name\<rparr>);
          (s, parententry) \<leftarrow>
            (if index \<noteq> ROOT_CLUSTER_NUMBER then
               do { bs \<leftarrow> read_clusters (disk s) parent_dir_cluster 1;
                    tempindex \<leftarrow> search_from (\<lambda>e. e_user_attribute e \<noteq> UATTR_NOT_EMPTY) 0 (table_of_bytes bs);
                    parentdirtable \<leftarrow> put_at (table_of_bytes bs) tempindex self;
                    s \<leftarrow> Some (s\<lparr>cluster_buf := table_bytes parentdirtable\<rparr>);
                    s \<leftarrow> put_cluster s (cluster_buf s) parent_dir_cluster;
                    e0 \<leftarrow> get_at parentdirtable 0;
                    Some (s, e0) }
             else Some (s, self));
          parententry \<leftarrow> Some (parententry\<lparr>e_name := [46, 46, 0, 0, 0, 0, 0, 0]\<rparr>);
          t \<leftarrow> put_at (dir_table_buf s) 0 self;
          t \<leftarrow> put_at t 1 parententry;
          s \<leftarrow> Some (s\<lparr>dir_table_buf := t,
             cluster_buf := entry_bytes self @ entry_bytes parententry @ replicate (CLUSTER_SIZE - 64) 0\<rparr>);
          put_cluster s (cluster_buf s) index }"

text \<open>
  \<open>create_fat32\<close>. The call \<open>init_directory_table(..., "root", ...)\<close> copies 8 bytes from the 5-byte literal
  \<open>"root"\<close>; \<open>pad\<close> stands for the three bytes that follow the literal in memory.
\<close>

definition create_fat32 :: "u8 list \<Rightarrow> fs_state \<Rightarrow> fs_state option" where
  "create_fat32 pad s =
     do { d \<leftarrow> write_blocks (disk s) fs_signature BOOT_SECTOR 1;
          s \<leftarrow> Some (s\<lparr>disk := d\<rparr>);
          f \<leftarrow> put_at (cluster_map s) 0 CLUSTER_0_VALUE;
          f \<leftarrow> put_at f 1 CLUSTER_1_VALUE;
          s \<leftarrow> Some (s\<lparr>cluster_map := f\<rparr>);
          s \<leftarrow> put_cluster s (fat_bytes f) 1;
          init_directory_table s (bytes_of ''root'' @ [0] @ pad) ROOT_CLUSTER_NUMBER }"

definition is_empty_storage :: "fs_state \<Rightarrow> bool option" where
  "is_empty_storage s =
     do { fs_signature_check \<leftarrow> read_blocks (disk s) BOOT_SECTOR 1;
          Some (memcmp_bytes fs_signature_check fs_signature \<noteq> 0) }"

definition initialize_filesystem_fat32 :: "u8 list \<Rightarrow> fs_state \<Rightarrow> fs_state option" where
  "initialize_filesystem_fat32 pad s =
     do { empty \<leftarrow> is_empty_storage s;
          if empty then create_fat32 pad s
          else do { s \<leftarrow> load_fat s 1; load_dir s 2 } }"

section \<open>Reading\<close>

definition same_name :: "FAT32DirectoryEntry \<Rightarrow> FAT32DriverRequest \<Rightarrow> bool" where
  "same_name e r \<longleftrightarrow> memcmp_bytes (e_name e) (r_name r) = 0"

text \<open>The test \<open>memcmp(entry.name, request.name, 8) == 0 && memcmp(entry.ext, request.ext, 3) == 0\<close>.\<close>

definition same_file :: "FAT32DirectoryEntry \<Rightarrow> FAT32DriverRequest \<Rightarrow> bool" where
  "same_file e r \<longleftrightarrow> same_name e r \<and> memcmp_bytes (e_ext e) (r_ext r) = 0"

definition read_directory :: "fs_state \<Rightarrow> FAT32DriverRequest \<Rightarrow> (int \<times> fs_state) option" where
  "read_directory s request =
     do { s \<leftarrow> Some (s\<lparr>dir_table_buf := replicate DIR_ENTRY_COUNT zero_entry\<rparr>);
          s \<leftarrow> load_dir s (r_parent_cluster_number request);
          idx \<leftarrow> Some (if memcmp_bytes (r_name request) [46, 0, 0, 0, 0, 0, 0, 0] = 0 then Some 0
                       else search_from (\<lambda>e. same_name e request) 1 (dir_table_buf s));
          case idx of None \<Rightarrow> Some (2, s)
          | Some idx \<Rightarrow>
              do { e \<leftarrow> get_at (dir_table_buf s) idx;
                   s \<leftarrow> load_ram s (r_buf request) (entry_cluster e);
                   Some (0, s) } }"

text \<open>
  The loop of \<open>read\<close> over \<open>j\<close>, with \<open>k\<close> iterations left: cluster \<open>j\<close> of the file goes to
  \<open>request.buf + j * CLUSTER_SIZE\<close>, then the chain is followed in the cached table.
\<close>

fun read_loop :: "fs_state \<Rightarrow> u32 \<Rightarrow> u32 \<Rightarrow> nat \<Rightarrow> nat \<Rightarrow> fs_state option" where
  "read_loop s buf cluster_number j 0 = Some s"
| "read_loop s buf cluster_number j (Suc k) =
     do { s \<leftarrow> load_ram s (buf + of_nat (j * CLUSTER_SIZE)) cluster_number;
          next \<leftarrow> get_at (cluster_map s) (unat cluster_number);
          read_loop s buf next (Suc j) k }"

definition read :: "fs_state \<Rightarrow> FAT32DriverRequest \<Rightarrow> (int \<times> fs_state) option" where
  "read s request =
     do { s \<leftarrow> Some (s\<lparr>dir_table_buf := replicate DIR_ENTRY_COUNT zero_entry\<rparr>);
          s \<leftarrow> load_dir s (r_parent_cluster_number request);
          case search_from (\<lambda>e. same_file e request) 0 (dir_table_buf s) of
            None \<Rightarrow> Some (2, s)
          | Some idx \<Rightarrow>
              do { e \<leftarrow> get_at (dir_table_buf s) idx;
                   if e_attribute e = 1 \<or> r_buffer_size request = 0 then Some (1, s)
                   else let cluster_count = e_filesize e div of_nat CLUSTER_SIZE + 1 in
                     if cluster_count * of_nat CLUSTER_SIZE < e_filesize e then Some (0, s)
                     else do { s \<leftarrow> read_loop s (r_buf request) (entry_cluster e) 0 (unat cluster_count);
                               Some (0, s) } } }"

section \<open>Writing\<close>

text \<open>
  \<open>while (cluster_map[index] != FAT32_FAT_EMPTY_ENTRY && index < CLUSTER_MAP_SIZE) index++\<close>: the
  element is read before the bound is tested.
\<close>

function scan_empty :: "FAT32FileAllocationTable \<Rightarrow> nat \<Rightarrow> nat option" where
  "scan_empty f index =
     (case get_at f index of None \<Rightarrow> None
      | Some v \<Rightarrow> if v \<noteq> FAT32_FAT_EMPTY_ENTRY \<and> index < CLUSTER_MAP_SIZE then scan_empty f (Suc index)
                 else Some index)"
  by pat_completeness auto
termination
  by (relation "measure (\<lambda>(f, index). length f - index)") (auto simp: get_at_eq_Some_iff)

declare scan_empty.simps [simp del]

text \<open>
  \<open>while (table[j].user_attribute == UATTR_NOT_EMPTY && j < 64) j++\<close>. The file branch runs the same
  loop without the bound; both leave the table when no entry is free.
\<close>

function scan_slot :: "FAT32DirectoryTable \<Rightarrow> nat \<Rightarrow> nat option" where
  "scan_slot t j =
     (case get_at t j of None \<Rightarrow> None
      | Some e \<Rightarrow> if e_user_attribute e = UATTR_NOT_EMPTY then scan_slot t (Suc j) else Some j)"
  by pat_completeness auto
termination
  by (relation "measure (\<lambda>(t, j). length t - j)") (auto simp: get_at_eq_Some_iff)

declare scan_slot.simps [simp del]

text \<open>The entry of a new file: \<open>new_entry\<close> in \<open>write\<close>.\<close>

definition new_file_entry :: "FAT32DriverRequest \<Rightarrow> nat \<Rightarrow> FAT32DirectoryEntry" where
  "new_file_entry request tempindex =
     zero_entry\<lparr>e_user_attribute := UATTR_NOT_EMPTY, e_filesize := r_buffer_size request,
       e_cluster_high := cluster_high_of (of_nat tempindex), e_cluster_low := cluster_low_of (of_nat tempindex),
       e_name := r_name request, e_ext := r_ext request\<rparr>"

text \<open>
  The allocation loop of \<open>write\<close>, \<open>k\<close> iterations left: \<open>Inl\<close> is the early \<open>return -1\<close>, \<open>Inr\<close> carries
  the state and \<open>firstindex\<close>. \<open>i == 0\<close> is the iteration with \<open>previndex == -1\<close>, and
  \<open>i == required_clusters - 1\<close> the one with no iteration left after it.
\<close>

fun alloc_loop :: "fs_state \<Rightarrow> FAT32DriverRequest \<Rightarrow> nat \<Rightarrow> nat \<Rightarrow> nat \<Rightarrow> nat option \<Rightarrow> nat \<Rightarrow>
    (fs_state + fs_state \<times> nat) option" where
  "alloc_loop s request directory_idx tempindex firstindex previndex 0 = Some (Inr (s, firstindex))"
| "alloc_loop s request directory_idx tempindex firstindex previndex (Suc k) =
     do { tempindex \<leftarrow> scan_empty (cluster_map s) tempindex;
          if tempindex = CLUSTER_MAP_SIZE then Some (Inl s)
          else
            do { (s, firstindex) \<leftarrow>
                   (case previndex of
                      None \<Rightarrow> do { t \<leftarrow> put_at (dir_table_buf s) directory_idx (new_file_entry request tempindex);
                                   Some (s\<lparr>dir_table_buf := t\<rparr>, tempindex) }
                    | Some _ \<Rightarrow> Some (s, firstindex));
                 s \<leftarrow> (case previndex of
                      None \<Rightarrow> Some s
                    | Some p \<Rightarrow> do { f \<leftarrow> put_at (cluster_map s) p (of_nat tempindex); Some (s\<lparr>cluster_map := f\<rparr>) });
                 s \<leftarrow> (if k = 0
                       then do { f \<leftarrow> put_at (cluster_map s) tempindex FAT32_FAT_END_OF_FILE; Some (s\<lparr>cluster_map := f\<rparr>) }
                       else Some s);
                 alloc_loop s request directory_idx (Suc tempindex) firstindex (Some tempindex) k } }"

text \<open>
  The data loop of \<open>write\<close>: \<open>cluster_buf\<close> is cleared, filled with the next \<open>writesize\<close> bytes of the
  caller's buffer and written to the current cluster of the chain.
\<close>

fun write_loop :: "fs_state \<Rightarrow> u32 \<Rightarrow> nat \<Rightarrow> int \<Rightarrow> nat \<Rightarrow> nat \<Rightarrow> fs_state option" where
  "write_loop s buf tempindex totalsize i 0 = Some s"
| "write_loop s buf tempindex totalsize i (Suc k) =
     do { (writesize, totalsize) \<leftarrow>
            Some (if totalsize \<ge> int CLUSTER_SIZE then (int CLUSTER_SIZE, totalsize - int CLUSTER_SIZE)
                  else (totalsize, totalsize));
          b \<leftarrow> (if 0 \<le> writesize \<and> writesize \<le> int CLUSTER_SIZE
               then Some (load_bytes (ram s) (buf + of_nat (i * CLUSTER_SIZE)) (nat writesize)
                          @ replicate (CLUSTER_SIZE - nat writesize) 0)
               else None);
          s \<leftarrow> Some (s\<lparr>cluster_buf := b\<rparr>);
          s \<leftarrow> put_cluster s (cluster_buf s) (of_nat tempindex);
          next \<leftarrow> get_at (cluster_map s) tempindex;
          write_loop s buf (unat next) totalsize (Suc i) k }"

definition required_clusters :: "u32 \<Rightarrow> nat" where
  "required_clusters buffer_size = nat (int_of_double (ceil (of_nat (unat buffer_size) / of_nat CLUSTER_SIZE)))"

text \<open>The two branches of \<open>write\<close> on a parent table that is in use and has no entry of this name.\<close>

definition write_folder :: "fs_state \<Rightarrow> FAT32DriverRequest \<Rightarrow> (int \<times> fs_state) option" where
  "write_folder s request =
     do { j \<leftarrow> scan_slot (dir_table_buf s) 0;
          if j = DIR_ENTRY_COUNT then Some (- 1, s)
          else do { s \<leftarrow> Some (s\<lparr>dir_table_buf := replicate DIR_ENTRY_COUNT zero_entry\<rparr>);
                    s \<leftarrow> init_directory_table s (r_name request) (r_parent_cluster_number request);
                    Some (0, s) } }"

definition write_file :: "fs_state \<Rightarrow> FAT32DriverRequest \<Rightarrow> nat \<Rightarrow> (int \<times> fs_state) option" where
  "write_file s request index =
     do { directory_idx \<leftarrow> scan_slot (dir_table_buf s) 0;
          r \<leftarrow> alloc_loop s request directory_idx index 0 None (required_clusters (r_buffer_size request));
          case r of Inl s \<Rightarrow> Some (- 1, s)
          | Inr (s, firstindex) \<Rightarrow>
              do { s \<leftarrow> write_loop s (r_buf request) firstindex (sint (r_buffer_size request)) 0
                         (required_clusters (r_buffer_size request));
                   s \<leftarrow> put_cluster s (fat_bytes (cluster_map s)) FAT_CLUSTER_NUMBER;
                   s \<leftarrow> put_cluster s (table_bytes (dir_table_buf s)) (r_parent_cluster_number request);
                   Some (0, s) } }"

definition write' :: "fs_state \<Rightarrow> FAT32DriverRequest \<Rightarrow> (int \<times> fs_state) option" where
  "write' s request =
     do { s \<leftarrow> load_dir s (r_parent_cluster_number request);
          s \<leftarrow> load_fat s 1;
          index \<leftarrow> scan_empty (cluster_map s) (unat ROOT_CLUSTER_NUMBER + 1);
          if index = CLUSTER_MAP_SIZE then Some (- 1, s)
          else
            do { e0 \<leftarrow> get_at (dir_table_buf s) 0;
                 if e_user_attribute e0 = UATTR_NOT_EMPTY then
                   (if search_from (\<lambda>e. same_file e request) 0 (dir_table_buf s) \<noteq> None then Some (1, s)
                    else if r_buffer_size request = 0 then write_folder s request
                    else write_file s request index)
                 else Some (- 1, s) } }"

section \<open>Deleting\<close>

text \<open>The loop over the chain of a file: each cluster is overwritten with the cleared \<open>cluster_buf\<close>.\<close>

partial_function (option) delete_loop :: "FAT32FileAllocationTable \<Rightarrow> u8 list \<Rightarrow> image \<Rightarrow> u32 \<Rightarrow> image option" where
  "delete_loop f buf d currentcluster =
     do { nextcluster \<leftarrow> get_at f (unat currentcluster);
          d \<leftarrow> write_clusters d buf currentcluster 1;
          if nextcluster = FAT32_FAT_END_OF_FILE then Some d else delete_loop f buf d nextcluster }"

definition delete :: "fs_state \<Rightarrow> FAT32DriverRequest \<Rightarrow> (int \<times> fs_state) option" where
  "delete s request =
     do { s \<leftarrow> load_dir s (r_parent_cluster_number request);
          s \<leftarrow> load_fat s 1;
          case search_from (\<lambda>e. same_file e request) 0 (dir_table_buf s) of
            None \<Rightarrow> Some (1, s)
          | Some index \<Rightarrow>
              do { e \<leftarrow> get_at (dir_table_buf s) index;
                   if entry_cluster e = ROOT_CLUSTER_NUMBER then Some (- 1, s)
                   else
                     do { r \<leftarrow>
                            (if e_filesize e = 0 then
                               do { bs \<leftarrow> read_clusters (disk s) (entry_cluster e) 1;
                                    if search_from (\<lambda>e. e_user_attribute e = UATTR_NOT_EMPTY) 2 (table_of_bytes bs) \<noteq> None
                                    then Some (Inl s)
                                    else
                                      do { s \<leftarrow> Some (s\<lparr>cluster_buf := replicate CLUSTER_SIZE 0\<rparr>);
                                           s \<leftarrow> put_cluster s (cluster_buf s) (entry_cluster e);
                                           f \<leftarrow> put_at (cluster_map s) (unat (entry_cluster e)) FAT32_FAT_EMPTY_ENTRY;
                                           s \<leftarrow> Some (s\<lparr>cluster_map := f\<rparr>);
                                           s \<leftarrow> put_cluster s (fat_bytes f) FAT_CLUSTER_NUMBER;
                                           Some (Inr s) } }
                             else
                               do { s \<leftarrow> Some (s\<lparr>cluster_buf := replicate CLUSTER_SIZE 0\<rparr>);
                                    d \<leftarrow> delete_loop (cluster_map s) (cluster_buf s) (disk s) (entry_cluster e);
                                    Some (Inr (s\<lparr>disk := d\<rparr>)) });
                          case r of Inl s \<Rightarrow> Some (2, s)
                          | Inr s \<Rightarrow>
                              do { t \<leftarrow> put_at (dir_table_buf s) index zero_entry;
                                   s \<leftarrow> Some (s\<lparr>dir_table_buf := t\<rparr>);
                                   s \<leftarrow> put_cluster s (table_bytes t) (r_parent_cluster_number request);
                                   Some (0, s) } } } }"

end
