(* ===== verification/Fat32_Spec.thy ===== *)
theory Fat32_Spec
  imports Fat32
begin

text \<open>
  What the file system promises, stated on the disk: the chain of clusters of a file, the data of a
  directory entry, and a directory as a finite map from names to file data; then the lemmas on the
  loops of the driver (search, allocation, data transfer, chain following) that connect the code with
  these notions.
\<close>

section \<open>Abstract view of the disk\<close>

definition disk_fat :: "image \<Rightarrow> u32 list" where
  "disk_fat d = fat_of_bytes (content d FAT_CLUSTER_NUMBER)"

definition disk_dir :: "image \<Rightarrow> u32 \<Rightarrow> FAT32DirectoryTable" where
  "disk_dir d p = table_of_bytes (content d p)"

text \<open>The first \<open>n\<close> clusters of the chain that starts at \<open>c\<close>.\<close>

fun chain :: "u32 list \<Rightarrow> u32 \<Rightarrow> nat \<Rightarrow> u32 list" where
  "chain f c 0 = []"
| "chain f c (Suc n) = c # chain f (f ! unat c) n"

text \<open>The number of clusters that hold \<open>n\<close> bytes.\<close>

definition cluster_need :: "nat \<Rightarrow> nat" where
  "cluster_need n = (n + 2047) div 2048"

definition file_clusters :: "u32 list \<Rightarrow> FAT32DirectoryEntry \<Rightarrow> u32 list" where
  "file_clusters f e = chain f (entry_cluster e) (cluster_need (unat (e_filesize e)))"

definition file_data :: "image \<Rightarrow> u32 list \<Rightarrow> FAT32DirectoryEntry \<Rightarrow> u8 list" where
  "file_data d f e = take (unat (e_filesize e)) (concat (map (content d) (file_clusters f e)))"

type_synonym file_key = "u8 list \<times> u8 list"

definition key_of :: "FAT32DirectoryEntry \<Rightarrow> file_key" where
  "key_of e = (e_name e, e_ext e)"

definition request_key :: "FAT32DriverRequest \<Rightarrow> file_key" where
  "request_key r = (r_name r, r_ext r)"

text \<open>
  What a name stands for: a file with its data, or a directory, named by its cluster. The driver
  tells them apart by the file size.
\<close>

datatype node = File "u8 list" | Dir u32

definition node_of :: "image \<Rightarrow> u32 list \<Rightarrow> FAT32DirectoryEntry \<Rightarrow> node" where
  "node_of d f e = (if e_filesize e = 0 then Dir (entry_cluster e) else File (file_data d f e))"

definition used :: "FAT32DirectoryEntry \<Rightarrow> bool" where
  "used e \<longleftrightarrow> e_user_attribute e = UATTR_NOT_EMPTY"

definition lookup :: "FAT32DirectoryTable \<Rightarrow> file_key \<Rightarrow> FAT32DirectoryEntry option" where
  "lookup t k = find (\<lambda>e. used e \<and> key_of e = k) t"

text \<open>A directory as a map from names to nodes.\<close>

definition listing :: "image \<Rightarrow> u32 \<Rightarrow> file_key \<Rightarrow> node option" where
  "listing d p k = map_option (node_of d (disk_fat d)) (lookup (disk_dir d p) k)"

text \<open>A cluster that holds a file or a directory: not reserved, inside the table, not free.\<close>

definition in_use :: "u32 list \<Rightarrow> u32 \<Rightarrow> bool" where
  "in_use f c \<longleftrightarrow> 2 \<le> unat c \<and> unat c < CLUSTER_MAP_SIZE \<and> f ! unat c \<noteq> FAT32_FAT_EMPTY_ENTRY"

text \<open>The names that no request may use: the empty name, and the entry of the parent directory.\<close>

definition zero_key :: file_key where
  "zero_key = (replicate 8 0, replicate 3 0)"

definition dotdot_key :: file_key where
  "dotdot_key = ([46, 46, 0, 0, 0, 0, 0, 0], replicate 3 0)"

text \<open>
  A directory table: entry 0 describes the directory itself and entry 1 its parent, no entry has the
  attribute value 1 (the one \<open>read\<close> takes for a directory), an entry not in use is cleared, and no two
  entries in use have the same name and extension.
\<close>

definition sound_entry :: "FAT32DirectoryEntry \<Rightarrow> bool" where
  "sound_entry e \<longleftrightarrow> wf_entry e \<and> e_attribute e \<noteq> 1"

definition table_ok :: "u32 \<Rightarrow> FAT32DirectoryTable \<Rightarrow> bool" where
  "table_ok p t \<longleftrightarrow> wf_table t \<and> used (t ! 0) \<and> used (t ! 1) \<and>
     e_filesize (t ! 0) = 0 \<and> e_filesize (t ! 1) = 0 \<and> entry_cluster (t ! 0) = p \<and>
     snd (key_of (t ! 0)) = replicate 3 0 \<and> key_of (t ! 1) = dotdot_key \<and>
     (\<forall>i < 64. e_attribute (t ! i) \<noteq> 1) \<and> (\<forall>i < 64. \<not> used (t ! i) \<longrightarrow> t ! i = zero_entry) \<and>
     (\<forall>i < 64. \<forall>j < 64. used (t ! i) \<and> used (t ! j) \<and> key_of (t ! i) = key_of (t ! j) \<longrightarrow> i = j)"

definition is_subdir :: "nat \<Rightarrow> FAT32DirectoryEntry \<Rightarrow> bool" where
  "is_subdir i e \<longleftrightarrow> 2 \<le> i \<and> used e \<and> e_filesize e = 0"

text \<open>The clusters that entry \<open>i\<close> of a directory owns: the chain of a file, or the cluster of a subdirectory.\<close>

definition claim :: "u32 list \<Rightarrow> nat \<Rightarrow> FAT32DirectoryEntry \<Rightarrow> u32 list" where
  "claim f i e = (if is_subdir i e then [entry_cluster e] else file_clusters f e)"

definition claim_ok :: "u32 list \<Rightarrow> nat \<Rightarrow> FAT32DirectoryEntry \<Rightarrow> bool" where
  "claim_ok f i e \<longleftrightarrow> distinct (claim f i e) \<and>
     (\<forall>c \<in> set (claim f i e). in_use f c \<and> c \<noteq> ROOT_CLUSTER_NUMBER) \<and>
     (e_filesize e \<noteq> 0 \<longrightarrow> f ! unat (last (file_clusters f e)) = FAT32_FAT_END_OF_FILE)"

text \<open>
  The invariant of the file system, for the set \<open>D\<close> of its directories: the root is one of them, every
  directory table is well-formed, every entry owns clusters that are in use and that no other entry
  owns, every chain ends with the end-of-file mark, the directories are the root and the
  subdirectories of the directories, and entry 1 of a subdirectory leads back to its parent.
\<close>

definition tree_ok :: "u32 list \<Rightarrow> (u32 \<Rightarrow> FAT32DirectoryTable) \<Rightarrow> u32 set \<Rightarrow> bool" where
  "tree_ok f tab D \<longleftrightarrow> length f = 512 \<and> f ! 1 \<noteq> FAT32_FAT_EMPTY_ENTRY \<and> in_use f ROOT_CLUSTER_NUMBER \<and>
     (\<forall>p \<in> D. table_ok p (tab p)) \<and>
     (\<forall>p \<in> D. \<forall>i < 64. claim_ok f i (tab p ! i)) \<and>
     (\<forall>p \<in> D. \<forall>i < 64. \<forall>q \<in> D. \<forall>j < 64. (p, i) \<noteq> (q, j) \<longrightarrow>
        set (claim f i (tab p ! i)) \<inter> set (claim f j (tab q ! j)) = {}) \<and>
     D = insert ROOT_CLUSTER_NUMBER {c. \<exists>p \<in> D. \<exists>i < 64. is_subdir i (tab p ! i) \<and> c = entry_cluster (tab p ! i)} \<and>
     (\<forall>p \<in> D. \<forall>i < 64. is_subdir i (tab p ! i) \<longrightarrow> entry_cluster (tab (entry_cluster (tab p ! i)) ! 1) = p) \<and>
     entry_cluster (tab ROOT_CLUSTER_NUMBER ! 1) = ROOT_CLUSTER_NUMBER"

definition fs_ok :: "image \<Rightarrow> u32 set \<Rightarrow> bool" where
  "fs_ok d D \<longleftrightarrow> tree_ok (disk_fat d) (disk_dir d) D"

section \<open>Basic facts\<close>

lemma wf_disk_fat [simp]: "wf_fat (disk_fat d)"
  by (simp add: disk_fat_def codec_simps)

lemma length_disk_fat [simp]: "length (disk_fat d) = 512"
  using wf_disk_fat [of d] by (simp add: wf_fat_def CLUSTER_MAP_SIZE_def)

lemma wf_disk_dir [simp]: "wf_table (disk_dir d p)"
  by (simp add: disk_dir_def codec_simps)

lemma length_disk_dir [simp]: "length (disk_dir d p) = 64"
  using wf_disk_dir [of d p] by (simp add: wf_table_def DIR_ENTRY_COUNT_def)

lemma wf_disk_entry: "e \<in> set (disk_dir d p) \<Longrightarrow> wf_entry e"
  using wf_disk_dir [of d p] by (simp add: wf_table_def)

lemma wf_zero_entry [simp]: "wf_entry zero_entry"
  by (simp add: wf_entry_def zero_entry_def)

lemma cluster_ok_in_use: "in_use f c \<Longrightarrow> cluster_ok c"
  by (simp add: in_use_def cluster_ok_def CLUSTER_MAP_SIZE_def)

lemma cluster_ok_1 [simp]: "cluster_ok 1"
  by (simp add: cluster_ok_def)

lemma cluster_ok_2 [simp]: "cluster_ok 2"
  by (simp add: cluster_ok_def)

lemma not_in_use_1 [simp]: "\<not> in_use f 1"
  by (simp add: in_use_def)

lemma in_use_neq_1: "in_use f c \<Longrightarrow> c \<noteq> 1"
  by auto

lemma load_fat_ok [run_simps]:
  "cluster_ok c \<Longrightarrow> load_fat s c = Some (s\<lparr>cluster_map := fat_of_bytes (content (disk s) c)\<rparr>)"
  by (simp add: load_fat_def mem_simps)

lemma load_dir_ok [run_simps]:
  "cluster_ok c \<Longrightarrow> load_dir s c = Some (s\<lparr>dir_table_buf := disk_dir (disk s) c\<rparr>)"
  by (simp add: load_dir_def mem_simps disk_dir_def)

lemma load_ram_ok [run_simps]:
  "cluster_ok c \<Longrightarrow> load_ram s p c = Some (s\<lparr>ram := store_bytes (ram s) p (content (disk s) c)\<rparr>)"
  by (simp add: load_ram_def mem_simps)

lemma put_cluster_ok [run_simps]:
  "cluster_ok c \<Longrightarrow> length bs = 2048 \<Longrightarrow> put_cluster s bs c = Some (s\<lparr>disk := set_content (disk s) c bs\<rparr>)"
  by (simp add: put_cluster_def mem_simps)

lemma fat_of_content_1 [simp]: "fat_of_bytes (content d 1) = disk_fat d"
  by (simp add: disk_fat_def FAT_CLUSTER_NUMBER_def)

lemma same_file_iff:
  "wf_entry e \<Longrightarrow> wf_request r \<Longrightarrow> same_file e r \<longleftrightarrow> key_of e = request_key r"
  by (simp add: same_file_def same_name_def wf_entry_def wf_request_def key_of_def request_key_def
      memcmp_bytes_eq_0_iff)

lemma search_from_Some_iff:
  "search_from P lo xs = Some i \<longleftrightarrow> lo \<le> i \<and> i < length xs \<and> P (xs ! i) \<and> (\<forall>j. lo \<le> j \<and> j < i \<longrightarrow> \<not> P (xs ! j))"
proof -
  have "search_from P lo xs = Some i \<longleftrightarrow> (\<exists>k. first_index P (drop lo xs) = Some k \<and> i = lo + k)"
    by (auto simp: search_from_def)
  also have "\<dots> \<longleftrightarrow> lo \<le> i \<and> first_index P (drop lo xs) = Some (i - lo)"
    by (metis add_diff_cancel_left' le_add1 le_add_diff_inverse)
  also have "\<dots> \<longleftrightarrow> lo \<le> i \<and> i < length xs \<and> P (xs ! i) \<and> (\<forall>j. lo \<le> j \<and> j < i \<longrightarrow> \<not> P (xs ! j))"
    by (auto simp: first_index_Some_iff) (metis add_diff_inverse_nat diff_less_mono linorder_not_less)
  finally show ?thesis .
qed

lemma search_from_None_iff:
  "search_from P lo xs = None \<longleftrightarrow> (\<forall>i. lo \<le> i \<and> i < length xs \<longrightarrow> \<not> P (xs ! i))"
proof -
  have "search_from P lo xs = None \<longleftrightarrow> (\<forall>x \<in> set (drop lo xs). \<not> P x)"
    by (simp add: search_from_def first_index_None_iff)
  also have "\<dots> \<longleftrightarrow> (\<forall>i. lo \<le> i \<and> i < length xs \<longrightarrow> \<not> P (xs ! i))"
    by (auto simp: set_conv_nth) (metis add_diff_inverse_nat diff_less_mono linorder_not_less)
  finally show ?thesis .
qed

lemma search_find:
  "(case search_from P 0 xs of Some i \<Rightarrow> Some (xs ! i) | None \<Rightarrow> None) = find P xs"
  unfolding search_from_def by (induction xs) (auto split: option.splits)

section \<open>The allocation table\<close>

text \<open>The free clusters from \<open>lo\<close> on, in ascending order.\<close>

definition frees :: "u32 list \<Rightarrow> nat \<Rightarrow> nat list" where
  "frees f lo = filter (\<lambda>i. f ! i = FAT32_FAT_EMPTY_ENTRY) [lo..<CLUSTER_MAP_SIZE]"

text \<open>The table with the clusters of \<open>cs\<close> linked into one chain that ends in the end-of-file mark.\<close>

fun link :: "u32 list \<Rightarrow> nat list \<Rightarrow> u32 list" where
  "link f [] = f"
| "link f [c] = f[c := FAT32_FAT_END_OF_FILE]"
| "link f (c # c' # cs) = link (f[c := of_nat c']) (c' # cs)"

lemma frees_step:
  "lo < 512 \<Longrightarrow> frees f lo = (if f ! lo = FAT32_FAT_EMPTY_ENTRY then lo # frees f (Suc lo) else frees f (Suc lo))"
  by (simp add: frees_def CLUSTER_MAP_SIZE_def upt_conv_Cons)

lemma frees_512 [simp]: "512 \<le> lo \<Longrightarrow> frees f lo = []"
  by (simp add: frees_def CLUSTER_MAP_SIZE_def)

lemma in_frees: "c \<in> set (frees f lo) \<longleftrightarrow> lo \<le> c \<and> c < 512 \<and> f ! c = FAT32_FAT_EMPTY_ENTRY"
  by (auto simp: frees_def CLUSTER_MAP_SIZE_def)

lemma distinct_frees [simp]: "distinct (frees f lo)"
  by (simp add: frees_def)

lemma sorted_frees: "sorted (frees f lo)"
  by (simp add: frees_def sorted_wrt_filter)

lemma frees_upd [simp]: "p < lo \<Longrightarrow> frees (f[p := v]) lo = frees f lo"
  by (auto simp: frees_def intro!: filter_cong)

lemma frees_Cons:
  assumes "frees f lo = c # cs"
  shows "lo \<le> c" and "c < 512" and "cs = frees f (Suc c)"
proof -
  have "c \<in> set (frees f lo)" using assms by simp
  then show *: "lo \<le> c" "c < 512" by (simp_all add: in_frees)
  show "cs = frees f (Suc c)"
    using assms *
  proof (induction "c - lo" arbitrary: lo)
    case 0
    then have "c = lo" and "lo \<notin> set (frees f (Suc lo))" by (simp_all add: in_frees)
    with 0 show ?case by (auto simp: frees_step split: if_splits)
  next
    case (Suc n)
    then have "lo < c" by simp
    with Suc.prems frees_step [of lo f] have "frees f (Suc lo) = c # cs" by (simp split: if_splits)
    with Suc \<open>lo < c\<close> show ?case by (intro Suc.hyps(1) [of "Suc lo"]) simp_all
  qed
qed

lemma scan_empty_frees:
  assumes "length f = 512"
  shows "scan_empty f i = (case frees f i of [] \<Rightarrow> None | c # _ \<Rightarrow> Some c)"
  using assms
proof (induction f i rule: scan_empty.induct)
  case (1 f i)
  show ?case
  proof (cases "i < 512")
    case True
    with 1 show ?thesis
      by (subst scan_empty.simps) (simp add: frees_step CLUSTER_MAP_SIZE_def)
  next
    case False
    with 1 show ?thesis by (subst scan_empty.simps) simp
  qed
qed

lemma scan_slot_search: "scan_slot t j = search_from (\<lambda>e. e_user_attribute e \<noteq> UATTR_NOT_EMPTY) j t"
proof (induction t j rule: scan_slot.induct)
  case (1 t j)
  show ?case
  proof (cases "j < length t")
    case True
    then have "drop j t = t ! j # drop (Suc j) t" by (simp add: Cons_nth_drop_Suc)
    moreover have "(+) (Suc j) = (\<lambda>x. Suc (j + x))" by auto
    ultimately show ?thesis
      using 1 True by (subst scan_slot.simps) (auto simp: search_from_def option.map_comp o_def)
  next
    case False
    then show ?thesis by (subst scan_slot.simps) (simp add: search_from_def)
  qed
qed

lemma length_link [simp]: "length (link f cs) = length f"
  by (induction f cs rule: link.induct) simp_all

lemma link_other [simp]: "i \<notin> set cs \<Longrightarrow> link f cs ! i = f ! i"
  by (induction f cs rule: link.induct) auto

lemma link_last:
  "cs \<noteq> [] \<Longrightarrow> distinct cs \<Longrightarrow> last cs < length f \<Longrightarrow> link f cs ! last cs = FAT32_FAT_END_OF_FILE"
  by (induction f cs rule: link.induct) auto

lemma link_nonempty:
  assumes "c \<in> set cs" and "distinct cs" and "set cs \<subseteq> {1..<512}" and "length f = 512"
  shows "link f cs ! c \<noteq> FAT32_FAT_EMPTY_ENTRY"
  using assms
proof (induction f cs rule: link.induct)
  case (3 f c0 c1 cs)
  show ?case
  proof (cases "c = c0")
    case True
    with 3 have "link (f[c0 := of_nat c1]) (c1 # cs) ! c = of_nat c1" by auto
    moreover have "(of_nat c1 :: u32) \<noteq> 0"
      using 3 of_nat_eq_iff_small [of c1 0, where 'a = 32] by auto
    ultimately show ?thesis using True by (simp add: fat_consts)
  next
    case False
    with 3 show ?thesis by simp
  qed
qed (auto simp: fat_consts)

lemma chain_cong:
  assumes "\<And>c'. c' \<in> set (chain f c n) \<Longrightarrow> g ! unat c' = f ! unat c'"
  shows "chain g c n = chain f c n"
  using assms by (induction n arbitrary: c) auto

lemma length_chain [simp]: "length (chain f c n) = n"
  by (induction n arbitrary: c) auto

lemma chain_link:
  assumes "cs \<noteq> []" and "distinct cs" and "set cs \<subseteq> {0..<512}" and "length f = 512"
  shows "chain (link f cs) (of_nat (hd cs)) (length cs) = map of_nat cs"
  using assms
proof (induction f cs rule: link.induct)
  case (3 f c0 c1 cs)
  then have "link (f[c0 := of_nat c1]) (c1 # cs) ! c0 = of_nat c1" by auto
  with 3 show ?case by simp
qed auto

section \<open>The loops of write\<close>

lemma alloc_loop_next:
  assumes "length (cluster_map s) = 512" and "Suc k \<le> length (frees (cluster_map s) t)" and "p < t"
  shows "alloc_loop s r d t fi (Some p) (Suc k)
    = Some (Inr (s\<lparr>cluster_map := link (cluster_map s) (p # take (Suc k) (frees (cluster_map s) t))\<rparr>, fi))"
  using assms
proof (induction k arbitrary: s t p)
  case 0
  then obtain c cs where fr: "frees (cluster_map s) t = c # cs"
    by (cases "frees (cluster_map s) t") auto
  from frees_Cons [OF fr] 0 fr show ?case
    by (simp add: scan_empty_frees CLUSTER_MAP_SIZE_def)
next
  case (Suc k)
  then obtain c cs where fr: "frees (cluster_map s) t = c # cs"
    by (cases "frees (cluster_map s) t") auto
  note c = frees_Cons [OF fr]
  let ?s = "s\<lparr>cluster_map := (cluster_map s)[p := of_nat c]\<rparr>"
  have "p < Suc c" using Suc.prems(3) c by simp
  then have fr': "frees (cluster_map ?s) (Suc c) = cs" using c by simp
  have "alloc_loop s r d t fi (Some p) (Suc (Suc k)) = alloc_loop ?s r d (Suc c) fi (Some c) (Suc k)"
    using Suc.prems c fr by (subst alloc_loop.simps) (simp add: scan_empty_frees CLUSTER_MAP_SIZE_def)
  also have "\<dots> = Some (Inr (?s\<lparr>cluster_map := link (cluster_map ?s) (c # take (Suc k) (frees (cluster_map ?s) (Suc c)))\<rparr>, fi))"
    using Suc.prems fr fr' by (intro Suc.IH) simp_all
  finally show ?case unfolding fr' using fr by simp
qed

lemma alloc_loop_first:
  assumes "length (cluster_map s) = 512" and "0 < k" and "k \<le> length (frees (cluster_map s) t)"
    and "d < length (dir_table_buf s)" and "cs = take k (frees (cluster_map s) t)"
  shows "alloc_loop s r d t fi None k
    = Some (Inr (s\<lparr>cluster_map := link (cluster_map s) cs,
        dir_table_buf := (dir_table_buf s)[d := new_file_entry r (hd cs)]\<rparr>, hd cs))"
proof -
  obtain c ds where fr: "frees (cluster_map s) t = c # ds"
    using assms(2,3) by (cases "frees (cluster_map s) t") auto
  note c = frees_Cons [OF fr]
  obtain k' where k: "k = Suc k'" using assms(2) by (cases k) auto
  let ?s = "s\<lparr>dir_table_buf := (dir_table_buf s)[d := new_file_entry r c]\<rparr>"
  show ?thesis
  proof (cases k')
    case 0
    with c fr k assms show ?thesis by (simp add: scan_empty_frees CLUSTER_MAP_SIZE_def)
  next
    case (Suc n)
    have "alloc_loop s r d t fi None k = alloc_loop ?s r d (Suc c) c (Some c) (Suc n)"
      using assms c fr k Suc by (subst k, subst alloc_loop.simps) (simp add: scan_empty_frees CLUSTER_MAP_SIZE_def)
    also have "\<dots> = Some (Inr (?s\<lparr>cluster_map := link (cluster_map ?s) (c # take (Suc n) (frees (cluster_map ?s) (Suc c)))\<rparr>, c))"
      using assms k Suc fr c by (intro alloc_loop_next) simp_all
    finally show ?thesis using assms(5) k Suc fr c by simp
  qed
qed

text \<open>The number of clusters \<open>write\<close> allocates is the number its data needs.\<close>

lemma floor_quotient: "\<lfloor>(of_nat n :: rat) / 2048\<rfloor> = int (n div 2048)"
  using floor_divide_of_nat_eq [of n 2048, where 'a = rat] by simp

lemma ceil_quotient: "ceil (of_nat n / 2048) = of_nat (cluster_need n)"
proof -
  have nonneg: "\<not> (of_nat n / 2048 :: rat) < 0" by simp
  have "(of_nat n :: rat) = of_nat (n mod 2048) + 2048 * of_nat (n div 2048)"
    by (metis add.commute mult_div_mod_eq of_nat_add of_nat_mult of_nat_numeral)
  then have "(of_nat n / 2048 :: rat) > of_nat (n div 2048) \<longleftrightarrow> n mod 2048 \<noteq> 0" by simp
  moreover have "cluster_need n = (if n mod 2048 \<noteq> 0 then n div 2048 + 1 else n div 2048)"
    unfolding cluster_need_def by (auto simp: div_add1_eq [of n 2047])
  ultimately show ?thesis
    using nonneg by (auto simp: ceil_def int_of_double_def floor_quotient Let_def)
qed

lemma required_clusters_need [simp]: "required_clusters n = cluster_need (unat n)"
  by (simp only: required_clusters_def CLUSTER_SIZE_eq of_nat_numeral ceil_quotient) (simp add: int_of_double_def)

text \<open>
  The bytes at \<open>p\<close> in blocks of the cluster size, the last one padded with zeroes: what the data
  loop of \<open>write\<close> puts into its \<open>k\<close> clusters.
\<close>

fun blocks :: "mem \<Rightarrow> u32 \<Rightarrow> nat \<Rightarrow> nat \<Rightarrow> u8 list list" where
  "blocks m p n 0 = []"
| "blocks m p n (Suc k) =
     (load_bytes m p (min n 2048) @ replicate (2048 - n) 0) # blocks m (p + 2048) (n - 2048) k"

lemma length_blocks [simp]: "length (blocks m p n k) = k"
  by (induction k arbitrary: p n) simp_all

lemma length_in_blocks: "b \<in> set (blocks m p n k) \<Longrightarrow> length b = 2048"
  by (induction k arbitrary: p n) auto

lemma take_concat_blocks:
  "n \<le> 2048 * k \<Longrightarrow> take n (concat (blocks m p n k)) = load_bytes m p n"
proof (induction k arbitrary: p n)
  case (Suc k)
  show ?case
  proof (cases "2048 \<le> n")
    case True
    with Suc have "take (n - 2048) (concat (blocks m (p + 2048) (n - 2048) k)) = load_bytes m (p + 2048) (n - 2048)"
      by (intro Suc.IH) simp
    with True load_bytes_add [of m p 2048 "n - 2048"] show ?thesis by (simp add: min_absorb2)
  qed simp
qed simp

lemma cluster_need_bounds: "n \<le> 2048 * cluster_need n" "0 < n \<Longrightarrow> 0 < cluster_need n"
  unfolding cluster_need_def by linarith+

lemma cluster_need_step:
  "2048 \<le> n \<Longrightarrow> cluster_need n = Suc (cluster_need (n - 2048))" "0 < n \<Longrightarrow> n < 2048 \<Longrightarrow> cluster_need n = 1"
  "cluster_need 0 = 0"
  unfolding cluster_need_def by (simp_all add: le_div_geq)

text \<open>What the data loop of \<open>write\<close> does: the blocks of the buffer go to the clusters of the chain.\<close>

lemma write_loop_blocks:
  assumes "length (cluster_map s) = 512" and "k = cluster_need n"
    and "\<forall>c' \<in> set (chain (cluster_map s) (of_nat c) k). unat c' < 512" and "c < 2 ^ 32"
  shows "\<exists>b. write_loop s buf c (int n) i k
     = Some (s\<lparr>disk := fold (\<lambda>(c, bs) d. set_content d c bs)
         (zip (chain (cluster_map s) (of_nat c) k) (blocks (ram s) (buf + of_nat (i * 2048)) n k)) (disk s),
         cluster_buf := b\<rparr>)"
  using assms
proof (induction k arbitrary: s c n i)
  case 0
  show ?case by (intro exI [of _ "cluster_buf s"]) simp
next
  case (Suc k)
  let ?b = "load_bytes (ram s) (buf + of_nat (i * 2048)) (min n 2048) @ replicate (2048 - n) 0"
  let ?s = "s\<lparr>cluster_buf := ?b, disk := set_content (disk s) (of_nat c) ?b\<rparr>"
  have c: "c < 512" using Suc.prems(3,4) by simp
  then have ok: "cluster_ok (of_nat c)" by (simp add: cluster_ok_def)
  show ?case
  proof (cases "2048 \<le> n")
    case True
    have "\<exists>b. write_loop ?s buf (unat (cluster_map ?s ! c)) (int (n - 2048)) (Suc i) k
       = Some (?s\<lparr>disk := fold (\<lambda>(c, bs) d. set_content d c bs)
         (zip (chain (cluster_map ?s) (of_nat (unat (cluster_map ?s ! c))) k)
           (blocks (ram ?s) (buf + of_nat (Suc i * 2048)) (n - 2048) k)) (disk ?s),
         cluster_buf := b\<rparr>)"
      using Suc.prems True c by (intro Suc.IH) (simp_all add: cluster_need_step)
    with True c ok Suc.prems(1) show ?thesis
      by (simp add: put_cluster_ok of_nat_diff min_absorb2 algebra_simps)
  next
    case False
    then have "k = 0" using Suc.prems(2) cluster_need_step(2) [of n] cluster_need_step(3) by (cases "n = 0") simp_all
    with False c ok Suc.prems(1) show ?thesis
      by (intro exI [of _ ?b]) (simp add: put_cluster_ok min_absorb1)
  qed
qed

section \<open>The loop of read\<close>

lemma read_loop_data:
  assumes "length (cluster_map s) = 512" and "\<forall>c' \<in> set (chain (cluster_map s) c k). unat c' < 512"
    and "(j + k) * 2048 \<le> 2 ^ 32" and "load_bytes (ram s) buf (j * 2048) = xs"
  shows "\<exists>m. read_loop s buf c j k = Some (s\<lparr>ram := m\<rparr>) \<and>
     load_bytes m buf ((j + k) * 2048) = xs @ concat (map (content (disk s)) (chain (cluster_map s) c k)) \<and>
     (\<forall>a. (j + k) * 2048 \<le> unat (a - buf) \<longrightarrow> m a = ram s a)"
  using assms
proof (induction k arbitrary: s c j xs)
  case 0
  then show ?case by (intro exI [of _ "ram s"]) simp
next
  case (Suc k)
  let ?m = "store_bytes (ram s) (buf + of_nat (j * 2048)) (content (disk s) c)"
  let ?s = "s\<lparr>ram := ?m\<rparr>"
  have c: "unat c < 512" using Suc.prems(2) by simp
  then have ok: "cluster_ok c" by (simp add: cluster_ok_def)
  have "load_bytes ?m buf (j * 2048 + length (content (disk s) c)) = xs @ content (disk s) c"
    using Suc.prems(3,4) by (intro flat.load_store_next) simp_all
  then have load: "load_bytes (ram ?s) buf (Suc j * 2048) = xs @ content (disk s) c"
    by (simp add: add.commute)
  have "?m a = ram s a" if "(j + Suc k) * 2048 \<le> unat (a - buf)" for a
  proof (rule store_bytes_outside)
    have "unat (a - buf - of_nat (j * 2048)) = unat (a - buf) - j * 2048"
      using that by (intro unat_diff_small) simp
    then show "\<not> unat (a - (buf + of_nat (j * 2048))) < length (content (disk s) c)"
      using that by (simp add: diff_diff_eq)
  qed
  moreover have "\<exists>m. read_loop ?s buf (cluster_map ?s ! unat c) (Suc j) k = Some (?s\<lparr>ram := m\<rparr>) \<and>
     load_bytes m buf ((Suc j + k) * 2048)
       = (xs @ content (disk s) c) @ concat (map (content (disk ?s)) (chain (cluster_map ?s) (cluster_map ?s ! unat c) k)) \<and>
     (\<forall>a. (Suc j + k) * 2048 \<le> unat (a - buf) \<longrightarrow> m a = ram ?s a)"
    using Suc.prems load by (intro Suc.IH) simp_all
  ultimately show ?case
    using c ok Suc.prems(1) by (auto simp: load_ram_ok)
qed

end
