(* ===== verification/Fat32_Tree.thy ===== *)
theory Fat32_Tree
  imports Fat32_Spec
begin

text \<open>
  The directory tree on its own, as tables and an allocation table: looking a name up after an entry
  was added or cleared, and the four changes the driver makes (a file added, a file cleared, a
  directory added, a directory removed) as operations that keep the invariant \<open>tree_ok\<close>.
\<close>

section \<open>Looking up a name\<close>

lemma table_ok_wf_table: "table_ok p t \<Longrightarrow> wf_table t"
  by (simp add: table_ok_def)

lemma table_ok_length: "table_ok p t \<Longrightarrow> length t = 64"
  using table_ok_wf_table by (simp add: wf_table_def DIR_ENTRY_COUNT_def)

lemma table_ok_wf: "table_ok p t \<Longrightarrow> i < 64 \<Longrightarrow> wf_entry (t ! i)"
  using table_ok_wf_table [of p t] table_ok_length [of p t] nth_mem [of i t] by (simp add: wf_table_def)

lemma table_ok_unique:
  "table_ok p t \<Longrightarrow> i < 64 \<Longrightarrow> j < 64 \<Longrightarrow> used (t ! i) \<Longrightarrow> used (t ! j) \<Longrightarrow> key_of (t ! i) = key_of (t ! j) \<Longrightarrow> i = j"
  by (simp add: table_ok_def)

lemma table_ok_unused: "table_ok p t \<Longrightarrow> i < 64 \<Longrightarrow> \<not> used (t ! i) \<Longrightarrow> t ! i = zero_entry"
  by (simp add: table_ok_def)

lemma table_ok_heads: "table_ok p t \<Longrightarrow> e_filesize (t ! 0) = 0" "table_ok p t \<Longrightarrow> e_filesize (t ! 1) = 0"
  by (simp_all add: table_ok_def)

lemma table_ok_attribute: "table_ok p t \<Longrightarrow> i < 64 \<Longrightarrow> e_attribute (t ! i) \<noteq> 1"
  by (simp add: table_ok_def)

lemma attribute_zero [simp]: "e_attribute zero_entry = 0"
  by (simp add: zero_entry_def)

lemma filesize_zero [simp]: "e_filesize zero_entry = 0"
  by (simp add: zero_entry_def)

lemma not_used_zero [simp]: "\<not> used zero_entry"
  by (simp add: used_def zero_entry_def fat_consts)

lemma key_zero [simp]: "key_of zero_entry = zero_key"
  by (simp add: key_of_def zero_entry_def zero_key_def)

lemma lookup_eq_Some:
  assumes "table_ok p t"
  shows "lookup t k = Some e \<longleftrightarrow> (\<exists>i < 64. e = t ! i \<and> used e \<and> key_of e = k)"
proof
  assume "lookup t k = Some e"
  then show "\<exists>i < 64. e = t ! i \<and> used e \<and> key_of e = k"
    using table_ok_length [OF assms] by (auto simp: lookup_def find_Some_iff)
next
  assume "\<exists>i < 64. e = t ! i \<and> used e \<and> key_of e = k"
  then obtain i where "i < 64" "e = t ! i" "used e" "key_of e = k" by blast
  moreover have "\<not> (used (t ! j) \<and> key_of (t ! j) = key_of (t ! i))" if "j < i" for j
    using that table_ok_unique [OF assms, of i j] calculation by auto
  ultimately show "lookup t k = Some e"
    using table_ok_length [OF assms] unfolding lookup_def find_Some_iff by (intro exI [of _ i]) auto
qed

lemma lookup_eq_None:
  "table_ok p t \<Longrightarrow> lookup t k = None \<longleftrightarrow> (\<forall>i < 64. used (t ! i) \<longrightarrow> key_of (t ! i) \<noteq> k)"
  using table_ok_length [of p t] by (auto simp: lookup_def find_None_iff in_set_conv_nth)

text \<open>Adding an entry in a free slot, and clearing an entry.\<close>

lemma free_slot_ge_2:
  assumes "table_ok p t" and "\<not> used (t ! i)"
  shows "2 \<le> i"
proof (rule ccontr)
  assume "\<not> 2 \<le> i"
  then have "i = 0 \<or> i = 1" by auto
  with assms show False by (auto simp: table_ok_def)
qed

lemma table_ok_add:
  assumes t: "table_ok p t" and i: "i < 64" "\<not> used (t ! i)" and e: "sound_entry e" "used e" "lookup t (key_of e) = None"
  shows "table_ok p (t[i := e])"
proof -
  have "2 \<le> i" using t i by (auto intro: free_slot_ge_2)
  moreover have "\<forall>j < 64. used (t ! j) \<longrightarrow> key_of (t ! j) \<noteq> key_of e"
    using e(3) by (simp add: lookup_eq_None [OF t])
  ultimately show ?thesis
    using t i(1) e(1,2) table_ok_length [OF t]
    by (simp add: table_ok_def sound_entry_def wf_table_update nth_list_update) metis
qed

lemma lookup_add:
  assumes t: "table_ok p t" and i: "i < 64" "\<not> used (t ! i)" and e: "sound_entry e" "used e" "lookup t (key_of e) = None"
  shows "lookup (t[i := e]) = (lookup t)(key_of e \<mapsto> e)"
proof (rule ext, rule option.expand)
  note t' = table_ok_add [OF assms]
  note len = table_ok_length [OF t]
  fix k
  show "lookup (t[i := e]) k = None \<longleftrightarrow> ((lookup t)(key_of e \<mapsto> e)) k = None"
    using i e(2) len by (auto simp: lookup_eq_None [OF t'] lookup_eq_None [OF t] nth_list_update)
  assume "lookup (t[i := e]) k \<noteq> None"
  then obtain x where x: "lookup (t[i := e]) k = Some x" by auto
  moreover have "((lookup t)(key_of e \<mapsto> x)) k = Some x \<and> (k = key_of e \<longrightarrow> x = e)"
    using x i e len unfolding lookup_eq_Some [OF t'] fun_upd_apply
    by (auto simp: lookup_eq_Some [OF t] lookup_eq_None [OF t] nth_list_update split: if_splits)
  ultimately show "the (lookup (t[i := e]) k) = the (((lookup t)(key_of e \<mapsto> e)) k)"
    by (auto split: if_splits)
qed

lemma table_ok_del:
  assumes t: "table_ok p t" and i: "2 \<le> i" "i < 64"
  shows "table_ok p (t[i := zero_entry])"
  using t i table_ok_length [OF t]
  by (simp add: table_ok_def wf_table_update nth_list_update)

lemma lookup_del:
  assumes t: "table_ok p t" and i: "2 \<le> i" "i < 64" and u: "used (t ! i)"
  shows "lookup (t[i := zero_entry]) = (lookup t)(key_of (t ! i) := None)"
proof (rule ext, rule option.expand)
  note t' = table_ok_del [OF t i]
  note len = table_ok_length [OF t]
  note uniq = table_ok_unique [OF t _ i(2)]
  fix k
  show "lookup (t[i := zero_entry]) k = None \<longleftrightarrow> ((lookup t)(key_of (t ! i) := None)) k = None"
    using i len u uniq
    by (simp add: lookup_eq_None [OF t'] lookup_eq_None [OF t] nth_list_update) metis
  assume "lookup (t[i := zero_entry]) k \<noteq> None"
  then obtain x where x: "lookup (t[i := zero_entry]) k = Some x" by auto
  then obtain j where j: "j < 64" "j \<noteq> i" "x = t ! j" "used x" "key_of x = k"
    using i len by (auto simp: lookup_eq_Some [OF t'] nth_list_update split: if_splits)
  then have "lookup t k = Some x" "k \<noteq> key_of (t ! i)"
    using uniq [of j] u by (auto simp: lookup_eq_Some [OF t])
  with x show "the (lookup (t[i := zero_entry]) k) = the (((lookup t)(key_of (t ! i) := None)) k)"
    by simp
qed

text \<open>The search of the driver, which does not look at \<open>user_attribute\<close>, finds the entry of the name.\<close>

lemma search_same_file:
  assumes t: "table_ok p t" and r: "wf_request r" "request_key r \<noteq> zero_key"
  shows "search_from (\<lambda>e. same_file e r) 0 t = Some i
    \<longleftrightarrow> i < 64 \<and> used (t ! i) \<and> key_of (t ! i) = request_key r"
proof -
  have same: "same_file (t ! j) r \<longleftrightarrow> used (t ! j) \<and> key_of (t ! j) = request_key r" if "j < 64" for j
    using r table_ok_wf [OF t that] table_ok_unused [OF t that]
    by (cases "used (t ! j)") (simp_all add: same_file_iff)
  show ?thesis
    using same table_ok_length [OF t] table_ok_unique [OF t]
    by (auto simp: search_from_Some_iff) (metis less_irrefl less_trans)
qed

lemma search_same_file_None:
  assumes t: "table_ok p t" and r: "wf_request r" "request_key r \<noteq> zero_key"
  shows "search_from (\<lambda>e. same_file e r) 0 t = None \<longleftrightarrow> lookup t (request_key r) = None"
  using search_same_file [OF assms] lookup_eq_None [OF t, of "request_key r"]
  by (metis not_None_eq)

section \<open>Claims\<close>

lemma tree_okD:
  assumes "tree_ok f tab D"
  shows tree_length: "length f = 512"
    and tree_reserved: "f ! 1 \<noteq> FAT32_FAT_EMPTY_ENTRY"
    and tree_root_used: "in_use f ROOT_CLUSTER_NUMBER"
    and tree_table: "p \<in> D \<Longrightarrow> table_ok p (tab p)"
    and tree_claim: "p \<in> D \<Longrightarrow> i < 64 \<Longrightarrow> claim_ok f i (tab p ! i)"
    and tree_disjoint: "p \<in> D \<Longrightarrow> i < 64 \<Longrightarrow> q \<in> D \<Longrightarrow> j < 64 \<Longrightarrow> (p, i) \<noteq> (q, j) \<Longrightarrow>
        set (claim f i (tab p ! i)) \<inter> set (claim f j (tab q ! j)) = {}"
    and tree_dirs: "c \<in> D \<longleftrightarrow> c = ROOT_CLUSTER_NUMBER \<or>
        (\<exists>p \<in> D. \<exists>i < 64. is_subdir i (tab p ! i) \<and> c = entry_cluster (tab p ! i))"
    and tree_parent: "p \<in> D \<Longrightarrow> i < 64 \<Longrightarrow> is_subdir i (tab p ! i) \<Longrightarrow>
        entry_cluster (tab (entry_cluster (tab p ! i)) ! 1) = p"
    and tree_root_parent: "entry_cluster (tab ROOT_CLUSTER_NUMBER ! 1) = ROOT_CLUSTER_NUMBER"
proof -
  show "length f = 512" "f ! 1 \<noteq> FAT32_FAT_EMPTY_ENTRY" "in_use f ROOT_CLUSTER_NUMBER"
    "entry_cluster (tab ROOT_CLUSTER_NUMBER ! 1) = ROOT_CLUSTER_NUMBER"
    using assms unfolding tree_ok_def by - (elim conjE, assumption)+
  have "\<forall>p \<in> D. table_ok p (tab p)"
    using assms unfolding tree_ok_def by (elim conjE) assumption
  then show "p \<in> D \<Longrightarrow> table_ok p (tab p)" by blast
  have "\<forall>p \<in> D. \<forall>i < 64. claim_ok f i (tab p ! i)"
    using assms unfolding tree_ok_def by (elim conjE) assumption
  then show "p \<in> D \<Longrightarrow> i < 64 \<Longrightarrow> claim_ok f i (tab p ! i)" by blast
  have "\<forall>p \<in> D. \<forall>i < 64. \<forall>q \<in> D. \<forall>j < 64. (p, i) \<noteq> (q, j) \<longrightarrow>
        set (claim f i (tab p ! i)) \<inter> set (claim f j (tab q ! j)) = {}"
    using assms unfolding tree_ok_def by (elim conjE) assumption
  then show "p \<in> D \<Longrightarrow> i < 64 \<Longrightarrow> q \<in> D \<Longrightarrow> j < 64 \<Longrightarrow> (p, i) \<noteq> (q, j) \<Longrightarrow>
        set (claim f i (tab p ! i)) \<inter> set (claim f j (tab q ! j)) = {}" by blast
  have "D = insert ROOT_CLUSTER_NUMBER {c. \<exists>p \<in> D. \<exists>i < 64. is_subdir i (tab p ! i) \<and> c = entry_cluster (tab p ! i)}"
    (is "D = ?R") using assms unfolding tree_ok_def by (elim conjE) assumption
  then have "c \<in> D \<longleftrightarrow> c \<in> ?R" by (rule arg_cong)
  then show "c \<in> D \<longleftrightarrow> c = ROOT_CLUSTER_NUMBER \<or>
        (\<exists>p \<in> D. \<exists>i < 64. is_subdir i (tab p ! i) \<and> c = entry_cluster (tab p ! i))"
    by (simp only: insert_iff mem_Collect_eq)
  have "\<forall>p \<in> D. \<forall>i < 64. is_subdir i (tab p ! i) \<longrightarrow> entry_cluster (tab (entry_cluster (tab p ! i)) ! 1) = p"
    using assms unfolding tree_ok_def by (elim conjE) assumption
  then show "p \<in> D \<Longrightarrow> i < 64 \<Longrightarrow> is_subdir i (tab p ! i) \<Longrightarrow>
        entry_cluster (tab (entry_cluster (tab p ! i)) ! 1) = p" by blast
qed

lemma tree_okI:
  assumes "length f = 512" and "f ! 1 \<noteq> FAT32_FAT_EMPTY_ENTRY" and "in_use f ROOT_CLUSTER_NUMBER"
    and "\<And>p. p \<in> D \<Longrightarrow> table_ok p (tab p)"
    and "\<And>p i. p \<in> D \<Longrightarrow> i < 64 \<Longrightarrow> claim_ok f i (tab p ! i)"
    and "\<And>p i q j. p \<in> D \<Longrightarrow> i < 64 \<Longrightarrow> q \<in> D \<Longrightarrow> j < 64 \<Longrightarrow> (p, i) \<noteq> (q, j) \<Longrightarrow>
        set (claim f i (tab p ! i)) \<inter> set (claim f j (tab q ! j)) = {}"
    and "\<And>c. c \<in> D \<longleftrightarrow> c = ROOT_CLUSTER_NUMBER \<or>
        (\<exists>p \<in> D. \<exists>i < 64. is_subdir i (tab p ! i) \<and> c = entry_cluster (tab p ! i))"
    and "\<And>p i. p \<in> D \<Longrightarrow> i < 64 \<Longrightarrow> is_subdir i (tab p ! i) \<Longrightarrow>
        entry_cluster (tab (entry_cluster (tab p ! i)) ! 1) = p"
    and "entry_cluster (tab ROOT_CLUSTER_NUMBER ! 1) = ROOT_CLUSTER_NUMBER"
  shows "tree_ok f tab D"
  unfolding tree_ok_def
proof (intro conjI ballI allI impI)
  show "D = insert ROOT_CLUSTER_NUMBER {c. \<exists>p \<in> D. \<exists>i < 64. is_subdir i (tab p ! i) \<and> c = entry_cluster (tab p ! i)}"
    by (rule set_eqI) (simp only: insert_iff mem_Collect_eq assms(7) [symmetric])
qed (rule assms; assumption)+

lemma claim_in_use: "tree_ok f tab D \<Longrightarrow> p \<in> D \<Longrightarrow> i < 64 \<Longrightarrow> c \<in> set (claim f i (tab p ! i)) \<Longrightarrow> in_use f c"
  using tree_claim [of f tab D p i] by (simp add: claim_ok_def)

lemma claim_subdir [simp]: "is_subdir i e \<Longrightarrow> claim f i e = [entry_cluster e]"
  by (simp add: claim_def)

lemma claim_file: "\<not> is_subdir i e \<Longrightarrow> claim f i e = file_clusters f e"
  by (simp add: claim_def)

lemma not_subdir_file [simp]: "e_filesize e \<noteq> 0 \<Longrightarrow> \<not> is_subdir i e"
  by (simp add: is_subdir_def)

lemma file_clusters_size_0 [simp]: "e_filesize e = 0 \<Longrightarrow> file_clusters f e = []"
  by (simp add: file_clusters_def cluster_need_step)

lemma length_file_clusters: "length (file_clusters f e) = cluster_need (unat (e_filesize e))"
  by (simp add: file_clusters_def)

lemma file_clusters_nonempty: "e_filesize e \<noteq> 0 \<Longrightarrow> file_clusters f e \<noteq> []"
  using cluster_need_bounds(2) [of "unat (e_filesize e)"]
  by (simp add: length_file_clusters unat_gt_0 flip: length_greater_0_conv)

lemma claim_zero [simp]: "claim f i zero_entry = []"
  by (simp add: claim_def is_subdir_def)

lemma claim_ok_zero [simp]: "claim_ok f i zero_entry"
  by (simp add: claim_ok_def)

lemma dir_in_use:
  assumes t: "tree_ok f tab D" and p: "p \<in> D"
  shows "in_use f p"
proof (cases "p = ROOT_CLUSTER_NUMBER")
  case True
  with t show ?thesis by (simp add: tree_root_used)
next
  case False
  then obtain q i where "q \<in> D" "i < 64" "is_subdir i (tab q ! i)" "p = entry_cluster (tab q ! i)"
    using tree_dirs [OF t, of p] p by blast
  then show ?thesis using claim_in_use [OF t, of q i p] by simp
qed

text \<open>No file owns the cluster of a directory.\<close>

lemma dir_not_in_file:
  assumes t: "tree_ok f tab D" and p: "p \<in> D" and q: "q \<in> D" "i < 64" "c \<in> set (file_clusters f (tab q ! i))"
  shows "c \<noteq> p"
proof
  assume "c = p"
  have size: "e_filesize (tab q ! i) \<noteq> 0" using q(3) by auto
  then have c: "c \<in> set (claim f i (tab q ! i))" using q(3) by (simp add: claim_file)
  show False
  proof (cases "p = ROOT_CLUSTER_NUMBER")
    case True
    then show ?thesis using c \<open>c = p\<close> tree_claim [OF t q(1,2)] by (auto simp: claim_ok_def)
  next
    case False
    then obtain r j where r: "r \<in> D" "j < 64" "is_subdir j (tab r ! j)" "p = entry_cluster (tab r ! j)"
      using tree_dirs [OF t, of p] p by blast
    then have "(q, i) \<noteq> (r, j)" using size by auto
    then show ?thesis using tree_disjoint [OF t q(1,2) r(1,2)] r c \<open>c = p\<close> by auto
  qed
qed

lemma file_clusters_cong:
  assumes "\<And>c. c \<in> set (file_clusters f e) \<Longrightarrow> g ! unat c = f ! unat c"
  shows "file_clusters g e = file_clusters f e"
  using assms chain_cong unfolding file_clusters_def by metis

lemma claim_cong:
  assumes "\<And>c. c \<in> set (claim f i e) \<Longrightarrow> g ! unat c = f ! unat c"
  shows "claim g i e = claim f i e"
  using assms file_clusters_cong [of f e g] by (auto simp: claim_def)

lemma claim_ok_cong:
  assumes "claim_ok f i e" and "\<And>c. c \<in> set (claim f i e) \<Longrightarrow> g ! unat c = f ! unat c"
  shows "claim_ok g i e"
proof -
  have eq: "claim g i e = claim f i e" using assms(2) by (rule claim_cong)
  have "file_clusters g e = file_clusters f e" "file_clusters f e \<noteq> []" "claim f i e = file_clusters f e"
    if "e_filesize e \<noteq> 0"
    using that eq by (simp_all add: claim_file file_clusters_nonempty)
  then show ?thesis
    using assms eq last_in_set unfolding claim_ok_def in_use_def by metis
qed

section \<open>Changing the tree\<close>

text \<open>An entry of a directory of the tree replaced by one that is no subdirectory either.\<close>

lemma tree_set_file:
  assumes t: "tree_ok f tab D" and p: "p \<in> D" and i: "2 \<le> i" "i < 64"
    and table: "table_ok p ((tab p)[i := e])"
    and nosub: "\<not> is_subdir i (tab p ! i)" "\<not> is_subdir i e"
    and g: "length g = 512" "g ! 1 = f ! 1" "g ! 2 = f ! 2"
    and keep: "\<And>q j c. q \<in> D \<Longrightarrow> j < 64 \<Longrightarrow> (q, j) \<noteq> (p, i) \<Longrightarrow> c \<in> set (claim f j (tab q ! j)) \<Longrightarrow> g ! unat c = f ! unat c"
    and new: "claim_ok g i e"
    and apart: "\<And>q j. q \<in> D \<Longrightarrow> j < 64 \<Longrightarrow> (q, j) \<noteq> (p, i) \<Longrightarrow> set (claim g i e) \<inter> set (claim f j (tab q ! j)) = {}"
  shows "tree_ok g (tab(p := (tab p)[i := e])) D"
proof -
  define T where "T = tab(p := (tab p)[i := e])"
  note len = table_ok_length [OF tree_table [OF t p]]
  have slot: "T q ! j = (if q = p \<and> j = i then e else tab q ! j)" for q j
    using i len by (simp add: T_def nth_list_update)
  have same: "claim g j (tab q ! j) = claim f j (tab q ! j)" if "q \<in> D" "j < 64" "(q, j) \<noteq> (p, i)" for q j
    using keep [OF that] by (rule claim_cong)
  have sub: "is_subdir j (T q ! j) \<longleftrightarrow> is_subdir j (tab q ! j)" "is_subdir j (T q ! j) \<Longrightarrow> T q ! j = tab q ! j" for q j
    using nosub by (auto simp: slot)
  have first: "T q ! 1 = tab q ! 1" for q using i by (simp add: slot)
  have "tree_ok g T D"
  proof (rule tree_okI)
    show "in_use g ROOT_CLUSTER_NUMBER" using tree_root_used [OF t] g(3) by (simp add: in_use_def fat_consts)
    show "g ! 1 \<noteq> FAT32_FAT_EMPTY_ENTRY" using tree_reserved [OF t] g(2) by simp
    show "table_ok q (T q)" if "q \<in> D" for q using that table tree_table [OF t] by (simp add: T_def)
    show "claim_ok g j (T q ! j)" if "q \<in> D" "j < 64" for q j
      using that new keep claim_ok_cong [OF tree_claim [OF t that], of g] by (auto simp: slot)
    show "set (claim g j (T q ! j)) \<inter> set (claim g j' (T q' ! j')) = {}"
      if "q \<in> D" "j < 64" "q' \<in> D" "j' < 64" "(q, j) \<noteq> (q', j')" for q j q' j'
      using that same [of q j] same [of q' j'] apart [of q j] apart [of q' j'] tree_disjoint [OF t that]
      by (auto simp: slot)
    show "c \<in> D \<longleftrightarrow> c = ROOT_CLUSTER_NUMBER \<or>
        (\<exists>q \<in> D. \<exists>j < 64. is_subdir j (T q ! j) \<and> c = entry_cluster (T q ! j))" for c
      using tree_dirs [OF t, of c] sub by metis
    show "entry_cluster (T (entry_cluster (T q ! j)) ! 1) = q"
      if "q \<in> D" "j < 64" "is_subdir j (T q ! j)" for q j
      using that tree_parent [OF t, of q j] sub first by metis
    show "entry_cluster (T ROOT_CLUSTER_NUMBER ! 1) = ROOT_CLUSTER_NUMBER"
      using tree_root_parent [OF t] first by metis
  qed (rule g)
  then show ?thesis by (simp only: T_def)
qed

text \<open>A file added in a free slot, on a chain of clusters that were free.\<close>

lemma not_in_use_free: "f ! unat c = FAT32_FAT_EMPTY_ENTRY \<Longrightarrow> \<not> in_use f c"
  by (simp add: in_use_def)

lemma tree_add_file:
  assumes t: "tree_ok f tab D" and p: "p \<in> D" and i: "i < 64" "\<not> used (tab p ! i)"
    and e: "sound_entry e" "used e" "lookup (tab p) (key_of e) = None" "e_filesize e \<noteq> 0"
    and cs: "distinct cs" "set cs \<subseteq> set (frees f 3)" "length cs = cluster_need (unat (e_filesize e))"
    and first: "entry_cluster e = of_nat (hd cs)"
  shows "tree_ok (link f cs) (tab(p := (tab p)[i := e])) D"
    and "file_clusters (link f cs) e = map of_nat cs"
proof -
  note f = tree_length [OF t]
  have free: "3 \<le> c \<and> c < 512 \<and> f ! c = FAT32_FAT_EMPTY_ENTRY" if "c \<in> set cs" for c
    using that cs(2) by (auto simp: in_frees)
  have ne: "cs \<noteq> []" using cs(3) file_clusters_nonempty [OF e(4), of f] length_file_clusters [of f e] by auto
  show fc: "file_clusters (link f cs) e = map of_nat cs"
    using chain_link [OF ne cs(1) _ f] free cs(3) first by (fastforce simp: file_clusters_def)
  have unat_cs: "unat (of_nat c :: u32) = c" if "c \<in> set cs" for c using free [OF that] by simp
  have memcs: "unat x \<in> set cs" if "x \<in> set (map of_nat cs)" for x :: u32 using that unat_cs by auto
  have notfree: "unat c \<notin> set cs" if "in_use f c" for c
    using that free by (auto simp: in_use_def)
  have slot: "\<not> is_subdir i (tab p ! i)" using i by (simp add: is_subdir_def)
  have distinct: "distinct (map (of_nat :: nat \<Rightarrow> u32) cs)"
    unfolding distinct_map using cs(1) unat_cs by (metis inj_onI)
  have used_new: "in_use (link f cs) (of_nat c) \<and> (of_nat c :: u32) \<noteq> ROOT_CLUSTER_NUMBER" if "c \<in> set cs" for c
  proof -
    have "link f cs ! c \<noteq> FAT32_FAT_EMPTY_ENTRY"
      using that free cs(1) f by (intro link_nonempty) fastforce+
    moreover have "(of_nat c :: u32) \<noteq> ROOT_CLUSTER_NUMBER"
      using free [OF that] by (auto simp: fat_consts dest!: arg_cong [of _ _ unat])
    ultimately show ?thesis using unat_cs [OF that] free [OF that] by (simp add: in_use_def CLUSTER_MAP_SIZE_def)
  qed
  have last: "link f cs ! last cs = FAT32_FAT_END_OF_FILE"
    using ne cs(1) free f by (intro link_last) auto
  show "tree_ok (link f cs) (tab(p := (tab p)[i := e])) D"
  proof (rule tree_set_file [OF t p _ i(1)])
    show "2 \<le> i" using free_slot_ge_2 [OF tree_table [OF t p] i(2)] .
    show "table_ok p ((tab p)[i := e])" using table_ok_add [OF tree_table [OF t p] i e(1-3)] .
    show "link f cs ! 1 = f ! 1" "link f cs ! 2 = f ! 2" using free [of 1] free [of 2] by (auto intro!: link_other)
    show "link f cs ! unat c = f ! unat c"
      if "q \<in> D" "j < 64" "(q, j) \<noteq> (p, i)" "c \<in> set (claim f j (tab q ! j))" for q j c
      using notfree [OF claim_in_use [OF t that(1,2,4)]] by simp
    show "claim_ok (link f cs) i e"
      using e(4) fc ne distinct used_new last unat_cs
      by (simp add: claim_ok_def claim_file last_map)
    show "set (claim (link f cs) i e) \<inter> set (claim f j (tab q ! j)) = {}"
      if "q \<in> D" "j < 64" "(q, j) \<noteq> (p, i)" for q j
      using memcs notfree [OF claim_in_use [OF t that(1,2)]] claim_file [of i e "link f cs"] e(4) fc
      by (simp del: set_map) blast
  qed (use slot e(4) f in simp_all)
qed

text \<open>A file whose entry is cleared. The chain stays in the allocation table and is owned by no entry any more.\<close>

lemma tree_clear_file:
  assumes t: "tree_ok f tab D" and p: "p \<in> D" and i: "i < 64" and e: "e_filesize (tab p ! i) \<noteq> 0"
  shows "tree_ok f (tab(p := (tab p)[i := zero_entry])) D" and "2 \<le> i"
proof -
  note tab = tree_table [OF t p]
  have "i \<noteq> 0" "i \<noteq> 1" using e table_ok_heads [OF tab] by metis+
  then show "2 \<le> i" by simp
  then show "tree_ok f (tab(p := (tab p)[i := zero_entry])) D"
    using e by (intro tree_set_file [OF t p _ i table_ok_del [OF tab _ i]])
      (simp_all add: tree_length [OF t], simp add: is_subdir_def)
qed

text \<open>
  A directory table with nothing but its first two entries owns no cluster and has no subdirectory.
\<close>

definition empty_dir :: "u32 \<Rightarrow> FAT32DirectoryTable \<Rightarrow> bool" where
  "empty_dir p t \<longleftrightarrow> table_ok p t \<and> (\<forall>j < 64. 2 \<le> j \<longrightarrow> \<not> used (t ! j))"

lemma empty_dir_slot:
  assumes "empty_dir p t" and "j < 64"
  shows "e_filesize (t ! j) = 0" and "\<not> is_subdir j (t ! j)" and "claim f j (t ! j) = []"
proof -
  have t: "table_ok p t" using assms by (simp add: empty_dir_def)
  show size: "e_filesize (t ! j) = 0"
  proof (cases "2 \<le> j")
    case True
    then show ?thesis using assms t by (simp add: empty_dir_def table_ok_unused)
  next
    case False
    then have "j = 0 \<or> j = 1" by auto
    then show ?thesis using table_ok_heads [OF t] by metis
  qed
  show sub: "\<not> is_subdir j (t ! j)" using assms by (auto simp: empty_dir_def is_subdir_def)
  show "claim f j (t ! j) = []" using size sub by (simp add: claim_file)
qed

text \<open>An update of the allocation table at a cluster that no entry owns.\<close>

lemma claim_update_other:
  assumes "w \<notin> set (claim f j e)"
  shows "claim (f[unat w := v]) j e = claim f j e" and "claim_ok f j e \<Longrightarrow> claim_ok (f[unat w := v]) j e"
proof -
  have "f[unat w := v] ! unat x = f ! unat x" if "x \<in> set (claim f j e)" for x
    using that assms by (metis nth_list_update_neq word_unat_eq_iff)
  then show "claim (f[unat w := v]) j e = claim f j e" "claim_ok f j e \<Longrightarrow> claim_ok (f[unat w := v]) j e"
    by (auto intro: claim_cong claim_ok_cong)
qed

text \<open>A directory added in a free slot: its cluster was free, and its second entry leads to the parent.\<close>

lemma add_dir_slots:
  assumes t: "tree_ok f tab D" and p: "p \<in> D" and i: "i < 64" "\<not> used (tab p ! i)"
    and e: "sound_entry e" "used e" "lookup (tab p) (key_of e) = None" "e_filesize e = 0"
    and w: "entry_cluster e = w" "unat w \<in> set (frees f 3)"
    and n: "empty_dir w n"
    and T: "T = tab(p := (tab p)[i := e], w := n)" and g: "g = f[unat w := FAT32_FAT_END_OF_FILE]"
  shows "2 \<le> i" and "w \<notin> D" "w \<noteq> p" "w \<noteq> ROOT_CLUSTER_NUMBER"
    and "j < 64 \<Longrightarrow> T q ! j = (if q = w then n ! j else if q = p \<and> j = i then e else tab q ! j)"
    and "q \<in> insert w D \<Longrightarrow> j < 64 \<Longrightarrow> is_subdir j (T q ! j) \<longleftrightarrow> q = p \<and> j = i \<or> q \<in> D \<and> is_subdir j (tab q ! j)"
    and "q \<in> D \<Longrightarrow> j < 64 \<Longrightarrow> w \<notin> set (claim f j (tab q ! j))"
    and "q \<in> insert w D \<Longrightarrow> j < 64 \<Longrightarrow> claim g j (T q ! j) = (if q = w then [] else if q = p \<and> j = i then [w] else claim f j (tab q ! j))"
proof -
  have fresh: "\<not> in_use f w" using w(2) by (auto simp: in_frees in_use_def)
  show i2: "2 \<le> i" using free_slot_ge_2 [OF tree_table [OF t p] i(2)] .
  show wD: "w \<notin> D" "w \<noteq> p" "w \<noteq> ROOT_CLUSTER_NUMBER" using dir_in_use [OF t] p fresh tree_root_used [OF t] by auto
  have sub: "is_subdir i e" "\<not> is_subdir i (tab p ! i)" using i2 e i by (simp_all add: is_subdir_def)
  have slot: "T q ! j = (if q = w then n ! j else if q = p \<and> j = i then e else tab q ! j)" if "j < 64" for q j
    using that i table_ok_length [OF tree_table [OF t p]] wD by (simp add: T nth_list_update)
  show "j < 64 \<Longrightarrow> T q ! j = (if q = w then n ! j else if q = p \<and> j = i then e else tab q ! j)" by (rule slot)
  show "q \<in> insert w D \<Longrightarrow> j < 64 \<Longrightarrow> is_subdir j (T q ! j) \<longleftrightarrow> q = p \<and> j = i \<or> q \<in> D \<and> is_subdir j (tab q ! j)"
    using sub empty_dir_slot(2) [OF n, of j] wD p by (auto simp: slot)
  have wnot: "w \<notin> set (claim f j (tab q ! j))" if "q \<in> D" "j < 64" for q j
    using claim_in_use [OF t that] fresh by auto
  then show "q \<in> D \<Longrightarrow> j < 64 \<Longrightarrow> w \<notin> set (claim f j (tab q ! j))" by blast
  show "q \<in> insert w D \<Longrightarrow> j < 64 \<Longrightarrow> claim g j (T q ! j) = (if q = w then [] else if q = p \<and> j = i then [w] else claim f j (tab q ! j))"
    using sub(1) w(1) empty_dir_slot(3) [OF n, of j] claim_update_other(1) [OF wnot] by (auto simp: slot g)
qed

lemma tree_add_dir:
  assumes t: "tree_ok f tab D" and p: "p \<in> D" and i: "i < 64" "\<not> used (tab p ! i)"
    and e: "sound_entry e" "used e" "lookup (tab p) (key_of e) = None" "e_filesize e = 0"
    and w: "entry_cluster e = w" "unat w \<in> set (frees f 3)"
    and n: "empty_dir w n" "entry_cluster (n ! 1) = p"
  shows "tree_ok (f[unat w := FAT32_FAT_END_OF_FILE]) (tab(p := (tab p)[i := e], w := n)) (insert w D)"
proof -
  define T where "T = tab(p := (tab p)[i := e], w := n)"
  define g where "g = f[unat w := FAT32_FAT_END_OF_FILE]"
  have w3: "3 \<le> unat w" "unat w < 512" using w(2) by (auto simp: in_frees)
  note new = add_dir_slots [OF t p i e w n(1) T_def g_def]
  note i2 = new(1) and wD = new(2-4) and slot = new(5) and subT = new(6) and wnot = new(7) and claimT = new(8)
  have step: "is_subdir j (T q ! j) \<and> x = entry_cluster (T q ! j)
      \<longleftrightarrow> q = p \<and> j = i \<and> x = w \<or> q \<in> D \<and> is_subdir j (tab q ! j) \<and> x = entry_cluster (tab q ! j)"
    if "q \<in> insert w D" "j < 64" for q j x
    using that(2) w(1) i(2) wD subT [OF that] by (auto simp: slot is_subdir_def)
  have bex_step: "(\<exists>q \<in> insert w D. \<exists>j < 64. is_subdir j (T q ! j) \<and> x = entry_cluster (T q ! j))
      \<longleftrightarrow> x = w \<or> (\<exists>q \<in> D. \<exists>j < 64. is_subdir j (tab q ! j) \<and> x = entry_cluster (tab q ! j))" for x
    using step [of _ _ x] p i(1) by blast
  have gw: "in_use g w" using w3 tree_length [OF t] by (simp add: in_use_def g_def fat_consts)
  have "tree_ok g T (insert w D)"
  proof (rule tree_okI)
    show "length g = 512" using tree_length [OF t] by (simp add: g_def)
    show "g ! 1 \<noteq> FAT32_FAT_EMPTY_ENTRY" using tree_reserved [OF t] w3 by (simp add: g_def)
    show "in_use g ROOT_CLUSTER_NUMBER"
      using tree_root_used [OF t] w3 by (simp add: in_use_def g_def fat_consts)
    show "table_ok q (T q)" if "q \<in> insert w D" for q
      using that n(1) tree_table [OF t] table_ok_add [OF tree_table [OF t p] i e(1-3)] by (auto simp: T_def empty_dir_def)
    show "claim_ok g j (T q ! j)" if q: "q \<in> insert w D" and j: "j < 64" for q j
    proof (cases "q = w \<or> q = p \<and> j = i")
      case True
      then show ?thesis
        using claimT [OF q j] gw wD(2,3) e(4) j empty_dir_slot(1) [OF n(1) j] by (auto simp: claim_ok_def slot)
    next
      case False
      then show ?thesis
        using q j tree_claim [OF t _ j] claim_update_other(2) [OF wnot] by (auto simp: slot g_def)
    qed
    show "set (claim g j (T q ! j)) \<inter> set (claim g j' (T q' ! j')) = {}"
      if "q \<in> insert w D" "j < 64" "q' \<in> insert w D" "j' < 64" "(q, j) \<noteq> (q', j')" for q j q' j'
      using that wnot tree_disjoint [OF t, of q j q' j'] by (auto simp: claimT split: if_splits)
    show "x \<in> insert w D \<longleftrightarrow> x = ROOT_CLUSTER_NUMBER \<or>
        (\<exists>q \<in> insert w D. \<exists>j < 64. is_subdir j (T q ! j) \<and> x = entry_cluster (T q ! j))" for x
      unfolding bex_step using tree_dirs [OF t, of x] by blast
    show "entry_cluster (T (entry_cluster (T q ! j)) ! 1) = q"
      if "q \<in> insert w D" "j < 64" "is_subdir j (T q ! j)" for q j
    proof (cases "q = p \<and> j = i")
      case True
      then show ?thesis using that(2) w(1) n(2) wD by (simp add: slot)
    next
      case False
      with that have q: "q \<in> D" "is_subdir j (tab q ! j)" by (auto simp: subT)
      then have "entry_cluster (tab q ! j) \<in> D" using tree_dirs [OF t] that(2) by blast
      then show ?thesis using False q that(2) i2 tree_parent [OF t q(1) that(2) q(2)] wD by (auto simp: slot)
    qed
    show "entry_cluster (T ROOT_CLUSTER_NUMBER ! 1) = ROOT_CLUSTER_NUMBER"
      using tree_root_parent [OF t] wD i2 by (simp add: slot)
  qed
  then show ?thesis by (simp only: T_def g_def)
qed

text \<open>An empty subdirectory removed: its entry is cleared and its cluster is free again.\<close>

lemma tree_remove_dir:
  assumes t: "tree_ok f tab D" and p: "p \<in> D" and i: "i < 64" "is_subdir i (tab p ! i)"
    and w: "entry_cluster (tab p ! i) = w" "\<forall>j < 64. 2 \<le> j \<longrightarrow> \<not> used (tab w ! j)"
  shows "tree_ok (f[unat w := FAT32_FAT_EMPTY_ENTRY]) (tab(p := (tab p)[i := zero_entry])) (D - {w})"
proof -
  define T where "T = tab(p := (tab p)[i := zero_entry])"
  define g where "g = f[unat w := FAT32_FAT_EMPTY_ENTRY]"
  note tabp = tree_table [OF t p]
  have i2: "2 \<le> i" using i(2) by (simp add: is_subdir_def)
  have wsub: "\<not> is_subdir j (tab w ! j)" if "j < 64" for j using that w(2) by (auto simp: is_subdir_def)
  then have pw: "p \<noteq> w" using i by auto
  have wuse: "in_use f w" "w \<noteq> ROOT_CLUSTER_NUMBER" using tree_claim [OF t p i(1)] i(2) w(1) by (simp_all add: claim_ok_def)
  have w1: "unat w \<noteq> 1" "unat w \<noteq> 2" using wuse by (auto simp: in_use_def fat_consts word_unat_eq_iff)
  have slot: "T q ! j = (if q = p \<and> j = i then zero_entry else tab q ! j)" if "j < 64" for q j
    using that i table_ok_length [OF tabp] by (simp add: T_def nth_list_update)
  have wnot: "w \<notin> set (claim f j (tab q ! j))" if "q \<in> D" "j < 64" "(q, j) \<noteq> (p, i)" for q j
    using tree_disjoint [OF t that(1,2) p i(1) that(3)] i(2) w(1) by simp
  have claimT: "claim g j (T q ! j) = (if q = p \<and> j = i then [] else claim f j (tab q ! j))"
    if "q \<in> D" "j < 64" for q j
    using that claim_update_other(1) [OF wnot] by (auto simp: slot g_def)
  have step: "is_subdir j (T q ! j) \<and> x = entry_cluster (T q ! j)
      \<longleftrightarrow> is_subdir j (tab q ! j) \<and> x = entry_cluster (tab q ! j) \<and> x \<noteq> w"
    if "q \<in> D" "j < 64" for q j x
    using that w(1) i wnot [OF that] by (auto simp: slot is_subdir_def [of _ zero_entry])
  have "tree_ok g T (D - {w})"
  proof (rule tree_okI)
    show "length g = 512" using tree_length [OF t] by (simp add: g_def)
    show "g ! 1 \<noteq> FAT32_FAT_EMPTY_ENTRY" using tree_reserved [OF t] w1 by (simp add: g_def)
    show "in_use g ROOT_CLUSTER_NUMBER"
      using tree_root_used [OF t] w1 by (simp add: in_use_def g_def fat_consts)
    show "table_ok q (T q)" if "q \<in> D - {w}" for q
      using that tree_table [OF t] table_ok_del [OF tabp i2 i(1)] by (auto simp: T_def)
    show "claim_ok g j (T q ! j)" if "q \<in> D - {w}" "j < 64" for q j
      using that tree_claim [OF t _ that(2), of q] claim_update_other(2) [OF wnot, of q j]
      by (auto simp: slot g_def)
    show "set (claim g j (T q ! j)) \<inter> set (claim g j' (T q' ! j')) = {}"
      if "q \<in> D - {w}" "j < 64" "q' \<in> D - {w}" "j' < 64" "(q, j) \<noteq> (q', j')" for q j q' j'
      using that tree_disjoint [OF t, of q j q' j'] by (auto simp: claimT)
    show "x \<in> D - {w} \<longleftrightarrow> x = ROOT_CLUSTER_NUMBER \<or>
        (\<exists>q \<in> D - {w}. \<exists>j < 64. is_subdir j (T q ! j) \<and> x = entry_cluster (T q ! j))" for x
      using step [of _ _ x] tree_dirs [OF t, of x] wuse(2) wsub by blast
    show "entry_cluster (T (entry_cluster (T q ! j)) ! 1) = q"
      if "q \<in> D - {w}" "j < 64" "is_subdir j (T q ! j)" for q j
      using that step [of q j "entry_cluster (T q ! j)"] i2 tree_parent [OF t, of q j]
      by (auto simp: slot is_subdir_def [of _ zero_entry])
    show "entry_cluster (T ROOT_CLUSTER_NUMBER ! 1) = ROOT_CLUSTER_NUMBER"
      using tree_root_parent [OF t] i2 by (simp add: slot)
  qed
  then show ?thesis by (simp only: T_def g_def)
qed

text \<open>The invariant depends only on the tables of the directories.\<close>

lemma tree_ok_cong:
  assumes "tree_ok f tab D" and eq: "\<And>q. q \<in> D \<Longrightarrow> tab' q = tab q"
  shows "tree_ok f tab' D"
proof (rule tree_okI)
  fix q j
  assume q: "q \<in> D" "j < 64" "is_subdir j (tab' q ! j)"
  then have "is_subdir j (tab q ! j)" using eq by simp
  then have "entry_cluster (tab q ! j) \<in> D" using q tree_dirs [OF assms(1)] by blast
  then show "entry_cluster (tab' (entry_cluster (tab' q ! j)) ! 1) = q"
    using q tree_parent [OF assms(1), of q j] eq by simp
next
  fix c
  show "c \<in> D \<longleftrightarrow> c = ROOT_CLUSTER_NUMBER \<or>
      (\<exists>p \<in> D. \<exists>i < 64. is_subdir i (tab' p ! i) \<and> c = entry_cluster (tab' p ! i))"
    using tree_dirs [OF assms(1), of c] eq by simp
next
  have "ROOT_CLUSTER_NUMBER \<in> D" using tree_dirs [OF assms(1)] by blast
  then show "entry_cluster (tab' ROOT_CLUSTER_NUMBER ! 1) = ROOT_CLUSTER_NUMBER"
    using tree_root_parent [OF assms(1)] eq by simp
qed (simp_all only: eq tree_length [OF assms(1)] tree_reserved [OF assms(1)] tree_root_used [OF assms(1)]
  tree_table [OF assms(1)] tree_claim [OF assms(1)] tree_disjoint [OF assms(1)] not_False_eq_True)

end
