(* ===== verification/Fat32_Write.thy ===== *)
theory Fat32_Write
  imports Fat32_Tree
begin

text \<open>
  The invariant of the driver, and \<open>write\<close> against the directory tree: the code is run symbolically on
  a state that satisfies the invariant, and its effect is stated on the listings of the directories.
\<close>

section \<open>The invariant of the driver\<close>

text \<open>
  The boot sector carries the signature, the directory tree on the disk is well-formed, the cached
  allocation table is the one on the disk, and the buffers have their sizes.
\<close>

definition boot_ok :: "image \<Rightarrow> bool" where
  "boot_ok d \<longleftrightarrow> take BLOCK_SIZE (content d 0) = fs_signature"

definition fs_inv :: "fs_state \<Rightarrow> u32 set \<Rightarrow> bool" where
  "fs_inv s D \<longleftrightarrow> fs_ok (disk s) D \<and> boot_ok (disk s) \<and> cluster_map s = disk_fat (disk s) \<and> length (dir_table_buf s) = 64"

text \<open>A cluster that holds a directory: neither the boot cluster nor the allocation table.\<close>

definition dir_cluster :: "u32 \<Rightarrow> bool" where
  "dir_cluster p \<longleftrightarrow> 2 \<le> unat p \<and> unat p < 512"

lemma dir_cluster_ok: "dir_cluster p \<Longrightarrow> cluster_ok p \<and> p \<noteq> 1"
  by (auto simp: dir_cluster_def cluster_ok_def)

lemma dir_cluster_in_use: "in_use f c \<Longrightarrow> dir_cluster c"
  by (simp add: in_use_def dir_cluster_def CLUSTER_MAP_SIZE_def)

text \<open>The clusters an operation keeps: those in use and the boot cluster. None of them is the allocation table.\<close>

lemma in_use_kept: "in_use f c \<or> c = 0 \<Longrightarrow> cluster_ok c \<and> c \<noteq> 1"
  using dir_cluster_ok dir_cluster_in_use by (auto simp: cluster_ok_def)

lemma fs_inv_dir: "fs_inv s D \<Longrightarrow> p \<in> D \<Longrightarrow> dir_cluster p \<and> table_ok p (disk_dir (disk s) p)"
  using dir_in_use tree_table dir_cluster_in_use unfolding fs_inv_def fs_ok_def by metis

lemma root_not_dir: "fs_inv s D \<Longrightarrow> p \<in> D \<Longrightarrow> 0 \<noteq> p"
  using fs_inv_dir [of s D p] by (auto simp: dir_cluster_def)

lemma disk_fat_set [run_simps]:
  "wf_fat f \<Longrightarrow> disk_fat (set_content d 1 (fat_bytes f)) = f"
  "dir_cluster c \<Longrightarrow> length bs = 2048 \<Longrightarrow> disk_fat (set_content d c bs) = disk_fat d"
  using dir_cluster_ok [of c]
  by (simp_all add: disk_fat_def FAT_CLUSTER_NUMBER_def mem_simps codec_simps del: fat_of_content_1)

lemma disk_dir_set [run_simps]:
  "wf_table t \<Longrightarrow> disk_dir (set_content d p (table_bytes t)) p = t"
  "cluster_ok q \<Longrightarrow> cluster_ok c \<Longrightarrow> q \<noteq> c \<Longrightarrow> length bs = 2048 \<Longrightarrow> disk_dir (set_content d c bs) q = disk_dir d q"
  by (simp_all add: disk_dir_def mem_simps codec_simps)

lemma wf_fat_length: "length f = 512 \<Longrightarrow> wf_fat f"
  by (simp add: wf_fat_def CLUSTER_MAP_SIZE_def)

lemma sint_small:
  fixes x :: u32
  assumes "unat x < 2 ^ 31"
  shows "sint x = int (unat x)"
proof -
  have "uint x < 2 ^ 31" using assms by (metis of_nat_less_numeral_power_cancel_iff of_nat_unat)
  then have "signed_take_bit 31 (uint x) = uint x" 
    using uint_ge_0 [of x] by (intro signed_take_bit_int_eq_self) linarith+
  then show ?thesis by (simp add: sint_uint)
qed

section \<open>Writing a file\<close>

lemma wf_new_file_entry: "wf_request r \<Longrightarrow> wf_entry (new_file_entry r c)"
  by (simp add: wf_request_def wf_entry_def new_file_entry_def)

lemma sound_new_file_entry: "wf_request r \<Longrightarrow> sound_entry (new_file_entry r c)"
  by (simp add: sound_entry_def wf_new_file_entry) (simp add: new_file_entry_def)

lemma new_file_entry_fields:
  "used (new_file_entry r c)" "e_filesize (new_file_entry r c) = r_buffer_size r"
  "key_of (new_file_entry r c) = request_key r" "entry_cluster (new_file_entry r c) = of_nat c"
  by (simp_all add: new_file_entry_def used_def key_of_def request_key_def entry_cluster_fields)

lemma length_frees: "length (frees f lo) \<le> 512"
  unfolding frees_def by (rule order_trans [OF length_filter_le]) (simp add: CLUSTER_MAP_SIZE_def)

lemma frees_from_first: "frees f lo = c # cs \<Longrightarrow> frees f c = c # cs"
  using frees_Cons [of f lo c cs] frees_step [of c f] in_frees [of c f lo] by auto

text \<open>The beginning of \<open>write\<close>, up to the branch between files and directories.\<close>

lemma write_start:
  fixes s r
  defines "p \<equiv> r_parent_cluster_number r" and "f \<equiv> disk_fat (disk s)"
  defines "t \<equiv> disk_dir (disk s) p"
  assumes "dir_cluster p" and "used (t ! 0)" and "frees f 3 = c # cs"
    and "search_from (\<lambda>e. same_file e r) 0 t = None"
  shows "write' s r = (if r_buffer_size r = 0 then write_folder (s\<lparr>dir_table_buf := t, cluster_map := f\<rparr>) r
     else write_file (s\<lparr>dir_table_buf := t, cluster_map := f\<rparr>) r c)"
proof -
  have "length t = 64" "scan_empty f 3 = Some c" "c < 512"
    using assms(6) frees_Cons [of f 3 c cs] scan_empty_frees [of f 3] by (simp_all add: t_def f_def)
  then show ?thesis
    using assms(5,7) dir_cluster_ok [OF assms(4)]
    by (simp add: write'_def run_simps used_def fat_consts flip: p_def f_def t_def)
qed

text \<open>The run of \<open>write\<close> that stores a file.\<close>

lemma write_file_run:
  fixes s r i
  defines "p \<equiv> r_parent_cluster_number r" and "f \<equiv> disk_fat (disk s)" and "k \<equiv> cluster_need (unat (r_buffer_size r))"
  defines "t \<equiv> disk_dir (disk s) p" and "cs \<equiv> take k (frees f 3)"
  assumes p: "dir_cluster p" and r: "wf_request r" "r_buffer_size r \<noteq> 0"
    and search: "search_from (\<lambda>e. same_file e r) 0 t = None" and t0: "used (t ! 0)"
    and slot: "scan_slot t 0 = Some i" and room: "k \<le> length (frees f 3)"
  shows "\<exists>b. write' s r = Some (0, s\<lparr>cluster_map := link f cs, cluster_buf := b,
      dir_table_buf := t[i := new_file_entry r (hd cs)],
      disk := set_content (set_content (fold (\<lambda>(c, bs) d. set_content d c bs)
          (zip (map of_nat cs) (blocks (ram s) (r_buf r) (unat (r_buffer_size r)) k)) (disk s))
        1 (fat_bytes (link f cs))) p (table_bytes (t[i := new_file_entry r (hd cs)]))\<rparr>)"
proof -
  have k0: "0 < k" using r(2) cluster_need_bounds(2) by (simp add: k_def unat_gt_0)
  obtain c cs' where fr: "frees f 3 = c # cs'" using room k0 by (cases "frees f 3") auto
  note c = frees_Cons [OF fr]
  have i: "i < 64" using slot by (auto simp: scan_slot_search search_from_Some_iff t_def)
  have lf: "length f = 512" by (simp add: f_def)
  have csne: "cs \<noteq> []" "length cs = k" using room k0 by (auto simp: cs_def)
  have csok: "distinct cs" "c' \<in> set cs \<Longrightarrow> 3 \<le> c' \<and> c' < 512" for c'
    by (auto simp: cs_def dest!: in_set_takeD simp: in_frees)
  have ch: "chain (link f cs) (of_nat (hd cs)) k = map of_nat cs"
    using chain_link [OF csne(1) csok(1) _ lf] csok(2) csne(2) by fastforce
  have hd512: "hd cs < 512" using csok(2) csne(1) by simp
  have small: "\<forall>c' \<in> set cs. unat (of_nat c' :: u32) < 512" using csok(2) by fastforce
  have size: "unat (r_buffer_size r) \<le> 2048 * k" by (simp add: k_def cluster_need_bounds)
  have "k \<le> 512" using room length_frees [of f 3] by simp
  then have sint: "sint (r_buffer_size r) = int (unat (r_buffer_size r))" using size by (intro sint_small) simp
  let ?s = "s\<lparr>dir_table_buf := t, cluster_map := f\<rparr>"
  let ?s1 = "s\<lparr>dir_table_buf := t[i := new_file_entry r (hd cs)], cluster_map := link f cs\<rparr>"
  have alloc: "alloc_loop ?s r i c 0 None k = Some (Inr (?s1, hd cs))"
    using alloc_loop_first [of ?s k c i cs r 0] frees_from_first [OF fr] fr k0 room i lf
    by (simp add: cs_def t_def)
  obtain b where loop: "write_loop ?s1 (r_buf r) (hd cs) (int (unat (r_buffer_size r))) 0 k
      = Some (?s1\<lparr>disk := fold (\<lambda>(c, bs) d. set_content d c bs)
          (zip (map of_nat cs) (blocks (ram s) (r_buf r) (unat (r_buffer_size r)) k)) (disk s), cluster_buf := b\<rparr>)"
    using write_loop_blocks [of ?s1 k "unat (r_buffer_size r)" "hd cs" "r_buf r" 0] lf ch hd512 small
    by (auto simp: k_def)
  have wf: "wf_table (t[i := new_file_entry r (hd cs)])" "wf_fat (link f cs)"
    using r(1) lf by (simp_all add: t_def wf_table_update wf_new_file_entry wf_fat_length)
  note start = write_start [of r s c cs', folded p_def f_def, folded t_def, OF p t0 fr search]
  show ?thesis
    using slot alloc loop sint r(2) wf dir_cluster_ok [OF p]
    by (intro exI [of _ b])
      (simp add: start write_file_def put_cluster_ok codec_simps FAT_CLUSTER_NUMBER_def flip: p_def k_def)
qed

lemma file_data_cong:
  assumes "\<And>c. c \<in> set (file_clusters f e) \<Longrightarrow> g ! unat c = f ! unat c \<and> content d' c = content d c"
  shows "file_data d' g e = file_data d f e" and "node_of d' g e = node_of d f e"
proof -
  have "file_clusters g e = file_clusters f e" using assms by (intro file_clusters_cong) blast
  moreover have "map (content d') (file_clusters f e) = map (content d) (file_clusters f e)" using assms by simp
  ultimately show "file_data d' g e = file_data d f e" by (simp only: file_data_def)
  then show "node_of d' g e = node_of d f e" by (simp add: node_of_def)
qed

text \<open>
  A directory whose table is unchanged shows the same names, when the clusters of its files keep their
  content and their place in the allocation table.
\<close>

lemma node_of_unowned:
  assumes t: "tree_ok f tab D" and q: "q \<in> D" "j < 64"
    and keep: "\<And>c. in_use f c \<Longrightarrow> c \<notin> D \<Longrightarrow> c \<in> set (file_clusters f (tab q ! j)) \<Longrightarrow> g ! unat c = f ! unat c \<and> content d' c = content d c"
  shows "node_of d' g (tab q ! j) = node_of d f (tab q ! j)"
proof (rule file_data_cong(2))
  fix c
  assume c: "c \<in> set (file_clusters f (tab q ! j))"
  then have "e_filesize (tab q ! j) \<noteq> 0" by auto
  then have "in_use f c" using c claim_in_use [OF t q] by (simp add: claim_file)
  moreover have "c \<notin> D" using dir_not_in_file [OF t _ q c] by auto
  ultimately show "g ! unat c = f ! unat c \<and> content d' c = content d c" using c by (rule keep)
qed

lemma map_lookup_cong:
  assumes "table_ok p t" and "\<And>j. j < 64 \<Longrightarrow> used (t ! j) \<Longrightarrow> key_of (t ! j) = k \<Longrightarrow> F (t ! j) = G (t ! j)"
  shows "map_option F (lookup t k) = map_option G (lookup t k)"
proof (cases "lookup t k")
  case (Some e)
  then obtain j where "j < 64" "e = t ! j" "used e" "key_of e = k" unfolding lookup_eq_Some [OF assms(1)] by blast
  with Some assms(2) show ?thesis by simp
qed simp

text \<open>
  The listings after an entry was added in a free slot of the table of \<open>p\<close>, and after an entry was
  cleared: a cluster that another entry owns has kept its content and its place in the table.
\<close>

lemma listing_other:
  assumes ok: "fs_ok d D" and q: "q \<in> D" "disk_dir d' q = disk_dir d q"
    and keep: "\<And>j c. j < 64 \<Longrightarrow> c \<in> set (file_clusters (disk_fat d) (disk_dir d q ! j)) \<Longrightarrow> in_use (disk_fat d) c \<Longrightarrow> c \<notin> D \<Longrightarrow>
        disk_fat d' ! unat c = disk_fat d ! unat c \<and> content d' c = content d c"
  shows "listing d' q = listing d q"
proof -
  note t = ok [unfolded fs_ok_def]
  have "node_of d' (disk_fat d') (disk_dir d q ! j) = node_of d (disk_fat d) (disk_dir d q ! j)" if "j < 64" for j
    by (rule node_of_unowned [OF t q(1) that]) (rule keep [OF that])
  then show ?thesis
    unfolding listing_def q(2) by (intro ext map_lookup_cong [OF tree_table [OF t q(1)]])
qed

lemma listing_add:
  assumes ok: "fs_ok d D" and p: "p \<in> D" and i: "i < 64" "\<not> used (disk_dir d p ! i)"
    and e: "sound_entry e" "used e" "lookup (disk_dir d p) (key_of e) = None"
    and tab: "disk_dir d' p = (disk_dir d p)[i := e]"
    and keep: "\<And>c. in_use (disk_fat d) c \<Longrightarrow> c \<notin> D \<Longrightarrow> disk_fat d' ! unat c = disk_fat d ! unat c \<and> content d' c = content d c"
  shows "listing d' p = (listing d p)(key_of e \<mapsto> node_of d' (disk_fat d') e)"
proof
  note t = ok [unfolded fs_ok_def]
  note tp = tree_table [OF t p]
  have node: "node_of d' (disk_fat d') (disk_dir d p ! j) = node_of d (disk_fat d) (disk_dir d p ! j)" if "j < 64" for j
    by (rule node_of_unowned [OF t p that]) (rule keep)
  have "map_option (node_of d' (disk_fat d')) (lookup (disk_dir d p) k)
      = map_option (node_of d (disk_fat d)) (lookup (disk_dir d p) k)" for k
    by (intro map_lookup_cong [OF tp]) (rule node)
  then show "listing d' p k = ((listing d p)(key_of e \<mapsto> node_of d' (disk_fat d') e)) k" for k
    by (simp add: listing_def tab lookup_add [OF tp i e])
qed

lemma listing_del:
  assumes ok: "fs_ok d D" and p: "p \<in> D" and i: "2 \<le> i" "i < 64" "used (disk_dir d p ! i)"
    and tab: "disk_dir d' p = (disk_dir d p)[i := zero_entry]"
    and keep: "\<And>j c. j < 64 \<Longrightarrow> j \<noteq> i \<Longrightarrow> c \<in> set (file_clusters (disk_fat d) (disk_dir d p ! j)) \<Longrightarrow> in_use (disk_fat d) c \<Longrightarrow> c \<notin> D \<Longrightarrow>
        disk_fat d' ! unat c = disk_fat d ! unat c \<and> content d' c = content d c"
  shows "listing d' p = (listing d p)(key_of (disk_dir d p ! i) := None)"
proof
  note t = ok [unfolded fs_ok_def]
  note tp = tree_table [OF t p]
  have node: "node_of d' (disk_fat d') (disk_dir d p ! j) = node_of d (disk_fat d) (disk_dir d p ! j)"
    if "j < 64" "j \<noteq> i" for j
    by (rule node_of_unowned [OF t p that(1)]) (rule keep [OF that])
  have "map_option (node_of d' (disk_fat d')) (lookup (disk_dir d p) k)
      = map_option (node_of d (disk_fat d)) (lookup (disk_dir d p) k)" if "k \<noteq> key_of (disk_dir d p ! i)" for k
    using that by (intro map_lookup_cong [OF tp] node) auto
  then show "listing d' p k = ((listing d p)(key_of (disk_dir d p ! i) := None)) k" for k
    by (simp add: listing_def tab lookup_del [OF tp i])
qed

text \<open>What the disk holds after \<open>write\<close> has stored a file.\<close>

lemma write_file_disk:
  fixes d p cs t n m buf k
  assumes k: "length cs = k" "k = cluster_need n"
    and cs: "distinct cs" "\<And>c. c \<in> set cs \<Longrightarrow> 3 \<le> c \<and> c < 512 \<and> of_nat c \<noteq> p" and p: "dir_cluster p"
    and wf: "wf_fat g" "wf_table t"
  defines "d' \<equiv> set_content (set_content (fold (\<lambda>(c, bs) d. set_content d c bs)
      (zip (map of_nat cs) (blocks m buf n k)) d) 1 (fat_bytes g)) p (table_bytes t)"
  shows "disk_fat d' = g" and "disk_dir d' p = t"
    and "take n (concat (map (content d') (map of_nat cs))) = load_bytes m buf n"
    and "\<And>c. cluster_ok c \<Longrightarrow> c \<noteq> 1 \<Longrightarrow> c \<noteq> p \<Longrightarrow> unat c \<notin> set cs \<Longrightarrow> content d' c = content d c"
proof -
  let ?d = "fold (\<lambda>(c, bs) d. set_content d c bs) (zip (map of_nat cs) (blocks m buf n k)) d"
  note pok = dir_cluster_ok [OF p]
  have len: "length (fat_bytes g) = 2048" "length (table_bytes t) = 2048" using wf by (simp_all add: codec_simps)
  show "disk_fat d' = g" "disk_dir d' p = t" using wf p len by (simp_all add: d'_def run_simps)
  have unat_cs: "unat (of_nat c :: u32) = c" if "c \<in> set cs" for c using cs(2) [OF that] by simp
  have csok: "dir_cluster (of_nat c)" if "c \<in> set cs" for c using cs(2) [OF that] by (simp add: dir_cluster_def)
  have later: "content d' c = content ?d c" if "cluster_ok c \<and> c \<noteq> 1" "c \<noteq> p" for c
    using that pok len by (simp add: d'_def mem_simps)
  have "distinct (map (of_nat :: nat \<Rightarrow> u32) cs)" unfolding distinct_map using cs(1) unat_cs by (metis inj_onI)
  then have "map (content ?d) (map of_nat cs) = blocks m buf n k"
    using k csok dir_cluster_ok by (intro disk_image.content_fold_zip) (auto dest: length_in_blocks)
  moreover have "map (content d') (map of_nat cs) = map (content ?d) (map of_nat cs)"
    using cs(2) csok dir_cluster_ok by (auto intro!: later)
  ultimately have "map (content d') (map of_nat cs) = blocks m buf n k" by (simp only:)
  then show "take n (concat (map (content d') (map of_nat cs))) = load_bytes m buf n"
    using take_concat_blocks [of n k m buf] cluster_need_bounds(1) [of n] k by simp
  fix c
  assume c: "cluster_ok c" "c \<noteq> 1" "c \<noteq> p" "unat c \<notin> set cs"
  have "content ?d c = content d c"
    using c unat_cs csok dir_cluster_ok
    by (intro disk_image.content_fold_other) (auto dest: length_in_blocks elim!: in_set_zipE)
  then show "content d' c = content d c" using later c by simp
qed

lemma write_file_step:
  fixes s r
  defines "p \<equiv> r_parent_cluster_number r" and "f \<equiv> disk_fat (disk s)" and "n \<equiv> unat (r_buffer_size r)"
  defines "t \<equiv> disk_dir (disk s) p" and "cs \<equiv> take (cluster_need n) (frees f 3)"
  defines "e \<equiv> new_file_entry r (hd cs)"
  assumes inv: "fs_inv s D" "p \<in> D" and r: "wf_request r" "request_key r \<noteq> zero_key" "r_buffer_size r \<noteq> 0"
    and none: "lookup t (request_key r) = None"
    and free: "\<exists>i < 64. \<not> used (t ! i)" and room: "cluster_need n \<le> length (frees f 3)"
  shows "\<exists>i s'. write' s r = Some (0, s') \<and> i < 64 \<and> \<not> used (t ! i) \<and> ram s' = ram s \<and>
     cluster_map s' = link f cs \<and> length (dir_table_buf s') = 64 \<and>
     disk_fat (disk s') = link f cs \<and> disk_dir (disk s') p = t[i := e] \<and>
     take n (concat (map (content (disk s')) (map of_nat cs))) = load_bytes (ram s) (r_buf r) n \<and>
     (\<forall>c. (in_use f c \<or> c = 0) \<and> c \<noteq> p \<longrightarrow> content (disk s') c = content (disk s) c)"
proof -
  note tree = inv(1) [unfolded fs_inv_def fs_ok_def, THEN conjunct1, folded f_def]
  have p: "dir_cluster p" and t: "table_ok p t" using fs_inv_dir [OF inv] by (simp_all add: t_def)
  obtain i where slot: "scan_slot t 0 = Some i"
    using free by (cases "scan_slot t 0") (auto simp: scan_slot_search search_from_None_iff used_def t_def)
  then have i: "i < 64" "\<not> used (t ! i)" by (auto simp: scan_slot_search search_from_Some_iff used_def t_def)
  have cs: "distinct cs" "set cs \<subseteq> set (frees f 3)" "length cs = cluster_need n"
    using room by (auto simp: cs_def dest: in_set_takeD)
  have csp: "3 \<le> c \<and> c < 512 \<and> of_nat c \<noteq> p" if "c \<in> set cs" for c
    using that cs(2) dir_in_use [OF tree inv(2)] by (auto simp: in_frees in_use_def)
  have wf: "wf_fat (link f cs)" "wf_table (t[i := e])"
    by (simp_all add: wf_fat_length f_def t_def e_def wf_table_update wf_new_file_entry [OF r(1)])
  let ?d = "set_content (set_content (fold (\<lambda>(c, bs) d. set_content d c bs)
      (zip (map of_nat cs) (blocks (ram s) (r_buf r) n (cluster_need n))) (disk s)) 1 (fat_bytes (link f cs)))
    p (table_bytes (t[i := e]))"
  note disk = write_file_disk [OF cs(3) refl cs(1) csp p wf, where m = "ram s" and buf = "r_buf r" and d = "disk s"]
  obtain b where run: "write' s r = Some (0, s\<lparr>cluster_map := link f cs, cluster_buf := b, dir_table_buf := t[i := e],
      disk := ?d\<rparr>)"
    using write_file_run [of r s i] p r slot t none room search_same_file_None [OF t r(1,2)]
    unfolding p_def f_def t_def cs_def n_def e_def by (auto simp: table_ok_def)
  have "content ?d c = content (disk s) c" if "in_use f c \<or> c = 0" "c \<noteq> p" for c
    using that cs(2) in_use_kept [OF that(1)] by (intro disk(4)) (auto simp: in_frees in_use_def)
  with disk(1-3) run i show ?thesis by (intro exI) (auto simp: t_def)
qed

text \<open>
  A file written under a new name is there afterwards, and nothing else has changed: \<open>write\<close>
  returns 0, the parent directory maps the name to exactly the bytes of the request's buffer, every
  other name of every directory keeps its meaning, the memory of the caller is untouched, and the
  invariant of the file system is kept. The hypotheses are that the name is not taken, that the
  directory has a free entry and that the allocation table has as many free clusters as the data needs.
\<close>

lemma write_file_effect:
  assumes "fs_inv s D" and "r_parent_cluster_number r \<in> D" and "wf_request r" and "request_key r \<noteq> zero_key"
    and "r_buffer_size r \<noteq> 0" and "listing (disk s) (r_parent_cluster_number r) (request_key r) = None"
    and "\<exists>i < 64. \<not> used (disk_dir (disk s) (r_parent_cluster_number r) ! i)"
    and "cluster_need (unat (r_buffer_size r)) \<le> length (frees (disk_fat (disk s)) 3)"
  shows "\<exists>s'. write' s r = Some (0, s') \<and> fs_inv s' D \<and> ram s' = ram s \<and>
     (\<forall>q \<in> D. listing (disk s') q =
        (if q = r_parent_cluster_number r
         then (listing (disk s) q)(request_key r \<mapsto> File (load_bytes (ram s) (r_buf r) (unat (r_buffer_size r))))
         else listing (disk s) q))"
proof -
  let ?p = "r_parent_cluster_number r" and ?n = "unat (r_buffer_size r)"
  define f where "f = disk_fat (disk s)"
  define cs where "cs = take (cluster_need ?n) (frees f 3)"
  define e where "e = new_file_entry r (hd cs)"
  note e = new_file_entry_fields [of r "hd cs", folded e_def] sound_new_file_entry [OF assms(3), of "hd cs", folded e_def]
  have ok: "fs_ok (disk s) D" using assms(1) by (simp add: fs_inv_def)
  have none: "lookup (disk_dir (disk s) ?p) (request_key r) = None" using assms(6) by (simp add: listing_def)
  obtain i s' where run: "write' s r = Some (0, s')" "ram s' = ram s" and i: "i < 64" "\<not> used (disk_dir (disk s) ?p ! i)"
    and s': "cluster_map s' = link f cs" "length (dir_table_buf s') = 64" "disk_fat (disk s') = link f cs"
    "disk_dir (disk s') ?p = (disk_dir (disk s) ?p)[i := e]"
    and data: "take ?n (concat (map (content (disk s')) (map of_nat cs))) = load_bytes (ram s) (r_buf r) ?n"
    and keep: "\<And>c. in_use f c \<or> c = 0 \<Longrightarrow> c \<noteq> ?p \<Longrightarrow> content (disk s') c = content (disk s) c"
    using write_file_step [OF assms(1-5) none assms(7,8)] unfolding f_def cs_def e_def by blast
  have cs: "distinct cs" "set cs \<subseteq> set (frees f 3)" "length cs = cluster_need (unat (e_filesize e))"
    using assms(8) by (auto simp: cs_def f_def e dest: in_set_takeD)
  note tree = ok [unfolded fs_ok_def, folded f_def]
  have none': "lookup (disk_dir (disk s) ?p) (key_of e) = None" "e_filesize e \<noteq> 0" using none e assms(5) by simp_all
  note added = tree_add_file [OF tree assms(2) i e(5,1) none' cs e(4)]
  have new: "node_of (disk s') (disk_fat (disk s')) e = File (load_bytes (ram s) (r_buf r) ?n)"
    using added(2) data e none' by (simp add: node_of_def file_data_def s')
  have tabs: "disk_dir (disk s') q = disk_dir (disk s) q" if "q \<in> D" "q \<noteq> ?p" for q
    using keep [OF disjI1 [OF dir_in_use [OF tree that(1)]] that(2)] by (simp add: disk_dir_def)
  have fat: "disk_fat (disk s') ! unat c = f ! unat c" if "in_use f c" for c
    using that cs(2) by (auto simp: s' in_frees in_use_def intro!: link_other)
  have "tree_ok (link f cs) (disk_dir (disk s')) D"
    using tabs by (intro tree_ok_cong [OF added(1)]) (simp add: s')
  then have "fs_inv s' D"
    using assms(1) keep [of 0] root_not_dir [OF assms(1,2)] by (simp add: fs_inv_def fs_ok_def boot_ok_def s')
  moreover have "listing (disk s') ?p = (listing (disk s) ?p)(request_key r \<mapsto> File (load_bytes (ram s) (r_buf r) ?n))"
    unfolding new [symmetric] e(3) [symmetric] using i e none keep fat assms(2)
    by (intro listing_add [OF ok]) (auto simp: s' f_def)
  moreover have "listing (disk s') q = listing (disk s) q" if "q \<in> D" "q \<noteq> ?p" for q
    using that tabs keep fat assms(2) by (intro listing_other [OF ok]) (auto simp: f_def)
  ultimately show ?thesis using run by auto
qed

section \<open>New directories\<close>

text \<open>The self entry of a new directory at cluster \<open>c\<close>, its parent entry and its table.\<close>

definition self_entry :: "u8 list \<Rightarrow> u32 \<Rightarrow> FAT32DirectoryEntry" where
  "self_entry name c = zero_entry\<lparr>e_attribute := ATTR_SUBDIRECTORY, e_user_attribute := UATTR_NOT_EMPTY,
     e_cluster_high := cluster_high_of c, e_cluster_low := cluster_low_of c, e_filesize := 0, e_name := name\<rparr>"

definition parent_entry :: "FAT32DirectoryEntry \<Rightarrow> FAT32DirectoryEntry" where
  "parent_entry e = e\<lparr>e_name := [46, 46, 0, 0, 0, 0, 0, 0]\<rparr>"

definition new_table :: "FAT32DirectoryEntry \<Rightarrow> FAT32DirectoryEntry \<Rightarrow> FAT32DirectoryTable" where
  "new_table a b = a # b # replicate 62 zero_entry"

lemma self_entry_fields:
  "used (self_entry name c)" "e_filesize (self_entry name c) = 0"
  "key_of (self_entry name c) = (name, replicate 3 0)" "entry_cluster (self_entry name c) = c"
  "length name = 8 \<Longrightarrow> wf_entry (self_entry name c)"
  by (simp_all add: self_entry_def used_def key_of_def entry_cluster_fields wf_entry_def zero_entry_def)

lemma sound_self_entry: "length name = 8 \<Longrightarrow> sound_entry (self_entry name c)"
  by (simp add: sound_entry_def self_entry_fields) (simp add: self_entry_def ATTR_SUBDIRECTORY_def)

lemma parent_entry_fields:
  "used (parent_entry e) = used e" "e_filesize (parent_entry e) = e_filesize e"
  "key_of (parent_entry e) = ([46, 46, 0, 0, 0, 0, 0, 0], e_ext e)" "entry_cluster (parent_entry e) = entry_cluster e"
  "wf_entry e \<Longrightarrow> wf_entry (parent_entry e)"
  by (simp_all add: parent_entry_def used_def key_of_def entry_cluster_def wf_entry_def)

lemma sound_parent_entry: "sound_entry e \<Longrightarrow> sound_entry (parent_entry e)"
  by (simp add: sound_entry_def parent_entry_fields) (simp add: parent_entry_def)

lemma concat_replicate_replicate: "concat (replicate n (replicate m x)) = replicate (n * m) x"
  by (induction n) (simp_all add: replicate_add)

lemma entry_bytes_zero: "entry_bytes zero_entry = replicate 32 0"
  by (simp add: entry_bytes_def zero_entry_def le16_def le32_def numeral_eq_Suc)

lemma new_table_bytes: "table_bytes (new_table a b) = entry_bytes a @ entry_bytes b @ replicate 1984 0"
  by (simp add: table_bytes_def new_table_def map_replicate entry_bytes_zero concat_replicate_replicate)

lemma wf_new_table: "wf_entry a \<Longrightarrow> wf_entry b \<Longrightarrow> wf_table (new_table a b)"
  by (auto simp: wf_table_def new_table_def DIR_ENTRY_COUNT_def)

lemma length_new_table [simp]: "length (new_table a b) = 64"
  by (simp add: new_table_def)

lemma new_table_nth:
  "new_table a b ! 0 = a" "new_table a b ! 1 = b" "2 \<le> j \<Longrightarrow> j < 64 \<Longrightarrow> new_table a b ! j = zero_entry"
  by (simp_all add: new_table_def nth_Cons')

lemma empty_new_table:
  assumes "used a" "used b" "e_filesize a = 0" "e_filesize b = 0" "sound_entry a" "sound_entry b"
    and "entry_cluster a = p" "snd (key_of a) = replicate 3 0" "key_of b = dotdot_key" "key_of a \<noteq> dotdot_key"
  shows "empty_dir p (new_table a b)"
proof -
  have slots: "i = 0 \<or> i = 1 \<or> 2 \<le> i" for i :: nat by linarith
  have "table_ok p (new_table a b)"
    unfolding table_ok_def
  proof (intro conjI allI impI)
    fix i :: nat
    assume "i < 64"
    then show "e_attribute (new_table a b ! i) \<noteq> 1"
      using slots [of i] assms(5,6) new_table_nth(1,2) [of a b] new_table_nth(3) [of i a b] attribute_zero zero_neq_one
      unfolding sound_entry_def by metis
  next
    fix i
    assume "i < 64" "\<not> used (new_table a b ! i)"
    then show "new_table a b ! i = zero_entry"
      using slots [of i] assms(1,2) new_table_nth(1,2) [of a b] new_table_nth(3) [of i a b] by metis
  next
    fix i j
    assume *: "i < 64" "j < 64" "used (new_table a b ! i) \<and> used (new_table a b ! j) \<and>
      key_of (new_table a b ! i) = key_of (new_table a b ! j)"
    then show "i = j" 
      using slots [of i] slots [of j] assms(9,10) new_table_nth(1,2) [of a b] new_table_nth(3) [of _ a b] not_used_zero by metis
  qed (use assms in \<open>simp_all add: new_table_nth wf_new_table sound_entry_def del: One_nat_def\<close>)
  then show ?thesis by (simp add: empty_dir_def new_table_nth)
qed

text \<open>The run of \<open>init_directory_table\<close>, for the root and for a subdirectory.\<close>

lemma init_root_run:
  assumes "search_from (\<lambda>v. v = FAT32_FAT_EMPTY_ENTRY) 1 (cluster_map s) = Some 2"
    and "length (cluster_map s) = 512" and "length (dir_table_buf s) = 64" and "length name = 8"
  defines "g \<equiv> (cluster_map s)[2 := FAT32_FAT_END_OF_FILE]"
    and "n \<equiv> new_table (self_entry name 2) (parent_entry (self_entry name 2))"
  shows "init_directory_table s name p = Some (s\<lparr>cluster_map := g, dir_table_buf := (dir_table_buf s)[0 := n ! 0, 1 := n ! 1],
     cluster_buf := table_bytes n,
     disk := set_content (set_content (disk s) 1 (fat_bytes g)) 2 (table_bytes n)\<rparr>)"
proof -
  have g: "wf_fat g" using assms(2) by (simp add: g_def wf_fat_length)
  have n: "wf_table n" using assms(4) by (simp add: n_def wf_new_table self_entry_fields parent_entry_fields)
  note bytes = length_table_bytes [OF n] length_fat_bytes [OF g]
  show ?thesis
    using assms(1-3) bytes
    by (simp add: init_directory_table_def ROOT_CLUSTER_NUMBER_def FAT_CLUSTER_NUMBER_def put_cluster_ok
        new_table_nth new_table_nth(2) [unfolded One_nat_def] new_table_bytes n_def flip: g_def self_entry_def parent_entry_def)
qed

lemma init_subdir_run:
  fixes s c p i name
  assumes search: "search_from (\<lambda>v. v = FAT32_FAT_EMPTY_ENTRY) 1 (cluster_map s) = Some c" and c: "3 \<le> c"
    and len: "length (cluster_map s) = 512" "length (dir_table_buf s) = 64" "length name = 8"
    and p: "dir_cluster p" and slot: "search_from (\<lambda>e. e_user_attribute e \<noteq> UATTR_NOT_EMPTY) 0 (disk_dir (disk s) p) = Some i"
  defines "g \<equiv> (cluster_map s)[c := FAT32_FAT_END_OF_FILE]" and "e \<equiv> self_entry name (of_nat c)"
  defines "t \<equiv> (disk_dir (disk s) p)[i := e]"
  defines "n \<equiv> new_table e (parent_entry (t ! 0))"
  shows "init_directory_table s name p = Some (s\<lparr>cluster_map := g, dir_table_buf := (dir_table_buf s)[0 := n ! 0, 1 := n ! 1],
     cluster_buf := table_bytes n,
     disk := set_content (set_content (set_content (disk s) 1 (fat_bytes g)) p (table_bytes t)) (of_nat c) (table_bytes n)\<rparr>)"
proof -
  have c512: "c < 512" "i < 64" using search slot len by (auto simp: search_from_Some_iff)
  have ne: "(of_nat c :: u32) \<noteq> 2"
    using c c512 by (auto dest!: arg_cong [of _ _ unat])
  have ok: "cluster_ok (of_nat c)" "cluster_ok p" "p \<noteq> 1"
    using dir_cluster_ok [OF p] c512 by (simp_all add: cluster_ok_def)
  have g: "wf_fat g" using len by (simp add: g_def wf_fat_length)
  have t: "wf_table t" using len(3) by (simp add: t_def wf_table_update e_def self_entry_fields)
  have t0: "wf_entry (t ! 0)" "get_at t 0 = Some (t ! 0)" using t by (auto simp: wf_table_def DIR_ENTRY_COUNT_def)
  have n: "wf_table n" using len(3) t0(1) by (simp add: n_def e_def wf_new_table self_entry_fields parent_entry_fields)
  note bytes = length_table_bytes [OF n] length_table_bytes [OF t] length_fat_bytes [OF g]
  have "content (set_content (disk s) 1 (fat_bytes g)) p = content (disk s) p"
    using ok bytes by (simp add: mem_simps)
  then have rd: "read_clusters (set_content (disk s) 1 (fat_bytes g)) p 1 = Some (content (disk s) p)"
    using ok by (simp add: mem_simps)
  show ?thesis
    using search slot ne ok len bytes c512 rd t0(2)
    by (simp add: init_directory_table_def ROOT_CLUSTER_NUMBER_def FAT_CLUSTER_NUMBER_def put_cluster_ok
        new_table_nth new_table_nth(2) [unfolded One_nat_def] new_table_bytes n_def
        flip: g_def self_entry_def parent_entry_def disk_dir_def e_def t_def)
qed

text \<open>The first free cluster for a new directory is the one for a new file: clusters 1 and 2 are taken.\<close>

lemma search_free_cluster:
  assumes "length f = 512" "f ! 1 \<noteq> FAT32_FAT_EMPTY_ENTRY" "f ! 2 \<noteq> FAT32_FAT_EMPTY_ENTRY" "frees f 3 = c # cs"
  shows "search_from (\<lambda>v. v = FAT32_FAT_EMPTY_ENTRY) 1 f = Some c"
  unfolding search_from_Some_iff
proof (intro conjI allI impI)
  have "c \<in> set (frees f 3)" using assms(4) by simp
  then show "1 \<le> c" "c < length f" "f ! c = FAT32_FAT_EMPTY_ENTRY" using assms(1) by (auto simp: in_frees)
  fix j
  assume j: "1 \<le> j \<and> j < c"
  show "f ! j \<noteq> FAT32_FAT_EMPTY_ENTRY"
  proof (cases "j < 3")
    case True
    then have "j = 1 \<or> j = 2" using j by auto
    then show ?thesis using assms(2,3) by auto
  next
    case False
    have "j \<in> set (frees f 3) \<Longrightarrow> c \<le> j"
      using assms(4) sorted_frees [of f 3] by auto
    then show ?thesis using False j assms(1) \<open>c < length f\<close> by (auto simp: in_frees)
  qed
qed

lemma lookup_new_table:
  assumes "used a" "used b" "key_of a \<noteq> key_of b"
  shows "lookup (new_table a b) = [key_of a \<mapsto> a, key_of b \<mapsto> b]"
proof -
  have "find (\<lambda>e. used e \<and> key_of e = k) (replicate 62 zero_entry) = None" for k
    by (auto simp: find_None_iff)
  then show ?thesis using assms by (auto simp: lookup_def new_table_def)
qed

lemma write_folder_step:
  fixes s r
  defines "p \<equiv> r_parent_cluster_number r" and "f \<equiv> disk_fat (disk s)"
  defines "t \<equiv> disk_dir (disk s) p" and "c \<equiv> hd (frees f 3)"
  defines "e \<equiv> self_entry (r_name r) (of_nat c)"
  assumes inv: "fs_inv s D" "p \<in> D" and r: "wf_request r" "request_key r \<noteq> zero_key" "r_buffer_size r = 0"
    and none: "lookup t (request_key r) = None"
    and free: "\<exists>i < 64. \<not> used (t ! i)" and room: "frees f 3 \<noteq> []"
  shows "\<exists>i s'. write' s r = Some (0, s') \<and> i < 64 \<and> \<not> used (t ! i) \<and> ram s' = ram s \<and>
     cluster_map s' = f[c := FAT32_FAT_END_OF_FILE] \<and> length (dir_table_buf s') = 64 \<and>
     disk_fat (disk s') = f[c := FAT32_FAT_END_OF_FILE] \<and> disk_dir (disk s') p = t[i := e] \<and>
     disk_dir (disk s') (of_nat c) = new_table e (parent_entry (t ! 0)) \<and>
     (\<forall>q. (in_use f q \<or> q = 0) \<and> q \<noteq> p \<longrightarrow> content (disk s') q = content (disk s) q)"
proof -
  note tree = inv(1) [unfolded fs_inv_def fs_ok_def, THEN conjunct1, folded f_def]
  have p: "dir_cluster p" and t: "table_ok p t" using fs_inv_dir [OF inv] by (simp_all add: t_def)
  obtain i where slot: "scan_slot t 0 = Some i"
    using free by (cases "scan_slot t 0") (auto simp: scan_slot_search search_from_None_iff used_def t_def)
  then have i: "i < 64" "\<not> used (t ! i)" by (auto simp: scan_slot_search search_from_Some_iff used_def t_def)
  then have i2: "2 \<le> i" using free_slot_ge_2 [OF t] by blast
  obtain cs where fr: "frees f 3 = c # cs" using room by (cases "frees f 3") (auto simp: c_def)
  have "c \<in> set (frees f 3)" using fr by simp
  then have c: "3 \<le> c" "c < 512" "f ! c = FAT32_FAT_EMPTY_ENTRY" by (auto simp: in_frees)
  have w: "dir_cluster (of_nat c)" "unat (of_nat c :: u32) = c" using c by (simp_all add: dir_cluster_def)
  have wp: "of_nat c \<noteq> p" using dir_in_use [OF tree inv(2)] c w by (auto simp: in_use_def)
  have lf: "length f = 512" by (simp add: f_def)
  have name: "length (r_name r) = 8" using r(1) by (simp add: wf_request_def)
  have t0: "t[i := e] ! 0 = t ! 0" "wf_entry (t ! 0)" using i2 table_ok_wf [OF t] by simp_all
  have f2: "f ! 2 \<noteq> FAT32_FAT_EMPTY_ENTRY" using tree_root_used [OF tree] by (simp add: in_use_def fat_consts)
  let ?g = "f[c := FAT32_FAT_END_OF_FILE]" and ?n = "new_table e (parent_entry (t ! 0))"
  let ?d = "set_content (set_content (set_content (disk s) 1 (fat_bytes ?g)) p (table_bytes (t[i := e]))) (of_nat c) (table_bytes ?n)"
  let ?s = "s\<lparr>cluster_map := f, dir_table_buf := replicate 64 zero_entry\<rparr>"
  have init: "init_directory_table ?s (r_name r) p = Some (?s\<lparr>cluster_map := ?g,
      dir_table_buf := (replicate 64 zero_entry)[0 := ?n ! 0, 1 := ?n ! 1], cluster_buf := table_bytes ?n, disk := ?d\<rparr>)"
    using init_subdir_run [of ?s c "r_name r" p i] search_free_cluster [OF lf tree_reserved [OF tree] f2 fr] c(1) lf name p slot t0
    by (simp add: scan_slot_search flip: t_def e_def)
  have run: "\<exists>s'. write' s r = Some (0, s') \<and> ram s' = ram s \<and> cluster_map s' = ?g \<and>
      length (dir_table_buf s') = 64 \<and> disk s' = ?d"
    using init slot r(3) i(1)
      write_start [of r s c cs, folded p_def f_def, folded t_def, OF p _ fr search_same_file_None [OF t r(1,2), THEN iffD2, OF none]] t
    by (simp add: write_folder_def DIR_ENTRY_COUNT_def table_ok_def flip: p_def)
  have wf: "wf_fat ?g" "wf_table (t[i := e])" "wf_table ?n"
    using lf t0(2) name table_ok_wf_table [OF t]
    by (simp_all add: wf_fat_length e_def wf_table_update wf_new_table self_entry_fields parent_entry_fields)
  note bytes = length_fat_bytes [OF wf(1)] length_table_bytes [OF wf(2)] length_table_bytes [OF wf(3)]
  have "disk_fat ?d = ?g" "disk_dir ?d p = t[i := e]" "disk_dir ?d (of_nat c) = ?n"
    using wf bytes p w wp dir_cluster_ok [OF p] dir_cluster_ok [OF w(1)] by (simp_all add: run_simps)
  moreover have "content ?d q = content (disk s) q" if q: "in_use f q \<or> q = 0" "q \<noteq> p" for q
  proof -
    have "unat q \<noteq> unat (of_nat c :: u32)" using q(1) c w(2) by (auto simp: in_use_def)
    then have "q \<noteq> of_nat c" by blast
    then show ?thesis
      using bytes q(2) dir_cluster_ok [OF p] dir_cluster_ok [OF w(1)] in_use_kept [OF q(1)]
      by (simp add: mem_simps)
  qed
  ultimately show ?thesis using run i by metis
qed

text \<open>The parent entry and the table of a new directory.\<close>

lemma new_dir_table:
  assumes t: "table_ok p t" and e: "used e" "e_filesize e = 0" "sound_entry e" "entry_cluster e = w"
    and key: "snd (key_of e) = replicate 3 0" "lookup t (key_of e) = None"
  shows "empty_dir w (new_table e (parent_entry (t ! 0)))"
    and "entry_cluster (new_table e (parent_entry (t ! 0)) ! 1) = p"
    and "lookup (new_table e (parent_entry (t ! 0))) = [key_of e \<mapsto> e, dotdot_key \<mapsto> parent_entry (t ! 0)]"
proof -
  have t0: "used (t ! 0)" "e_filesize (t ! 0) = 0" "sound_entry (t ! 0)" "entry_cluster (t ! 0) = p"
      "snd (key_of (t ! 0)) = replicate 3 0" and t1: "used (t ! 1)" "key_of (t ! 1) = dotdot_key"
    using t table_ok_wf [OF t, of 0] by (simp_all add: table_ok_def sound_entry_def)
  have b: "key_of (parent_entry (t ! 0)) = dotdot_key"
    using t0(5) by (simp add: parent_entry_fields dotdot_key_def) (simp add: key_of_def)
  have ne: "key_of e \<noteq> dotdot_key" using key(2) t1 lookup_eq_None [OF t] by auto
  show "empty_dir w (new_table e (parent_entry (t ! 0)))"
    using e t0 b ne key(1) by (intro empty_new_table) (simp_all add: parent_entry_fields sound_parent_entry)
  show "entry_cluster (new_table e (parent_entry (t ! 0)) ! 1) = p"
    using t0(4) by (simp add: new_table_nth parent_entry_fields del: One_nat_def)
  show "lookup (new_table e (parent_entry (t ! 0))) = [key_of e \<mapsto> e, dotdot_key \<mapsto> parent_entry (t ! 0)]"
    using lookup_new_table [of e "parent_entry (t ! 0)"] e t0 b ne by (simp add: parent_entry_fields)
qed

text \<open>
  \<open>write\<close> with a buffer size of zero makes a directory. It returns 0, the parent maps the name to
  a cluster that was no directory before, the new directory lists exactly itself and its parent, every
  other listing is unchanged and the invariant holds for the larger set of directories.
\<close>

lemma write_dir_effect:
  assumes "fs_inv s D" and "r_parent_cluster_number r \<in> D" and "wf_request r" and "request_key r \<noteq> zero_key"
    and "r_buffer_size r = 0" and "r_ext r = replicate 3 0"
    and "listing (disk s) (r_parent_cluster_number r) (request_key r) = None"
    and "\<exists>i < 64. \<not> used (disk_dir (disk s) (r_parent_cluster_number r) ! i)"
    and "frees (disk_fat (disk s)) 3 \<noteq> []"
  shows "\<exists>s' w. write' s r = Some (0, s') \<and> w \<notin> D \<and> fs_inv s' (insert w D) \<and> ram s' = ram s \<and>
     listing (disk s') w = [request_key r \<mapsto> Dir w, dotdot_key \<mapsto> Dir (r_parent_cluster_number r)] \<and>
     (\<forall>q \<in> D. listing (disk s') q =
        (if q = r_parent_cluster_number r then (listing (disk s) q)(request_key r \<mapsto> Dir w)
         else listing (disk s) q))"
proof -
  let ?p = "r_parent_cluster_number r"
  define f where "f = disk_fat (disk s)"
  define t where "t = disk_dir (disk s) ?p"
  define w :: u32 where "w = of_nat (hd (frees f 3))"
  define e where "e = self_entry (r_name r) w"
  have name: "length (r_name r) = 8" using assms(3) by (simp add: wf_request_def)
  note e = self_entry_fields(1-4) [of "r_name r" w, folded e_def] sound_self_entry [OF name, of w, folded e_def]
  have key: "key_of e = request_key r" using assms(6) e by (simp add: request_key_def)
  have ok: "fs_ok (disk s) D" using assms(1) by (simp add: fs_inv_def)
  note tree = ok [unfolded fs_ok_def, folded f_def]
  have t: "table_ok ?p t" using tree_table [OF tree assms(2)] by (simp add: t_def)
  have none: "lookup t (request_key r) = None" using assms(7) by (simp add: listing_def t_def)
  have "hd (frees f 3) \<in> set (frees f 3)" using assms(9) by (simp add: f_def)
  then have c: "unat w = hd (frees f 3)" "unat w \<in> set (frees f 3)" by (auto simp: w_def in_frees)
  then have fresh: "\<not> in_use f w" by (auto simp: in_frees in_use_def)
  obtain i s' where run: "write' s r = Some (0, s')" "ram s' = ram s" and i: "i < 64" "\<not> used (t ! i)"
    and s': "cluster_map s' = disk_fat (disk s')" "length (dir_table_buf s') = 64"
      "disk_fat (disk s') = f[unat w := FAT32_FAT_END_OF_FILE]" "disk_dir (disk s') ?p = t[i := e]"
      "disk_dir (disk s') w = new_table e (parent_entry (t ! 0))"
    and keep: "\<And>q. in_use f q \<or> q = 0 \<Longrightarrow> q \<noteq> ?p \<Longrightarrow> content (disk s') q = content (disk s) q"
    using write_folder_step [OF assms(1-5) none [unfolded t_def] assms(8,9)] c(1)
    unfolding f_def t_def e_def w_def by metis
  note n = new_dir_table [OF t e(1,2,5,4)]
  have nk: "snd (key_of e) = replicate 3 0" "lookup t (key_of e) = None" using e(3) none key by simp_all
  have wD: "w \<notin> D" "w \<noteq> ?p" using fresh dir_in_use [OF tree] assms(2) by auto
  have tabs: "disk_dir (disk s') q = disk_dir (disk s) q" if "q \<in> D" "q \<noteq> ?p" for q
    using keep [OF disjI1 [OF dir_in_use [OF tree that(1)]] that(2)] by (simp add: disk_dir_def)
  have fat: "disk_fat (disk s') ! unat q = f ! unat q" if "in_use f q" for q
    using that fresh by (metis s'(3) nth_list_update_neq word_unat_eq_iff)
  have "tree_ok (disk_fat (disk s')) (disk_dir (disk s')) (insert w D)"
    unfolding s'(3) using tabs wD s'
    by (intro tree_ok_cong [OF tree_add_dir [OF tree assms(2) i [unfolded t_def] e(5,1) nk(2) [unfolded t_def] e(2,4) c(2) n(1,2) [OF nk]]])
      (auto simp: t_def)
  then have "fs_inv s' (insert w D)"
    using s'(1,2) assms(1) keep [of 0] root_not_dir [OF assms(1,2)] by (simp add: fs_inv_def fs_ok_def boot_ok_def)
  moreover have "listing (disk s') ?p = (listing (disk s) ?p)(request_key r \<mapsto> Dir w)"
    using listing_add [OF ok assms(2) i [unfolded t_def] e(5,1) nk(2) [unfolded t_def] s'(4) [unfolded t_def]] keep fat assms(2) e
    by (auto simp: f_def node_of_def key)
  moreover have "listing (disk s') q = listing (disk s) q" if "q \<in> D" "q \<noteq> ?p" for q
    using that tabs keep fat assms(2) by (intro listing_other [OF ok]) (auto simp: f_def)
  moreover have "listing (disk s') w = [request_key r \<mapsto> Dir w, dotdot_key \<mapsto> Dir ?p]"
    using n(2,3) [OF nk] t e key s'(5) by (auto simp: listing_def node_of_def parent_entry_fields table_ok_def)
  ultimately show ?thesis using run wD(1) by auto
qed

end
