(* ===== verification/Fat32_Format.thy ===== *)
theory Fat32_Format
  imports Fat32_Write
begin

text \<open>
  Formatting and booting: what \<open>create_fat32\<close> leaves on the disk, and what
  \<open>initialize_filesystem_fat32\<close> does on a blank and on a formatted disk.
\<close>

section \<open>The boot sector\<close>

lemma length_fs_signature [simp]: "length fs_signature = 512"
  by (simp add: fs_signature_def bytes_of_def BLOCK_SIZE_def)

lemma write_boot_sector: "length bs = 512 \<Longrightarrow> write_blocks d bs 0 1 = Some (store_bytes d 0 bs)"
  by (simp add: write_blocks_def block_offset_def block_in_image_def size_defs chunk_def)

lemma read_boot_sector: "read_blocks d 0 1 = Some (take BLOCK_SIZE (content d 0))"
  by (simp add: read_blocks_def block_offset_def block_in_image_def size_defs content_def take_load_bytes)

lemma is_empty_storage_eq: "is_empty_storage s = Some (\<not> boot_ok (disk s))"
  by (simp add: is_empty_storage_def BOOT_SECTOR_def read_boot_sector boot_ok_def memcmp_bytes_eq_0_iff BLOCK_SIZE_def)

lemma boot_ok_store: "boot_ok (store_bytes d 0 fs_signature)"
proof -
  have "take BLOCK_SIZE (content (store_bytes d 0 fs_signature) 0) = load_bytes (store_bytes d 0 fs_signature) 0 (length fs_signature)"
    by (simp add: content_def take_load_bytes BLOCK_SIZE_def)
  also have "\<dots> = fs_signature" by (intro load_store_bytes) simp
  finally show ?thesis by (simp add: boot_ok_def)
qed

lemma boot_ok_set: "cluster_ok c \<Longrightarrow> c \<noteq> 0 \<Longrightarrow> length bs = 2048 \<Longrightarrow> boot_ok (set_content d c bs) = boot_ok d"
  by (simp add: boot_ok_def mem_simps cluster_ok_def)

section \<open>Formatting\<close>

text \<open>The allocation table of a formatted disk: the two reserved clusters and the root directory.\<close>

definition format_fat :: "u32 list" where
  "format_fat = [CLUSTER_0_VALUE, CLUSTER_1_VALUE, FAT32_FAT_END_OF_FILE] @ replicate 509 0"

definition root_table :: "u8 list \<Rightarrow> FAT32DirectoryTable" where
  "root_table name = new_table (self_entry name 2) (parent_entry (self_entry name 2))"

lemma create_fat32_run:
  assumes "cluster_map s = replicate 512 0" and "length (dir_table_buf s) = 64" and "length pad = 3"
  defines "name \<equiv> bytes_of ''root'' @ [0] @ pad"
  shows "\<exists>s'. create_fat32 pad s = Some s' \<and> cluster_map s' = format_fat \<and> length (dir_table_buf s') = 64 \<and> ram s' = ram s \<and>
     boot_ok (disk s') \<and> disk_fat (disk s') = format_fat \<and> disk_dir (disk s') 2 = root_table name"
proof -
  have name: "length name = 8" using assms(3) by (simp add: name_def bytes_of_def)
  let ?f = "(replicate 512 0)[0 := CLUSTER_0_VALUE, 1 := CLUSTER_1_VALUE]"
  have f: "?f = [CLUSTER_0_VALUE, CLUSTER_1_VALUE, 0] @ replicate 509 0" by (simp add: numeral_eq_Suc)
  have g: "?f[2 := FAT32_FAT_END_OF_FILE] = format_fat" unfolding f format_fat_def by simp
  have search: "search_from (\<lambda>v. v = FAT32_FAT_EMPTY_ENTRY) 1 ?f = Some 2"
    unfolding f search_from_def by (simp add: fat_consts)
  have wf: "wf_fat ?f" "wf_fat format_fat" by (simp_all add: wf_fat_length format_fat_def)
  have t: "wf_table (root_table name)"
    using name by (simp add: root_table_def wf_new_table self_entry_fields parent_entry_fields)
  note len = length_fat_bytes [OF wf(1)] length_fat_bytes [OF wf(2)] length_table_bytes [OF t]
  let ?s = "s\<lparr>cluster_map := ?f, disk := set_content (store_bytes (disk s) 0 fs_signature) 1 (fat_bytes ?f)\<rparr>"
  have "create_fat32 pad s = init_directory_table ?s name ROOT_CLUSTER_NUMBER"
    using assms(1) len by (simp add: create_fat32_def BOOT_SECTOR_def write_boot_sector put_cluster_ok name_def)
  also have "\<dots> = Some (?s\<lparr>cluster_map := format_fat,
      dir_table_buf := (dir_table_buf s)[0 := root_table name ! 0, 1 := root_table name ! 1],
      cluster_buf := table_bytes (root_table name),
      disk := set_content (set_content (disk ?s) 1 (fat_bytes format_fat)) 2 (table_bytes (root_table name))\<rparr>)"
    using init_root_run [of ?s name ROOT_CLUSTER_NUMBER] search assms(2) name g by (simp add: root_table_def)
  finally show ?thesis
    using assms(2) wf t len boot_ok_store
    by (simp add: boot_ok_set cluster_ok_def run_simps dir_cluster_def)
qed

lemma format_fat_nth: "3 \<le> i \<Longrightarrow> i < 512 \<Longrightarrow> format_fat ! i = 0"
  "format_fat ! 1 = CLUSTER_1_VALUE" "format_fat ! 2 = FAT32_FAT_END_OF_FILE"
  by (simp_all add: format_fat_def nth_append)

lemma frees_format: "frees format_fat 3 = [3..<512]"
  by (auto simp: frees_def CLUSTER_MAP_SIZE_def format_fat_nth fat_consts filter_id_conv)

lemma root_table_empty:
  assumes "length name = 8" and "name \<noteq> fst dotdot_key"
  shows "empty_dir 2 (root_table name)" and "entry_cluster (root_table name ! 1) = 2"
    and "lookup (root_table name) = [(name, replicate 3 0) \<mapsto> self_entry name 2, dotdot_key \<mapsto> parent_entry (self_entry name 2)]"
proof -
  have b: "key_of (parent_entry (self_entry name 2)) = dotdot_key"
    by (simp add: parent_entry_fields dotdot_key_def) (simp add: self_entry_def zero_entry_def)
  have a: "key_of (self_entry name 2) \<noteq> dotdot_key" using assms(2) by (metis fst_conv self_entry_fields(3))
  show "empty_dir 2 (root_table name)"
    unfolding root_table_def using assms(1) a b
    by (intro empty_new_table) (simp_all add: self_entry_fields parent_entry_fields sound_self_entry sound_parent_entry)
  show "entry_cluster (root_table name ! 1) = 2"
    by (simp add: root_table_def new_table_nth parent_entry_fields self_entry_fields del: One_nat_def)
  have "lookup (root_table name) = [key_of (self_entry name 2) \<mapsto> self_entry name 2,
      key_of (parent_entry (self_entry name 2)) \<mapsto> parent_entry (self_entry name 2)]"
    unfolding root_table_def
    by (rule lookup_new_table) (simp_all only: self_entry_fields(1) parent_entry_fields(1) a b not_False_eq_True)
  then show "lookup (root_table name) = [(name, replicate 3 0) \<mapsto> self_entry name 2, dotdot_key \<mapsto> parent_entry (self_entry name 2)]"
    unfolding b by (simp only: self_entry_fields(3))
qed

lemma tree_ok_format:
  assumes n: "empty_dir 2 n" "entry_cluster (n ! 1) = 2" and tab: "tab 2 = n"
  shows "tree_ok format_fat tab {2}"
proof (rule tree_okI)
  show "in_use format_fat ROOT_CLUSTER_NUMBER"
    by (simp add: in_use_def format_fat_nth ROOT_CLUSTER_NUMBER_def) (simp add: fat_consts)
  show "claim_ok format_fat i (tab p ! i)" if "p \<in> {2}" "i < 64" for p i
    using that tab empty_dir_slot(1,3) [OF n(1) that(2)] by (simp add: claim_ok_def)
  show "set (claim format_fat i (tab p ! i)) \<inter> set (claim format_fat j (tab q ! j)) = {}"
    if "p \<in> {2}" "i < 64" "q \<in> {2}" "j < 64" for p i q j
    using that tab empty_dir_slot(3) [OF n(1)] by simp
  show "c \<in> {2} \<longleftrightarrow> c = ROOT_CLUSTER_NUMBER \<or>
      (\<exists>p \<in> {2}. \<exists>i < 64. is_subdir i (tab p ! i) \<and> c = entry_cluster (tab p ! i))" for c
    using tab empty_dir_slot(2) [OF n(1)] by (auto simp: ROOT_CLUSTER_NUMBER_def)
  show "entry_cluster (tab (entry_cluster (tab p ! i)) ! 1) = p"
    if "p \<in> {2}" "i < 64" "is_subdir i (tab p ! i)" for p i
    using that tab empty_dir_slot(2) [OF n(1)] by auto
qed (use n tab in \<open>simp_all add: format_fat_def empty_dir_def ROOT_CLUSTER_NUMBER_def fat_consts\<close>)

text \<open>
  Formatting. On the zeroed driver state of a booting kernel, \<open>create_fat32\<close> succeeds on any
  disk content and leaves a well-formed file system whose only directory is the root: it lists itself
  and its parent entry, both with cluster 2, and every cluster from 3 on is free.
\<close>

lemma create_effect:
  assumes "cluster_map s = replicate 512 0" and "length (dir_table_buf s) = 64" and "length pad = 3"
  shows "\<exists>s'. create_fat32 pad s = Some s' \<and> fs_inv s' {2} \<and> ram s' = ram s \<and>
     listing (disk s') 2 = [(bytes_of ''root'' @ [0] @ pad, replicate 3 0) \<mapsto> Dir 2, dotdot_key \<mapsto> Dir 2] \<and>
     frees (disk_fat (disk s')) 3 = [3..<512]"
proof -
  let ?name = "bytes_of ''root'' @ [0] @ pad"
  have name: "length ?name = 8" "?name \<noteq> fst dotdot_key"
    using assms(3) by (simp_all add: bytes_of_def dotdot_key_def)
  obtain s' where s': "create_fat32 pad s = Some s'" "cluster_map s' = format_fat" "length (dir_table_buf s') = 64"
    "ram s' = ram s" "boot_ok (disk s')" "disk_fat (disk s') = format_fat" "disk_dir (disk s') 2 = root_table ?name"
    using create_fat32_run [OF assms] by blast
  note root = root_table_empty [OF name]
  have "fs_inv s' {2}"
    using s' tree_ok_format [OF root(1,2), of "disk_dir (disk s')"] by (simp add: fs_inv_def fs_ok_def)
  moreover have "listing (disk s') 2 = [(?name, replicate 3 0) \<mapsto> Dir 2, dotdot_key \<mapsto> Dir 2]"
    unfolding listing_def s'(7) root(3)
    by (auto simp: node_of_def self_entry_fields parent_entry_fields)
  ultimately show ?thesis using s' frees_format by simp
qed

section \<open>Booting\<close>

text \<open>
  Booting. On a disk without the signature \<open>initialize_filesystem_fat32\<close> formats it; on a disk
  that holds a file system it leaves the disk alone and restores the invariant, the cached allocation
  table included, whatever the driver's memory held before: every directory lists after the reboot
  what it listed before.
\<close>

lemma initialize_effect:
  "(\<not> boot_ok (disk s) \<longrightarrow> initialize_filesystem_fat32 pad s = create_fat32 pad s) \<and>
   (boot_ok (disk s) \<and> fs_ok (disk s) D \<longrightarrow>
     (\<exists>s'. initialize_filesystem_fat32 pad s = Some s' \<and> disk s' = disk s \<and> ram s' = ram s \<and> fs_inv s' D \<and>
       (\<forall>q. listing (disk s') q = listing (disk s) q)))"
  by (simp add: initialize_filesystem_fat32_def is_empty_storage_eq run_simps fs_inv_def)

end
