(* ===== verification/Fat32_Ops.thy ===== *)
theory Fat32_Ops
  imports Fat32_Format
begin

text \<open>
  The other operations against the directory tree: the refusals of \<open>write\<close>, \<open>read\<close> and
  \<open>read_directory\<close>, \<open>delete\<close>, and the round trips between them.
\<close>

section \<open>Reading\<close>

lemma lookup_index:
  assumes "table_ok p t" and "lookup t k = Some e"
  obtains i where "i < 64" "e = t ! i" "used (t ! i)" "key_of (t ! i) = k"
  using assms(2) unfolding lookup_eq_Some [OF assms(1)] by blast

lemma listing_file:
  assumes ok: "fs_ok d D" and p: "p \<in> D" and l: "listing d p k = Some (File xs)"
  obtains i where "i < 64" "used (disk_dir d p ! i)" "key_of (disk_dir d p ! i) = k"
    "e_filesize (disk_dir d p ! i) \<noteq> 0" "file_data d (disk_fat d) (disk_dir d p ! i) = xs"
proof -
  note t = tree_table [OF ok [unfolded fs_ok_def] p]
  obtain e where e: "lookup (disk_dir d p) k = Some e" "node_of d (disk_fat d) e = File xs"
    using l by (auto simp: listing_def)
  obtain i where "i < 64" "e = disk_dir d p ! i" "used (disk_dir d p ! i)" "key_of (disk_dir d p ! i) = k"
    using lookup_index [OF t e(1)] by metis
  then show ?thesis using that e(2) by (auto simp: node_of_def split: if_splits)
qed

lemma cluster_count_need:
  assumes "n mod 2048 \<noteq> 0"
  shows "n div 2048 + 1 = cluster_need n"
  using assms by (simp add: cluster_need_def div_add1_eq [of n 2047])

text \<open>A file is no longer than the clusters of the allocation table.\<close>

lemma file_size_bound:
  assumes t: "tree_ok f tab D" and p: "p \<in> D" "i < 64"
  shows "unat (e_filesize (tab p ! i)) \<le> 2 ^ 20"
proof (cases "e_filesize (tab p ! i) = 0")
  case False
  let ?cs = "file_clusters f (tab p ! i)"
  have ok: "claim_ok f i (tab p ! i)" "claim f i (tab p ! i) = ?cs"
    using tree_claim [OF t p] False by (simp_all add: claim_file)
  then have "distinct (map unat ?cs)" by (simp add: claim_ok_def distinct_map inj_on_def word_unat_eq_iff)
  moreover have "set (map unat ?cs) \<subseteq> {..<512}" using ok by (auto simp: claim_ok_def in_use_def CLUSTER_MAP_SIZE_def)
  ultimately have "length ?cs \<le> 512"
    using card_mono [of "{..<512}" "set (map unat ?cs)"] distinct_card [of "map unat ?cs"] by simp
  then show ?thesis using cluster_need_bounds(1) [of "unat (e_filesize (tab p ! i))"] by (simp add: length_file_clusters)
qed simp

lemma read_cluster_count:
  fixes n :: u32
  assumes "unat n \<le> 2 ^ 20"
  shows "unat (n div 2048 + 1) = unat n div 2048 + 1" and "\<not> (n div 2048 + 1) * 2048 < n"
proof -
  have d: "unat (n div 2048) = unat n div 2048" by (simp add: unat_div)
  have "unat n div 2048 \<le> 512" using div_le_mono [OF assms, of 2048] by simp
  then show *: "unat (n div 2048 + 1) = unat n div 2048 + 1"
    using unat_add_small [of "n div 2048" 1] d by simp
  have "unat ((n div 2048 + 1) * 2048) = (unat n div 2048 + 1) * 2048"
    using * \<open>unat n div 2048 \<le> 512\<close> by (simp add: unat_word_ariths)
  then show "\<not> (n div 2048 + 1) * 2048 < n"
    by (simp add: word_less_nat_alt)
qed

text \<open>The run of \<open>read\<close> on a file of the tree: the loop over \<open>filesize / CLUSTER_SIZE + 1\<close> clusters.\<close>

lemma read_start:
  fixes s r
  defines "p \<equiv> r_parent_cluster_number r"
  assumes inv: "fs_inv s D" "p \<in> D" and r: "wf_request r" "request_key r \<noteq> zero_key" "r_buffer_size r \<noteq> 0"
    and i: "i < 64" "used (disk_dir (disk s) p ! i)" "key_of (disk_dir (disk s) p ! i) = request_key r"
  defines "e \<equiv> disk_dir (disk s) p ! i"
  shows "read s r = map_option (Pair 0) (read_loop (s\<lparr>dir_table_buf := disk_dir (disk s) p\<rparr>) (r_buf r) (entry_cluster e) 0
     (unat (e_filesize e) div 2048 + 1))"
proof -
  note tree = inv(1) [unfolded fs_inv_def fs_ok_def, THEN conjunct1]
  have p: "dir_cluster p" and t: "table_ok p (disk_dir (disk s) p)" using fs_inv_dir [OF inv] by simp_all
  have "search_from (\<lambda>e. same_file e r) 0 (disk_dir (disk s) p) = Some i" using i by (simp add: search_same_file [OF t r(1,2)])
  moreover have "e_attribute e \<noteq> 1" using table_ok_attribute [OF t i(1)] by (simp add: e_def)
  moreover note read_cluster_count [OF file_size_bound [OF tree inv(2) i(1)], folded e_def]
  moreover have "map_option (Pair (0 :: int)) X = X \<bind> (\<lambda>s. Some (0, s))" for X :: "fs_state option" by (cases X) simp_all
  ultimately show ?thesis
    using r(3) i(1) dir_cluster_ok [OF p]
    by (simp add: read_def run_simps del: read_loop.simps flip: p_def e_def)
qed

lemma length_file_data: "length (file_data d f e) = unat (e_filesize e)"
  using length_concat_uniform [of "file_clusters f e" "content d" 2048] cluster_need_bounds(1)
  by (simp add: file_data_def length_file_clusters)

lemma chain_small:
  assumes "tree_ok f tab D" and "p \<in> D" "i < 64" "e_filesize (tab p ! i) \<noteq> 0"
  shows "\<forall>c \<in> set (file_clusters f (tab p ! i)). unat c < 512"
  using claim_in_use [OF assms(1-3)] assms(4) by (auto simp: claim_file in_use_def CLUSTER_MAP_SIZE_def)

text \<open>The clusters of a file in full, with what follows its end in the last one.\<close>

definition stored_clusters :: "image \<Rightarrow> u32 \<Rightarrow> file_key \<Rightarrow> u8 list" where
  "stored_clusters d p k =
     (case lookup (disk_dir d p) k of None \<Rightarrow> [] | Some e \<Rightarrow> concat (map (content d) (file_clusters (disk_fat d) e)))"

lemma stored_clusters:
  assumes "listing d p k = Some (File xs)"
  shows "length (stored_clusters d p k) = 2048 * cluster_need (length xs)" and "take (length xs) (stored_clusters d p k) = xs"
proof -
  obtain e where e: "lookup (disk_dir d p) k = Some e" "file_data d (disk_fat d) e = xs"
    using assms by (auto simp: listing_def node_of_def split: if_splits)
  have n: "unat (e_filesize e) = length xs" using e(2) length_file_data by metis
  show "length (stored_clusters d p k) = 2048 * cluster_need (length xs)"
    using length_concat_uniform [of "file_clusters (disk_fat d) e" "content d" 2048] by (simp add: stored_clusters_def e(1) length_file_clusters n)
  show "take (length xs) (stored_clusters d p k) = xs" using e n by (simp add: stored_clusters_def file_data_def)
qed

text \<open>
  \<open>read\<close> returns what was stored. For a file of the tree whose size is no multiple of the cluster
  size, it returns 0 and copies the clusters of the file in full to the caller's buffer: first the data of the file, then up to
  2047 bytes that follow it on the disk. No byte behind them is touched, and disk and invariant are unchanged.
\<close>

lemma read_effect:
  assumes "fs_inv s D" and "r_parent_cluster_number r \<in> D" and "wf_request r" and "request_key r \<noteq> zero_key"
    and "r_buffer_size r \<noteq> 0" and "listing (disk s) (r_parent_cluster_number r) (request_key r) = Some (File xs)"
    and "length xs mod 2048 \<noteq> 0"
  shows "\<exists>s'. read s r = Some (0, s') \<and> load_bytes (ram s') (r_buf r) (length xs) = xs \<and>
     load_bytes (ram s') (r_buf r) (2048 * cluster_need (length xs)) = stored_clusters (disk s) (r_parent_cluster_number r) (request_key r) \<and>
     (\<forall>a. 2048 * cluster_need (length xs) \<le> unat (a - r_buf r) \<longrightarrow> ram s' a = ram s a) \<and>
     disk s' = disk s \<and> fs_inv s' D"
proof -
  let ?p = "r_parent_cluster_number r"
  have ok: "fs_ok (disk s) D" and cm: "cluster_map s = disk_fat (disk s)" using assms(1) by (simp_all add: fs_inv_def)
  note tree = ok [unfolded fs_ok_def]
  obtain i where i: "i < 64" "used (disk_dir (disk s) ?p ! i)" "key_of (disk_dir (disk s) ?p ! i) = request_key r"
    and ne: "e_filesize (disk_dir (disk s) ?p ! i) \<noteq> 0" and xs: "file_data (disk s) (disk_fat (disk s)) (disk_dir (disk s) ?p ! i) = xs"
    using listing_file [OF ok assms(2,6)] .
  let ?e = "disk_dir (disk s) ?p ! i" and ?s = "s\<lparr>dir_table_buf := disk_dir (disk s) ?p\<rparr>"
  have n: "unat (e_filesize ?e) = length xs" using xs length_file_data by metis
  have count: "length xs div 2048 + 1 = cluster_need (length xs)" using assms(7) by (rule cluster_count_need)
  have cl: "file_clusters (disk_fat (disk s)) ?e = chain (cluster_map ?s) (entry_cluster ?e) (cluster_need (length xs))"
    by (simp add: file_clusters_def n cm)
  have bound: "cluster_need (length xs) * 2048 \<le> 2 ^ 32"
    using file_size_bound [OF tree assms(2) i(1)] n by (simp add: cluster_need_def)
  obtain m where m: "read_loop ?s (r_buf r) (entry_cluster ?e) 0 (cluster_need (length xs)) = Some (?s\<lparr>ram := m\<rparr>)"
    "load_bytes m (r_buf r) (cluster_need (length xs) * 2048) = concat (map (content (disk s)) (file_clusters (disk_fat (disk s)) ?e))"
    "\<forall>a. cluster_need (length xs) * 2048 \<le> unat (a - r_buf r) \<longrightarrow> m a = ram s a"
    using read_loop_data [of ?s "entry_cluster ?e" "cluster_need (length xs)" 0 "r_buf r" "[]"] cm cl bound
      chain_small [OF tree assms(2) i(1) ne] by auto
  have "load_bytes m (r_buf r) (length xs) = take (length xs) (load_bytes m (r_buf r) (cluster_need (length xs) * 2048))"
    using cluster_need_bounds(1) [of "length xs"] by (simp add: take_load_bytes mult.commute)
  then have "load_bytes m (r_buf r) (length xs) = xs" using m(2) xs n by (simp add: file_data_def)
  moreover have "lookup (disk_dir (disk s) ?p) (request_key r) = Some ?e"
    unfolding lookup_eq_Some [OF tree_table [OF tree assms(2)]] using i by blast
  then have "load_bytes m (r_buf r) (2048 * cluster_need (length xs)) = stored_clusters (disk s) ?p (request_key r)"
    using m(2) by (simp add: stored_clusters_def mult.commute)
  moreover have "read s r = Some (0, ?s\<lparr>ram := m\<rparr>)"
    unfolding read_start [OF assms(1-5) i] n count m(1) by simp
  ultimately show ?thesis using m(3) assms(1) by (simp add: fs_inv_def mult.commute)
qed

text \<open>The loop of \<open>read\<close> cannot go one cluster beyond the end of a chain.\<close>

lemma load_ram_end_of_file: "load_ram s buf FAT32_FAT_END_OF_FILE = None"
proof -
  have "\<not> block_in_image (block_offset (cluster_to_lba FAT32_FAT_END_OF_FILE) 0)"
    by (simp add: block_offset_cluster block_in_image_def size_defs FAT32_FAT_END_OF_FILE_def)
  moreover have "(4 :: nat) = Suc 3" by simp
  ultimately have "read_clusters (disk s) FAT32_FAT_END_OF_FILE 1 = None"
    by (simp only: read_clusters_1 read_blocks_from.simps if_False)
  then show ?thesis by (simp add: load_ram_def)
qed

lemma read_loop_off_chain:
  assumes "length (cluster_map s) = 512" and "\<forall>c' \<in> set (chain (cluster_map s) c (Suc k)). unat c' < 512"
    and "cluster_map s ! unat (last (chain (cluster_map s) c (Suc k))) = FAT32_FAT_END_OF_FILE"
  shows "read_loop s buf c j (Suc (Suc k)) = None"
  using assms
proof (induction k arbitrary: s c j)
  case 0
  then have "cluster_ok c" by (simp add: cluster_ok_def)
  with 0 show ?case by (simp add: load_ram_ok load_ram_end_of_file)
next
  case (Suc k)
  let ?s = "s\<lparr>ram := store_bytes (ram s) (buf + of_nat (j * 2048)) (content (disk s) c)\<rparr>"
  have c: "unat c < 512" "cluster_ok c" using Suc.prems(2) by (simp_all add: cluster_ok_def)
  have "read_loop ?s buf (cluster_map ?s ! unat c) (Suc j) (Suc (Suc k)) = None"
    using Suc.prems by (intro Suc.IH) simp_all
  then show ?case
    by (subst read_loop.simps) (simp add: c load_ram_ok Suc.prems(1) del: read_loop.simps)
qed

text \<open>
  The boundary case that \<open>read\<close> does not handle. A file whose size is a positive multiple of the
  cluster size occupies \<open>filesize / CLUSTER_SIZE\<close> clusters, but \<open>read\<close> always transfers one more: it
  follows the end-of-file mark as if it were a cluster number and asks for a block far outside the
  disk. The call has no defined result.
\<close>

lemma read_overrun:
  assumes "fs_inv s D" and "r_parent_cluster_number r \<in> D" and "wf_request r" and "request_key r \<noteq> zero_key"
    and "r_buffer_size r \<noteq> 0" and "listing (disk s) (r_parent_cluster_number r) (request_key r) = Some (File xs)"
    and "length xs mod 2048 = 0"
  shows "read s r = None"
proof -
  let ?p = "r_parent_cluster_number r"
  have ok: "fs_ok (disk s) D" and cm: "cluster_map s = disk_fat (disk s)" using assms(1) by (simp_all add: fs_inv_def)
  note tree = ok [unfolded fs_ok_def]
  obtain i where i: "i < 64" "used (disk_dir (disk s) ?p ! i)" "key_of (disk_dir (disk s) ?p ! i) = request_key r"
    and ne: "e_filesize (disk_dir (disk s) ?p ! i) \<noteq> 0" and xs: "file_data (disk s) (disk_fat (disk s)) (disk_dir (disk s) ?p ! i) = xs"
    using listing_file [OF ok assms(2,6)] .
  let ?e = "disk_dir (disk s) ?p ! i" and ?s = "s\<lparr>dir_table_buf := disk_dir (disk s) ?p\<rparr>"
  have n: "unat (e_filesize ?e) = length xs" using xs length_file_data by metis
  then have "0 < length xs" using ne by (metis unat_gt_0)
  then obtain k where k: "length xs div 2048 = Suc k" using assms(7) by (cases "length xs div 2048") auto
  have "cluster_need (length xs) = length xs div 2048"
    using assms(7) by (auto simp: cluster_need_def div_add1_eq [of "length xs" 2047])
  then have cl: "file_clusters (disk_fat (disk s)) ?e = chain (cluster_map ?s) (entry_cluster ?e) (Suc k)"
    by (simp add: file_clusters_def n cm k)
  have "cluster_map ?s ! unat (last (file_clusters (disk_fat (disk s)) ?e)) = FAT32_FAT_END_OF_FILE"
    using tree_claim [OF tree assms(2) i(1)] ne by (simp add: claim_ok_def cm)
  then have "read_loop ?s (r_buf r) (entry_cluster ?e) 0 (Suc (Suc k)) = None"
    using chain_small [OF tree assms(2) i(1) ne] cm unfolding cl by (intro read_loop_off_chain) simp_all
  then show ?thesis
    unfolding read_start [OF assms(1-5) i] n k by (simp del: read_loop.simps)
qed

end
