(* ===== verification/Fat32_Delete.thy ===== *)
theory Fat32_Delete
  imports Fat32_Ops
begin

text \<open>
  \<open>delete\<close> against the directory tree: the loop over the chain of a file ends, a file disappears, a
  directory disappears only when it is empty, and every refusal leaves the disk as it was.
\<close>

section \<open>The loop over a chain\<close>

text \<open>Every cluster of the chain is overwritten, in the order of the chain, and the loop ends at its end.\<close>

lemma end_of_file_no_cluster: "unat c < 512 \<Longrightarrow> c \<noteq> FAT32_FAT_END_OF_FILE"
  by (auto simp: FAT32_FAT_END_OF_FILE_def)

lemma delete_loop_chain:
  assumes "length f = 512" and "length buf = 2048" and "\<forall>c' \<in> set (chain f c (Suc k)). unat c' < 512"
    and "f ! unat (last (chain f c (Suc k))) = FAT32_FAT_END_OF_FILE"
  shows "delete_loop f buf d c
    = Some (fold (\<lambda>(c, bs) d. set_content d c bs) (zip (chain f c (Suc k)) (replicate (Suc k) buf)) d)"
  using assms
proof (induction k arbitrary: c d)
  case 0
  then have "cluster_ok c" by (simp add: cluster_ok_def)
  with 0 show ?case by (subst delete_loop.simps) (simp add: mem_simps)
next
  case (Suc k)
  have c: "unat c < 512" "cluster_ok c" using Suc.prems(3) by (simp_all add: cluster_ok_def)
  have "f ! unat c \<noteq> FAT32_FAT_END_OF_FILE"
    using Suc.prems(3) by (intro end_of_file_no_cluster) simp
  then have "delete_loop f buf d c = delete_loop f buf (set_content d c buf) (f ! unat c)"
    using Suc.prems(1,2) c by (subst delete_loop.simps) (simp add: mem_simps)
  also have "\<dots> = Some (fold (\<lambda>(c, bs) d. set_content d c bs)
      (zip (chain f (f ! unat c) (Suc k)) (replicate (Suc k) buf)) (set_content d c buf))"
    using Suc.prems by (intro Suc.IH) simp_all
  finally show ?case by simp
qed

section \<open>Refusals\<close>

text \<open>
  The refusals. \<open>write\<close> under a name that the directory has returns 1, and \<open>read\<close> and \<open>delete\<close> under
  a name that it does not have return 2 and 1: in all of them the disk, the caller's memory and the
  invariant are unchanged.
\<close>

lemma refusal_effects:
  assumes "fs_inv s D" and "r_parent_cluster_number r \<in> D" and "wf_request r" and "request_key r \<noteq> zero_key"
  shows "(listing (disk s) (r_parent_cluster_number r) (request_key r) \<noteq> None \<and> frees (disk_fat (disk s)) 3 \<noteq> [] \<longrightarrow>
      (\<exists>s'. write' s r = Some (1, s') \<and> disk s' = disk s \<and> ram s' = ram s \<and> fs_inv s' D)) \<and>
    (listing (disk s) (r_parent_cluster_number r) (request_key r) = None \<longrightarrow>
      (\<exists>s'. read s r = Some (2, s') \<and> disk s' = disk s \<and> ram s' = ram s \<and> fs_inv s' D) \<and>
      (\<exists>s'. delete s r = Some (1, s') \<and> disk s' = disk s \<and> ram s' = ram s \<and> fs_inv s' D))"
proof -
  let ?p = "r_parent_cluster_number r" and ?t = "disk_dir (disk s) (r_parent_cluster_number r)"
  let ?l = "listing (disk s) ?p (request_key r)"
  have t: "table_ok ?p ?t" and p: "cluster_ok ?p" using fs_inv_dir [OF assms(1,2)] dir_cluster_ok by auto
  have l: "?l = None \<longleftrightarrow> search_from (\<lambda>e. same_file e r) 0 ?t = None"
    unfolding search_same_file_None [OF t assms(3,4)] by (simp add: listing_def)
  have "\<exists>s'. read s r = Some (2, s') \<and> disk s' = disk s \<and> ram s' = ram s \<and> fs_inv s' D" if "?l = None"
    using that l p assms(1) by (simp add: read_def run_simps fs_inv_def)
  moreover have "\<exists>s'. delete s r = Some (1, s') \<and> disk s' = disk s \<and> ram s' = ram s \<and> fs_inv s' D" if "?l = None"
    using that l p assms(1) by (simp add: delete_def run_simps fs_inv_def)
  moreover have "\<exists>s'. write' s r = Some (1, s') \<and> disk s' = disk s \<and> ram s' = ram s \<and> fs_inv s' D"
    if taken: "?l \<noteq> None" and room: "frees (disk_fat (disk s)) 3 \<noteq> []"
  proof -
    obtain c cs where fr: "frees (disk_fat (disk s)) 3 = c # cs" using room by (cases "frees (disk_fat (disk s)) 3") auto
    have sc: "scan_empty (disk_fat (disk s)) 3 = Some c" "c < 512"
      using fr frees_Cons [OF fr] by (simp_all add: scan_empty_frees)
    have t0: "e_user_attribute (?t ! 0) = UATTR_NOT_EMPTY" using t by (simp add: table_ok_def used_def)
    then show ?thesis
      using taken l p sc assms(1) by (auto simp: write'_def run_simps fs_inv_def fat_consts)
  qed
  ultimately show ?thesis by blast
qed

section \<open>Deleting a file\<close>

text \<open>What the disk holds after the clusters of a file were cleared and the table was written back.\<close>

lemma delete_file_disk:
  fixes cs :: "u32 list" and d :: image
  assumes cs: "distinct cs" "\<And>c. c \<in> set cs \<Longrightarrow> dir_cluster c \<and> c \<noteq> p" and p: "dir_cluster p" and wf: "wf_table t"
  defines "d' \<equiv> set_content (fold (\<lambda>(c, bs) d. set_content d c bs) (zip cs (replicate (length cs) (replicate 2048 0))) d) p (table_bytes t)"
  shows "disk_fat d' = disk_fat d" and "disk_dir d' p = t"
    and "\<And>c. c \<in> set cs \<Longrightarrow> content d' c = replicate 2048 0"
    and "\<And>c. cluster_ok c \<Longrightarrow> c \<noteq> p \<Longrightarrow> c \<notin> set cs \<Longrightarrow> content d' c = content d c"
proof -
  let ?zs = "zip cs (replicate (length cs) (replicate 2048 (0 :: u8)))"
  let ?d = "fold (\<lambda>(c, bs) d. set_content d c bs) ?zs d"
  note pok = dir_cluster_ok [OF p]
  have ok: "\<forall>(c, bs) \<in> set ?zs. cluster_ok c \<and> length bs = 2048"
    using cs(2) dir_cluster_ok by (auto elim!: in_set_zipE)
  have fst: "map fst ?zs = cs" by simp
  then have dom: "fst ` set ?zs = set cs" by (metis list.set_map)
  have len: "length (table_bytes t) = 2048" using wf by (simp add: codec_simps)
  have other: "content ?d c = content d c" if "cluster_ok c" "c \<notin> set cs" for c
    using disk_image.content_fold_other [OF ok that(1)] that(2) dom by simp
  have last: "content d' c = content ?d c" if "cluster_ok c" "c \<noteq> p" for c
    using that pok len by (simp add: d'_def mem_simps)
  have "1 \<notin> set cs" using cs(2) [of 1] by (auto simp: dir_cluster_def)
  then have "content d' 1 = content d 1" using last [of 1] other [of 1] pok by auto
  then show "disk_fat d' = disk_fat d" by (simp add: disk_fat_def FAT_CLUSTER_NUMBER_def del: fat_of_content_1)
  show "disk_dir d' p = t" using wf by (simp add: d'_def run_simps)
  show "content d' c = content d c" if "cluster_ok c" "c \<noteq> p" "c \<notin> set cs" for c
    using that last other by simp
  show "content d' c = replicate 2048 0" if c: "c \<in> set cs" for c
  proof -
    have "(c, replicate 2048 0) \<in> set ?zs" using c by (auto simp: in_set_zip in_set_conv_nth)
    then have "content ?d c = replicate 2048 0" using disk_image.content_fold [OF ok] cs(1) fst by auto
    then show ?thesis using last cs(2) [OF c] dir_cluster_ok by simp
  qed
qed

lemma delete_file_run:
  fixes s r i
  defines "p \<equiv> r_parent_cluster_number r" and "f \<equiv> disk_fat (disk s)"
  defines "t \<equiv> disk_dir (disk s) p"
  defines "cs \<equiv> file_clusters f (t ! i)"
  assumes inv: "fs_inv s D" "p \<in> D" and r: "wf_request r" "request_key r \<noteq> zero_key"
    and i: "i < 64" "used (t ! i)" "key_of (t ! i) = request_key r" "e_filesize (t ! i) \<noteq> 0"
  shows "delete s r = Some (0, s\<lparr>cluster_map := f, cluster_buf := replicate 2048 0, dir_table_buf := t[i := zero_entry],
     disk := set_content (fold (\<lambda>(c, bs) d. set_content d c bs) (zip cs (replicate (length cs) (replicate 2048 0))) (disk s))
       p (table_bytes (t[i := zero_entry]))\<rparr>)"
proof -
  note tree = inv(1) [unfolded fs_inv_def fs_ok_def, THEN conjunct1, folded f_def]
  have p: "dir_cluster p" and t: "table_ok p t" using fs_inv_dir [OF inv] by (simp_all add: t_def)
  have claim: "claim_ok f i (t ! i)" "claim f i (t ! i) = cs"
    using tree_claim [OF tree inv(2) i(1)] i(4) by (simp_all add: t_def cs_def claim_file)
  obtain k where k: "cluster_need (unat (e_filesize (t ! i))) = Suc k"
    using cluster_need_bounds(2) [of "unat (e_filesize (t ! i))"] i(4)
    by (cases "cluster_need (unat (e_filesize (t ! i)))") (auto simp: unat_gt_0)
  then have ch: "cs = chain f (entry_cluster (t ! i)) (Suc k)" "length cs = Suc k" by (simp_all add: cs_def file_clusters_def)
  have "\<forall>c' \<in> set cs. unat c' < 512" using chain_small [OF tree inv(2) i(1)] i(4) by (simp add: cs_def t_def)
  moreover have "f ! unat (last cs) = FAT32_FAT_END_OF_FILE" using claim i(4) by (simp add: claim_ok_def cs_def)
  ultimately have loop: "delete_loop f (replicate 2048 0) (disk s) (entry_cluster (t ! i))
      = Some (fold (\<lambda>(c, bs) d. set_content d c bs) (zip cs (replicate (length cs) (replicate 2048 0))) (disk s))"
    unfolding ch by (simp only: length_chain) (rule delete_loop_chain; simp add: f_def)
  have "entry_cluster (t ! i) \<in> set cs" by (simp add: ch)
  then have root: "entry_cluster (t ! i) \<noteq> ROOT_CLUSTER_NUMBER" using claim by (auto simp: claim_ok_def)
  have search: "search_from (\<lambda>e. same_file e r) 0 t = Some i" using i by (simp add: search_same_file [OF t r])
  have wf: "wf_table (t[i := zero_entry])" by (simp add: t_def wf_table_update)
  have lt: "length t = 64" by (simp add: t_def)
  show ?thesis
    using search root loop i(1,4) dir_cluster_ok [OF p] wf lt
    by (simp add: delete_def run_simps codec_simps flip: p_def f_def t_def)
qed

text \<open>The effect on the tree of clearing entry \<open>i\<close> of \<open>p\<close> when only clusters of that file were written besides.\<close>

lemma delete_file_tree:
  assumes ok: "fs_ok d D" and p: "p \<in> D" and i: "i < 64" "used (disk_dir d p ! i)" "e_filesize (disk_dir d p ! i) \<noteq> 0"
  defines "cs \<equiv> file_clusters (disk_fat d) (disk_dir d p ! i)"
  assumes d': "disk_fat d' = disk_fat d" "disk_dir d' p = (disk_dir d p)[i := zero_entry]"
    and other: "\<And>c. cluster_ok c \<Longrightarrow> c \<noteq> p \<Longrightarrow> c \<notin> set cs \<Longrightarrow> content d' c = content d c"
  shows "fs_ok d' D" and "listing d' p = (listing d p)(key_of (disk_dir d p ! i) := None)"
    and "q \<in> D \<Longrightarrow> q \<noteq> p \<Longrightarrow> listing d' q = listing d q"
proof -
  note tree = ok [unfolded fs_ok_def]
  have cl: "claim (disk_fat d) i (disk_dir d p ! i) = cs" using i(3) by (simp add: claim_file cs_def)
  have csD: "c \<notin> D" if "c \<in> set cs" for c
    using dir_not_in_file [OF tree _ p i(1)] that by (auto simp: cs_def)
  have tabs: "disk_dir d' q = disk_dir d q" if "q \<in> D" "q \<noteq> p" for q
  proof -
    have "q \<notin> set cs" using csD that(1) by blast
    then show ?thesis using other [OF cluster_ok_in_use [OF dir_in_use [OF tree that(1)]] that(2)] by (simp add: disk_dir_def)
  qed
  have keep: "content d' c = content d c"
    if "q \<in> D" "j < 64" "(q, j) \<noteq> (p, i)" "c \<in> set (file_clusters (disk_fat d) (disk_dir d q ! j))"
      "in_use (disk_fat d) c" "c \<notin> D" for q j c
  proof -
    have "c \<notin> set cs"
      using tree_disjoint [OF tree that(1,2) p i(1) that(3)] that(4) cl
      by (cases "e_filesize (disk_dir d q ! j) = 0") (auto simp: claim_file)
    then show ?thesis using that(5,6) p by (intro other) (auto simp: cluster_ok_in_use)
  qed
  note cleared = tree_clear_file [OF tree p i(1,3)]
  show "fs_ok d' D"
    unfolding fs_ok_def d'(1) by (rule tree_ok_cong [OF cleared(1)]) (simp add: tabs d'(2))
  show "listing d' p = (listing d p)(key_of (disk_dir d p ! i) := None)"
    using listing_del [OF ok p cleared(2) i(1,2) d'(2)] keep [OF p] d'(1) by simp
  show "listing d' q = listing d q" if "q \<in> D" "q \<noteq> p"
    using that tabs keep d'(1) by (intro listing_other [OF ok]) auto
qed

text \<open>
  \<open>delete\<close> of a file. It returns 0, the name is gone from its directory, every other name of every
  directory keeps its meaning, the data of the file is overwritten with zeroes, and the invariant
  is kept. The allocation table is left as it was, so the clusters of the file are not given back.
\<close>

lemma delete_file_effect:
  assumes "fs_inv s D" and "r_parent_cluster_number r \<in> D" and "wf_request r" and "request_key r \<noteq> zero_key"
    and "listing (disk s) (r_parent_cluster_number r) (request_key r) = Some (File xs)"
  shows "\<exists>s'. delete s r = Some (0, s') \<and> fs_inv s' D \<and> ram s' = ram s \<and>
     (\<forall>q \<in> D. listing (disk s') q =
        (if q = r_parent_cluster_number r then (listing (disk s) q)(request_key r := None) else listing (disk s) q)) \<and>
     (\<forall>e. lookup (disk_dir (disk s) (r_parent_cluster_number r)) (request_key r) = Some e \<longrightarrow>
        (\<forall>c \<in> set (file_clusters (disk_fat (disk s)) e). content (disk s') c = replicate 2048 0)) \<and>
     disk_fat (disk s') = disk_fat (disk s)"
proof -
  let ?p = "r_parent_cluster_number r"
  define t where "t = disk_dir (disk s) ?p"
  have ok: "fs_ok (disk s) D" using assms(1) by (simp add: fs_inv_def)
  note tree = ok [unfolded fs_ok_def]
  have p: "dir_cluster ?p" and t: "table_ok ?p t" using fs_inv_dir [OF assms(1,2)] by (simp_all add: t_def)
  obtain i where i: "i < 64" "used (t ! i)" "key_of (t ! i) = request_key r" "e_filesize (t ! i) \<noteq> 0"
    using listing_file [OF ok assms(2,5)] unfolding t_def by metis
  define cs where "cs = file_clusters (disk_fat (disk s)) (t ! i)"
  note run = delete_file_run [OF assms(1-4) i [unfolded t_def], folded t_def, folded cs_def]
  have cl: "claim (disk_fat (disk s)) i (t ! i) = cs" using i(4) by (simp add: claim_file cs_def)
  have cs1: "distinct cs" using tree_claim [OF tree assms(2) i(1)] cl by (simp add: claim_ok_def t_def)
  have cs2: "dir_cluster c \<and> c \<noteq> ?p" if "c \<in> set cs" for c
    using tree_claim [OF tree assms(2) i(1)] cl that dir_not_in_file [OF tree assms(2,2) i(1)]
    by (auto simp: claim_ok_def cs_def t_def intro!: dir_cluster_in_use)
  have wf: "wf_table (t[i := zero_entry])" by (simp add: t_def wf_table_update)
  define s' where "s' = s\<lparr>cluster_map := disk_fat (disk s), cluster_buf := replicate 2048 0, dir_table_buf := t[i := zero_entry],
     disk := set_content (fold (\<lambda>(c, bs) d. set_content d c bs) (zip cs (replicate (length cs) (replicate 2048 0))) (disk s))
       ?p (table_bytes (t[i := zero_entry]))\<rparr>"
  have s': "cluster_map s' = disk_fat (disk s)" "ram s' = ram s" "dir_table_buf s' = t[i := zero_entry]" by (simp_all add: s'_def)
  have disk: "disk_fat (disk s') = disk_fat (disk s)" "disk_dir (disk s') ?p = t[i := zero_entry]"
    "\<And>c. c \<in> set cs \<Longrightarrow> content (disk s') c = replicate 2048 0"
    "\<And>c. cluster_ok c \<Longrightarrow> c \<noteq> ?p \<Longrightarrow> c \<notin> set cs \<Longrightarrow> content (disk s') c = content (disk s) c"
    using delete_file_disk [OF cs1 cs2 p wf, where d = "disk s"] by (simp_all add: s'_def)
  note effect = delete_file_tree [OF ok assms(2) i(1,2,4) [unfolded t_def] disk(1) disk(2) [unfolded t_def] disk(4) [unfolded cs_def t_def]]
  have "0 \<notin> set cs" using cs2 [of 0] by (auto simp: dir_cluster_def)
  then have "boot_ok (disk s')"
    using assms(1) disk(4) [of 0] root_not_dir [OF assms(1,2)] by (simp add: fs_inv_def boot_ok_def cluster_ok_def)
  then have "fs_inv s' D" using effect(1) by (simp add: fs_inv_def s' disk(1) t_def)
  moreover have "e = t ! i" if "lookup t (request_key r) = Some e" for e
    using that i lookup_eq_Some [OF t, of "request_key r"] by (metis option.inject)
  moreover have "delete s r = Some (0, s')" using run by (simp add: s'_def)
  ultimately show ?thesis
    using disk(1,3) effect(2,3) i(3) by (intro exI [of _ s']) (auto simp: s' t_def cs_def)
qed

section \<open>Deleting a directory\<close>

lemma listing_dir:
  assumes ok: "fs_ok d D" and p: "p \<in> D" and l: "listing d p k = Some (Dir w)" and k: "w \<noteq> p" "k \<noteq> dotdot_key"
  obtains i where "i < 64" "is_subdir i (disk_dir d p ! i)" "key_of (disk_dir d p ! i) = k" "entry_cluster (disk_dir d p ! i) = w"
proof -
  note t = tree_table [OF ok [unfolded fs_ok_def] p]
  obtain e where e: "lookup (disk_dir d p) k = Some e" "node_of d (disk_fat d) e = Dir w" using l by (auto simp: listing_def)
  obtain i where i: "i < 64" "e = disk_dir d p ! i" "used (disk_dir d p ! i)" "key_of (disk_dir d p ! i) = k"
    using lookup_index [OF t e(1)] by metis
  have w: "e_filesize e = 0" "entry_cluster e = w" using e(2) by (auto simp: node_of_def split: if_splits)
  have "entry_cluster (disk_dir d p ! 0) = p" "key_of (disk_dir d p ! 1) = dotdot_key" using t by (simp_all add: table_ok_def)
  then have "i \<noteq> 0" "i \<noteq> 1" using w i k by metis+
  then have "2 \<le> i" by simp
  with that i w show ?thesis by (simp add: is_subdir_def)
qed

text \<open>A directory has entries besides its own two exactly when it lists another name.\<close>

lemma dir_nonempty_iff:
  assumes ok: "fs_ok d D" and w: "w \<in> D"
  shows "(\<exists>j < 64. 2 \<le> j \<and> used (disk_dir d w ! j))
    \<longleftrightarrow> (\<exists>k. listing d w k \<noteq> None \<and> k \<noteq> dotdot_key \<and> k \<noteq> key_of (disk_dir d w ! 0))" (is "?l \<longleftrightarrow> ?r")
proof -
  note t = tree_table [OF ok [unfolded fs_ok_def] w]
  have heads: "used (disk_dir d w ! 0)" "used (disk_dir d w ! 1)" "key_of (disk_dir d w ! 1) = dotdot_key"
    using t by (simp_all add: table_ok_def)
  have dom: "listing d w k \<noteq> None \<longleftrightarrow> (\<exists>j < 64. used (disk_dir d w ! j) \<and> key_of (disk_dir d w ! j) = k)" for k
    using lookup_eq_None [OF t, of k] by (auto simp: listing_def)
  have "key_of (disk_dir d w ! j) \<noteq> dotdot_key \<and> key_of (disk_dir d w ! j) \<noteq> key_of (disk_dir d w ! 0)"
    if "j < 64" "2 \<le> j" "used (disk_dir d w ! j)" for j
    using that table_ok_unique [OF t, of j 0] table_ok_unique [OF t, of j 1] heads by auto
  moreover have "2 \<le> j" if "key_of (disk_dir d w ! j) \<noteq> dotdot_key" "key_of (disk_dir d w ! j) \<noteq> key_of (disk_dir d w ! 0)" for j
  proof (rule ccontr)
    assume "\<not> 2 \<le> j"
    then have "j = 0 \<or> j = 1" by linarith
    with that heads(3) show False by metis
  qed
  ultimately show ?thesis unfolding dom by blast
qed

lemma self_listed:
  assumes ok: "fs_ok d D" and w: "w \<in> D"
  shows "listing d w (key_of (disk_dir d w ! 0)) \<noteq> None" and "key_of (disk_dir d w ! 0) \<noteq> dotdot_key"
proof -
  note t = tree_table [OF ok [unfolded fs_ok_def] w]
  have heads: "used (disk_dir d w ! 0)" "used (disk_dir d w ! 1)" "key_of (disk_dir d w ! 1) = dotdot_key"
    using t by (simp_all add: table_ok_def)
  have "lookup (disk_dir d w) (key_of (disk_dir d w ! 0)) \<noteq> None"
    unfolding lookup_eq_None [OF t] using heads(1) by (metis zero_less_numeral)
  then show "listing d w (key_of (disk_dir d w ! 0)) \<noteq> None" by (simp add: listing_def)
  show "key_of (disk_dir d w ! 0) \<noteq> dotdot_key" using table_ok_unique [OF t, of 0 1] heads by auto
qed

text \<open>The two outcomes of \<open>delete\<close> on a subdirectory.\<close>

lemma delete_dir_run:
  fixes s r i
  defines "p \<equiv> r_parent_cluster_number r" and "f \<equiv> disk_fat (disk s)"
  defines "t \<equiv> disk_dir (disk s) p"
  defines "w \<equiv> entry_cluster (t ! i)" and "s1 \<equiv> s\<lparr>dir_table_buf := t, cluster_map := f\<rparr>"
  assumes inv: "fs_inv s D" "p \<in> D" and r: "wf_request r" "request_key r \<noteq> zero_key"
    and i: "i < 64" "is_subdir i (t ! i)" "key_of (t ! i) = request_key r"
  shows "delete s r = (if \<exists>j < 64. 2 \<le> j \<and> used (disk_dir (disk s) w ! j) then Some (2, s1)
     else Some (0, s1\<lparr>cluster_map := f[unat w := FAT32_FAT_EMPTY_ENTRY], cluster_buf := replicate 2048 0,
       dir_table_buf := t[i := zero_entry],
       disk := set_content (set_content (set_content (disk s) w (replicate 2048 0)) 1
         (fat_bytes (f[unat w := FAT32_FAT_EMPTY_ENTRY]))) p (table_bytes (t[i := zero_entry]))\<rparr>))"
proof -
  note tree = inv(1) [unfolded fs_inv_def fs_ok_def, THEN conjunct1, folded f_def]
  have p: "dir_cluster p" and t: "table_ok p t" using fs_inv_dir [OF inv] by (simp_all add: t_def)
  have claim: "in_use f w" "w \<noteq> ROOT_CLUSTER_NUMBER"
    using tree_claim [OF tree inv(2) i(1)] i(2) by (simp_all add: claim_ok_def t_def w_def)
  have w: "cluster_ok w" "unat w < length f" using claim(1) by (auto simp: cluster_ok_in_use in_use_def CLUSTER_MAP_SIZE_def f_def)
  have size: "e_filesize (t ! i) = 0" "used (t ! i)" using i(2) by (simp_all add: is_subdir_def)
  have search: "search_from (\<lambda>e. same_file e r) 0 t = Some i" using i size by (simp add: search_same_file [OF t r])
  have nonempty: "search_from (\<lambda>e. e_user_attribute e = UATTR_NOT_EMPTY) 2 (disk_dir (disk s) w) = None
      \<longleftrightarrow> \<not> (\<exists>j < 64. 2 \<le> j \<and> used (disk_dir (disk s) w ! j))"
    by (auto simp: search_from_None_iff used_def)
  have wf: "wf_table (t[i := zero_entry])" "wf_fat (f[unat w := FAT32_FAT_EMPTY_ENTRY])"
    by (simp_all add: t_def wf_table_update f_def wf_fat_length)
  have lt: "length t = 64" by (simp add: t_def)
  show ?thesis
    using search size claim(2) w dir_cluster_ok [OF p] i(1) lt wf nonempty
    by (cases "search_from (\<lambda>e. e_user_attribute e = UATTR_NOT_EMPTY) 2 (disk_dir (disk s) w)")
      (simp_all add: delete_def run_simps mem_simps codec_simps FAT_CLUSTER_NUMBER_def s1_def
        flip: p_def f_def t_def w_def disk_dir_def)
qed

text \<open>The disk after a directory was removed.\<close>

lemma delete_dir_disk:
  fixes d :: image
  assumes w: "dir_cluster w" "w \<noteq> p" and p: "dir_cluster p" and wf: "wf_fat g" "wf_table t"
  defines "d' \<equiv> set_content (set_content (set_content d w (replicate 2048 0)) 1 (fat_bytes g)) p (table_bytes t)"
  shows "disk_fat d' = g" and "disk_dir d' p = t"
    and "\<And>c. cluster_ok c \<Longrightarrow> c \<noteq> p \<Longrightarrow> c \<noteq> w \<Longrightarrow> c \<noteq> 1 \<Longrightarrow> content d' c = content d c"
  using wf p dir_cluster_ok [OF p] dir_cluster_ok [OF w(1)] w length_fat_bytes [OF wf(1)] length_table_bytes [OF wf(2)]
  by (simp_all add: d'_def run_simps mem_simps)

lemma delete_dir_tree:
  assumes ok: "fs_ok d D" and p: "p \<in> D" and i: "i < 64" "is_subdir i (disk_dir d p ! i)" "entry_cluster (disk_dir d p ! i) = w"
    and empty: "\<forall>j < 64. 2 \<le> j \<longrightarrow> \<not> used (disk_dir d w ! j)"
    and d': "disk_fat d' = (disk_fat d)[unat w := FAT32_FAT_EMPTY_ENTRY]" "disk_dir d' p = (disk_dir d p)[i := zero_entry]"
    and other: "\<And>c. in_use (disk_fat d) c \<Longrightarrow> c \<noteq> p \<Longrightarrow> c \<noteq> w \<Longrightarrow> content d' c = content d c"
  shows "fs_ok d' (D - {w})" and "listing d' p = (listing d p)(key_of (disk_dir d p ! i) := None)"
    and "q \<in> D - {w} \<Longrightarrow> q \<noteq> p \<Longrightarrow> listing d' q = listing d q"
proof -
  note tree = ok [unfolded fs_ok_def]
  have wD: "w \<in> D" using tree_dirs [OF tree, of w] p i by blast
  have i2: "2 \<le> i" "used (disk_dir d p ! i)" using i(2) by (simp_all add: is_subdir_def)
  have tabs: "disk_dir d' q = disk_dir d q" if "q \<in> D" "q \<noteq> p" "q \<noteq> w" for q
    using other [OF dir_in_use [OF tree that(1)] that(2,3)] by (simp add: disk_dir_def)
  have keep: "disk_fat d' ! unat c = disk_fat d ! unat c \<and> content d' c = content d c"
    if "in_use (disk_fat d) c" "c \<notin> D" for c
  proof -
    have "c \<noteq> w" "c \<noteq> p" using that(2) wD p by auto
    then show ?thesis using other [OF that(1)] unfolding d'(1) by (metis nth_list_update_neq word_unat_eq_iff)
  qed
  show "fs_ok d' (D - {w})"
    unfolding fs_ok_def d'(1)
    by (rule tree_ok_cong [OF tree_remove_dir [OF tree p i empty]]) (auto simp: tabs d'(2))
  show "listing d' p = (listing d p)(key_of (disk_dir d p ! i) := None)"
    by (rule listing_del [OF ok p i2(1) i(1) i2(2) d'(2)]) (rule keep)
  show "listing d' q = listing d q" if "q \<in> D - {w}" "q \<noteq> p"
    using that tabs by (intro listing_other [OF ok] keep) auto
qed

text \<open>
  \<open>delete\<close> of a directory. A directory that has any entry besides its own two is refused with 2 and
  the disk is unchanged. An empty one is removed: \<open>delete\<close> returns 0, the name is gone, its cluster is
  free again, it is no directory of the tree any more, and every other listing is unchanged.
\<close>

lemma delete_dir_effect:
  assumes "fs_inv s D" and "r_parent_cluster_number r \<in> D" and "wf_request r" and "request_key r \<noteq> zero_key"
    and "listing (disk s) (r_parent_cluster_number r) (request_key r) = Some (Dir w)"
    and "w \<noteq> r_parent_cluster_number r" and "request_key r \<noteq> dotdot_key"
  shows "((\<exists>j < 64. 2 \<le> j \<and> used (disk_dir (disk s) w ! j)) \<longrightarrow>
      (\<exists>s'. delete s r = Some (2, s') \<and> disk s' = disk s \<and> ram s' = ram s \<and> fs_inv s' D)) \<and>
    (\<not> (\<exists>j < 64. 2 \<le> j \<and> used (disk_dir (disk s) w ! j)) \<longrightarrow>
      (\<exists>s'. delete s r = Some (0, s') \<and> fs_inv s' (D - {w}) \<and> ram s' = ram s \<and>
        unat w \<in> set (frees (disk_fat (disk s')) 3) \<and>
        (\<forall>q \<in> D - {w}. listing (disk s') q =
          (if q = r_parent_cluster_number r then (listing (disk s) q)(request_key r := None) else listing (disk s) q))))"
proof -
  let ?p = "r_parent_cluster_number r"
  define f where "f = disk_fat (disk s)"
  have ok: "fs_ok (disk s) D" using assms(1) by (simp add: fs_inv_def)
  note tree = ok [unfolded fs_ok_def]
  have p: "dir_cluster ?p" and t: "table_ok ?p (disk_dir (disk s) ?p)" using fs_inv_dir [OF assms(1,2)] by simp_all
  obtain i where i: "i < 64" "is_subdir i (disk_dir (disk s) ?p ! i)" "key_of (disk_dir (disk s) ?p ! i) = request_key r"
    and w: "entry_cluster (disk_dir (disk s) ?p ! i) = w"
    using listing_dir [OF ok assms(2,5-7)] .
  note run = delete_dir_run [OF assms(1-4) i, unfolded w]
  have wuse: "in_use f w" "w \<noteq> 2"
    using tree_claim [OF tree assms(2) i(1)] i(2) w by (simp_all add: claim_ok_def f_def ROOT_CLUSTER_NUMBER_def)
  let ?g = "f[unat w := FAT32_FAT_EMPTY_ENTRY]" and ?t = "(disk_dir (disk s) ?p)[i := zero_entry]"
  let ?d = "set_content (set_content (set_content (disk s) w (replicate 2048 0)) 1 (fat_bytes ?g)) ?p (table_bytes ?t)"
  have wf: "wf_fat ?g" "wf_table ?t" by (simp_all add: f_def wf_fat_length wf_table_update)
  note disk = delete_dir_disk [OF dir_cluster_in_use [OF wuse(1)] assms(6) p wf, where d = "disk s"]
  have kept: "content ?d c = content (disk s) c" if "in_use f c \<or> c = 0" "c \<noteq> ?p" "c \<noteq> w" for c
    using that in_use_kept [OF that(1)] by (intro disk(3)) auto
  have removed: "\<exists>s'. delete s r = Some (0, s') \<and> fs_inv s' (D - {w}) \<and> ram s' = ram s \<and>
        unat w \<in> set (frees (disk_fat (disk s')) 3) \<and>
        (\<forall>q \<in> D - {w}. listing (disk s') q =
          (if q = ?p then (listing (disk s) q)(request_key r := None) else listing (disk s) q))"
    if empty: "\<not> (\<exists>j < 64. 2 \<le> j \<and> used (disk_dir (disk s) w ! j))"
  proof -
    have "\<forall>j < 64. 2 \<le> j \<longrightarrow> \<not> used (disk_dir (disk s) w ! j)" using empty by blast
    note effect = delete_dir_tree [OF ok assms(2) i(1,2) w this disk(1) [unfolded f_def] disk(2) [unfolded f_def] kept [unfolded f_def, OF disjI1]]
    have "0 \<noteq> w" using wuse(1) by (auto simp: in_use_def)
    then have "boot_ok ?d" using assms(1) kept [of 0] root_not_dir [OF assms(1,2)] by (simp add: fs_inv_def boot_ok_def)
    moreover have "unat w \<noteq> 2" using wuse(2) by (simp add: word_unat_eq_iff)
    then have "unat w \<in> set (frees ?g 3)"
      using wuse(1) by (auto simp: in_frees in_use_def f_def CLUSTER_MAP_SIZE_def)
    ultimately show ?thesis
      using run empty effect disk(1) i(3) by (simp add: fs_inv_def f_def)
  qed
  show ?thesis using run removed assms(1) by (auto simp: fs_inv_def)
qed

text \<open>The outcomes of \<open>delete\<close> for a name that is no link to a directory above: the entry is removed, or nothing changes.\<close>

lemma delete_cases:
  assumes request: "fs_inv s D" "r_parent_cluster_number r \<in> D" "wf_request r" "request_key r \<noteq> zero_key"
    and ordinary: "\<forall>w. listing (disk s) (r_parent_cluster_number r) (request_key r) = Some (Dir w) \<longrightarrow>
      w \<noteq> r_parent_cluster_number r \<and> request_key r \<noteq> dotdot_key"
  obtains (removed_file) xs s' where "listing (disk s) (r_parent_cluster_number r) (request_key r) = Some (File xs)"
      and "delete s r = Some (0, s')" and "ram s' = ram s" and "fs_inv s' D"
      and "\<forall>q \<in> D. listing (disk s') q = (if q = r_parent_cluster_number r then (listing (disk s) q)(request_key r := None) else listing (disk s) q)"
    | (removed_dir) w s' where "listing (disk s) (r_parent_cluster_number r) (request_key r) = Some (Dir w)"
      and "\<not> (\<exists>j < 64. 2 \<le> j \<and> used (disk_dir (disk s) w ! j))" and "delete s r = Some (0, s')" and "ram s' = ram s" and "fs_inv s' (D - {w})"
      and "\<forall>q \<in> D - {w}. listing (disk s') q = (if q = r_parent_cluster_number r then (listing (disk s) q)(request_key r := None) else listing (disk s) q)"
    | (refused) rc s' where "listing (disk s) (r_parent_cluster_number r) (request_key r) = None \<or>
        (\<exists>w. listing (disk s) (r_parent_cluster_number r) (request_key r) = Some (Dir w) \<and> (\<exists>j < 64. 2 \<le> j \<and> used (disk_dir (disk s) w ! j)))"
      and "delete s r = Some (rc, s')" and "rc \<in> {1, 2}" and "ram s' = ram s" and "fs_inv s' D" and "disk s' = disk s"
proof (cases "listing (disk s) (r_parent_cluster_number r) (request_key r)")
  case None
  then show thesis using refusal_effects [OF request] refused by blast
next
  case (Some node)
  show thesis
  proof (cases node)
    case (File xs)
    then show thesis using delete_file_effect [OF request, of xs] Some removed_file by blast
  next
    case (Dir w)
    then have l: "listing (disk s) (r_parent_cluster_number r) (request_key r) = Some (Dir w)" using Some by simp
    show thesis using delete_dir_effect [OF request l] ordinary l removed_dir refused by blast
  qed
qed

end
