(* ===== verification/Fat32_Theorems.thy ===== *)
theory Fat32_Theorems
  imports Fat32_Delete
begin

text \<open>
  The properties of the file system, each with a witness on concrete states: a freshly formatted disk,
  and that disk with one file written to it.
\<close>

section \<open>Example states\<close>

text \<open>The driver's zeroed static memory, a blank disk, and a memory of which every byte is 7.\<close>

definition blank :: fs_state where
  "blank = \<lparr>cluster_map = replicate 512 0, dir_table_buf = replicate 64 zero_entry, cluster_buf = replicate 2048 0,
     disk = (\<lambda>_. 0), ram = (\<lambda>_. 7)\<rparr>"

definition formatted :: fs_state where
  "formatted = the (create_fat32 [0, 0, 0] blank)"

text \<open>Requests in the root directory: a file of the given size, and a directory.\<close>

definition file_request :: "u32 \<Rightarrow> FAT32DriverRequest" where
  "file_request n = \<lparr>r_buf = 0x100000, r_name = [107, 97, 121, 97, 0, 0, 0, 0], r_ext = [116, 120, 116],
     r_parent_cluster_number = 2, r_buffer_size = n\<rparr>"

definition dir_request :: FAT32DriverRequest where
  "dir_request = \<lparr>r_buf = 0, r_name = [100, 105, 114, 0, 0, 0, 0, 0], r_ext = replicate 3 0,
     r_parent_cluster_number = 2, r_buffer_size = 0\<rparr>"

definition root_request :: FAT32DriverRequest where
  "root_request = \<lparr>r_buf = 0, r_name = bytes_of ''root'' @ [0, 0, 0, 0], r_ext = replicate 3 0,
     r_parent_cluster_number = 2, r_buffer_size = 0\<rparr>"

definition with_file :: "u32 \<Rightarrow> fs_state" where
  "with_file n = snd (the (write' formatted (file_request n)))"

lemma blank_hyps: "cluster_map blank = replicate 512 0" "length (dir_table_buf blank) = 64" "length [0, 0, 0 :: u8] = 3"
  by (simp_all add: blank_def)

lemma formatted:
  "create_fat32 [0, 0, 0] blank = Some formatted" "fs_inv formatted {2}" "ram formatted = (\<lambda>_. 7)"
  "listing (disk formatted) 2 = [(bytes_of ''root'' @ [0] @ [0, 0, 0], replicate 3 0) \<mapsto> Dir 2, dotdot_key \<mapsto> Dir 2]"
  "frees (disk_fat (disk formatted)) 3 = [3..<512]"
  using create_effect [OF blank_hyps] by (auto simp: formatted_def blank_def)

lemma formatted_slot: "\<not> used (disk_dir (disk formatted) 2 ! 5)"
  using create_fat32_run [OF blank_hyps] formatted(1) by (auto simp: root_table_def new_table_nth)

lemma file_request:
  "wf_request (file_request n)" "request_key (file_request n) \<noteq> zero_key" "r_buf (file_request n) = 0x100000"
  "r_parent_cluster_number (file_request n) = 2" "r_buffer_size (file_request n) = n"
  "listing (disk formatted) 2 (request_key (file_request n)) = None"
  by (simp_all add: formatted(4)) (simp_all add: file_request_def wf_request_def request_key_def zero_key_def bytes_of_def dotdot_key_def replicate_8 replicate_3)

lemma dir_request:
  "wf_request dir_request" "request_key dir_request \<noteq> zero_key" "request_key dir_request \<noteq> dotdot_key"
  "r_parent_cluster_number dir_request = 2" "r_buffer_size dir_request = 0" "r_ext dir_request = replicate 3 0"
  "listing (disk formatted) 2 (request_key dir_request) = None"
  by (simp_all add: formatted(4)) (simp_all add: dir_request_def wf_request_def request_key_def zero_key_def bytes_of_def dotdot_key_def replicate_8 replicate_3)

lemma root_request:
  "wf_request root_request" "request_key root_request \<noteq> zero_key" "r_parent_cluster_number root_request = 2"
  "listing (disk formatted) 2 (request_key root_request) \<noteq> None"
  by (simp_all add: formatted(4)) (simp_all add: root_request_def wf_request_def request_key_def zero_key_def bytes_of_def dotdot_key_def replicate_8 replicate_3)

lemma load_const: "load_bytes (\<lambda>_. v) p n = replicate n v"
  by (simp add: load_bytes_def map_replicate_const)

lemma formatted_hyps:
  "r_parent_cluster_number (file_request n) \<in> {2}" "r_parent_cluster_number dir_request \<in> {2}"
  "\<exists>i < 64. \<not> used (disk_dir (disk formatted) (r_parent_cluster_number (file_request n)) ! i)"
  "\<exists>i < 64. \<not> used (disk_dir (disk formatted) (r_parent_cluster_number dir_request) ! i)"
  "frees (disk_fat (disk formatted)) 3 \<noteq> []"
  using formatted_slot by (auto simp: file_request dir_request formatted intro!: exI [of _ 5])

lemma with_file:
  assumes "n \<noteq> 0" and "unat n \<le> 8192"
  shows "write' formatted (file_request n) = Some (0, with_file n)" and "fs_inv (with_file n) {2}"
    and "listing (disk (with_file n)) 2 (request_key (file_request n)) = Some (File (replicate (unat n) 7))"
    and "listing (disk (with_file n)) 2 (request_key dir_request) = None"
proof -
  have room: "cluster_need (unat (r_buffer_size (file_request n))) \<le> length (frees (disk_fat (disk formatted)) 3)"
    using assms(2) by (simp add: file_request formatted cluster_need_def)
  have ne: "request_key dir_request \<noteq> request_key (file_request n)"
    by (simp add: dir_request_def file_request_def request_key_def)
  show "write' formatted (file_request n) = Some (0, with_file n)" "fs_inv (with_file n) {2}"
    "listing (disk (with_file n)) 2 (request_key (file_request n)) = Some (File (replicate (unat n) 7))"
    "listing (disk (with_file n)) 2 (request_key dir_request) = None"
    using write_file_effect [OF formatted(2) formatted_hyps(1) file_request(1,2) _ _ formatted_hyps(3) room] assms(1) ne
    by (auto simp: file_request formatted(3) load_const with_file_def dir_request(7))
qed

section \<open>Properties\<close>

text \<open>
  C1: a file written under a new name is there afterwards, and nothing else has changed: \<open>write\<close>
  returns 0, the parent directory maps the name to exactly the bytes of the request's buffer, every
  other name of every directory keeps its meaning, the memory of the caller is untouched, and the
  invariant of the file system is kept. The hypotheses are that the name is not taken, that the
  directory has a free entry and that the allocation table has as many free clusters as the data needs.
\<close>

theorem write_adds_file:
  assumes "fs_inv s D" and "r_parent_cluster_number r \<in> D" and "wf_request r" and "request_key r \<noteq> zero_key"
    and "r_buffer_size r \<noteq> 0" and "listing (disk s) (r_parent_cluster_number r) (request_key r) = None"
    and "\<exists>i < 64. \<not> used (disk_dir (disk s) (r_parent_cluster_number r) ! i)"
    and "cluster_need (unat (r_buffer_size r)) \<le> length (frees (disk_fat (disk s)) 3)"
  shows "\<exists>s'. write' s r = Some (0, s') \<and> fs_inv s' D \<and> ram s' = ram s \<and>
     (\<forall>q \<in> D. listing (disk s') q =
        (if q = r_parent_cluster_number r
         then (listing (disk s) q)(request_key r \<mapsto> File (load_bytes (ram s) (r_buf r) (unat (r_buffer_size r))))
         else listing (disk s) q))"
  using assms by (rule write_file_effect)

theorem write_adds_file_witness:
  "\<exists>s'. write' formatted (file_request 3000) = Some (0, s') \<and>
     listing (disk s') 2 (request_key (file_request 3000)) = Some (File (replicate 3000 7))"
  using write_adds_file [OF formatted(2) formatted_hyps(1) file_request(1,2) _ _ formatted_hyps(3), of 3000]
  by (auto simp: file_request formatted(3,5) load_const cluster_need_def)

text \<open>
  C2: \<open>read\<close> returns what was stored. For a file of the tree whose size is no multiple of the cluster
  size, it returns 0 and copies the clusters of the file in full to the caller's buffer: first the data of the file, then up to 2047 bytes
  that follow it in its last cluster. No byte behind the last cluster is touched, and disk and invariant are unchanged. All this for every
  \<open>buffer_size\<close> but 0: although its documentation says so, the buffer size does not limit the read.
\<close>

theorem read_returns_file:
  assumes "fs_inv s D" and "r_parent_cluster_number r \<in> D" and "wf_request r" and "request_key r \<noteq> zero_key"
    and "r_buffer_size r \<noteq> 0" and "listing (disk s) (r_parent_cluster_number r) (request_key r) = Some (File xs)"
    and "length xs mod 2048 \<noteq> 0"
  shows "\<exists>s'. read s r = Some (0, s') \<and> load_bytes (ram s') (r_buf r) (length xs) = xs \<and>
     load_bytes (ram s') (r_buf r) (2048 * cluster_need (length xs)) = stored_clusters (disk s) (r_parent_cluster_number r) (request_key r) \<and>
     (\<forall>a. 2048 * cluster_need (length xs) \<le> unat (a - r_buf r) \<longrightarrow> ram s' a = ram s a) \<and>
     disk s' = disk s \<and> fs_inv s' D"
  using assms by (rule read_effect)

theorem read_returns_file_witness:
  "\<exists>s'. read (with_file 3000) (file_request 3000) = Some (0, s') \<and> load_bytes (ram s') 0x100000 3000 = replicate 3000 7"
  using read_returns_file [OF with_file(2) formatted_hyps(1) file_request(1,2), of 3000 3000 "replicate 3000 7"] with_file(3) [of 3000]
  by (auto simp: file_request)

text \<open>
  C3: \<open>delete\<close> of a file. It returns 0, the name is gone from its directory, every other name of every
  directory keeps its meaning, the data of the file is overwritten with zeroes, and the invariant
  is kept. The allocation table is left as it was, so the clusters of the file are not given back.
\<close>

theorem delete_removes_file:
  assumes "fs_inv s D" and "r_parent_cluster_number r \<in> D" and "wf_request r" and "request_key r \<noteq> zero_key"
    and "listing (disk s) (r_parent_cluster_number r) (request_key r) = Some (File xs)"
  shows "\<exists>s'. delete s r = Some (0, s') \<and> fs_inv s' D \<and> ram s' = ram s \<and>
     (\<forall>q \<in> D. listing (disk s') q =
        (if q = r_parent_cluster_number r then (listing (disk s) q)(request_key r := None) else listing (disk s) q)) \<and>
     (\<forall>e. lookup (disk_dir (disk s) (r_parent_cluster_number r)) (request_key r) = Some e \<longrightarrow>
        (\<forall>c \<in> set (file_clusters (disk_fat (disk s)) e). content (disk s') c = replicate 2048 0)) \<and>
     disk_fat (disk s') = disk_fat (disk s)"
  using assms by (rule delete_file_effect)

theorem delete_removes_file_witness:
  "\<exists>s'. delete (with_file 3000) (file_request 0) = Some (0, s') \<and> listing (disk s') 2 (request_key (file_request 0)) = None"
proof -
  have "request_key (file_request 0) = request_key (file_request 3000)" by (simp add: file_request_def request_key_def)
  then show ?thesis
    using delete_removes_file [OF with_file(2) formatted_hyps(1) file_request(1,2), of 3000 0 "replicate 3000 7"] with_file(3) [of 3000]
    by (auto simp: file_request)
qed

text \<open>
  C4: \<open>write\<close> with a buffer size of zero makes a directory. It returns 0, the parent maps the name to
  a cluster that was no directory before, the new directory lists exactly itself and its parent, every
  other listing is unchanged and the invariant holds for the larger set of directories.
\<close>

theorem write_adds_directory:
  assumes "fs_inv s D" and "r_parent_cluster_number r \<in> D" and "wf_request r" and "request_key r \<noteq> zero_key"
    and "r_buffer_size r = 0" and "r_ext r = replicate 3 0"
    and "listing (disk s) (r_parent_cluster_number r) (request_key r) = None"
    and "\<exists>i < 64. \<not> used (disk_dir (disk s) (r_parent_cluster_number r) ! i)"
    and "frees (disk_fat (disk s)) 3 \<noteq> []"
  shows "\<exists>s' w. write' s r = Some (0, s') \<and> w \<notin> D \<and> fs_inv s' (insert w D) \<and> ram s' = ram s \<and>
     listing (disk s') w = [request_key r \<mapsto> Dir w, dotdot_key \<mapsto> Dir (r_parent_cluster_number r)] \<and>
     (\<forall>q \<in> D. listing (disk s') q =
        (if q = r_parent_cluster_number r then (listing (disk s) q)(request_key r \<mapsto> Dir w)
         else listing (disk s) q))"
  using assms by (rule write_dir_effect)

theorem write_adds_directory_witness:
  "\<exists>s' w. write' formatted dir_request = Some (0, s') \<and> w \<noteq> 2 \<and>
     listing (disk s') 2 (request_key dir_request) = Some (Dir w) \<and> listing (disk s') w dotdot_key = Some (Dir 2)"
  using write_adds_directory [OF formatted(2) formatted_hyps(2) dir_request(1,2) dir_request(5,6) _ formatted_hyps(4,5)]
  by (auto simp: dir_request)

text \<open>
  C5: \<open>delete\<close> of a directory. A directory that has any entry besides its own two is refused with 2 and
  the disk is unchanged. An empty one is removed: \<open>delete\<close> returns 0, the name is gone, its cluster is
  free again, it is no directory of the tree any more, and every other listing is unchanged.
\<close>

theorem delete_directory:
  assumes "fs_inv s D" and "r_parent_cluster_number r \<in> D" and "wf_request r" and "request_key r \<noteq> zero_key"
    and "listing (disk s) (r_parent_cluster_number r) (request_key r) = Some (Dir w)"
    and "w \<noteq> r_parent_cluster_number r" and "request_key r \<noteq> dotdot_key"
  shows "((\<exists>j < 64. 2 \<le> j \<and> used (disk_dir (disk s) w ! j)) \<longrightarrow>
      (\<exists>s'. delete s r = Some (2, s') \<and> disk s' = disk s \<and> ram s' = ram s \<and> fs_inv s' D)) \<and>
    (\<not> (\<exists>j < 64. 2 \<le> j \<and> used (disk_dir (disk s) w ! j)) \<longrightarrow>
      (\<exists>s'. delete s r = Some (0, s') \<and> fs_inv s' (D - {w}) \<and> ram s' = ram s \<and>
        unat w \<in> set (frees (disk_fat (disk s')) 3) \<and>
        (\<forall>q \<in> D - {w}. listing (disk s') q =
          (if q = r_parent_cluster_number r then (listing (disk s) q)(request_key r := None) else listing (disk s) q))))"
  using assms by (rule delete_dir_effect)

theorem delete_directory_witness:
  "\<exists>s' s''. write' formatted dir_request = Some (0, s') \<and> delete s' dir_request = Some (0, s'') \<and>
     listing (disk s'') 2 (request_key dir_request) = None"
proof -
  obtain s' w where w: "write' formatted dir_request = Some (0, s')" "w \<noteq> 2" "fs_inv s' {w, 2}"
    and l: "listing (disk s') w = [request_key dir_request \<mapsto> Dir w, dotdot_key \<mapsto> Dir 2]"
      "listing (disk s') 2 (request_key dir_request) = Some (Dir w)"
    using write_dir_effect [OF formatted(2) formatted_hyps(2) dir_request(1,2) dir_request(5,6) _ formatted_hyps(4,5)]
    by (auto simp: dir_request)
  have ok: "fs_ok (disk s') {w, 2}" using w(3) by (simp add: fs_inv_def)
  have "key_of (disk_dir (disk s') w ! 0) = request_key dir_request"
    using self_listed [OF ok insertI1] by (auto simp: l split: if_splits)
  then have "\<not> (\<exists>j < 64. 2 \<le> j \<and> used (disk_dir (disk s') w ! j))"
    unfolding dir_nonempty_iff [OF ok insertI1] by (auto simp: l)
  then show ?thesis
    using delete_directory [OF w(3) _ dir_request(1,2), of w] w(1,2) l(2) dir_request by auto
qed

text \<open>
  C12: the refusals. \<open>write\<close> under a name that the directory has returns 1, and \<open>read\<close> and \<open>delete\<close> under
  a name that it does not have return 2 and 1: in all of them the disk, the caller's memory and the
  invariant are unchanged. (The header \<open>fat32.h\<close> documents 3 for a name that \<open>read\<close> does not find, and 2 for a buffer that is too small; the code
  returns 2 for a missing name and never looks at the size of the buffer.) For \<open>write\<close> some cluster must be free: that is tested first.
\<close>

theorem refusals:
  assumes "fs_inv s D" and "r_parent_cluster_number r \<in> D" and "wf_request r" and "request_key r \<noteq> zero_key"
  shows "(listing (disk s) (r_parent_cluster_number r) (request_key r) \<noteq> None \<and> frees (disk_fat (disk s)) 3 \<noteq> [] \<longrightarrow>
      (\<exists>s'. write' s r = Some (1, s') \<and> disk s' = disk s \<and> ram s' = ram s \<and> fs_inv s' D)) \<and>
    (listing (disk s) (r_parent_cluster_number r) (request_key r) = None \<longrightarrow>
      (\<exists>s'. read s r = Some (2, s') \<and> disk s' = disk s \<and> ram s' = ram s \<and> fs_inv s' D) \<and>
      (\<exists>s'. delete s r = Some (1, s') \<and> disk s' = disk s \<and> ram s' = ram s \<and> fs_inv s' D))"
  using assms by (rule refusal_effects)

theorem refusals_witness:
  "(\<exists>s'. write' formatted root_request = Some (1, s')) \<and> (\<exists>s'. delete formatted (file_request 1) = Some (1, s'))"
  using refusals [OF formatted(2) formatted_hyps(1) file_request(1,2), of 1]
    refusals [OF formatted(2) _ root_request(1,2)] root_request(3,4) formatted_hyps(5) by (auto simp: file_request)

text \<open>
  C15: formatting. On the zeroed driver state of a booting kernel, \<open>create_fat32\<close> succeeds on any
  disk content and leaves a well-formed file system whose only directory is the root: it lists itself
  and its parent entry, both with cluster 2, and every cluster from 3 on is free.
\<close>

theorem create_fat32_formats:
  assumes "cluster_map s = replicate 512 0" and "length (dir_table_buf s) = 64" and "length pad = 3"
  shows "\<exists>s'. create_fat32 pad s = Some s' \<and> fs_inv s' {2} \<and> ram s' = ram s \<and>
     listing (disk s') 2 = [(bytes_of ''root'' @ [0] @ pad, replicate 3 0) \<mapsto> Dir 2, dotdot_key \<mapsto> Dir 2] \<and>
     frees (disk_fat (disk s')) 3 = [3..<512]"
  using assms by (rule create_effect)

theorem create_fat32_formats_witness:
  "\<exists>s'. create_fat32 [0, 0, 0] blank = Some s' \<and> fs_inv s' {2}"
  using create_fat32_formats [OF blank_hyps] by blast

text \<open>
  C16: booting. On a disk without the signature \<open>initialize_filesystem_fat32\<close> formats it; on a disk
  that holds a file system it leaves the disk alone and restores the invariant, the cached allocation
  table included, whatever the driver's memory held before: every directory lists after the reboot
  what it listed before.
\<close>

theorem initialize_filesystem:
  "(\<not> boot_ok (disk s) \<longrightarrow> initialize_filesystem_fat32 pad s = create_fat32 pad s) \<and>
   (boot_ok (disk s) \<and> fs_ok (disk s) D \<longrightarrow>
     (\<exists>s'. initialize_filesystem_fat32 pad s = Some s' \<and> disk s' = disk s \<and> ram s' = ram s \<and> fs_inv s' D \<and>
       (\<forall>q. listing (disk s') q = listing (disk s) q)))"
  by (rule initialize_effect)

theorem initialize_filesystem_witness:
  "\<not> boot_ok (disk blank) \<and> initialize_filesystem_fat32 [0, 0, 0] blank = Some formatted \<and>
   (\<exists>s'. initialize_filesystem_fat32 [0, 0, 0] (formatted\<lparr>cluster_map := []\<rparr>) = Some s' \<and> fs_inv s' {2})"
proof -
  have "content (disk blank) 0 = replicate 2048 0" by (simp add: blank_def content_def load_const)
  moreover have "hd fs_signature \<noteq> 0" by (simp add: fs_signature_def bytes_of_def)
  ultimately have blank: "\<not> boot_ok (disk blank)" by (auto simp: boot_ok_def BLOCK_SIZE_def dest!: arg_cong [of _ _ hd])
  have "boot_ok (disk (formatted\<lparr>cluster_map := []\<rparr>)) \<and> fs_ok (disk (formatted\<lparr>cluster_map := []\<rparr>)) {2}"
    using formatted(2) by (simp add: fs_inv_def)
  then show ?thesis
    using blank formatted(1) initialize_filesystem [of blank "[0, 0, 0]"]
      initialize_filesystem [of "formatted\<lparr>cluster_map := []\<rparr>" "[0, 0, 0]" "{2}"] by auto
qed

text \<open>
  C17: the boundary case that \<open>read\<close> does not handle. A file whose size is a positive multiple of the
  cluster size occupies \<open>filesize / CLUSTER_SIZE\<close> clusters, but \<open>read\<close> always transfers one more: it
  follows the end-of-file mark as if it were a cluster number and asks for a block far outside the
  disk. The call has no defined result.
\<close>

theorem read_full_last_cluster:
  assumes "fs_inv s D" and "r_parent_cluster_number r \<in> D" and "wf_request r" and "request_key r \<noteq> zero_key"
    and "r_buffer_size r \<noteq> 0" and "listing (disk s) (r_parent_cluster_number r) (request_key r) = Some (File xs)"
    and "length xs mod 2048 = 0"
  shows "read s r = None"
  using assms by (rule read_overrun)

theorem read_full_last_cluster_witness:
  "write' formatted (file_request 2048) = Some (0, with_file 2048) \<and> read (with_file 2048) (file_request 2048) = None"
  using read_full_last_cluster [OF with_file(2) formatted_hyps(1) file_request(1,2), of 2048 2048 "replicate 2048 7"]
    with_file(1,3) [of 2048]
  by (auto simp: file_request)

end
