(* ===== verification/Fat32_Dir.thy ===== *)
theory Fat32_Dir
  imports Fat32_Theorems
begin

text \<open>
  What \<open>read_directory\<close> of the driver returns on a well-formed file system: the directory itself for the name \<open>"."\<close>, the
  parent for \<open>".."\<close>, a subdirectory for its name, and the code 2 if there is no such name. It compares names without
  extension and never looks at the first entry.
\<close>

definition dot_name :: "u8 list" where "dot_name = [46, 0, 0, 0, 0, 0, 0, 0]"

definition parent_of :: "image \<Rightarrow> u32 \<Rightarrow> u32" where
  "parent_of d p = entry_cluster (disk_dir d p ! 1)"

lemma tree_links:
  assumes "fs_ok d D"
  shows "D = insert ROOT_CLUSTER_NUMBER {c. \<exists>p \<in> D. \<exists>i < 64. is_subdir i (disk_dir d p ! i) \<and> c = entry_cluster (disk_dir d p ! i)}"
    and "\<forall>p \<in> D. \<forall>i < 64. is_subdir i (disk_dir d p ! i) \<longrightarrow> parent_of d (entry_cluster (disk_dir d p ! i)) = p"
    and "parent_of d ROOT_CLUSTER_NUMBER = ROOT_CLUSTER_NUMBER"
proof -
  note ok = assms [unfolded fs_ok_def tree_ok_def, folded parent_of_def]
  show "D = insert ROOT_CLUSTER_NUMBER {c. \<exists>p \<in> D. \<exists>i < 64. is_subdir i (disk_dir d p ! i) \<and> c = entry_cluster (disk_dir d p ! i)}"
    using ok by (elim conjE) assumption
  show "\<forall>p \<in> D. \<forall>i < 64. is_subdir i (disk_dir d p ! i) \<longrightarrow> parent_of d (entry_cluster (disk_dir d p ! i)) = p"
    using ok by (elim conjE) assumption
  show "parent_of d ROOT_CLUSTER_NUMBER = ROOT_CLUSTER_NUMBER" using ok by (elim conjE) assumption
qed

lemma subdir_in_tree:
  assumes "fs_ok d D" and "p \<in> D" and "i < 64" and "is_subdir i (disk_dir d p ! i)"
  shows "entry_cluster (disk_dir d p ! i) \<in> D" and "parent_of d (entry_cluster (disk_dir d p ! i)) = p"
proof -
  have "entry_cluster (disk_dir d p ! i) \<in> insert ROOT_CLUSTER_NUMBER {c. \<exists>p \<in> D. \<exists>i < 64. is_subdir i (disk_dir d p ! i) \<and> c = entry_cluster (disk_dir d p ! i)}"
    using assms(2-4) by blast
  then show "entry_cluster (disk_dir d p ! i) \<in> D" by (subst tree_links(1) [OF assms(1)])
  show "parent_of d (entry_cluster (disk_dir d p ! i)) = p" using tree_links(2) [OF assms(1)] assms(2-4) by blast
qed

lemma parent_in_tree:
  assumes "fs_ok d D" and "p \<in> D"
  shows "parent_of d p \<in> D"
proof (cases "p = ROOT_CLUSTER_NUMBER")
  case True
  then show ?thesis using tree_links(3) [OF assms(1)] assms(2) by simp
next
  case False
  have "p \<in> insert ROOT_CLUSTER_NUMBER {c. \<exists>p \<in> D. \<exists>i < 64. is_subdir i (disk_dir d p ! i) \<and> c = entry_cluster (disk_dir d p ! i)}"
    using assms(2) by (subst (asm) tree_links(1) [OF assms(1)])
  then obtain q i where "q \<in> D" "i < 64" "is_subdir i (disk_dir d q ! i)" "p = entry_cluster (disk_dir d q ! i)" using False by blast
  then show ?thesis using subdir_in_tree(2) [OF assms(1)] by simp
qed

lemma entry_listed:
  assumes "table_ok p (disk_dir d p)" and "i < 64" and "used (disk_dir d p ! i)"
  shows "listing d p (e_name (disk_dir d p ! i), e_ext (disk_dir d p ! i)) \<noteq> None"
proof -
  have "lookup (disk_dir d p) (key_of (disk_dir d p ! i)) \<noteq> None" using lookup_eq_None [OF assms(1)] assms(2,3) by blast
  then show ?thesis by (simp add: listing_def key_of_def)
qed

lemma same_name_iff: "wf_request r \<Longrightarrow> length (e_name e) = 8 \<Longrightarrow> same_name e r \<longleftrightarrow> e_name e = r_name r"
  by (simp add: same_name_def wf_request_def memcmp_bytes_eq_0_iff)

text \<open>The answer of the driver: the table of directory \<open>w\<close> in the buffer of the caller.\<close>

definition answers :: "u32 set \<Rightarrow> fs_state \<Rightarrow> FAT32DriverRequest \<Rightarrow> u32 \<Rightarrow> bool" where
  "answers D s r w \<longleftrightarrow> (\<exists>s'. read_directory s r = Some (0, s') \<and> disk s' = disk s \<and> fs_inv s' D \<and>
     ram s' = store_bytes (ram s) (r_buf r) (table_bytes (disk_dir (disk s) w)))"

lemma table_bytes_disk_dir: "table_bytes (disk_dir d w) = content d w"
  by (simp add: disk_dir_def table_bytes_of_bytes)

lemma is_dot: "wf_request r \<Longrightarrow> memcmp_bytes (r_name r) [46, 0, 0, 0, 0, 0, 0, 0] = 0 \<longleftrightarrow> r_name r = dot_name"
  by (subst memcmp_bytes_eq_0_iff) (simp_all add: wf_request_def dot_name_def)

lemma dotdot_names: "fst dotdot_key \<noteq> dot_name"
  by (simp add: dot_name_def dotdot_key_def)

lemma read_directory_index:
  assumes inv: "fs_inv s D" and p: "r_parent_cluster_number r \<in> D"
    and idx: "(if r_name r = dot_name then Some 0 else search_from (\<lambda>e. same_name e r) 1 (disk_dir (disk s) (r_parent_cluster_number r))) = Some i"
    and i: "i < 64" and r: "wf_request r" and c: "entry_cluster (disk_dir (disk s) (r_parent_cluster_number r) ! i) \<in> D"
  shows "answers D s r (entry_cluster (disk_dir (disk s) (r_parent_cluster_number r) ! i))"
proof -
  let ?t = "disk_dir (disk s) (r_parent_cluster_number r)"
  have ok: "cluster_ok (r_parent_cluster_number r)" "cluster_ok (entry_cluster (?t ! i))"
    using fs_inv_dir [OF inv] p c dir_cluster_ok by blast+
  let ?s = "s\<lparr>dir_table_buf := ?t, ram := store_bytes (ram s) (r_buf r) (content (disk s) (entry_cluster (?t ! i)))\<rparr>"
  have "read_directory s r = Some (0, ?s)"
    using ok idx i by (simp add: read_directory_def load_dir_ok load_ram_ok is_dot [OF r] split: if_splits)
  moreover have "fs_inv ?s D" using inv by (simp add: fs_inv_def)
  ultimately show ?thesis unfolding answers_def by (simp add: table_bytes_disk_dir)
qed

text \<open>The search by name alone: the one entry that has the name, or none.\<close>

lemma name_used:
  assumes t: "table_ok p (disk_dir d p)" and i: "i < 64" and n: "e_name (disk_dir d p ! i) = name" "name \<noteq> fst zero_key"
  shows "used (disk_dir d p ! i) \<and> listing d p (name, e_ext (disk_dir d p ! i)) \<noteq> None"
proof -
  have "used (disk_dir d p ! i)"
    using table_ok_unused [OF t i] n by (cases "used (disk_dir d p ! i)") (simp_all add: zero_key_def zero_entry_def)
  then show ?thesis using entry_listed [OF t i] n(1) by simp
qed

lemma search_same_name:
  assumes t: "table_ok p (disk_dir d p)" and r: "wf_request r" "r_name r \<noteq> fst zero_key"
  shows "i < 64 \<Longrightarrow> is_subdir i (disk_dir d p ! i) \<Longrightarrow> key_of (disk_dir d p ! i) = (r_name r, x) \<Longrightarrow>
      \<forall>y. listing d p (r_name r, y) \<noteq> None \<longrightarrow> y = x \<Longrightarrow> search_from (\<lambda>e. same_name e r) 1 (disk_dir d p) = Some i"
    and "\<forall>y. listing d p (r_name r, y) = None \<Longrightarrow> search_from (\<lambda>e. same_name e r) 1 (disk_dir d p) = None"
proof -
  let ?t = "disk_dir d p"
  have name: "same_name (?t ! i) r \<longleftrightarrow> e_name (?t ! i) = r_name r" if "i < 64" for i
    using same_name_iff [OF r(1)] table_ok_wf [OF t that] by (simp add: wf_entry_def)
  show "search_from (\<lambda>e. same_name e r) 1 ?t = None" if "\<forall>y. listing d p (r_name r, y) = None"
    using name_used [OF t _ _ r(2)] that name by (auto simp: search_from_None_iff)
  assume i: "i < 64" "is_subdir i (?t ! i)" "key_of (?t ! i) = (r_name r, x)" and only: "\<forall>y. listing d p (r_name r, y) \<noteq> None \<longrightarrow> y = x"
  have "e_name (?t ! j) \<noteq> r_name r" if j: "j < i" for j
  proof
    assume n: "e_name (?t ! j) = r_name r"
    have u: "used (?t ! j)" "e_ext (?t ! j) = x" using name_used [OF t _ n r(2)] only j i(1) by simp_all
    then have "key_of (?t ! j) = key_of (?t ! i)" using n i(3) by (simp add: key_of_def)
    then show False using table_ok_unique [OF t, of j i] u i j by (simp add: is_subdir_def)
  qed
  then show "search_from (\<lambda>e. same_name e r) 1 ?t = Some i"
    unfolding search_from_Some_iff using i name by (auto simp: is_subdir_def key_of_def)
qed

lemma read_directory_effects:
  assumes inv: "fs_inv s D" and p: "r_parent_cluster_number r \<in> D" and r: "wf_request r"
  shows "(r_name r = dot_name \<longrightarrow> answers D s r (r_parent_cluster_number r)) \<and>
    (r_name r = fst dotdot_key \<longrightarrow> answers D s r (parent_of (disk s) (r_parent_cluster_number r))) \<and>
    (\<forall>x w. listing (disk s) (r_parent_cluster_number r) (r_name r, x) = Some (Dir w) \<and> w \<noteq> r_parent_cluster_number r \<and>
        r_name r \<notin> {dot_name, fst dotdot_key, fst zero_key} \<and>
        (\<forall>y. listing (disk s) (r_parent_cluster_number r) (r_name r, y) \<noteq> None \<longrightarrow> y = x) \<longrightarrow>
      w \<in> D \<and> answers D s r w) \<and>
    (r_name r \<notin> {dot_name, fst zero_key} \<and> (\<forall>y. listing (disk s) (r_parent_cluster_number r) (r_name r, y) = None) \<longrightarrow>
      (\<exists>s'. read_directory s r = Some (2, s') \<and> disk s' = disk s \<and> ram s' = ram s \<and> fs_inv s' D))"
proof (intro conjI allI impI)
  let ?p = "r_parent_cluster_number r" and ?t = "disk_dir (disk s) (r_parent_cluster_number r)"
  have ok: "fs_ok (disk s) D" using inv by (simp add: fs_inv_def)
  have t: "table_ok ?p ?t" and dc: "dir_cluster ?p" using fs_inv_dir [OF inv p] by blast+
  have name: "same_name (?t ! i) r \<longleftrightarrow> e_name (?t ! i) = r_name r" if "i < 64" for i
    using same_name_iff [OF r] table_ok_wf [OF t that] by (simp add: wf_entry_def)
  have t1: "e_name (?t ! 1) = fst dotdot_key" "entry_cluster (?t ! 0) = ?p" "key_of (?t ! 1) = dotdot_key" "used (?t ! 1)"
    using t by (simp_all add: table_ok_def key_of_def) (metis fst_conv)
  {
    assume "r_name r = dot_name"
    then show "answers D s r ?p" using read_directory_index [OF inv p _ _ r, of 0] p t1 by simp
  next
    assume n: "r_name r = fst dotdot_key"
    then have "r_name r \<noteq> dot_name" using dotdot_names by simp
    moreover have "search_from (\<lambda>e. same_name e r) 1 ?t = Some 1" unfolding search_from_Some_iff using n name t1 by simp
    ultimately show "answers D s r (parent_of (disk s) ?p)"
      using read_directory_index [OF inv p _ _ r, of 1] parent_in_tree [OF ok p] by (simp add: parent_of_def)
  next
    fix x w
    assume a: "listing (disk s) ?p (r_name r, x) = Some (Dir w) \<and> w \<noteq> ?p \<and> r_name r \<notin> {dot_name, fst dotdot_key, fst zero_key} \<and>
      (\<forall>y. listing (disk s) ?p (r_name r, y) \<noteq> None \<longrightarrow> y = x)"
    then have k: "(r_name r, x) \<noteq> dotdot_key" by (metis fst_conv insertCI)
    obtain i where i: "i < 64" "is_subdir i (?t ! i)" "key_of (?t ! i) = (r_name r, x)" "entry_cluster (?t ! i) = w"
      using listing_dir [OF ok p] a k by metis
    show "w \<in> D" using subdir_in_tree [OF ok p i(1,2)] i(4) by simp
    moreover have "search_from (\<lambda>e. same_name e r) 1 ?t = Some i" using search_same_name(1) [OF t r _ i(1-3)] a by simp
    ultimately show "answers D s r w"
      using read_directory_index [OF inv p _ i(1) r] a i(4) by simp
  next
    assume a: "r_name r \<notin> {dot_name, fst zero_key} \<and> (\<forall>y. listing (disk s) ?p (r_name r, y) = None)"
    then have "search_from (\<lambda>e. same_name e r) 1 ?t = None" using search_same_name(2) [OF t r] by simp
    then show "\<exists>s'. read_directory s r = Some (2, s') \<and> disk s' = disk s \<and> ram s' = ram s \<and> fs_inv s' D"
      using dir_cluster_ok [OF dc] a inv by (simp add: read_directory_def load_dir_ok is_dot [OF r] fs_inv_def)
  }
qed

section \<open>Properties\<close>

text \<open>
  C14: Listing directories. On a well-formed file system \<open>read_directory\<close> changes neither disk nor invariant. The name \<open>"."\<close>
  gives the table of the parent directory of the request, \<open>".."\<close> that of the directory above it, which is a directory of the tree,
  and the name of a subdirectory that no other entry shares gives the table of the subdirectory; if no entry has the name
  the code is 2 and the buffer is not written.
\<close>

theorem read_directory_lists:
  assumes "fs_inv s D" and "r_parent_cluster_number r \<in> D" and "wf_request r"
  shows "(r_name r = dot_name \<longrightarrow> answers D s r (r_parent_cluster_number r)) \<and>
    (r_name r = fst dotdot_key \<longrightarrow> answers D s r (parent_of (disk s) (r_parent_cluster_number r))) \<and>
    (\<forall>x w. listing (disk s) (r_parent_cluster_number r) (r_name r, x) = Some (Dir w) \<and> w \<noteq> r_parent_cluster_number r \<and>
        r_name r \<notin> {dot_name, fst dotdot_key, fst zero_key} \<and>
        (\<forall>y. listing (disk s) (r_parent_cluster_number r) (r_name r, y) \<noteq> None \<longrightarrow> y = x) \<longrightarrow>
      w \<in> D \<and> answers D s r w) \<and>
    (r_name r \<notin> {dot_name, fst zero_key} \<and> (\<forall>y. listing (disk s) (r_parent_cluster_number r) (r_name r, y) = None) \<longrightarrow>
      (\<exists>s'. read_directory s r = Some (2, s') \<and> disk s' = disk s \<and> ram s' = ram s \<and> fs_inv s' D))"
  using assms by (rule read_directory_effects)

theorem read_directory_lists_witness:
  "(\<exists>s' w. write' formatted dir_request = Some (0, s') \<and> w \<noteq> 2 \<and> answers {w, 2} s' dir_request w) \<and>
   answers {2} formatted (dir_request\<lparr>r_name := dot_name\<rparr>) 2 \<and> (\<exists>s'. read_directory formatted (file_request 1) = Some (2, s'))"
proof -
  obtain s' w where w: "write' formatted dir_request = Some (0, s')" "w \<noteq> 2" "fs_inv s' {w, 2}"
    and l: "listing (disk s') 2 = (listing (disk formatted) 2)(request_key dir_request \<mapsto> Dir w)"
    using write_dir_effect [OF formatted(2) formatted_hyps(2) dir_request(1,2) dir_request(5,6) _ formatted_hyps(4,5)]
    by (auto simp: dir_request)
  have only: "(\<forall>y. listing (disk s') 2 (r_name dir_request, y) \<noteq> None \<longrightarrow> y = r_ext dir_request) \<and>
      r_name dir_request \<notin> {dot_name, fst dotdot_key, fst zero_key}"
    by (simp add: l formatted(4)) (simp add: dir_request_def request_key_def bytes_of_def dotdot_key_def dot_name_def zero_key_def replicate_8)
  have "listing (disk s') 2 (r_name dir_request, r_ext dir_request) = Some (Dir w)" by (simp add: l request_key_def)
  then have "answers {w, 2} s' dir_request w"
    using read_directory_lists [OF w(3) _ dir_request(1)] only w(2) by (auto simp: dir_request(4))
  moreover have "answers {2} formatted (dir_request\<lparr>r_name := dot_name\<rparr>) 2"
    using read_directory_lists [OF formatted(2), of "dir_request\<lparr>r_name := dot_name\<rparr>"] by (simp add: dir_request_def wf_request_def dot_name_def)
  moreover have "\<exists>s'. read_directory formatted (file_request 1) = Some (2, s')"
  proof -
    have "r_name (file_request 1) \<notin> {dot_name, fst zero_key} \<and> (\<forall>y. listing (disk formatted) 2 (r_name (file_request 1), y) = None)"
      by (simp add: formatted(4)) (simp add: file_request_def dot_name_def zero_key_def bytes_of_def dotdot_key_def replicate_8)
    then show ?thesis using read_directory_lists [OF formatted(2) _ file_request(1), of 1] by (auto simp: file_request(4))
  qed
  ultimately show ?thesis using w(1,2) by blast
qed

end
