(* ===== verification/Fat32_Move.thy ===== *)
theory Fat32_Move
  imports Fat32_Theorems
begin

text \<open>
  Moving a directory entry: the system call 11 of \<open>src/src/interrupt.c\<close>, which works on two directory tables that
  the caller has read before, and writes both back to the disk past the file system driver.
\<close>

section \<open>Definition\<close>

text \<open>
  \<open>src_table\<close> and \<open>dest_table\<close> are copies of the caller's tables. The loop takes the first free entry of the target from
  index 1 on; the assignments there copy every field of the source entry, and clear every field of it (the
  8 bytes that \<open>memcpy\<close> takes from \<open>ext\<close> run over the fields up to \<open>create_time\<close>, which are assigned again
  afterwards). The clusters the tables are written to come from their entry 0.
\<close>

definition move_entry :: "fs_state \<Rightarrow> FAT32DirectoryTable \<Rightarrow> FAT32DirectoryTable \<Rightarrow> u32 \<Rightarrow> fs_state option" where
  "move_entry s src_table dest_table src_idx =
     do { (src_table, dest_table) \<leftarrow>
            (case search_from (\<lambda>e. e_user_attribute e \<noteq> UATTR_NOT_EMPTY) 1 dest_table of
               None \<Rightarrow> Some (src_table, dest_table)
             | Some i \<Rightarrow> do { e \<leftarrow> get_at src_table (unat src_idx);
                             dest_table \<leftarrow> put_at dest_table i e;
                             src_table \<leftarrow> put_at src_table (unat src_idx) zero_entry;
                             Some (src_table, dest_table) });
          src \<leftarrow> get_at src_table 0;
          dest \<leftarrow> get_at dest_table 0;
          s \<leftarrow> put_cluster s (table_bytes src_table) (entry_cluster src);
          put_cluster s (table_bytes dest_table) (entry_cluster dest) }"

section \<open>The tree after a move\<close>

lemma tree_move_file:
  assumes t: "tree_ok f tab D" and p: "p \<in> D" "i < 64" "e_filesize (tab p ! i) \<noteq> 0" "used (tab p ! i)"
    and q: "q \<in> D" "q \<noteq> p" "j < 64" "\<not> used (tab q ! j)" "lookup (tab q) (key_of (tab p ! i)) = None"
  shows "tree_ok f (tab(p := (tab p)[i := zero_entry], q := (tab q)[j := tab p ! i])) D"
proof -
  let ?e = "tab p ! i"
  note cleared = tree_clear_file [OF t p(1,2,3)]
  let ?T = "tab(p := (tab p)[i := zero_entry])"
  have Tq: "?T q = tab q" using q(2) by simp
  have sound: "sound_entry ?e" using tree_table [OF t p(1)] p(2) table_ok_wf table_ok_attribute by (auto simp: sound_entry_def)
  have table: "table_ok q ((tab q)[j := ?e])" using table_ok_add [OF tree_table [OF t q(1)] q(3,4) sound p(4) q(5)] .
  have j2: "2 \<le> j" using free_slot_ge_2 [OF tree_table [OF t q(1)] q(4)] .
  have len: "length (tab p) = 64" using table_ok_length [OF tree_table [OF t p(1)]] .
  have claim: "claim f j ?e = claim f i ?e" using p(3) by (simp add: claim_file)
  have apart: "set (claim f j ?e) \<inter> set (claim f k (?T r ! k)) = {}" if "r \<in> D" "k < 64" for r k
  proof (cases "(r, k) = (p, i)")
    case True
    then show ?thesis using len p(2) by simp
  next
    case False
    then have "?T r ! k = tab r ! k" by (auto simp: nth_list_update)
    then show ?thesis using tree_disjoint [OF t p(1,2) that] False claim by auto
  qed
  have "tree_ok f (?T(q := (?T q)[j := ?e])) D"
    by (rule tree_set_file [OF cleared(1) q(1) j2 q(3)])
      (use table q tree_length [OF t] tree_claim [OF t p(1,2)] claim apart p(3) in
        \<open>simp_all add: Tq is_subdir_def claim_ok_def claim_file\<close>)
  then show ?thesis using q(2) by simp
qed

text \<open>The first free entry of a well-formed table, as the loop from index 1 on finds it.\<close>

lemma search_free_from_1:
  assumes "table_ok p t" and "\<exists>i < 64. \<not> used (t ! i)"
  shows "\<exists>j < 64. search_from (\<lambda>e. e_user_attribute e \<noteq> UATTR_NOT_EMPTY) 1 t = Some j \<and> \<not> used (t ! j)"
proof -
  obtain i where i: "i < 64" "\<not> used (t ! i)" using assms(2) by blast
  have "2 \<le> i" using free_slot_ge_2 [OF assms(1) i(2)] .
  then have "search_from (\<lambda>e. e_user_attribute e \<noteq> UATTR_NOT_EMPTY) 1 t \<noteq> None"
    using i table_ok_length [OF assms(1)] by (auto simp: search_from_None_iff used_def intro!: exI [of _ i])
  then show ?thesis using table_ok_length [OF assms(1)] by (auto simp: search_from_Some_iff used_def)
qed

lemma move_run:
  assumes "fs_inv s D" and "p \<in> D" and "q \<in> D" and "2 \<le> i" and "i < 64"
    and "search_from (\<lambda>e. e_user_attribute e \<noteq> UATTR_NOT_EMPTY) 1 (disk_dir (disk s) q) = Some j" and "j < 64" and "\<not> used (disk_dir (disk s) q ! j)"
  shows "move_entry s (disk_dir (disk s) p) (disk_dir (disk s) q) (of_nat i) =
    Some (s\<lparr>disk := set_content (set_content (disk s) p (table_bytes ((disk_dir (disk s) p)[i := zero_entry])))
      q (table_bytes ((disk_dir (disk s) q)[j := disk_dir (disk s) p ! i]))\<rparr>)"
proof -
  have tp: "table_ok p (disk_dir (disk s) p)" "cluster_ok p" and tq: "table_ok q (disk_dir (disk s) q)" "cluster_ok q"
    using fs_inv_dir [OF assms(1,2)] fs_inv_dir [OF assms(1,3)] dir_cluster_ok by blast+
  have j: "2 \<le> j" using free_slot_ge_2 [OF tq(1) assms(8)] .
  have i: "unat (of_nat i :: u32) = i" using assms(5) by simp
  have "wf_entry (disk_dir (disk s) p ! i)" using table_ok_wf [OF tp(1) assms(5)] .
  moreover have "entry_cluster (disk_dir (disk s) p ! 0) = p" "entry_cluster (disk_dir (disk s) q ! 0) = q"
    using tp(1) tq(1) by (simp_all add: table_ok_def)
  ultimately show ?thesis
    using assms(4-7) i j tp(2) tq(2) by (simp add: move_entry_def run_simps wf_table_update codec_simps)
qed

lemma move_effect:
  assumes inv: "fs_inv s D" and p: "p \<in> D" and q: "q \<in> D" "q \<noteq> p"
    and i: "i < 64" "used (disk_dir (disk s) p ! i)" "e_filesize (disk_dir (disk s) p ! i) \<noteq> 0"
    and free: "\<exists>j < 64. \<not> used (disk_dir (disk s) q ! j)"
    and new: "listing (disk s) q (key_of (disk_dir (disk s) p ! i)) = None"
  shows "\<exists>s'. move_entry s (disk_dir (disk s) p) (disk_dir (disk s) q) (of_nat i) = Some s' \<and> fs_inv s' D \<and> ram s' = ram s \<and>
    listing (disk s') p = (listing (disk s) p)(key_of (disk_dir (disk s) p ! i) := None) \<and>
    listing (disk s') q = (listing (disk s) q)(key_of (disk_dir (disk s) p ! i) := listing (disk s) p (key_of (disk_dir (disk s) p ! i))) \<and>
    (\<forall>r \<in> D - {p, q}. listing (disk s') r = listing (disk s) r)"
proof -
  define d t u e where "d = disk s" "t = disk_dir (disk s) p" "u = disk_dir (disk s) q" "e = disk_dir (disk s) p ! i"
  have ok: "fs_ok d D" using inv by (simp add: fs_inv_def d_t_u_e_def)
  note tree = ok [unfolded fs_ok_def]
  have tp: "dir_cluster p" "table_ok p t" and tq: "dir_cluster q" "table_ok q u"
    using fs_inv_dir [OF inv p] fs_inv_dir [OF inv q(1)] by (simp_all add: d_t_u_e_def)
  obtain j where j: "j < 64" "search_from (\<lambda>e. e_user_attribute e \<noteq> UATTR_NOT_EMPTY) 1 u = Some j" "\<not> used (u ! j)"
    using search_free_from_1 [OF tq(2)] free by (auto simp: d_t_u_e_def)
  have i2: "2 \<le> i" using tree_clear_file(2) [OF tree p i(1)] i(3) by (simp add: d_t_u_e_def)
  define d1 where "d1 = set_content d p (table_bytes (t[i := zero_entry]))"
  define d2 where "d2 = set_content d1 q (table_bytes (u[j := e]))"
  have run: "move_entry s t u (of_nat i) = Some (s\<lparr>disk := d2\<rparr>)"
    using move_run [OF inv p q(1) i2 i(1), of j] j by (simp add: d_t_u_e_def d1_def d2_def)
  have e: "wf_entry e" "sound_entry e" "used e"
    using table_ok_wf [OF tp(2) i(1)] table_ok_attribute [OF tp(2) i(1)] i(2) by (simp_all add: d_t_u_e_def sound_entry_def)
  have wf: "wf_table (t[i := zero_entry])" "wf_table (u[j := e])"
    using tp(2) tq(2) e(1) table_ok_wf_table by (simp_all add: wf_table_update)
  have content: "content d2 c = content d c" if "cluster_ok c" "c \<noteq> p" "c \<noteq> q" for c
    using that tp(1) tq(1) wf dir_cluster_ok by (simp add: d1_def d2_def mem_simps codec_simps)
  have fat: "disk_fat d1 = disk_fat d" "disk_fat d2 = disk_fat d"
    using tp(1) tq(1) wf by (simp_all add: d1_def d2_def run_simps codec_simps)
  have dirs: "disk_dir d2 p = t[i := zero_entry]" "disk_dir d2 q = u[j := e]"
    "\<And>r. r \<in> D \<Longrightarrow> r \<noteq> p \<Longrightarrow> r \<noteq> q \<Longrightarrow> disk_dir d2 r = disk_dir d r"
    using tp(1) tq(1) wf q(2) dir_cluster_ok fs_inv_dir [OF inv] by (auto simp: d1_def d2_def run_simps codec_simps)
  have "lookup u (key_of e) = None" using new by (simp add: listing_def d_t_u_e_def)
  then have tree2: "tree_ok (disk_fat d) ((disk_dir d)(p := t[i := zero_entry], q := u[j := e])) D"
    using tree_move_file [OF tree p i(1) _ _ q, of j] i j by (simp add: d_t_u_e_def)
  have "fs_ok d2 D" unfolding fs_ok_def fat by (rule tree_ok_cong [OF tree2]) (use dirs in auto)
  moreover have "boot_ok d2"
    using inv content [of 0] root_not_dir [OF inv p] root_not_dir [OF inv q(1)]
    by (simp add: fs_inv_def boot_ok_def cluster_ok_def d_t_u_e_def)
  ultimately have inv2: "fs_inv (s\<lparr>disk := d2\<rparr>) D" using inv fat by (simp add: fs_inv_def d_t_u_e_def)
  have keep: "disk_fat d2 ! unat c = disk_fat d ! unat c \<and> content d2 c = content d c" if "in_use (disk_fat d) c" "c \<notin> D" for c
    using that content [of c] p q(1) fat cluster_ok_in_use by auto
  have del: "listing d2 p = (listing d p)(key_of (disk_dir d p ! i) := None)"
    by (rule listing_del [OF ok p i2 i(1)]) (use i dirs keep in \<open>auto simp: d_t_u_e_def\<close>)
  have add: "listing d2 q = (listing d q)(key_of e \<mapsto> node_of d2 (disk_fat d2) e)"
    by (rule listing_add [OF ok q(1) j(1)]) (use j e dirs keep \<open>lookup u (key_of e) = None\<close> in \<open>auto simp: d_t_u_e_def\<close>)
  have "node_of d2 (disk_fat d2) e = node_of d (disk_fat d) e"
    using node_of_unowned [OF tree p i(1), of "disk_fat d2" d2 d] keep by (simp add: d_t_u_e_def)
  moreover have "listing d p (key_of e) = Some (node_of d (disk_fat d) e)"
    using lookup_eq_Some [OF tp(2), of "key_of e" e] i by (auto simp: listing_def d_t_u_e_def)
  moreover have "listing d2 r = listing d r" if "r \<in> D" "r \<noteq> p" "r \<noteq> q" for r
    using that dirs keep by (intro listing_other [OF ok]) auto
  ultimately show ?thesis using run inv2 del add by (simp add: d_t_u_e_def)
qed

section \<open>Properties\<close>

text \<open>
  C33: moving a file. With the current tables of two different directories, the number of an entry of the first that is a file, and
  room and no entry of that name in the second, the system call removes the name from the first directory and makes
  the second one map it to the same data; every other listing is unchanged, no memory changes and the
  invariant of the file system is kept.
\<close>

theorem move_file:
  assumes "fs_inv s D" and "p \<in> D" and "q \<in> D" and "q \<noteq> p"
    and "i < 64" and "used (disk_dir (disk s) p ! i)" and "e_filesize (disk_dir (disk s) p ! i) \<noteq> 0"
    and "\<exists>j < 64. \<not> used (disk_dir (disk s) q ! j)"
    and "listing (disk s) q (key_of (disk_dir (disk s) p ! i)) = None"
  shows "\<exists>s'. move_entry s (disk_dir (disk s) p) (disk_dir (disk s) q) (of_nat i) = Some s' \<and> fs_inv s' D \<and> ram s' = ram s \<and>
    listing (disk s') p = (listing (disk s) p)(key_of (disk_dir (disk s) p ! i) := None) \<and>
    listing (disk s') q = (listing (disk s) q)(key_of (disk_dir (disk s) p ! i) := listing (disk s) p (key_of (disk_dir (disk s) p ! i))) \<and>
    (\<forall>r \<in> D - {p, q}. listing (disk s') r = listing (disk s) r)"
  using assms by (rule move_effect)

text \<open>A directory that lists fewer than 64 names has a free entry.\<close>

lemma room_if_few:
  assumes t: "table_ok p (disk_dir d p)" and few: "card (dom (listing d p)) < 64"
  shows "\<exists>i < 64. \<not> used (disk_dir d p ! i)"
proof (rule ccontr)
  let ?t = "disk_dir d p"
  assume "\<not> ?thesis"
  then have all: "\<And>i. i < 64 \<Longrightarrow> used (?t ! i)" by blast
  then have "inj_on (\<lambda>i. key_of (?t ! i)) {..<64}" using table_ok_unique [OF t] by (intro inj_onI) auto
  then have "card ((\<lambda>i. key_of (?t ! i)) ` {..<64}) = 64" by (simp add: card_image)
  moreover have "dom (listing d p) = (\<lambda>i. key_of (?t ! i)) ` {..<64}"
  proof -
    have "k \<in> dom (listing d p) \<longleftrightarrow> (\<exists>i < 64. key_of (?t ! i) = k)" for k
      using lookup_eq_None [OF t, of k] all by (auto simp: listing_def)
    then have "\<And>k. k \<in> dom (listing d p) \<longleftrightarrow> k \<in> (\<lambda>i. key_of (?t ! i)) ` {..<64}"
      unfolding image_iff by (metis lessThan_iff)
    then show ?thesis by (rule set_eqI)
  qed
  ultimately show False using few by simp
qed

lemma formatted_mkdir:
  "\<exists>s w. write' formatted dir_request = Some (0, s) \<and> w \<noteq> 2 \<and> fs_inv s {w, 2} \<and> ram s = (\<lambda>_. 7) \<and>
     listing (disk s) w = [request_key dir_request \<mapsto> Dir w, dotdot_key \<mapsto> Dir 2] \<and>
     listing (disk s) 2 = (listing (disk formatted) 2)(request_key dir_request \<mapsto> Dir w) \<and>
     2 \<le> length (frees (disk_fat (disk s)) 3)"
proof -
  obtain s w where s: "write' formatted dir_request = Some (0, s)" "w \<noteq> 2" "fs_inv s {w, 2}" "ram s = (\<lambda>_. 7)"
    "listing (disk s) w = [request_key dir_request \<mapsto> Dir w, dotdot_key \<mapsto> Dir 2]"
    "listing (disk s) 2 = (listing (disk formatted) 2)(request_key dir_request \<mapsto> Dir w)"
    using write_dir_effect [OF formatted(2) formatted_hyps(2) dir_request(1,2) dir_request(5,6) _ formatted_hyps(4,5)]
    by (auto simp: dir_request formatted(3))
  let ?f = "disk_fat (disk formatted)"
  have none: "lookup (disk_dir (disk formatted) (r_parent_cluster_number dir_request)) (request_key dir_request) = None"
    using dir_request(4,7) by (simp add: listing_def)
  have fat: "disk_fat (disk s) = ?f[3 := FAT32_FAT_END_OF_FILE]"
    using write_folder_step [OF formatted(2) formatted_hyps(2) dir_request(1,2,5) none formatted_hyps(4,5)] s(1) formatted(5)
    by (auto simp: hd_conv_nth)
  have "[3..<512] = 3 # [Suc 3..<512]" by (rule upt_conv_Cons) simp
  then have "frees ?f 3 = 3 # [Suc 3..<512]" by (simp only: formatted(5))
  from frees_Cons(3) [OF this] have "length (frees ?f (Suc 3)) = length [Suc 3..<512]" by (simp only:)
  moreover have "frees (disk_fat (disk s)) 3 = frees (disk_fat (disk s)) (Suc 3)"
    using frees_step [of 3 "disk_fat (disk s)"] fat by (simp add: fat_consts)
  moreover have "frees (disk_fat (disk s)) (Suc 3) = frees ?f (Suc 3)" unfolding fat by (rule frees_upd) simp
  ultimately show ?thesis using s by (intro exI [of _ s] exI [of _ w]) simp
qed

theorem move_file_witness:
  "\<exists>s s' p i. p \<noteq> 2 \<and> listing (disk s) p (request_key (file_request 3000)) = Some (File (replicate 3000 7)) \<and>
     move_entry s (disk_dir (disk s) p) (disk_dir (disk s) 2) i = Some s' \<and>
     listing (disk s') 2 (request_key (file_request 3000)) = Some (File (replicate 3000 7)) \<and>
     listing (disk s') p (request_key (file_request 3000)) = None"
proof -
  obtain s w where s: "w \<noteq> 2" "fs_inv s {w, 2}" "ram s = (\<lambda>_. 7)" "listing (disk s) w = [request_key dir_request \<mapsto> Dir w, dotdot_key \<mapsto> Dir 2]"
    "listing (disk s) 2 = (listing (disk formatted) 2)(request_key dir_request \<mapsto> Dir w)" "2 \<le> length (frees (disk_fat (disk s)) 3)"
    using formatted_mkdir by blast
  let ?r = "(file_request 3000)\<lparr>r_parent_cluster_number := w\<rparr>" and ?k = "request_key (file_request 3000)"
  have r: "wf_request ?r" "request_key ?r = ?k" "?k \<noteq> zero_key" "r_buf ?r = 0x100000" "r_buffer_size ?r = 3000"
    using file_request [of 3000] by (simp_all add: wf_request_def request_key_def)
  have kd: "?k \<noteq> request_key dir_request" "?k \<noteq> dotdot_key"
    by (simp_all add: file_request_def dir_request_def request_key_def dotdot_key_def replicate_3)
  have tw: "table_ok w (disk_dir (disk s) w)" using fs_inv_dir [OF s(2)] by blast
  have few: "card (dom (listing (disk s) w)) < 64" unfolding s(4) by (simp add: card_insert_if)
  obtain s2 where s2: "fs_inv s2 {w, 2}" "listing (disk s2) w = (listing (disk s) w)(?k \<mapsto> File (replicate 3000 7))"
    "listing (disk s2) 2 = listing (disk s) 2"
    using write_file_effect [OF s(2) _ r(1), unfolded r] room_if_few [OF tw few] s(1,3,4,6) r(3) kd
    by (auto simp: load_const cluster_need_def)
  have ok2: "fs_ok (disk s2) {w, 2}" using s2(1) by (simp add: fs_inv_def)
  obtain i where i: "i < 64" "used (disk_dir (disk s2) w ! i)" "key_of (disk_dir (disk s2) w ! i) = ?k" "e_filesize (disk_dir (disk s2) w ! i) \<noteq> 0"
    using listing_file [OF ok2, of w ?k "replicate 3000 7"] s2(2) by auto
  have t2: "table_ok 2 (disk_dir (disk s2) 2)" using fs_inv_dir [OF s2(1)] by blast
  have "card (dom (listing (disk s2) 2)) < 64" unfolding s2(3) s(5) formatted(4) by (simp add: card_insert_if)
  then have free: "\<exists>j < 64. \<not> used (disk_dir (disk s2) 2 ! j)" by (rule room_if_few [OF t2])
  have new: "listing (disk s2) 2 ?k = None" using file_request(6) [of 3000] kd by (simp add: s2(3) s(5))
  obtain s3 where "move_entry s2 (disk_dir (disk s2) w) (disk_dir (disk s2) 2) (of_nat i) = Some s3"
    "listing (disk s3) 2 ?k = Some (File (replicate 3000 7))" "listing (disk s3) w ?k = None"
    using move_file [OF s2(1) _ _ s(1) [symmetric] i(1,2,4) free, unfolded i(3), OF _ _ new] s2(2) by auto
  then show ?thesis using s(1) s2(2) by (intro exI [of _ s2] exI [of _ s3] exI [of _ w] exI [of _ "of_nat i"]) simp
qed

text \<open>
  Moving inside one directory. When both tables are the one of the same directory, the second write brings the source entry back: afterwards
  the directory has two entries with the same name and the same first cluster, and the invariant is lost.
\<close>

theorem move_within_directory:
  assumes "fs_inv s D" and "p \<in> D" and "2 \<le> i" and "i < 64" and "used (disk_dir (disk s) p ! i)"
    and "\<exists>j < 64. \<not> used (disk_dir (disk s) p ! j)"
  shows "\<exists>s' j. move_entry s (disk_dir (disk s) p) (disk_dir (disk s) p) (of_nat i) = Some s' \<and> j < 64 \<and> j \<noteq> i \<and>
    disk_dir (disk s') p ! i = disk_dir (disk s) p ! i \<and> disk_dir (disk s') p ! j = disk_dir (disk s) p ! i \<and> \<not> fs_inv s' D"
proof -
  let ?t = "disk_dir (disk s) p"
  have t: "table_ok p ?t" "dir_cluster p" using fs_inv_dir [OF assms(1,2)] by blast+
  obtain j where j: "j < 64" "search_from (\<lambda>e. e_user_attribute e \<noteq> UATTR_NOT_EMPTY) 1 ?t = Some j" "\<not> used (?t ! j)"
    using search_free_from_1 [OF t(1) assms(6)] by blast
  have ne: "j \<noteq> i" using j(3) assms(5) by auto
  have wf: "wf_table (?t[j := ?t ! i])" using table_ok_wf [OF t(1) assms(4)] by (simp add: wf_table_update)
  obtain s' where s': "move_entry s ?t ?t (of_nat i) = Some s'" "disk_dir (disk s') p = ?t[j := ?t ! i]"
    using move_run [OF assms(1,2,2,3,4) j(2,1,3)] wf by (simp add: run_simps)
  then have two: "disk_dir (disk s') p ! i = ?t ! i" "disk_dir (disk s') p ! j = ?t ! i" using j(1) ne by simp_all
  have "\<not> fs_inv s' D"
  proof
    assume "fs_inv s' D"
    then have "table_ok p (disk_dir (disk s') p)" using fs_inv_dir assms(2) by blast
    from table_ok_unique [OF this assms(4) j(1)] show False using two assms(5) ne by simp
  qed
  then show ?thesis using s'(1) j(1) ne two by blast
qed

theorem move_within_directory_witness:
  "\<exists>s' i. move_entry (with_file 3000) (disk_dir (disk (with_file 3000)) 2) (disk_dir (disk (with_file 3000)) 2) i = Some s' \<and> \<not> fs_inv s' {2}"
proof -
  have inv: "fs_inv (with_file 3000) {2}" using with_file(2) [of 3000] by simp
  then have ok: "fs_ok (disk (with_file 3000)) {2}" by (simp add: fs_inv_def)
  obtain i where i: "i < 64" "used (disk_dir (disk (with_file 3000)) 2 ! i)" "e_filesize (disk_dir (disk (with_file 3000)) 2 ! i) \<noteq> 0"
    using listing_file [OF ok, of 2 "request_key (file_request 3000)" "replicate 3000 7"] with_file(3) [of 3000] by auto
  have i2: "2 \<le> i" using tree_clear_file(2) [OF ok [unfolded fs_ok_def] _ i(1,3)] by simp
  have t: "table_ok 2 (disk_dir (disk (with_file 3000)) 2)" using fs_inv_dir [OF inv] by blast
  have "listing (disk (with_file 3000)) 2 = (listing (disk formatted) 2)(request_key (file_request 3000) \<mapsto> File (replicate 3000 7))"
    using write_file_effect [OF formatted(2) formatted_hyps(1) file_request(1,2) _ _ formatted_hyps(3), of 3000] with_file(1) [of 3000]
    by (auto simp: file_request formatted(3,5) load_const cluster_need_def)
  then have "card (dom (listing (disk (with_file 3000)) 2)) < 64" by (simp add: formatted(4) card_insert_if)
  then have "\<exists>j < 64. \<not> used (disk_dir (disk (with_file 3000)) 2 ! j)" by (rule room_if_few [OF t])
  from move_within_directory [OF inv _ i2 i(1,2) this] show ?thesis by blast
qed

end
