(* ===== verification/Paging.thy ===== *)
theory Paging
  imports Prelude
begin

text \<open>
  The memory manager of \<open>src/src/paging.c\<close>: page directories with 4 MiB pages, the map of physical
  frames, the table of page directories and the CR3 register. Page directories are objects in kernel
  memory, so the state maps the addresses of the existing directories to their entries;
  \<open>pdl\<close> is the address the linker gives to \<open>page_directory_list\<close>. An uninitialised local struct of
  the C code is a parameter of the definition that uses it. The TLB is not modelled: \<open>invlpg\<close> changes no
  state that the code reads.
\<close>

section \<open>Constants and data\<close>

definition PAGE_ENTRY_COUNT :: nat where "PAGE_ENTRY_COUNT = 1024"
definition PAGE_FRAME_SIZE :: u32 where "PAGE_FRAME_SIZE = push_bit (2 + 10 + 10) 1"
definition PAGE_FRAME_MAX_COUNT :: nat where "PAGE_FRAME_MAX_COUNT = 32"
definition KERNEL_VIRTUAL_ADDRESS_BASE :: u32 where "KERNEL_VIRTUAL_ADDRESS_BASE = 0xC0000000"
definition PAGING_DIRECTORY_TABLE_MAX_COUNT :: nat where "PAGING_DIRECTORY_TABLE_MAX_COUNT = 32"

record PageDirectoryEntryFlag =
  present_bit :: bool
  write_bit :: bool
  user_bit :: bool
  pwt :: bool
  pcd :: bool
  accessed :: bool
  dirty :: bool
  use_pagesize_4_mb :: bool

record PageDirectoryEntry =
  flag :: PageDirectoryEntryFlag
  global_page :: bool
  ignored :: "3 word"
  pat :: bool
  higher_address :: "4 word"
  reserved_bits :: "5 word"
  lower_address :: "10 word"

type_synonym PageDirectory = "PageDirectoryEntry list"

definition zero_flag :: PageDirectoryEntryFlag where
  "zero_flag = \<lparr>present_bit = False, write_bit = False, user_bit = False, pwt = False, pcd = False,
     accessed = False, dirty = False, use_pagesize_4_mb = False\<rparr>"

definition zero_pde :: PageDirectoryEntry where
  "zero_pde = \<lparr>flag = zero_flag, global_page = False, ignored = 0, pat = False, higher_address = 0,
     reserved_bits = 0, lower_address = 0\<rparr>"

text \<open>\<open>page_directory_list\<close>, \<open>page_directory_manager\<close>, \<open>page_manager_state\<close> and CR3.\<close>

record page_state =
  page_dirs :: "u32 \<Rightarrow> PageDirectory option"
  page_directory_used :: "bool list"
  page_frame_map :: "bool list"
  free_page_frame_count :: u32
  cr3 :: u32

text \<open>The initialisers of \<open>_paging_kernel_page_directory\<close> and of \<open>page_manager_state\<close>.\<close>

definition kernel_pde :: PageDirectoryEntry where
  "kernel_pde = zero_pde\<lparr>flag := zero_flag\<lparr>present_bit := True, write_bit := True, use_pagesize_4_mb := True\<rparr>, lower_address := 0\<rparr>"

definition paging_kernel_page_directory :: PageDirectory where
  "paging_kernel_page_directory = (replicate PAGE_ENTRY_COUNT zero_pde)[0 := kernel_pde, 0x300 := kernel_pde]"

definition initial_page_frame_map :: "bool list" where
  "initial_page_frame_map = True # replicate (PAGE_FRAME_MAX_COUNT - 1) False"

section \<open>Operations\<close>

text \<open>\<open>((uint32_t) virtual_addr >> 22) & 0x3FF\<close>\<close>

definition page_index :: "u32 \<Rightarrow> nat" where
  "page_index virtual_addr = unat (drop_bit 22 virtual_addr AND 0x3FF)"

text \<open>The update of an entry; the pointer must be to an existing page directory.\<close>

definition update_page_directory_entry ::
  "page_state \<Rightarrow> u32 \<Rightarrow> u32 \<Rightarrow> u32 \<Rightarrow> PageDirectoryEntryFlag \<Rightarrow> page_state option" where
  "update_page_directory_entry s page_dir physical_addr virtual_addr fl =
     do { table \<leftarrow> page_dirs s page_dir;
          e \<leftarrow> get_at table (page_index virtual_addr);
          table \<leftarrow> put_at table (page_index virtual_addr)
            (e\<lparr>flag := fl, lower_address := ucast (drop_bit 22 physical_addr AND 0x3FF)\<rparr>);
          Some (s\<lparr>page_dirs := (page_dirs s)(page_dir \<mapsto> table)\<rparr>) }"

definition paging_allocate_check :: "page_state \<Rightarrow> u32 \<Rightarrow> bool" where
  "paging_allocate_check s amount \<longleftrightarrow> free_page_frame_count s \<ge> amount"

text \<open>The search loops of the manager: take the first unset flag.\<close>

definition claim_flag :: "bool list \<Rightarrow> (nat \<times> bool list) option" where
  "claim_flag m = map_option (\<lambda>i. (i, m[i := True])) (first_index Not m)"

text \<open>\<open>junk\<close> is the content of the uninitialised local \<open>flag\<close>.\<close>

definition paging_allocate_user_page_frame ::
  "PageDirectoryEntryFlag \<Rightarrow> page_state \<Rightarrow> u32 \<Rightarrow> u32 \<Rightarrow> (bool \<times> page_state) option" where
  "paging_allocate_user_page_frame junk s page_dir virtual_addr =
     (case claim_flag (page_frame_map s) of
        None \<Rightarrow> Some (False, s)
      | Some (i, m) \<Rightarrow>
          do { s \<leftarrow> Some (s\<lparr>page_frame_map := m\<rparr>);
               s \<leftarrow> update_page_directory_entry s page_dir (of_nat i * PAGE_FRAME_SIZE) virtual_addr
                 (junk\<lparr>present_bit := True, write_bit := True, user_bit := True, use_pagesize_4_mb := True\<rparr>);
               Some (True, s\<lparr>free_page_frame_count := free_page_frame_count s - 1\<rparr>) })"

definition paging_free_user_page_frame ::
  "PageDirectoryEntryFlag \<Rightarrow> page_state \<Rightarrow> u32 \<Rightarrow> u32 \<Rightarrow> (bool \<times> page_state) option" where
  "paging_free_user_page_frame junk s page_dir virtual_addr =
     do { table \<leftarrow> page_dirs s page_dir;
          e \<leftarrow> get_at table (page_index virtual_addr);
          if present_bit (flag e) then
            do { physical_addr \<leftarrow> Some (push_bit 22 (ucast (lower_address e)) :: u32);
                 m \<leftarrow> put_at (page_frame_map s) (unat (physical_addr div PAGE_FRAME_SIZE)) False;
                 s \<leftarrow> Some (s\<lparr>page_frame_map := m\<rparr>);
                 s \<leftarrow> update_page_directory_entry s page_dir 0 virtual_addr
                   (junk\<lparr>present_bit := False, write_bit := False, user_bit := False, use_pagesize_4_mb := False\<rparr>);
                 Some (True, s\<lparr>free_page_frame_count := free_page_frame_count s + 1\<rparr>) }
          else Some (False, s) }"

text \<open>\<open>&page_directory_list[i]\<close>\<close>

definition page_directory_addr :: "u32 \<Rightarrow> nat \<Rightarrow> u32" where
  "page_directory_addr pdl i = pdl + of_nat (i * (PAGE_ENTRY_COUNT * 4))"

text \<open>\<open>junk\<close> is the content of the uninitialised local \<open>entry\<close>. The result 0 is \<open>NULL\<close>.\<close>

definition paging_create_new_page_directory :: "PageDirectoryEntry \<Rightarrow> u32 \<Rightarrow> page_state \<Rightarrow> u32 \<times> page_state" where
  "paging_create_new_page_directory junk pdl s =
     (case claim_flag (page_directory_used s) of
        None \<Rightarrow> (0, s)
      | Some (i, u) \<Rightarrow>
          let entry = junk\<lparr>flag := (flag junk)\<lparr>present_bit := True, write_bit := True, use_pagesize_4_mb := True\<rparr>\<rparr>;
              page_dir = page_directory_addr pdl i
          in (page_dir, s\<lparr>page_directory_used := u,
                page_dirs := (page_dirs s)(page_dir \<mapsto> (replicate PAGE_ENTRY_COUNT zero_pde)[0x300 := entry])\<rparr>))"

definition paging_free_page_directory :: "u32 \<Rightarrow> page_state \<Rightarrow> u32 \<Rightarrow> (bool \<times> page_state) option" where
  "paging_free_page_directory pdl s page_dir =
     (case first_index (\<lambda>i. page_directory_addr pdl i = page_dir) [0..<PAGING_DIRECTORY_TABLE_MAX_COUNT] of
        None \<Rightarrow> Some (False, s)
      | Some i \<Rightarrow>
          do { u \<leftarrow> put_at (page_directory_used s) i False;
               Some (True, s\<lparr>page_directory_used := u,
                 page_dirs := (page_dirs s)(page_dir \<mapsto> replicate PAGE_ENTRY_COUNT zero_pde)\<rparr>) })"

definition paging_get_current_page_directory_addr :: "page_state \<Rightarrow> u32" where
  "paging_get_current_page_directory_addr s = cr3 s + KERNEL_VIRTUAL_ADDRESS_BASE"

definition paging_use_page_directory :: "page_state \<Rightarrow> u32 \<Rightarrow> page_state" where
  "paging_use_page_directory s page_dir_virtual_addr =
     s\<lparr>cr3 := (if page_dir_virtual_addr > KERNEL_VIRTUAL_ADDRESS_BASE
               then page_dir_virtual_addr - KERNEL_VIRTUAL_ADDRESS_BASE else page_dir_virtual_addr)\<rparr>"

text \<open>
  What the CPU finds in a directory. \<open>user_frame\<close> is the frame that the entry of a user page leads to; without such an entry a
  program gets a page fault. \<open>maps_kernel\<close>: the entry of the kernel half is a writable 4 MiB page on the frame that the kernel
  was loaded to. With any other entry the next instruction of the kernel is not there any more when CR3 gets the directory.
\<close>

definition user_frame :: "page_state \<Rightarrow> u32 \<Rightarrow> nat \<Rightarrow> nat option" where
  "user_frame s a i =
     (case page_dirs s a of
        None \<Rightarrow> None
      | Some d \<Rightarrow>
          if i < length d \<and> present_bit (flag (d ! i)) \<and> user_bit (flag (d ! i)) then Some (unat (lower_address (d ! i))) else None)"

definition kernel_entry :: "PageDirectoryEntry \<Rightarrow> bool" where
  "kernel_entry e \<longleftrightarrow> present_bit (flag e) \<and> write_bit (flag e) \<and> use_pagesize_4_mb (flag e) \<and>
     lower_address e = 0 \<and> higher_address e = 0 \<and> reserved_bits e = 0"

definition maps_kernel :: "page_state \<Rightarrow> u32 \<Rightarrow> bool" where
  "maps_kernel s a \<longleftrightarrow> (case page_dirs s a of None \<Rightarrow> False | Some d \<Rightarrow> 0x300 < length d \<and> kernel_entry (d ! 0x300))"

section \<open>The interface of a table of flags\<close>

text \<open>
  What the allocators rely on: claiming finds a slot that was free, marks it and no other one, and
  fails only when every slot is taken; releasing undoes a claim.
\<close>

locale flag_table =
  fixes slots :: "'t \<Rightarrow> nat"
    and taken :: "'t \<Rightarrow> nat \<Rightarrow> bool"
    and claim :: "'t \<Rightarrow> (nat \<times> 't) option"
    and release :: "'t \<Rightarrow> nat \<Rightarrow> 't"
  assumes claim_free: "claim t = Some (i, t') \<Longrightarrow> i < slots t \<and> \<not> taken t i"
    and claim_slots: "claim t = Some (i, t') \<Longrightarrow> slots t' = slots t"
    and claim_taken: "claim t = Some (i, t') \<Longrightarrow> j < slots t \<Longrightarrow> taken t' j \<longleftrightarrow> taken t j \<or> j = i"
    and claim_None: "claim t = None \<longleftrightarrow> (\<forall>i < slots t. taken t i)"
    and release_slots: "slots (release t i) = slots t"
    and release_taken: "i < slots t \<Longrightarrow> j < slots t \<Longrightarrow> taken (release t i) j \<longleftrightarrow> taken t j \<and> j \<noteq> i"
begin

definition free_count :: "'t \<Rightarrow> nat" where
  "free_count t = card {i. i < slots t \<and> \<not> taken t i}"

lemma free_finite [simp]: "finite {i. i < slots t \<and> \<not> taken t i}"
  by simp

lemma claim_possible: "claim t \<noteq> None \<longleftrightarrow> 0 < free_count t"
  unfolding claim_None free_count_def card_gt_0_iff by auto

lemma free_count_claim:
  assumes "claim t = Some (i, t')"
  shows "free_count t = Suc (free_count t')"
proof -
  have "{j. j < slots t \<and> \<not> taken t j} = insert i {j. j < slots t' \<and> \<not> taken t' j}"
    using claim_free [OF assms] claim_slots [OF assms] claim_taken [OF assms] by auto
  moreover have "i \<notin> {j. j < slots t' \<and> \<not> taken t' j}"
    using claim_free [OF assms] claim_slots [OF assms] claim_taken [OF assms] by auto
  ultimately show ?thesis by (simp add: free_count_def)
qed

lemma free_count_release:
  assumes "i < slots t" and "taken t i"
  shows "free_count (release t i) = Suc (free_count t)"
proof -
  have "{j. j < slots (release t i) \<and> \<not> taken (release t i) j} = insert i {j. j < slots t \<and> \<not> taken t j}"
    using assms release_slots release_taken by auto
  then show ?thesis using assms(2) by (simp add: free_count_def)
qed

lemma two_claims_differ:
  "claim t = Some (i, t') \<Longrightarrow> claim t' = Some (j, t'') \<Longrightarrow> i \<noteq> j"
  using claim_free claim_slots claim_taken by metis

end

interpretation flags: flag_table length "\<lambda>m i. m ! i" claim_flag "\<lambda>m i. m[i := False]"
proof
  fix t :: "bool list" and i j t'
  show "claim_flag t = Some (i, t') \<Longrightarrow> i < length t \<and> \<not> t ! i"
    by (auto simp: claim_flag_def first_index_Some_iff)
  show "claim_flag t = Some (i, t') \<Longrightarrow> length t' = length t" by (auto simp: claim_flag_def)
  show "claim_flag t = Some (i, t') \<Longrightarrow> j < length t \<Longrightarrow> t' ! j \<longleftrightarrow> t ! j \<or> j = i"
    by (auto simp: claim_flag_def first_index_Some_iff nth_list_update)
  show "claim_flag t = None \<longleftrightarrow> (\<forall>i < length t. t ! i)"
    by (auto simp: claim_flag_def first_index_None_iff all_set_conv_all_nth)
  show "length (t[i := False]) = length t" by simp
  show "i < length t \<Longrightarrow> j < length t \<Longrightarrow> t[i := False] ! j \<longleftrightarrow> t ! j \<and> j \<noteq> i"
    by (auto simp: nth_list_update)
qed

section \<open>The invariant of the memory manager\<close>

text \<open>A user mapping: an entry of an existing directory that is present and carries the user bit.\<close>

definition user_mapping :: "page_state \<Rightarrow> u32 \<Rightarrow> nat \<Rightarrow> nat \<Rightarrow> bool" where
  "user_mapping s a i frame \<longleftrightarrow> (\<exists>d. page_dirs s a = Some d \<and> i < length d \<and> present_bit (flag (d ! i)) \<and>
     user_bit (flag (d ! i)) \<and> unat (lower_address (d ! i)) = frame)"

lemma user_mapping_iff: "user_mapping s a i frame \<longleftrightarrow> user_frame s a i = Some frame"
  by (auto simp: user_mapping_def user_frame_def split: option.splits)

lemma user_frame_cr3 [simp]: "user_frame (s\<lparr>cr3 := x\<rparr>) = user_frame s" "maps_kernel (s\<lparr>cr3 := x\<rparr>) = maps_kernel s"
  by (auto simp: user_frame_def maps_kernel_def fun_eq_iff)

text \<open>
  The counter is the number of free frames, the kernel's frame is taken, every user mapping leads to a
  frame that is marked as taken and is not the kernel's, and no two user mappings share a frame.
\<close>

definition pg_ok :: "page_state \<Rightarrow> bool" where
  "pg_ok s \<longleftrightarrow> length (page_frame_map s) = 32 \<and> length (page_directory_used s) = 32 \<and>
     unat (free_page_frame_count s) = flags.free_count (page_frame_map s) \<and> page_frame_map s ! 0 \<and>
     (\<forall>a d. page_dirs s a = Some d \<longrightarrow> length d = 1024) \<and>
     (\<forall>a i frame. user_mapping s a i frame \<longrightarrow> 0 < frame \<and> frame < 32 \<and> page_frame_map s ! frame) \<and>
     (\<forall>a i b j frame. user_mapping s a i frame \<and> user_mapping s b j frame \<longrightarrow> a = b \<and> i = j)"

lemma page_index_bound: "page_index v < 1024"
proof -
  have "drop_bit 22 v AND 0x3FF \<le> (0x3FF :: u32)" by (rule word_and_le1)
  then have "unat (drop_bit 22 v AND 0x3FF) \<le> unat (0x3FF :: u32)" by (simp only: word_le_nat_alt)
  then show ?thesis unfolding page_index_def by simp
qed

lemma frame_size: "PAGE_FRAME_SIZE = 2 ^ 22"
  by (simp add: PAGE_FRAME_SIZE_def push_bit_eq_mult)

text \<open>The frame number survives its way through the physical address into the entry and back.\<close>

lemma lower_address_of_frame:
  assumes "i < 32"
  shows "ucast (drop_bit 22 (of_nat i * PAGE_FRAME_SIZE :: u32) AND 0x3FF) = (of_nat i :: 10 word)"
proof (rule word_unat_eq_iff [THEN iffD2])
  have "unat (of_nat i * PAGE_FRAME_SIZE :: u32) = i * 2 ^ 22"
    using assms by (simp add: frame_size unat_word_ariths unat_of_nat)
  then have "unat (drop_bit 22 (of_nat i * PAGE_FRAME_SIZE :: u32)) = i"
    by (simp add: drop_bit_eq_div unat_div)
  moreover have "x AND 0x3FF = take_bit 10 x" for x :: u32
    by (simp add: take_bit_eq_mask mask_eq_exp_minus_1)
  ultimately show "unat (ucast (drop_bit 22 (of_nat i * PAGE_FRAME_SIZE :: u32) AND 0x3FF) :: 10 word) = unat (of_nat i :: 10 word)"
    using assms by (simp add: unsigned_ucast_eq unsigned_take_bit_eq take_bit_nat_eq_self unat_of_nat)
qed

lemma frame_of_lower_address:
  "unat (push_bit 22 (ucast (l :: 10 word)) div PAGE_FRAME_SIZE :: u32) = unat l"
proof -
  have "unat l < 2 ^ 10" using unsigned_less [of l, where ?'a = nat] by simp
  then have "unat (push_bit 22 (ucast l) :: u32) = unat l * 2 ^ 22"
    by (simp add: push_bit_eq_mult unat_word_ariths unsigned_ucast_eq take_bit_nat_eq_self)
  then show ?thesis by (simp add: unat_div frame_size)
qed

text \<open>The update of one entry, on an existing directory of 1024 entries.\<close>

lemma update_entry:
  assumes "page_dirs s a = Some d" and "length d = 1024"
  shows "update_page_directory_entry s a phys v fl = Some (s\<lparr>page_dirs := (page_dirs s)(a \<mapsto>
     d[page_index v := (d ! page_index v)\<lparr>flag := fl, lower_address := ucast (drop_bit 22 phys AND 0x3FF)\<rparr>])\<rparr>)"
  using assms page_index_bound [of v] by (simp add: update_page_directory_entry_def)

lemma user_mapping_update:
  assumes "page_dirs s a = Some d" and "k < length d"
  shows "user_mapping (s\<lparr>page_dirs := (page_dirs s)(a \<mapsto> d[k := e])\<rparr>) b j frame \<longleftrightarrow>
    (if b = a \<and> j = k then present_bit (flag e) \<and> user_bit (flag e) \<and> unat (lower_address e) = frame
     else user_mapping s b j frame)"
  using assms by (auto simp: user_mapping_def nth_list_update)

lemma user_mapping_frame [simp]:
  "user_mapping (s\<lparr>page_frame_map := m\<rparr>) = user_mapping s"
  "user_mapping (s\<lparr>free_page_frame_count := c\<rparr>) = user_mapping s"
  "user_mapping (s\<lparr>page_directory_used := u\<rparr>) = user_mapping s"
  "user_mapping (s\<lparr>cr3 := x\<rparr>) = user_mapping s"
  by (auto simp: user_mapping_def fun_eq_iff)

section \<open>Allocation and release\<close>

lemma pg_ok_mapping: "pg_ok s \<Longrightarrow> user_mapping s a i frame \<Longrightarrow> 0 < frame \<and> frame < 32 \<and> page_frame_map s ! frame"
  by (simp add: pg_ok_def)

lemma pg_ok_unique:
  "pg_ok s \<Longrightarrow> user_mapping s a i frame \<Longrightarrow> user_mapping s b j frame \<Longrightarrow> a = b \<and> i = j"
  unfolding pg_ok_def by metis

text \<open>The frame that an allocation takes: it was free, so no user mapping leads to it.\<close>

lemma claimed_frame:
  assumes "pg_ok s" and "claim_flag (page_frame_map s) = Some (i, m)"
  shows "0 < i" "i < 32" "\<not> user_mapping s a k i" "length m = 32" "m ! 0" "m ! i"
    and "\<And>j. j < 32 \<Longrightarrow> m ! j \<longleftrightarrow> page_frame_map s ! j \<or> j = i"
    and "unat (free_page_frame_count s - 1) = flags.free_count m"
proof -
  have len: "length (page_frame_map s) = 32" and 0: "page_frame_map s ! 0"
    and cnt: "unat (free_page_frame_count s) = flags.free_count (page_frame_map s)"
    using assms(1) by (simp_all add: pg_ok_def)
  note c = flags.claim_free [OF assms(2)] flags.claim_taken [OF assms(2)] flags.claim_slots [OF assms(2)]
  show "i < 32" "length m = 32" using c len by simp_all
  show "0 < i" using c(1) 0 by (cases i) auto
  show "\<not> user_mapping s a k i" using assms(1) c(1) by (auto simp: pg_ok_def)
  show taken: "m ! j \<longleftrightarrow> page_frame_map s ! j \<or> j = i" if "j < 32" for j using c(2) that len by simp
  show "m ! 0" "m ! i" using taken [of 0] taken [of i] 0 \<open>i < 32\<close> by simp_all
  have "unat (free_page_frame_count s) = Suc (flags.free_count m)" using flags.free_count_claim [OF assms(2)] cnt by simp
  then show "unat (free_page_frame_count s - 1) = flags.free_count m"
    using unat_diff_small [of 1 "free_page_frame_count s"] by simp
qed

lemma allocate_effect:
  assumes "pg_ok s" and "page_dirs s a = Some d"
  shows "(free_page_frame_count s = 0 \<longrightarrow> paging_allocate_user_page_frame junk s a v = Some (False, s)) \<and>
    (free_page_frame_count s \<noteq> 0 \<longrightarrow>
      (\<exists>s' i. paging_allocate_user_page_frame junk s a v = Some (True, s') \<and> pg_ok s' \<and>
        free_page_frame_count s' = free_page_frame_count s - 1 \<and>
        (\<forall>b j. \<not> user_mapping s b j i) \<and>
        (\<forall>b j frame. user_mapping s' b j frame \<longleftrightarrow>
          (if b = a \<and> j = page_index v then frame = i else user_mapping s b j frame))))"
proof (cases "claim_flag (page_frame_map s)")
  case None
  then have "flags.free_count (page_frame_map s) = 0" using flags.claim_possible [of "page_frame_map s"] by auto
  then have "free_page_frame_count s = 0" using assms(1) by (simp add: pg_ok_def unat_eq_zero)
  then show ?thesis using None by (simp add: paging_allocate_user_page_frame_def)
next
  case (Some x)
  obtain i m where x: "x = (i, m)" by (cases x)
  note c = claimed_frame [OF assms(1) Some [unfolded x]]
  have len: "length d = 1024" using assms by (simp add: pg_ok_def)
  let ?fl = "junk\<lparr>present_bit := True, write_bit := True, user_bit := True, use_pagesize_4_mb := True\<rparr>"
  let ?e = "(d ! page_index v)\<lparr>flag := ?fl, lower_address := of_nat i\<rparr>"
  let ?s = "s\<lparr>page_frame_map := m, page_dirs := (page_dirs s)(a \<mapsto> d[page_index v := ?e]),
     free_page_frame_count := free_page_frame_count s - 1\<rparr>"
  have run: "paging_allocate_user_page_frame junk s a v = Some (True, ?s)"
    using Some x assms(2) len c(2) by (simp add: paging_allocate_user_page_frame_def update_entry lower_address_of_frame)
  have map: "user_mapping ?s b j frame \<longleftrightarrow> (if b = a \<and> j = page_index v then frame = i else user_mapping s b j frame)"
    for b j frame
    using user_mapping_update [of "s\<lparr>page_frame_map := m\<rparr>" a d "page_index v" ?e b j frame] assms(2) len
      page_index_bound [of v] c(2) by (auto simp: unat_of_nat)
  have nz: "free_page_frame_count s \<noteq> 0"
    using assms(1) flags.claim_possible [of "page_frame_map s"] Some by (auto simp: pg_ok_def)
  have "pg_ok ?s"
    unfolding pg_ok_def map
  proof (intro conjI allI impI)
    fix b j frame
    assume "if b = a \<and> j = page_index v then frame = i else user_mapping s b j frame"
    then have "frame = i \<or> (0 < frame \<and> frame < 32 \<and> page_frame_map s ! frame)"
      using pg_ok_mapping [OF assms(1), of b j frame] by (auto split: if_splits)
    then show "0 < frame" "frame < 32" "page_frame_map ?s ! frame" using c(1,2,6,7) by auto
  next
    fix b j b' j' frame
    assume "(if b = a \<and> j = page_index v then frame = i else user_mapping s b j frame) \<and>
      (if b' = a \<and> j' = page_index v then frame = i else user_mapping s b' j' frame)"
    then show "b = b'" "j = j'" using pg_ok_unique [OF assms(1), of b j frame b' j'] c(3) by (auto split: if_splits)
  qed (use assms len c(4,5,8) in \<open>auto simp: pg_ok_def split: if_splits\<close>)
  then show ?thesis using run map nz c(3) by (intro conjI impI) (simp_all, blast)
qed

lemma free_effect:
  assumes "pg_ok s" and "page_dirs s a = Some d"
  shows "(user_mapping s a (page_index v) frame \<longrightarrow>
      (\<exists>s'. paging_free_user_page_frame junk s a v = Some (True, s') \<and> pg_ok s' \<and>
        free_page_frame_count s' = free_page_frame_count s + 1 \<and> \<not> page_frame_map s' ! frame \<and>
        (\<forall>b j fr. user_mapping s' b j fr \<longleftrightarrow> user_mapping s b j fr \<and> (b, j) \<noteq> (a, page_index v)))) \<and>
    (\<not> present_bit (flag (d ! page_index v)) \<longrightarrow> paging_free_user_page_frame junk s a v = Some (False, s))"
proof (intro conjI impI)
  have len: "length d = 1024" using assms by (simp add: pg_ok_def)
  then show "\<not> present_bit (flag (d ! page_index v)) \<Longrightarrow> paging_free_user_page_frame junk s a v = Some (False, s)"
    using assms(2) page_index_bound [of v] by (simp add: paging_free_user_page_frame_def)
  assume m: "user_mapping s a (page_index v) frame"
  let ?e = "d ! page_index v"
  have e: "present_bit (flag ?e)" "unat (lower_address ?e) = frame" using m assms(2) by (auto simp: user_mapping_def)
  note fr = pg_ok_mapping [OF assms(1) m]
  have lenm: "length (page_frame_map s) = 32" using assms(1) by (simp add: pg_ok_def)
  let ?fl = "junk\<lparr>present_bit := False, write_bit := False, user_bit := False, use_pagesize_4_mb := False\<rparr>"
  let ?e' = "?e\<lparr>flag := ?fl, lower_address := 0\<rparr>"
  let ?s = "s\<lparr>page_frame_map := (page_frame_map s)[frame := False], page_dirs := (page_dirs s)(a \<mapsto> d[page_index v := ?e']),
     free_page_frame_count := free_page_frame_count s + 1\<rparr>"
  have run: "paging_free_user_page_frame junk s a v = Some (True, ?s)"
    using assms(2) len e fr lenm page_index_bound [of v]
    by (simp add: paging_free_user_page_frame_def frame_of_lower_address update_entry)
  have map: "user_mapping ?s b j fr \<longleftrightarrow> user_mapping s b j fr \<and> (b, j) \<noteq> (a, page_index v)" for b j fr
    using user_mapping_update [of "s\<lparr>page_frame_map := (page_frame_map s)[frame := False]\<rparr>" a d "page_index v" ?e' b j fr] assms(2) len
      page_index_bound [of v] by auto
  have cnt: "flags.free_count ((page_frame_map s)[frame := False]) = Suc (unat (free_page_frame_count s))"
    using flags.free_count_release [of frame "page_frame_map s"] fr lenm assms(1) by (simp add: pg_ok_def)
  moreover have "flags.free_count ((page_frame_map s)[frame := False]) \<le> 32"
    unfolding flags.free_count_def using lenm card_mono [of "{..<32}" "{i. i < 32 \<and> \<not> (page_frame_map s)[frame := False] ! i}"] by auto
  ultimately have cnt': "unat (free_page_frame_count s + 1) = flags.free_count ((page_frame_map s)[frame := False])"
    using unat_add_small [of "free_page_frame_count s" 1] by simp
  have "pg_ok ?s"
    unfolding pg_ok_def map
  proof (intro conjI allI impI)
    fix b j f
    assume *: "user_mapping s b j f \<and> (b, j) \<noteq> (a, page_index v)"
    then have "f \<noteq> frame" using pg_ok_unique [OF assms(1) m, of b j] by auto
    then show "0 < f" "f < 32" "page_frame_map ?s ! f" using pg_ok_mapping [OF assms(1), of b j f] * by auto
  next
    fix b j b' j' f
    assume "(user_mapping s b j f \<and> (b, j) \<noteq> (a, page_index v)) \<and> (user_mapping s b' j' f \<and> (b', j') \<noteq> (a, page_index v))"
    then show "b = b'" "j = j'" using pg_ok_unique [OF assms(1), of b j f b' j'] by auto
  qed (use assms len cnt' fr in \<open>auto simp: pg_ok_def split: if_splits\<close>)
  then show "\<exists>s'. paging_free_user_page_frame junk s a v = Some (True, s') \<and> pg_ok s' \<and>
        free_page_frame_count s' = free_page_frame_count s + 1 \<and> \<not> page_frame_map s' ! frame \<and>
        (\<forall>b j fr. user_mapping s' b j fr \<longleftrightarrow> user_mapping s b j fr \<and> (b, j) \<noteq> (a, page_index v))"
    using run map fr lenm by (intro exI [of _ ?s]) simp
qed

section \<open>Page directories\<close>

lemma claim_flag_index: "claim_flag m = Some (i, m') \<Longrightarrow> i < length m \<and> m' = m[i := True]"
  by (auto simp: claim_flag_def first_index_Some_iff)

lemma new_directory_effect:
  assumes "pg_ok s" and "claim_flag (page_directory_used s) = Some (i, u)" and "\<not> user_bit (flag junk)"
  shows "pg_ok (snd (paging_create_new_page_directory junk pdl s))"
proof -
  let ?a = "page_directory_addr pdl i"
  let ?e = "junk\<lparr>flag := (flag junk)\<lparr>present_bit := True, write_bit := True, use_pagesize_4_mb := True\<rparr>\<rparr>"
  let ?t = "(replicate PAGE_ENTRY_COUNT zero_pde)[0x300 := ?e]"
  let ?s = "s\<lparr>page_directory_used := u, page_dirs := (page_dirs s)(?a \<mapsto> ?t)\<rparr>"
  have s: "snd (paging_create_new_page_directory junk pdl s) = ?s"
    using assms(2) by (simp add: paging_create_new_page_directory_def Let_def)
  have map: "user_mapping ?s b j frame \<longleftrightarrow> b \<noteq> ?a \<and> user_mapping s b j frame" for b j frame
    using assms(3) by (auto simp: user_mapping_def PAGE_ENTRY_COUNT_def nth_list_update zero_pde_def zero_flag_def split: if_splits)
  have "pg_ok ?s"
    unfolding pg_ok_def map
    using assms(1) claim_flag_index [OF assms(2)]
    by (simp add: pg_ok_def PAGE_ENTRY_COUNT_def) metis
  then show ?thesis by (simp only: s)
qed

text \<open>
  A new directory has no user page. Its kernel entry is right exactly when the uninitialised local happens to name the frame of the kernel.
\<close>

definition benign_entry :: "PageDirectoryEntry \<Rightarrow> bool" where
  "benign_entry junk \<longleftrightarrow> \<not> user_bit (flag junk) \<and> lower_address junk = 0 \<and> higher_address junk = 0 \<and> reserved_bits junk = 0"

lemma benign_user_bit: "benign_entry junk \<Longrightarrow> \<not> user_bit (flag junk)"
  by (simp add: benign_entry_def)

lemma new_directory_mapping:
  fixes pdl i
  defines "a \<equiv> page_directory_addr pdl i"
  assumes "claim_flag (page_directory_used s) = Some (i, u)" and "\<not> user_bit (flag junk)"
  shows "user_mapping (snd (paging_create_new_page_directory junk pdl s)) b j frame \<longleftrightarrow> b \<noteq> a \<and> user_mapping s b j frame"
    and "maps_kernel (snd (paging_create_new_page_directory junk pdl s)) b \<longleftrightarrow> (if b = a then benign_entry junk else maps_kernel s b)"
  using assms
  by (auto simp: paging_create_new_page_directory_def Let_def user_mapping_def maps_kernel_def kernel_entry_def benign_entry_def
      PAGE_ENTRY_COUNT_def nth_list_update zero_pde_def zero_flag_def split: if_splits)

lemma allocate_keeps_kernel:
  assumes "paging_allocate_user_page_frame junk s a v = Some (r, s')" and "page_index v \<noteq> 0x300"
  shows "maps_kernel s' b = maps_kernel s b"
  using assms
  by (auto simp: paging_allocate_user_page_frame_def update_page_directory_entry_def maps_kernel_def put_at_def get_at_def nth_list_update
      split: option.splits prod.splits if_splits bind_splits)

section \<open>Properties\<close>

text \<open>The state of the memory manager at boot, and after one allocation in the kernel's directory.\<close>

definition boot_pages :: page_state where
  "boot_pages = \<lparr>page_dirs = [0xC0100000 \<mapsto> paging_kernel_page_directory], page_directory_used = replicate 32 False,
     page_frame_map = initial_page_frame_map, free_page_frame_count = of_nat (PAGE_FRAME_MAX_COUNT - 1), cr3 = 0x100000\<rparr>"

lemma initial_map_nth: "i < 32 \<Longrightarrow> initial_page_frame_map ! i \<longleftrightarrow> i = 0"
  by (auto simp: initial_page_frame_map_def PAGE_FRAME_MAX_COUNT_def nth_Cons')

lemma boot_pages_ok: "pg_ok boot_pages" "page_dirs boot_pages 0xC0100000 = Some paging_kernel_page_directory"
proof -
  have "{i. i < length initial_page_frame_map \<and> \<not> initial_page_frame_map ! i} = {1..<32}"
    using initial_map_nth by (fastforce simp: initial_page_frame_map_def PAGE_FRAME_MAX_COUNT_def)
  then have "flags.free_count initial_page_frame_map = 31" by (simp add: flags.free_count_def)
  moreover have "\<not> user_mapping boot_pages a i frame" for a i frame
    by (auto simp: user_mapping_def boot_pages_def paging_kernel_page_directory_def kernel_pde_def zero_pde_def zero_flag_def
        PAGE_ENTRY_COUNT_def nth_list_update split: if_splits)
  ultimately show "pg_ok boot_pages"
    by (auto simp: pg_ok_def boot_pages_def PAGE_FRAME_MAX_COUNT_def initial_map_nth paging_kernel_page_directory_def
        PAGE_ENTRY_COUNT_def initial_page_frame_map_def split: if_splits)
  show "page_dirs boot_pages 0xC0100000 = Some paging_kernel_page_directory" by (simp add: boot_pages_def)
qed

text \<open>
  C24: allocating a page frame. It succeeds exactly when the counter is not zero; then the entry of the
  virtual address is a present, writable user mapping to a frame that no other user mapping had, the
  counter goes down by one, every other mapping stays, and the invariant is kept, so frames are never
  shared between processes.
\<close>

theorem allocate_user_page_frame:
  assumes "pg_ok s" and "page_dirs s a = Some d"
  shows "(free_page_frame_count s = 0 \<longrightarrow> paging_allocate_user_page_frame junk s a v = Some (False, s)) \<and>
    (free_page_frame_count s \<noteq> 0 \<longrightarrow>
      (\<exists>s' i. paging_allocate_user_page_frame junk s a v = Some (True, s') \<and> pg_ok s' \<and>
        free_page_frame_count s' = free_page_frame_count s - 1 \<and>
        (\<forall>b j. \<not> user_mapping s b j i) \<and>
        (\<forall>b j frame. user_mapping s' b j frame \<longleftrightarrow>
          (if b = a \<and> j = page_index v then frame = i else user_mapping s b j frame))))"
  using assms by (rule allocate_effect)

theorem allocate_user_page_frame_witness:
  "\<exists>s' i. paging_allocate_user_page_frame zero_flag boot_pages 0xC0100000 0x400000 = Some (True, s') \<and> pg_ok s' \<and>
     user_mapping s' 0xC0100000 (page_index 0x400000) i"
proof -
  have "free_page_frame_count boot_pages \<noteq> 0" by (simp add: boot_pages_def PAGE_FRAME_MAX_COUNT_def)
  then show ?thesis using allocate_user_page_frame [OF boot_pages_ok, of zero_flag "0x400000"] by auto
qed

text \<open>
  C25: freeing the frame of a user mapping. It succeeds, the frame is free again, the counter goes up by one, exactly
  that mapping is gone and the invariant is kept. An address without a present entry is refused and
  nothing changes.
\<close>

theorem free_user_page_frame:
  assumes "pg_ok s" and "page_dirs s a = Some d"
  shows "(user_mapping s a (page_index v) frame \<longrightarrow>
      (\<exists>s'. paging_free_user_page_frame junk s a v = Some (True, s') \<and> pg_ok s' \<and>
        free_page_frame_count s' = free_page_frame_count s + 1 \<and> \<not> page_frame_map s' ! frame \<and>
        (\<forall>b j fr. user_mapping s' b j fr \<longleftrightarrow> user_mapping s b j fr \<and> (b, j) \<noteq> (a, page_index v)))) \<and>
    (\<not> present_bit (flag (d ! page_index v)) \<longrightarrow> paging_free_user_page_frame junk s a v = Some (False, s))"
  using assms by (rule free_effect)

theorem free_user_page_frame_witness:
  "\<exists>s' s''. paging_allocate_user_page_frame zero_flag boot_pages 0xC0100000 0x400000 = Some (True, s') \<and>
     paging_free_user_page_frame zero_flag s' 0xC0100000 0x400000 = Some (True, s'') \<and>
     free_page_frame_count s'' = free_page_frame_count boot_pages"
proof -
  have "free_page_frame_count boot_pages \<noteq> 0" by (simp add: boot_pages_def PAGE_FRAME_MAX_COUNT_def)
  then obtain s' i where s': "paging_allocate_user_page_frame zero_flag boot_pages 0xC0100000 0x400000 = Some (True, s')"
    "pg_ok s'" "user_mapping s' 0xC0100000 (page_index 0x400000) i"
    "free_page_frame_count s' = free_page_frame_count boot_pages - 1"
    using allocate_effect [OF boot_pages_ok, of zero_flag "0x400000"] by auto
  then obtain d where "page_dirs s' 0xC0100000 = Some d" by (auto simp: user_mapping_def)
  then show ?thesis using s' free_user_page_frame [OF s'(2), of "0xC0100000" d "0x400000" i zero_flag] by auto
qed

text \<open>
  A new page directory. With a free slot the function returns the address of a directory whose only
  present entry is the one of the kernel half, and the invariant is kept when the stack garbage has
  no user bit. The frame that the kernel half is mapped to is whatever the uninitialised local held:
  the code never sets \<open>lower_address\<close> of the entry.
\<close>

theorem create_new_page_directory:
  assumes "pg_ok s" and "\<exists>i < 32. \<not> page_directory_used s ! i" and "\<not> user_bit (flag junk)"
  shows "\<exists>i s' t. paging_create_new_page_directory junk pdl s = (page_directory_addr pdl i, s') \<and>
     \<not> page_directory_used s ! i \<and> page_directory_used s' = (page_directory_used s)[i := True] \<and>
     page_dirs s' (page_directory_addr pdl i) = Some t \<and> (\<forall>j < 1024. present_bit (flag (t ! j)) \<longleftrightarrow> j = 0x300) \<and>
     lower_address (t ! 0x300) = lower_address junk \<and> pg_ok s'"
proof -
  have len: "length (page_directory_used s) = 32" using assms(1) by (simp add: pg_ok_def)
  have "claim_flag (page_directory_used s) \<noteq> None" unfolding flags.claim_None using assms(2) len by auto
  then obtain i u where c: "claim_flag (page_directory_used s) = Some (i, u)" by auto
  show ?thesis
    using c flags.claim_free [OF c] claim_flag_index [OF c] new_directory_effect [OF assms(1) c assms(3), of pdl]
    by (auto simp: paging_create_new_page_directory_def Let_def PAGE_ENTRY_COUNT_def nth_list_update zero_pde_def zero_flag_def)
qed

theorem create_new_page_directory_witness:
  "\<exists>s'. paging_create_new_page_directory (zero_pde\<lparr>lower_address := 7\<rparr>) 0xC0200000 boot_pages = (0xC0200000, s') \<and> pg_ok s' \<and>
     (\<exists>t. page_dirs s' 0xC0200000 = Some t \<and> lower_address (t ! 0x300) = 7)"
proof -
  have first: "claim_flag (page_directory_used boot_pages) = Some (0, (replicate 32 False)[0 := True])"
    by (simp add: boot_pages_def claim_flag_def numeral_eq_Suc)
  then have run: "fst (paging_create_new_page_directory (zero_pde\<lparr>lower_address := 7\<rparr>) 0xC0200000 boot_pages) = 0xC0200000"
    by (simp add: paging_create_new_page_directory_def Let_def page_directory_addr_def)
  have "\<exists>i < 32. \<not> page_directory_used boot_pages ! i" by (intro exI [of _ 0]) (simp add: boot_pages_def)
  then show ?thesis
    using create_new_page_directory [OF boot_pages_ok(1), of "zero_pde\<lparr>lower_address := 7\<rparr>" "0xC0200000"] run
    by (auto simp: zero_pde_def zero_flag_def)
qed

text \<open>
  Switching page directories. For every directory above the base of the kernel half, using it
  and asking for the current directory gives it back. At the base itself the comparison \<open>>\<close> leaves the
  virtual address in CR3, and the address read back is another one.
\<close>

theorem use_page_directory:
  "(KERNEL_VIRTUAL_ADDRESS_BASE < a \<longrightarrow>
     paging_get_current_page_directory_addr (paging_use_page_directory s a) = a \<and>
     cr3 (paging_use_page_directory s a) = a - KERNEL_VIRTUAL_ADDRESS_BASE) \<and>
   paging_get_current_page_directory_addr (paging_use_page_directory s KERNEL_VIRTUAL_ADDRESS_BASE) = 0x80000000"
  by (simp add: paging_get_current_page_directory_addr_def paging_use_page_directory_def KERNEL_VIRTUAL_ADDRESS_BASE_def)

theorem use_page_directory_witness:
  "paging_get_current_page_directory_addr (paging_use_page_directory boot_pages 0xC0200000) = 0xC0200000"
  using use_page_directory [of "0xC0200000" boot_pages] by (simp add: KERNEL_VIRTUAL_ADDRESS_BASE_def)

end
