(* ===== verification/Process.thy ===== *)
theory Process
  imports Fat32 Paging
begin

text \<open>
  The process manager of \<open>src/src/process.c\<close>. The kernel state joins the process table, the manager
  state, the memory manager, the file system driver and the page frames. What a program sees at an address is
  the content of the frame to which the page directory in CR3 maps it. Kernel code that follows a pointer
  into user memory is guarded with \<open>accessible\<close>: at an address without a user page the CPU raises a page fault, which the kernel
  does not handle, or the access goes to the kernel's own data, so the model has no result there.
  Pointers to process control blocks are indices into \<open>_process_list\<close>.
\<close>

section \<open>Constants and data\<close>

definition PROCESS_NAME_LENGTH_MAX :: nat where "PROCESS_NAME_LENGTH_MAX = 32"
definition PROCESS_PAGE_FRAME_COUNT_MAX :: u32 where "PROCESS_PAGE_FRAME_COUNT_MAX = 8"
definition PROCESS_COUNT_MAX :: nat where "PROCESS_COUNT_MAX = 16"
definition CPU_EFLAGS_BASE_FLAG :: u32 where "CPU_EFLAGS_BASE_FLAG = 0x2"
definition CPU_EFLAGS_FLAG_INTERRUPT_ENABLE :: u32 where "CPU_EFLAGS_FLAG_INTERRUPT_ENABLE = 0x200"
definition CPU_STACK :: u32 where "CPU_STACK = 0x400000 - 4"
definition USER_DATA_SEGMENT_SELECTOR :: u32 where "USER_DATA_SEGMENT_SELECTOR = 0x23"

definition PROCESS_CREATE_SUCCESS :: int where "PROCESS_CREATE_SUCCESS = 0"
definition PROCESS_CREATE_FAIL_MAX_PROCESS_EXCEEDED :: int where "PROCESS_CREATE_FAIL_MAX_PROCESS_EXCEEDED = 1"
definition PROCESS_CREATE_FAIL_INVALID_ENTRYPOINT :: int where "PROCESS_CREATE_FAIL_INVALID_ENTRYPOINT = 2"
definition PROCESS_CREATE_FAIL_NOT_ENOUGH_MEMORY :: int where "PROCESS_CREATE_FAIL_NOT_ENOUGH_MEMORY = 3"
definition PROCESS_CREATE_FAIL_FS_READ_FAILURE :: int where "PROCESS_CREATE_FAIL_FS_READ_FAILURE = 4"
definition PROCESS_CREATE_FAIL_NO_AVAILABLE_SLOT :: int where "PROCESS_CREATE_FAIL_NO_AVAILABLE_SLOT = 5"

lemmas process_codes = PROCESS_CREATE_SUCCESS_def PROCESS_CREATE_FAIL_MAX_PROCESS_EXCEEDED_def
  PROCESS_CREATE_FAIL_INVALID_ENTRYPOINT_def PROCESS_CREATE_FAIL_NOT_ENOUGH_MEMORY_def
  PROCESS_CREATE_FAIL_FS_READ_FAILURE_def PROCESS_CREATE_FAIL_NO_AVAILABLE_SLOT_def

record CPURegister =
  edi :: u32
  esi :: u32
  ebp :: u32
  esp :: u32
  ebx :: u32
  edx :: u32
  ecx :: u32
  eax :: u32
  seg_gs :: u32
  seg_fs :: u32
  seg_es :: u32
  seg_ds :: u32

record Context =
  cpu :: CPURegister
  eip :: u32
  eflags :: u32
  page_directory_virtual_addr :: u32

datatype PROCESS_STATE = NO_PROCESS | PROCESS_STATE_READY | PROCESS_STATE_RUNNING | PROCESS_STATE_BLOCKED

record ProcessControlBlock =
  pid :: u32
  proc_name :: "u8 list"
  proc_state :: PROCESS_STATE
  pcb_context :: Context
  virtual_addr_used :: "u32 list"
  page_frame_used_count :: u32

definition zero_cpu :: CPURegister where
  "zero_cpu = \<lparr>edi = 0, esi = 0, ebp = 0, esp = 0, ebx = 0, edx = 0, ecx = 0, eax = 0, seg_gs = 0, seg_fs = 0, seg_es = 0, seg_ds = 0\<rparr>"

definition zero_context :: Context where
  "zero_context = \<lparr>cpu = zero_cpu, eip = 0, eflags = 0, page_directory_virtual_addr = 0\<rparr>"

definition zero_pcb :: ProcessControlBlock where
  "zero_pcb = \<lparr>pid = 0, proc_name = replicate PROCESS_NAME_LENGTH_MAX 0, proc_state = NO_PROCESS, pcb_context = zero_context,
     virtual_addr_used = replicate 8 0, page_frame_used_count = 0\<rparr>"

text \<open>
  \<open>_process_list\<close>, \<open>process_manager_state\<close> and the components the process manager works on. \<open>memory (Some f)\<close> is the content of
  the page frame \<open>f\<close>, indexed by the virtual addresses of the page that maps it: by the invariant of the memory manager a frame is mapped by
  at most one entry of all directories. \<open>memory None\<close> stands for the addresses without a user page.
\<close>

record kernel =
  process_list :: "ProcessControlBlock list"
  process_slot_occupied :: "bool list"
  active_process_count :: int
  current_running_pid :: u32
  pages :: page_state
  fsys :: fs_state
  memory :: "nat option \<Rightarrow> mem"

section \<open>User memory\<close>

text \<open>The frame behind a virtual address in the current page directory, and the memory that the running program sees.\<close>

definition backing :: "kernel \<Rightarrow> u32 \<Rightarrow> nat option" where
  "backing k v = user_frame (pages k) (paging_get_current_page_directory_addr (pages k)) (page_index v)"

definition user_mem :: "kernel \<Rightarrow> mem" where
  "user_mem k = (\<lambda>v. memory k (backing k v) v)"

definition set_user_mem :: "mem \<Rightarrow> kernel \<Rightarrow> kernel" where
  "set_user_mem m k = k\<lparr>memory := (\<lambda>f v. if backing k v = f then m v else memory k f v)\<rparr>"

text \<open>A range of addresses that all have a user page.\<close>

definition accessible :: "kernel \<Rightarrow> u32 \<Rightarrow> nat \<Rightarrow> bool" where
  "accessible k p n \<longleftrightarrow> list_all (\<lambda>i. backing k (p + of_nat i) \<noteq> None) [0..<n]"

lemma backing_update [simp]: "backing (memory_update g k) = backing k" "backing (fsys_update g' k) = backing k" "backing (process_list_update h k) = backing k"
  by (simp_all add: backing_def fun_eq_iff)

lemma user_mem_simps [simp]:
  "user_mem (set_user_mem m k) = m" "backing (set_user_mem m k) = backing k" "pages (set_user_mem m k) = pages k" "fsys (set_user_mem m k) = fsys k"
  "process_list (set_user_mem m k) = process_list k" "process_slot_occupied (set_user_mem m k) = process_slot_occupied k"
  "current_running_pid (set_user_mem m k) = current_running_pid k" "active_process_count (set_user_mem m k) = active_process_count k"
  by (simp_all add: user_mem_def set_user_mem_def backing_def fun_eq_iff)

lemma accessible_cong [simp]: "accessible (set_user_mem m k) = accessible k" "accessible (k\<lparr>fsys := f\<rparr>) = accessible k"
  by (simp_all add: accessible_def fun_eq_iff)

lemma set_user_mem_simps [simp]:
  "user_mem (k\<lparr>fsys := f\<rparr>) = user_mem k" "set_user_mem m (k\<lparr>fsys := f\<rparr>) = (set_user_mem m k)\<lparr>fsys := f\<rparr>"
  "set_user_mem m (set_user_mem m' k) = set_user_mem m k" "set_user_mem (user_mem k) k = k"
  by (auto simp: user_mem_def set_user_mem_def fun_eq_iff cong: if_cong intro!: kernel.equality)

lemma memory_set_user_mem: "memory (set_user_mem m k) f v = (if backing k v = f then m v else memory k f v)"
  by (simp add: set_user_mem_def)

section \<open>Operations\<close>

definition ceil_div :: "u32 \<Rightarrow> u32 \<Rightarrow> u32" where
  "ceil_div numerator denominator = (numerator + denominator - 1) div denominator"

definition process_list_get_inactive_index :: "kernel \<Rightarrow> int" where
  "process_list_get_inactive_index k =
     (case first_index (\<lambda>p. pid p = 0) (process_list k) of Some i \<Rightarrow> int i | None \<Rightarrow> - 1)"

text \<open>The result is the index of the control block; None is \<open>NULL\<close>.\<close>

definition process_get_current_running_pcb_pointer :: "kernel \<Rightarrow> nat option" where
  "process_get_current_running_pcb_pointer k =
     first_index (\<lambda>i. process_slot_occupied k ! i \<and> pid (process_list k ! i) = current_running_pid k) [0..<PROCESS_COUNT_MAX]"

definition process_destroy :: "kernel \<Rightarrow> u32 \<Rightarrow> bool \<times> kernel" where
  "process_destroy k p =
     (case first_index (\<lambda>b. pid b = p) (process_list k) of
        None \<Rightarrow> (False, k)
      | Some i \<Rightarrow> (True, k\<lparr>process_list := (process_list k)[i := zero_pcb],
                         process_slot_occupied := (process_slot_occupied k)[i := False],
                         active_process_count := active_process_count k - 1\<rparr>))"

definition process_initialize_context :: "ProcessControlBlock \<Rightarrow> u32 \<Rightarrow> ProcessControlBlock" where
  "process_initialize_context pcb entry_point =
     pcb\<lparr>pcb_context := zero_context\<lparr>eip := entry_point,
       cpu := zero_cpu\<lparr>seg_gs := USER_DATA_SEGMENT_SELECTOR, seg_fs := USER_DATA_SEGMENT_SELECTOR,
         seg_es := USER_DATA_SEGMENT_SELECTOR, seg_ds := USER_DATA_SEGMENT_SELECTOR, ebp := CPU_STACK, esp := CPU_STACK\<rparr>,
       eflags := CPU_EFLAGS_BASE_FLAG OR CPU_EFLAGS_FLAG_INTERRUPT_ENABLE\<rparr>\<rparr>"

text \<open>
  \<open>read(request)\<close> in the current address space. The driver stores whole clusters, as many as \<open>read\<close> counts, at \<open>request.buf\<close>, in the memory
  seen through CR3.
\<close>

definition read_extent :: "fs_state \<Rightarrow> FAT32DriverRequest \<Rightarrow> nat" where
  "read_extent s request =
     (case do { s \<leftarrow> load_dir s (r_parent_cluster_number request);
                idx \<leftarrow> search_from (\<lambda>e. same_file e request) 0 (dir_table_buf s);
                get_at (dir_table_buf s) idx } of
        None \<Rightarrow> 0
      | Some e \<Rightarrow>
          if e_attribute e = 1 \<or> r_buffer_size request = 0 then 0
          else let cluster_count = e_filesize e div of_nat CLUSTER_SIZE + 1 in
            if cluster_count * of_nat CLUSTER_SIZE < e_filesize e then 0 else unat cluster_count * CLUSTER_SIZE)"

definition kernel_read :: "kernel \<Rightarrow> FAT32DriverRequest \<Rightarrow> (int \<times> kernel) option" where
  "kernel_read k request =
     (if accessible k (r_buf request) (read_extent (fsys k) request) then
        do { (retcode, f) \<leftarrow> read ((fsys k)\<lparr>ram := user_mem k\<rparr>) request;
             Some (retcode, set_user_mem (ram f) (k\<lparr>fsys := f\<rparr>)) }
      else None)"

text \<open>
  Entering a page directory while the kernel runs: without its own mapping in the directory the kernel cannot execute another instruction.
\<close>

definition enter_directory :: "kernel \<Rightarrow> u32 \<Rightarrow> kernel option" where
  "enter_directory k page_dir =
     (if maps_kernel (pages k) page_dir then Some (k\<lparr>pages := paging_use_page_directory (pages k) page_dir\<rparr>) else None)"

text \<open>
  \<open>strncpy(metadata.name, request.name, 31)\<close>: the source is the 8-byte array in the request, followed
  in the struct by \<open>ext\<close>, \<open>parent_cluster_number\<close> and \<open>buffer_size\<close>. A source without a NUL in these
  bytes is read beyond the struct and has no defined result.
\<close>

definition request_name_bytes :: "FAT32DriverRequest \<Rightarrow> u8 list" where
  "request_name_bytes r = r_name r @ r_ext r @ le32 (r_parent_cluster_number r) @ le32 (r_buffer_size r)"

fun strncpy_array :: "nat \<Rightarrow> u8 list \<Rightarrow> u8 list option" where
  "strncpy_array 0 src = Some []"
| "strncpy_array (Suc n) [] = None"
| "strncpy_array (Suc n) (c # src) = (if c = 0 then Some (replicate (Suc n) 0) else map_option ((#) c) (strncpy_array n src))"

text \<open>
  \<open>process_create_user_process\<close>. \<open>pdl\<close> is the address of \<open>page_directory_list\<close>, and \<open>junkE\<close>, \<open>junkF\<close> are the
  uninitialised locals of the paging functions. Every \<open>goto exit_cleanup\<close> is a branch that returns.
\<close>

definition process_create_user_process ::
  "PageDirectoryEntry \<Rightarrow> PageDirectoryEntryFlag \<Rightarrow> u32 \<Rightarrow> kernel \<Rightarrow> FAT32DriverRequest \<Rightarrow> (int \<times> kernel) option" where
  "process_create_user_process junkE junkF pdl k request =
     (if active_process_count k \<ge> int PROCESS_COUNT_MAX then Some (PROCESS_CREATE_FAIL_MAX_PROCESS_EXCEEDED, k)
      else if r_buf request \<ge> KERNEL_VIRTUAL_ADDRESS_BASE then Some (PROCESS_CREATE_FAIL_INVALID_ENTRYPOINT, k)
      else let page_frame_count_needed = ceil_div (r_buffer_size request + PAGE_FRAME_SIZE) PAGE_FRAME_SIZE in
        if \<not> paging_allocate_check (pages k) page_frame_count_needed \<or> page_frame_count_needed > PROCESS_PAGE_FRAME_COUNT_MAX
        then Some (PROCESS_CREATE_FAIL_NOT_ENOUGH_MEMORY, k)
        else let p_index = process_list_get_inactive_index k in
          if p_index = - 1 then Some (PROCESS_CREATE_FAIL_NO_AVAILABLE_SLOT, k)
          else do {
            old_pcb \<leftarrow> get_at (process_list k) (nat p_index);
            name \<leftarrow> strncpy_array (PROCESS_NAME_LENGTH_MAX - 1) (request_name_bytes request);
            new_pcb \<leftarrow> Some (old_pcb\<lparr>pid := current_running_pid k, proc_name := name @ [0], proc_state := PROCESS_STATE_READY\<rparr>);
            k \<leftarrow> Some (k\<lparr>process_list := (process_list k)[nat p_index := new_pcb]\<rparr>);
            (page_dir, pg) \<leftarrow> Some (paging_create_new_page_directory junkE pdl (pages k));
            k \<leftarrow> Some (k\<lparr>pages := pg\<rparr>);
            if page_dir = 0 then Some (PROCESS_CREATE_FAIL_NOT_ENOUGH_MEMORY, k)
            else do {
              old_page_dir \<leftarrow> Some (paging_get_current_page_directory_addr (pages k));
              k \<leftarrow> enter_directory k page_dir;
              (_, pg) \<leftarrow> paging_allocate_user_page_frame junkF (pages k) page_dir (r_buf request);
              k \<leftarrow> Some (k\<lparr>pages := pg\<rparr>);
              (retcode, k) \<leftarrow> kernel_read k request;
              if retcode \<noteq> PROCESS_CREATE_SUCCESS then Some (retcode, k)
              else do {
                k \<leftarrow> Some (k\<lparr>pages := paging_use_page_directory (pages k) old_page_dir,
                             current_running_pid := current_running_pid k + 1\<rparr>);
                new_pcb \<leftarrow> Some (process_initialize_context new_pcb (r_buf request));
                new_pcb \<leftarrow> Some (new_pcb\<lparr>pcb_context := (pcb_context new_pcb)\<lparr>page_directory_virtual_addr := page_dir\<rparr>\<rparr>);
                occ \<leftarrow> put_at (process_slot_occupied k) (nat p_index) True;
                Some (retcode, k\<lparr>process_list := (process_list k)[nat p_index := new_pcb], process_slot_occupied := occ,
                  active_process_count := active_process_count k + 1\<rparr>) } } })"

definition process_allocate_virtual_memory ::
  "PageDirectoryEntryFlag \<Rightarrow> kernel \<Rightarrow> nat \<Rightarrow> u32 \<Rightarrow> (bool \<times> kernel) option" where
  "process_allocate_virtual_memory junkF k pcb virtual_addr =
     do { page_dir \<leftarrow> Some (paging_get_current_page_directory_addr (pages k));
          (allocation_success, pg) \<leftarrow> paging_allocate_user_page_frame junkF (pages k) page_dir virtual_addr;
          k \<leftarrow> Some (k\<lparr>pages := pg\<rparr>);
          if allocation_success then
            do { b \<leftarrow> get_at (process_list k) pcb;
                 Some (True, k\<lparr>process_list := (process_list k)[pcb := b\<lparr>pcb_context := (pcb_context b)\<lparr>page_directory_virtual_addr := page_dir\<rparr>\<rparr>]\<rparr>) }
          else Some (False, k) }"

definition process_load_executable :: "kernel \<Rightarrow> nat \<Rightarrow> FAT32DriverRequest \<Rightarrow> (int \<times> kernel) option" where
  "process_load_executable k pcb request =
     do { b \<leftarrow> get_at (process_list k) pcb;
          old_page_dir \<leftarrow> Some (paging_get_current_page_directory_addr (pages k));
          k \<leftarrow> enter_directory k (page_directory_virtual_addr (pcb_context b));
          (read_result, k) \<leftarrow> kernel_read k request;
          k \<leftarrow> Some (k\<lparr>pages := paging_use_page_directory (pages k) old_page_dir\<rparr>);
          if read_result < 0 then Some (PROCESS_CREATE_FAIL_FS_READ_FAILURE, snd (process_destroy k (pid b)))
          else Some (PROCESS_CREATE_SUCCESS, k) }"

section \<open>Creating a process\<close>

text \<open>What must hold for a creation to get past the checks and reach the call of \<open>read\<close>.\<close>

definition create_ready :: "kernel \<Rightarrow> u32 \<Rightarrow> FAT32DriverRequest \<Rightarrow> nat \<Rightarrow> nat \<Rightarrow> u8 list \<Rightarrow> bool" where
  "create_ready k pdl request i j name \<longleftrightarrow> pg_ok (pages k) \<and> active_process_count k < 16 \<and>
     r_buf request < KERNEL_VIRTUAL_ADDRESS_BASE \<and>
     0 < ceil_div (r_buffer_size request + PAGE_FRAME_SIZE) PAGE_FRAME_SIZE \<and>
     ceil_div (r_buffer_size request + PAGE_FRAME_SIZE) PAGE_FRAME_SIZE \<le> free_page_frame_count (pages k) \<and>
     ceil_div (r_buffer_size request + PAGE_FRAME_SIZE) PAGE_FRAME_SIZE \<le> 8 \<and>
     length (process_list k) = 16 \<and> length (process_slot_occupied k) = 16 \<and>
     first_index (\<lambda>p. pid p = 0) (process_list k) = Some i \<and>
     strncpy_array 31 (request_name_bytes request) = Some name \<and>
     first_index Not (page_directory_used (pages k)) = Some j \<and>
     page_directory_addr pdl j > KERNEL_VIRTUAL_ADDRESS_BASE \<and>
     paging_get_current_page_directory_addr (pages k) > KERNEL_VIRTUAL_ADDRESS_BASE"

lemma page_index_div: "page_index v = unat v div 2 ^ 22"
proof -
  have "x AND 0x3FF = take_bit 10 x" for x :: u32 by (simp add: take_bit_eq_mask mask_eq_exp_minus_1)
  then have "page_index v = take_bit 10 (unat v div 2 ^ 22)" by (simp add: page_index_def unsigned_take_bit_eq drop_bit_eq_div unat_div)
  moreover have "unat v div 2 ^ 22 < 2 ^ 10" using unat_lt_2p32 [of v] by (simp add: less_mult_imp_div_less)
  ultimately show ?thesis by (simp add: take_bit_nat_eq_self)
qed

text \<open>
  The new address space: a fresh directory, in use, whose only user page is the one of the entry point, on a frame that no other
  directory maps.
\<close>

lemma new_address_space:
  fixes pdl j
  defines "a \<equiv> page_directory_addr pdl j"
  assumes ok: "pg_ok p" and first: "first_index Not (page_directory_used p) = Some j" and junk: "\<not> user_bit (flag junkE)"
    and a: "a > KERNEL_VIRTUAL_ADDRESS_BASE" and room: "free_page_frame_count p \<noteq> 0" and v: "page_index v \<noteq> 0x300"
  obtains pg1 pg frame where "paging_create_new_page_directory junkE pdl p = (a, pg1)" "maps_kernel pg1 a \<longleftrightarrow> benign_entry junkE"
    "paging_get_current_page_directory_addr pg1 = paging_get_current_page_directory_addr p"
    "paging_allocate_user_page_frame junkF (paging_use_page_directory pg1 a) a v = Some (True, pg)"
    "pg_ok pg" "paging_get_current_page_directory_addr pg = a" "cr3 pg = a - KERNEL_VIRTUAL_ADDRESS_BASE"
    "free_page_frame_count pg = free_page_frame_count p - 1" "page_directory_used pg = (page_directory_used p)[j := True]"
    "\<And>b i. b \<noteq> a \<Longrightarrow> \<not> user_mapping p b i frame"
    "\<And>b i fr. user_mapping pg b i fr \<longleftrightarrow> (if b = a then i = page_index v \<and> fr = frame else user_mapping p b i fr)"
    "\<And>b. maps_kernel pg b \<longleftrightarrow> (if b = a then benign_entry junkE else maps_kernel p b)"
proof -
  have claim: "claim_flag (page_directory_used p) = Some (j, (page_directory_used p)[j := True])"
    using first by (simp add: claim_flag_def)
  define pg1 where "pg1 = snd (paging_create_new_page_directory junkE pdl p)"
  have new: "paging_create_new_page_directory junkE pdl p = (a, pg1)"
    using claim by (simp add: pg1_def a_def paging_create_new_page_directory_def Let_def)
  have pg1: "pg_ok pg1" "free_page_frame_count pg1 = free_page_frame_count p" "cr3 pg1 = cr3 p"
    "page_directory_used pg1 = (page_directory_used p)[j := True]" "\<exists>d. page_dirs pg1 a = Some d"
    using new_directory_effect [OF ok claim junk, of pdl] claim
    by (simp_all add: pg1_def a_def paging_create_new_page_directory_def Let_def)
  have map1: "user_mapping pg1 b i fr \<longleftrightarrow> b \<noteq> a \<and> user_mapping p b i fr" for b i fr
    unfolding pg1_def a_def by (rule new_directory_mapping(1) [OF claim junk])
  have kernel: "maps_kernel pg1 b \<longleftrightarrow> (if b = a then benign_entry junkE else maps_kernel p b)" for b
    unfolding pg1_def a_def by (rule new_directory_mapping(2) [OF claim junk])
  have use: "paging_use_page_directory pg1 a = pg1\<lparr>cr3 := a - KERNEL_VIRTUAL_ADDRESS_BASE\<rparr>" using a by (simp add: paging_use_page_directory_def)
  define pg2 where "pg2 = paging_use_page_directory pg1 a"
  have pg2: "pg_ok pg2" "free_page_frame_count pg2 = free_page_frame_count p" "cr3 pg2 = a - KERNEL_VIRTUAL_ADDRESS_BASE"
    "page_directory_used pg2 = (page_directory_used p)[j := True]" and map2: "user_mapping pg2 = user_mapping pg1"
    using pg1 by (simp_all add: pg2_def use pg_ok_def)
  obtain d where d: "page_dirs pg2 a = Some d" using pg1(5) by (auto simp: pg2_def use)
  obtain pg frame where pg: "paging_allocate_user_page_frame junkF pg2 a v = Some (True, pg)" "pg_ok pg"
    "free_page_frame_count pg = free_page_frame_count p - 1" "\<And>b i. \<not> user_mapping pg2 b i frame"
    "\<And>b i fr. user_mapping pg b i fr \<longleftrightarrow> (if b = a \<and> i = page_index v then fr = frame else user_mapping pg2 b i fr)"
    using allocate_effect [OF pg2(1) d, of junkF v] pg2(2) room by auto
  have same: "cr3 pg = cr3 pg2" "page_directory_used pg = page_directory_used pg2"
    using pg(1) by (auto simp: paging_allocate_user_page_frame_def update_page_directory_entry_def put_at_def
        split: option.splits prod.splits if_splits bind_splits)
  show thesis
  proof (rule that [OF new _ _ pg(1) [unfolded pg2_def] pg(2) _ _ pg(3)])
    show "maps_kernel pg1 a \<longleftrightarrow> benign_entry junkE" using kernel [of a] by simp
    show "maps_kernel pg b \<longleftrightarrow> (if b = a then benign_entry junkE else maps_kernel p b)" for b
      using allocate_keeps_kernel [OF pg(1) v, of b] kernel [of b] by (simp add: pg2_def use)
    show "paging_get_current_page_directory_addr pg1 = paging_get_current_page_directory_addr p"
      "paging_get_current_page_directory_addr pg = a"
      using pg1(3) same(1) pg2(3) by (simp_all add: paging_get_current_page_directory_addr_def)
    show "cr3 pg = a - KERNEL_VIRTUAL_ADDRESS_BASE" "page_directory_used pg = (page_directory_used p)[j := True]"
      using same pg2 by simp_all
    show "\<not> user_mapping p b i frame" if "b \<noteq> a" for b i using pg(4) [of b i] that by (simp add: map2 map1)
    show "user_mapping pg b i fr \<longleftrightarrow> (if b = a then i = page_index v \<and> fr = frame else user_mapping p b i fr)" for b i fr
      using pg(5) [of b i fr] by (auto simp: map2 map1)
  qed
qed

text \<open>The state in which \<open>read\<close> is called, with the block \<open>b\<close> in the table, and the block of the process when it is complete.\<close>

definition claimed_pcb :: "kernel \<Rightarrow> nat \<Rightarrow> u8 list \<Rightarrow> ProcessControlBlock" where
  "claimed_pcb k i name =
     (process_list k ! i)\<lparr>pid := current_running_pid k, proc_name := name @ [0], proc_state := PROCESS_STATE_READY\<rparr>"

definition created_pcb :: "kernel \<Rightarrow> nat \<Rightarrow> u8 list \<Rightarrow> u32 \<Rightarrow> u32 \<Rightarrow> ProcessControlBlock" where
  "created_pcb k i name entry a = (let b = process_initialize_context (claimed_pcb k i name) entry
     in b\<lparr>pcb_context := (pcb_context b)\<lparr>page_directory_virtual_addr := a\<rparr>\<rparr>)"

lemma create_until_read:
  fixes pdl j
  defines "a \<equiv> page_directory_addr pdl j"
  assumes ready: "create_ready k pdl request i j name" and junk: "\<not> user_bit (flag junkE)"
  obtains pg frame where "pg_ok pg" "paging_get_current_page_directory_addr pg = a" "cr3 pg = a - KERNEL_VIRTUAL_ADDRESS_BASE"
    "free_page_frame_count pg = free_page_frame_count (pages k) - 1" "page_directory_used pg = (page_directory_used (pages k))[j := True]"
    "\<And>b i. b \<noteq> a \<Longrightarrow> \<not> user_mapping (pages k) b i frame"
    "\<And>b i fr. user_mapping pg b i fr \<longleftrightarrow> (if b = a then i = page_index (r_buf request) \<and> fr = frame else user_mapping (pages k) b i fr)"
    "\<And>b. maps_kernel pg b \<longleftrightarrow> (if b = a then benign_entry junkE else maps_kernel (pages k) b)"
    "process_create_user_process junkE junkF pdl k request =
       (if benign_entry junkE then
          do { (retcode, k') \<leftarrow> kernel_read (k\<lparr>process_list := (process_list k)[i := claimed_pcb k i name], pages := pg\<rparr>) request;
               if retcode \<noteq> 0 then Some (retcode, k')
               else do { occ \<leftarrow> put_at (process_slot_occupied k') i True;
                 Some (retcode, k'\<lparr>pages := paging_use_page_directory (pages k') (paging_get_current_page_directory_addr (pages k)),
                   current_running_pid := current_running_pid k' + 1, process_list := (process_list k')[i := created_pcb k i name (r_buf request) a],
                   process_slot_occupied := occ, active_process_count := active_process_count k' + 1\<rparr>) } }
        else None)"
proof -
  note r = ready [unfolded create_ready_def]
  have room: "free_page_frame_count (pages k) \<noteq> 0" using r by (metis leD word_le_0_iff)
  have "r_buf request < 0xC0000000" using r by (simp add: KERNEL_VIRTUAL_ADDRESS_BASE_def)
  then have "unat (r_buf request) div 2 ^ 22 < 0x300" by (simp add: word_less_nat_alt less_mult_imp_div_less)
  then have user: "page_index (r_buf request) \<noteq> 0x300" by (simp add: page_index_div)
  have dir: "pg_ok (pages k)" "first_index Not (page_directory_used (pages k)) = Some j" "page_directory_addr pdl j > KERNEL_VIRTUAL_ADDRESS_BASE"
    using r by blast+
  obtain pg1 pg frame where new: "paging_create_new_page_directory junkE pdl (pages k) = (a, pg1)" "maps_kernel pg1 a \<longleftrightarrow> benign_entry junkE"
    "paging_get_current_page_directory_addr pg1 = paging_get_current_page_directory_addr (pages k)"
    "paging_allocate_user_page_frame junkF (paging_use_page_directory pg1 a) a (r_buf request) = Some (True, pg)"
    and pg: "pg_ok pg" "paging_get_current_page_directory_addr pg = a" "cr3 pg = a - KERNEL_VIRTUAL_ADDRESS_BASE"
    "free_page_frame_count pg = free_page_frame_count (pages k) - 1" "page_directory_used pg = (page_directory_used (pages k))[j := True]"
    "\<And>b i. b \<noteq> a \<Longrightarrow> \<not> user_mapping (pages k) b i frame"
    "\<And>b i fr. user_mapping pg b i fr \<longleftrightarrow> (if b = a then i = page_index (r_buf request) \<and> fr = frame else user_mapping (pages k) b i fr)"
    "\<And>b. maps_kernel pg b \<longleftrightarrow> (if b = a then benign_entry junkE else maps_kernel (pages k) b)"
    using new_address_space [OF dir(1,2) junk dir(3) room user, of junkF, folded a_def] by blast
  have first: "first_index (\<lambda>p. pid p = 0) (process_list k) = Some i" using r by blast
  then have i: "process_list_get_inactive_index k = int i" "i < 16"
    using r first_index_SomeD(1) [OF first] by (simp_all add: process_list_get_inactive_index_def)
  have ne: "a \<noteq> 0" using dir(3) by (auto simp: a_def KERNEL_VIRTUAL_ADDRESS_BASE_def)
  have checks: "\<not> int PROCESS_COUNT_MAX \<le> active_process_count k" "\<not> KERNEL_VIRTUAL_ADDRESS_BASE \<le> r_buf request"
    "paging_allocate_check (pages k) (ceil_div (r_buffer_size request + PAGE_FRAME_SIZE) PAGE_FRAME_SIZE)"
    "\<not> PROCESS_PAGE_FRAME_COUNT_MAX < ceil_div (r_buffer_size request + PAGE_FRAME_SIZE) PAGE_FRAME_SIZE"
    "strncpy_array (PROCESS_NAME_LENGTH_MAX - 1) (request_name_bytes request) = Some name"
    using r by (simp_all add: PROCESS_COUNT_MAX_def paging_allocate_check_def PROCESS_PAGE_FRAME_COUNT_MAX_def
        PROCESS_NAME_LENGTH_MAX_def not_le not_less)
  show thesis
    by (rule that [OF pg])
      (use checks i ne new r in \<open>simp_all add: process_create_user_process_def enter_directory_def Let_def PROCESS_CREATE_SUCCESS_def
         claimed_pcb_def created_pcb_def cong: if_cong\<close>)
qed

end
