(* ===== verification/Scheduler.thy ===== *)
theory Scheduler
  imports Process Portio
begin

text \<open>
  The round-robin scheduler (\<open>src/src/scheduler.c\<close>). \<open>scheduler_switch_to_next_process\<close> does not return in
  C; its result here is the context that \<open>process_context_switch\<close> loads into the CPU, with the
  kernel state left behind. The search loop has no exit without an occupied slot, so it is a partial
  function: \<^const>\<open>None\<close> is the endless loop.
\<close>

section \<open>Definitions\<close>

definition NO_PROCESS_RUNNING :: u32 where "NO_PROCESS_RUNNING = 0xFFFFFFFF"
definition PIC1_DATA :: u16 where "PIC1_DATA = 0x20 + 1"
definition IRQ_TIMER :: nat where "IRQ_TIMER = 0"
definition PIT_MAX_FREQUENCY :: u32 where "PIT_MAX_FREQUENCY = 1193182"
definition PIT_TIMER_FREQUENCY :: u32 where "PIT_TIMER_FREQUENCY = 1000"
definition PIT_TIMER_COUNTER :: u32 where "PIT_TIMER_COUNTER = PIT_MAX_FREQUENCY div PIT_TIMER_FREQUENCY"
definition PIT_COMMAND_REGISTER_PIO :: u16 where "PIT_COMMAND_REGISTER_PIO = 0x43"
definition PIT_COMMAND_VALUE :: u8 where
  "PIT_COMMAND_VALUE = 0 OR push_bit 1 3 OR push_bit 4 3 OR push_bit 6 0"
definition PIT_CHANNEL_0_DATA_PIO :: u16 where "PIT_CHANNEL_0_DATA_PIO = 0x40"

lemmas pit_consts = PIC1_DATA_def IRQ_TIMER_def PIT_MAX_FREQUENCY_def PIT_TIMER_FREQUENCY_def PIT_TIMER_COUNTER_def
  PIT_COMMAND_REGISTER_PIO_def PIT_COMMAND_VALUE_def PIT_CHANNEL_0_DATA_PIO_def

definition activate_timer_interrupt :: "'d bus \<Rightarrow> 'd io \<Rightarrow> 'd io" where
  "activate_timer_interrupt bus io =
     (let io = cli io;
          pit_timer_counter_to_fire = PIT_TIMER_COUNTER;
          io = out bus PIT_COMMAND_REGISTER_PIO PIT_COMMAND_VALUE io;
          io = out bus PIT_CHANNEL_0_DATA_PIO (ucast (pit_timer_counter_to_fire AND 0xFF)) io;
          io = out bus PIT_CHANNEL_0_DATA_PIO (ucast (drop_bit 8 pit_timer_counter_to_fire AND 0xFF)) io;
          (mask, io) = in8 bus PIC1_DATA io
      in out bus PIC1_DATA (mask AND NOT (push_bit IRQ_TIMER 1)) io)"

definition scheduler_init :: "'d bus \<Rightarrow> 'd io \<Rightarrow> 'd io" where
  "scheduler_init bus io = activate_timer_interrupt bus io"

definition scheduler_save_context_to_current_running_pcb :: "kernel \<Rightarrow> Context \<Rightarrow> kernel" where
  "scheduler_save_context_to_current_running_pcb k ctx =
     (case process_get_current_running_pcb_pointer k of
        None \<Rightarrow> k
      | Some i \<Rightarrow> let pcb = process_list k ! i in
          k\<lparr>process_list := (process_list k)[i := pcb\<lparr>proc_state := PROCESS_STATE_READY,
              pcb_context := (pcb_context pcb)\<lparr>eip := eip ctx, eflags := eflags ctx, cpu := cpu ctx\<rparr>\<rparr>]\<rparr>)"

partial_function (option) next_occupied :: "bool list \<Rightarrow> u32 \<Rightarrow> u32 option" where
  "next_occupied occ current_process_index =
     (let current_process_index = (current_process_index + 1) mod of_nat PROCESS_COUNT_MAX in
      if occ ! unat current_process_index then Some current_process_index
      else next_occupied occ current_process_index)"

definition scheduler_switch_to_next_process :: "kernel \<Rightarrow> (Context \<times> kernel) option" where
  "scheduler_switch_to_next_process k =
     (let current_process_index = (if current_running_pid k = NO_PROCESS_RUNNING then 0 else current_running_pid k) in
      do { i \<leftarrow> next_occupied (process_slot_occupied k) current_process_index;
           pcb \<leftarrow> get_at (process_list k) (unat i);
           k \<leftarrow> Some (k\<lparr>process_list := (process_list k)[unat i := pcb\<lparr>proc_state := PROCESS_STATE_RUNNING\<rparr>], current_running_pid := i\<rparr>);
           Some (pcb_context pcb, k\<lparr>pages := paging_use_page_directory (pages k) (page_directory_virtual_addr (pcb_context pcb))\<rparr>) })"

section \<open>Round robin as an interface\<close>

text \<open>How many steps forward from \<open>c\<close> on a ring of \<open>n\<close> places reach \<open>p\<close>; a full round leads back to \<open>c\<close>.\<close>

definition ring_distance :: "nat \<Rightarrow> nat \<Rightarrow> nat \<Rightarrow> nat" where
  "ring_distance n c p = (if c < p then p - c else p + n - c)"

lemma ring_distance_bounds: "c < n \<Longrightarrow> p < n \<Longrightarrow> 0 < ring_distance n c p \<and> ring_distance n c p \<le> n"
  by (auto simp: ring_distance_def)

lemma ring_distance_self: "ring_distance n c c = n"
  by (simp add: ring_distance_def)

lemma ring_distance_inj:
  "c < n \<Longrightarrow> p < n \<Longrightarrow> q < n \<Longrightarrow> ring_distance n c p = ring_distance n c q \<Longrightarrow> p = q"
  by (auto simp: ring_distance_def split: if_splits)

lemma ring_distance_add:
  "c < n \<Longrightarrow> q < n \<Longrightarrow> p < n \<Longrightarrow> ring_distance n c q < ring_distance n c p \<Longrightarrow>
     ring_distance n c p = ring_distance n c q + ring_distance n q p"
  by (auto simp: ring_distance_def split: if_splits)

lemma ring_distance_add':
  "c < n \<Longrightarrow> q < n \<Longrightarrow> x < n \<Longrightarrow> ring_distance n c q + ring_distance n q x \<le> n \<Longrightarrow>
     ring_distance n c x = ring_distance n c q + ring_distance n q x"
  by (auto simp: ring_distance_def split: if_splits)

lemma ring_distance_Suc: "c < n \<Longrightarrow> ring_distance n c (Suc c mod n) = 1"
  by (cases "Suc c = n") (auto simp: ring_distance_def)

text \<open>Repeating an operation that may have no result.\<close>

fun iterate :: "('s \<Rightarrow> 's option) \<Rightarrow> nat \<Rightarrow> 's \<Rightarrow> 's option" where
  "iterate f 0 s = Some s"
| "iterate f (Suc n) s = Option.bind (f s) (iterate f n)"

text \<open>
  What a client relies on: a switch picks the occupied place that comes first on the ring after the
  current one. It follows that no occupied place waits longer than the number of occupied places.
\<close>

locale round_robin =
  fixes places :: nat and ok :: "'s \<Rightarrow> bool" and occupied :: "'s \<Rightarrow> nat \<Rightarrow> bool" and current :: "'s \<Rightarrow> nat"
    and switch :: "'s \<Rightarrow> 's option"
  assumes current_bound: "ok s \<Longrightarrow> current s < places"
    and switch_returns: "ok s \<Longrightarrow> p < places \<Longrightarrow> occupied s p \<Longrightarrow> \<exists>s'. switch s = Some s'"
    and switch_keeps: "ok s \<Longrightarrow> switch s = Some s' \<Longrightarrow> ok s' \<and> occupied s' = occupied s"
    and switch_occupied: "ok s \<Longrightarrow> switch s = Some s' \<Longrightarrow> occupied s (current s')"
    and switch_first: "ok s \<Longrightarrow> switch s = Some s' \<Longrightarrow> p < places \<Longrightarrow> occupied s p \<Longrightarrow>
      ring_distance places (current s) (current s') \<le> ring_distance places (current s) p"
begin

lemma waiting_bound:
  assumes "ok s" and "p < places" and "occupied s p"
    and "n = card {q. q < places \<and> occupied s q \<and> ring_distance places (current s) q \<le> ring_distance places (current s) p}"
  shows "\<exists>m s'. 0 < m \<and> m \<le> n \<and> iterate switch m s = Some s' \<and> current s' = p"
  using assms
proof (induction n arbitrary: s rule: less_induct)
  case (less n)
  let ?d = "ring_distance places"
  let ?A = "\<lambda>s. {q. q < places \<and> occupied s q \<and> ?d (current s) q \<le> ?d (current s) p}"
  have fin: "finite (?A s)" for s by simp
  obtain s' where s': "switch s = Some s'" using switch_returns less.prems by blast
  note keep = switch_keeps [OF less.prems(1) s'] and occ = switch_occupied [OF less.prems(1) s']
  have c: "current s < places" "current s' < places" using current_bound less.prems(1) keep by blast+
  have first: "?d (current s) (current s') \<le> ?d (current s) p" using switch_first less.prems s' by blast
  then have mem: "current s' \<in> ?A s" using c occ by simp
  have pos: "0 < n" unfolding less.prems(4) card_gt_0_iff using mem fin by blast
  show ?case
  proof (cases "current s' = p")
    case True
    then show ?thesis using s' pos by (intro exI [of _ 1] exI [of _ s']) simp
  next
    case False
    then have lt: "?d (current s) (current s') < ?d (current s) p"
      using first ring_distance_inj [OF c(1,2) less.prems(2)] by fastforce
    note sum = ring_distance_add [OF c less.prems(2) lt]
    have sub: "?A s' \<subseteq> ?A s - {current s'}"
    proof
      fix x assume x: "x \<in> ?A s'"
      have le: "?d (current s) (current s') + ?d (current s') x \<le> ?d (current s) p" using x sum by simp
      also have "\<dots> \<le> places" using ring_distance_bounds [OF c(1) less.prems(2)] by simp
      finally have "?d (current s) x = ?d (current s) (current s') + ?d (current s') x"
        using ring_distance_add' c x by blast
      moreover have "x \<noteq> current s'"
        using x sum ring_distance_bounds [OF c(1) less.prems(2)] ring_distance_bounds [OF c(1,2)]
          ring_distance_self [of places "current s'"] by auto
      ultimately show "x \<in> ?A s - {current s'}" using x le keep by simp
    qed
    have "card (?A s') \<le> card (?A s - {current s'})" using sub fin by (intro card_mono) auto
    also have "\<dots> < card (?A s)" using mem fin by (intro psubset_card_mono) auto
    finally have small: "card (?A s') < n" using less.prems(4) by simp
    have "occupied s' p" using keep less.prems(3) by simp
    from less.IH [OF small _ less.prems(2) this refl] keep obtain m t where
      "0 < m" "m \<le> card (?A s')" "iterate switch m s' = Some t" "current t = p" by blast
    then show ?thesis using small s' by (intro exI [of _ "Suc m"] exI [of _ t]) simp
  qed
qed

lemma no_starvation:
  assumes "ok s" and "p < places" and "occupied s p"
  shows "\<exists>m s'. 0 < m \<and> m \<le> card {q. q < places \<and> occupied s q} \<and> iterate switch m s = Some s' \<and> current s' = p"
proof -
  let ?B = "{q. q < places \<and> occupied s q \<and> ring_distance places (current s) q \<le> ring_distance places (current s) p}"
  have "card ?B \<le> card {q. q < places \<and> occupied s q}" by (intro card_mono) auto
  moreover obtain m s' where "0 < m" "m \<le> card ?B" "iterate switch m s = Some s'" "current s' = p"
    using waiting_bound [OF assms refl] by blast
  ultimately show ?thesis by (intro exI [of _ m] exI [of _ s']) simp
qed

end

section \<open>The search loop\<close>

lemma PROCESS_COUNT_16: "of_nat PROCESS_COUNT_MAX = (16 :: u32)"
  by (simp add: PROCESS_COUNT_MAX_def)

lemma word_minus_one_u32: "- 1 = (0xFFFFFFFF :: u32)"
  by simp

lemma next_index: "i \<noteq> NO_PROCESS_RUNNING \<Longrightarrow> unat ((i + 1) mod 16) = Suc (unat i mod 16) mod 16"
proof -
  assume "i \<noteq> NO_PROCESS_RUNNING"
  then have "1 + i \<noteq> 0" by (metis NO_PROCESS_RUNNING_def add_eq_0_iff word_minus_one_u32)
  then have "unat (i + 1) = Suc (unat i)" using unatSuc [of i] by (simp add: add.commute)
  then show ?thesis by (simp add: unat_mod mod_Suc_eq)
qed

lemma next_occupied_least:
  assumes "i \<noteq> NO_PROCESS_RUNNING" and "p < 16" and "occ ! p"
  shows "\<exists>q. next_occupied occ i = Some q \<and> q < 16 \<and> occ ! unat q \<and>
    ring_distance 16 (unat i mod 16) (unat q) \<le> ring_distance 16 (unat i mod 16) p"
  using assms
proof (induction "ring_distance 16 (unat i mod 16) p" arbitrary: i rule: less_induct)
  case less
  let ?c = "unat i mod 16" and ?i = "(i + 1) mod 16"
  have c: "?c < 16" by simp
  have nxt: "unat ?i = Suc ?c mod 16" using next_index less.prems(1) by blast
  then have i: "?i < 16" "unat ?i < 16" "?i \<noteq> NO_PROCESS_RUNNING" "unat ?i mod 16 = unat ?i"
    by (auto simp: word_less_nat_alt NO_PROCESS_RUNNING_def)
  have one: "ring_distance 16 ?c (unat ?i) = 1" using ring_distance_Suc [OF c] nxt by simp
  show ?case
  proof (cases "occ ! unat ?i")
    case True
    then show ?thesis
      using i one ring_distance_bounds [OF c less.prems(2)] by (subst next_occupied.simps) (simp add: PROCESS_COUNT_16)
  next
    case False
    then have "p \<noteq> unat ?i" using less.prems(3) by auto
    then have "ring_distance 16 ?c (unat ?i) < ring_distance 16 ?c p"
      using one ring_distance_bounds [OF c less.prems(2)] ring_distance_inj [OF c less.prems(2) i(2)] by fastforce
    from ring_distance_add [OF c i(2) less.prems(2) this] one
    have sum: "ring_distance 16 ?c p = 1 + ring_distance 16 (unat ?i) p" by simp
    then obtain q where q: "next_occupied occ ?i = Some q" "q < 16" "occ ! unat q"
      "ring_distance 16 (unat ?i) (unat q) \<le> ring_distance 16 (unat ?i) p"
      using less.hyps [of ?i] less.prems i by auto
    have "ring_distance 16 ?c (unat q) = 1 + ring_distance 16 (unat ?i) (unat q)"
      using ring_distance_add' [OF c i(2), of "unat q"] q sum one ring_distance_bounds [OF c less.prems(2)]
      by (simp add: word_less_nat_alt)
    then show ?thesis using q sum False by (subst next_occupied.simps) (simp add: PROCESS_COUNT_16)
  qed
qed

lemma next_occupied_result:
  assumes "next_occupied occ i = Some q"
  shows "q < 16 \<and> occ ! unat q"
  using assms by (rule next_occupied.raw_induct [rotated]) (auto simp: Let_def PROCESS_COUNT_16 word_mod_less_divisor split: if_splits)

section \<open>The scheduler as an instance\<close>

definition sched_wf :: "kernel \<Rightarrow> bool" where
  "sched_wf k \<longleftrightarrow> length (process_list k) = 16 \<and> length (process_slot_occupied k) = 16"

text \<open>The place the search starts from.\<close>

definition current_slot :: "kernel \<Rightarrow> nat" where
  "current_slot k = (if current_running_pid k = NO_PROCESS_RUNNING then 0 else unat (current_running_pid k) mod 16)"

lemma small_running [simp]: "q < 16 \<Longrightarrow> word_of_nat q \<noteq> NO_PROCESS_RUNNING"
  by (auto simp: NO_PROCESS_RUNNING_def dest: arg_cong [where f = unat])

lemma switch_effect:
  assumes "sched_wf k" and "p < 16" and "process_slot_occupied k ! p"
  shows "\<exists>q b. q < 16 \<and> process_slot_occupied k ! q \<and> b = process_list k ! q \<and>
    ring_distance 16 (current_slot k) q \<le> ring_distance 16 (current_slot k) p \<and>
    scheduler_switch_to_next_process k = Some (pcb_context b,
      k\<lparr>process_list := (process_list k)[q := b\<lparr>proc_state := PROCESS_STATE_RUNNING\<rparr>], current_running_pid := of_nat q,
        pages := paging_use_page_directory (pages k) (page_directory_virtual_addr (pcb_context b))\<rparr>)"
proof -
  let ?i = "if current_running_pid k = NO_PROCESS_RUNNING then 0 else current_running_pid k"
  have i: "?i \<noteq> NO_PROCESS_RUNNING" "unat ?i mod 16 = current_slot k" by (simp_all add: NO_PROCESS_RUNNING_def current_slot_def)
  from next_occupied_least [OF i(1) assms(2,3)] i(2) obtain q where
    q: "next_occupied (process_slot_occupied k) ?i = Some q" "q < 16" "process_slot_occupied k ! unat q"
      "ring_distance 16 (current_slot k) (unat q) \<le> ring_distance 16 (current_slot k) p" by auto
  have "unat q < 16" using q(2) by (simp add: word_less_nat_alt)
  then show ?thesis using q assms(1)
    by (intro exI [of _ "unat q"] exI [of _ "process_list k ! unat q"])
      (simp add: scheduler_switch_to_next_process_def Let_def sched_wf_def)
qed

lemma switch_occupied_slot:
  assumes "scheduler_switch_to_next_process k = Some r"
  shows "\<exists>p < 16. process_slot_occupied k ! p"
proof -
  obtain q where "next_occupied (process_slot_occupied k) (if current_running_pid k = NO_PROCESS_RUNNING then 0 else current_running_pid k) = Some q"
    using assms by (auto simp: scheduler_switch_to_next_process_def Let_def split: bind_splits)
  from next_occupied_result [OF this] show ?thesis by (auto simp: word_less_nat_alt intro!: exI [of _ "unat q"])
qed

interpretation sched: round_robin 16 sched_wf "\<lambda>k p. process_slot_occupied k ! p" current_slot
  "\<lambda>k. map_option snd (scheduler_switch_to_next_process k)"
proof unfold_locales
  fix k k' p
  show "current_slot k < 16" by (simp add: current_slot_def)
  assume ok: "sched_wf k"
  { assume p: "p < 16" "process_slot_occupied k ! p"
    show "\<exists>k'. map_option snd (scheduler_switch_to_next_process k) = Some k'" using switch_effect [OF ok p] by fastforce }
  assume run: "map_option snd (scheduler_switch_to_next_process k) = Some k'"
  then obtain p' where p': "p' < 16" "process_slot_occupied k ! p'" using switch_occupied_slot by fastforce
  show "sched_wf k' \<and> (!) (process_slot_occupied k') = (!) (process_slot_occupied k)" 
    and "process_slot_occupied k ! current_slot k'"
    using switch_effect [OF ok p'] run ok by (auto simp: sched_wf_def current_slot_def)
  assume p: "p < 16" "process_slot_occupied k ! p"
  show "ring_distance 16 (current_slot k) (current_slot k') \<le> ring_distance 16 (current_slot k) p"
    using switch_effect [OF ok p] run by (auto simp: current_slot_def)
qed

section \<open>Preemption\<close>

text \<open>
  The timer interrupt: the handler saves the context of the interrupted process and switches. The
  contexts of the occupied slots are compared on what is saved, the address space being fixed.
\<close>

definition timer_tick :: "kernel \<Rightarrow> Context \<Rightarrow> (Context \<times> kernel) option" where
  "timer_tick k ctx = scheduler_switch_to_next_process (scheduler_save_context_to_current_running_pcb k ctx)"

text \<open>Every occupied slot holds the process whose pid is its index, and an occupied slot is running.\<close>

definition sched_ok :: "kernel \<Rightarrow> bool" where
  "sched_ok k \<longleftrightarrow> sched_wf k \<and> (\<forall>i < 16. process_slot_occupied k ! i \<longrightarrow> pid (process_list k ! i) = of_nat i) \<and>
     unat (current_running_pid k) < 16 \<and> process_slot_occupied k ! unat (current_running_pid k)"

definition slot_context :: "kernel \<Rightarrow> nat \<Rightarrow> Context" where
  "slot_context k i = pcb_context (process_list k ! i)"

lemma current_slot_ok: "sched_ok k \<Longrightarrow> current_slot k = unat (current_running_pid k)"
  by (auto simp: sched_ok_def current_slot_def NO_PROCESS_RUNNING_def)

lemma running_pcb:
  assumes "sched_ok k"
  shows "process_get_current_running_pcb_pointer k = Some (current_slot k)"
proof -
  have c: "current_slot k < 16" using assms current_slot_ok by (simp add: sched_ok_def)
  have "of_nat i \<noteq> (current_running_pid k)" if "i < current_slot k" for i
  proof
    assume "of_nat i = current_running_pid k"
    then have "unat (of_nat i :: u32) = current_slot k" by (simp only: current_slot_ok [OF assms])
    then show False using that c by simp
  qed
  then show ?thesis
    using assms c by (auto simp: process_get_current_running_pcb_pointer_def PROCESS_COUNT_MAX_def first_index_Some_iff
        sched_ok_def current_slot_ok)
qed

lemma save_effect:
  assumes "sched_ok k"
  shows "scheduler_save_context_to_current_running_pcb k ctx =
    k\<lparr>process_list := (process_list k)[current_slot k := (process_list k ! current_slot k)\<lparr>proc_state := PROCESS_STATE_READY,
       pcb_context := (slot_context k (current_slot k))\<lparr>eip := eip ctx, eflags := eflags ctx, cpu := cpu ctx\<rparr>\<rparr>]\<rparr>"
  by (simp add: scheduler_save_context_to_current_running_pcb_def running_pcb [OF assms] slot_context_def Let_def)

lemma save_ok:
  assumes "sched_ok k"
  shows "sched_wf (scheduler_save_context_to_current_running_pcb k ctx)"
    and "current_slot (scheduler_save_context_to_current_running_pcb k ctx) = current_slot k"
    and "process_slot_occupied (scheduler_save_context_to_current_running_pcb k ctx) = process_slot_occupied k"
  using assms by (simp_all add: save_effect sched_ok_def sched_wf_def current_slot_def)

lemma tick_effect:
  assumes "sched_ok k"
  shows "\<exists>q k'. timer_tick k ctx = Some (slot_context k' q, k') \<and> sched_ok k' \<and> current_slot k' = q \<and>
     process_slot_occupied k' = process_slot_occupied k \<and>
     (\<forall>p < 16. process_slot_occupied k ! p \<longrightarrow>
       ring_distance 16 (current_slot k) q \<le> ring_distance 16 (current_slot k) p) \<and>
     proc_state (process_list k' ! q) = PROCESS_STATE_RUNNING \<and>
     (\<forall>i < 16. slot_context k' i =
       (if i = current_slot k then (slot_context k i)\<lparr>eip := eip ctx, eflags := eflags ctx, cpu := cpu ctx\<rparr>
        else slot_context k i)) \<and>
     cr3 (pages k') = cr3 (paging_use_page_directory (pages k) (page_directory_virtual_addr (slot_context k q)))"
proof -
  let ?s = "scheduler_save_context_to_current_running_pcb k ctx"
  have c: "current_slot k < 16" "process_slot_occupied k ! current_slot k"
    using assms by (simp_all add: sched_ok_def current_slot_ok)
  obtain t k' where k': "scheduler_switch_to_next_process ?s = Some (t, k')"
    using switch_effect [OF save_ok(1) [OF assms] c(1)] save_ok(3) [OF assms] c(2) by fastforce
  have run: "map_option snd (scheduler_switch_to_next_process ?s) = Some k'" using k' by simp
  obtain q where q: "q < 16" "process_slot_occupied k ! q"
    "scheduler_switch_to_next_process ?s = Some (pcb_context (process_list ?s ! q),
      ?s\<lparr>process_list := (process_list ?s)[q := (process_list ?s ! q)\<lparr>proc_state := PROCESS_STATE_RUNNING\<rparr>], current_running_pid := of_nat q,
        pages := paging_use_page_directory (pages ?s) (page_directory_virtual_addr (pcb_context (process_list ?s ! q)))\<rparr>)"
    using switch_effect [OF save_ok(1) [OF assms] c(1)] save_ok(3) [OF assms] c(2) by fastforce
  have cur: "current_slot k' = q" using q k' by (simp add: current_slot_def)
  have len: "length (process_list k) = 16" "length (process_slot_occupied k) = 16" using assms by (auto simp: sched_ok_def sched_wf_def)
  have ok: "sched_ok k'" using k' q assms c len
    by (auto simp: sched_ok_def sched_wf_def save_effect nth_list_update)
  have first: "ring_distance 16 (current_slot k) q \<le> ring_distance 16 (current_slot k) p" if "p < 16" "process_slot_occupied k ! p" for p
    using sched.switch_first [OF save_ok(1) [OF assms] run that(1)] that(2) cur save_ok(2,3) [OF assms] by simp
  have ctxs: "slot_context k' i = (if i = current_slot k then (slot_context k i)\<lparr>eip := eip ctx, eflags := eflags ctx, cpu := cpu ctx\<rparr>
        else slot_context k i)" if "i < 16" for i
    using k' q assms len that c by (auto simp: save_effect slot_context_def nth_list_update)
  have t: "t = slot_context k' q" and st: "proc_state (process_list k' ! q) = PROCESS_STATE_RUNNING"
    and occ: "process_slot_occupied k' = process_slot_occupied k"
    and cr3: "cr3 (pages k') = cr3 (paging_use_page_directory (pages k) (page_directory_virtual_addr (slot_context k q)))"
    using k' q assms len c by (auto simp: save_effect slot_context_def nth_list_update)
  show ?thesis
    using k' t st occ cr3 ok cur first ctxs by (intro exI [of _ q] exI [of _ k']) (simp add: timer_tick_def)
qed

text \<open>A run of timer interrupts, with the contexts the processes had when they were interrupted.\<close>

fun ticks :: "kernel \<Rightarrow> Context list \<Rightarrow> kernel option" where
  "ticks k [] = Some k"
| "ticks k (ctx # ctxs) = Option.bind (timer_tick k ctx) (\<lambda>(_, k'). ticks k' ctxs)"

text \<open>Whether a slot is the current one at some point before the end of a run.\<close>

fun runs_during :: "nat \<Rightarrow> kernel \<Rightarrow> Context list \<Rightarrow> bool" where
  "runs_during i k [] = False"
| "runs_during i k (ctx # ctxs) =
     (current_slot k = i \<or> (case timer_tick k ctx of Some (_, k') \<Rightarrow> runs_during i k' ctxs | None \<Rightarrow> False))"

lemma ticks_keep_context:
  assumes "sched_ok k" and "i < 16" and "ticks k ctxs = Some k'" and "\<not> runs_during i k ctxs"
  shows "sched_ok k' \<and> slot_context k' i = slot_context k i"
  using assms
proof (induction ctxs arbitrary: k)
  case Nil
  then show ?case by simp
next
  case (Cons ctx ctxs)
  obtain k1 c where k1: "timer_tick k ctx = Some (c, k1)" "sched_ok k1" "slot_context k1 i = slot_context k i"
    using tick_effect [OF Cons.prems(1), of ctx] Cons.prems(2,4) by auto
  then show ?case using Cons by simp
qed

lemma ticks_return:
  assumes "sched_ok k"
  shows "\<exists>k'. ticks k ctxs = Some k' \<and> sched_ok k' \<and> process_slot_occupied k' = process_slot_occupied k"
  using assms
proof (induction ctxs arbitrary: k)
  case (Cons ctx ctxs)
  obtain k1 c where "timer_tick k ctx = Some (c, k1)" "sched_ok k1" "process_slot_occupied k1 = process_slot_occupied k"
    using tick_effect [OF Cons.prems, of ctx] by blast
  then show ?case using Cons.IH [of k1] by auto
qed simp

section \<open>Properties\<close>

text \<open>A kernel with processes in the slots 0, 3 and 9, slot 3 running.\<close>

definition three_slots :: "bool list" where
  "three_slots = (replicate 16 False)[0 := True, 3 := True, 9 := True]"

definition three_processes :: kernel where
  "three_processes = \<lparr>process_list = (replicate 16 zero_pcb)[3 := zero_pcb\<lparr>pid := 3\<rparr>, 9 := zero_pcb\<lparr>pid := 9\<rparr>],
     process_slot_occupied = three_slots, active_process_count = 3, current_running_pid = 3, pages = boot_pages,
     fsys = \<lparr>cluster_map = [], dir_table_buf = [], cluster_buf = [], disk = (\<lambda>_. 0), ram = (\<lambda>_. 0)\<rparr>, memory = (\<lambda>_ _. 0)\<rparr>"

text \<open>
  C28: the switch. If some slot is occupied, the switch ends and loads the context of the occupied
  slot that comes first after the current one on the ring of slots, marks that process running and makes
  its page directory the current one; nothing else changes. If no slot is occupied it never ends.
\<close>

theorem switch_to_next_process:
  assumes "sched_wf k"
  shows "((\<exists>p < 16. process_slot_occupied k ! p) \<longrightarrow>
      (\<exists>q b. q < 16 \<and> process_slot_occupied k ! q \<and> b = process_list k ! q \<and>
        (\<forall>p < 16. process_slot_occupied k ! p \<longrightarrow> ring_distance 16 (current_slot k) q \<le> ring_distance 16 (current_slot k) p) \<and>
        scheduler_switch_to_next_process k = Some (pcb_context b,
          k\<lparr>process_list := (process_list k)[q := b\<lparr>proc_state := PROCESS_STATE_RUNNING\<rparr>], current_running_pid := of_nat q,
            pages := paging_use_page_directory (pages k) (page_directory_virtual_addr (pcb_context b))\<rparr>))) \<and>
    ((\<forall>p < 16. \<not> process_slot_occupied k ! p) \<longrightarrow> scheduler_switch_to_next_process k = None)"
proof -
  have "scheduler_switch_to_next_process k = None" if "\<forall>p < 16. \<not> process_slot_occupied k ! p"
    using that switch_occupied_slot [of k] by (cases "scheduler_switch_to_next_process k") blast+
  moreover have "\<exists>q b. q < 16 \<and> process_slot_occupied k ! q \<and> b = process_list k ! q \<and>
        (\<forall>p < 16. process_slot_occupied k ! p \<longrightarrow> ring_distance 16 (current_slot k) q \<le> ring_distance 16 (current_slot k) p) \<and>
        scheduler_switch_to_next_process k = Some (pcb_context b,
          k\<lparr>process_list := (process_list k)[q := b\<lparr>proc_state := PROCESS_STATE_RUNNING\<rparr>], current_running_pid := of_nat q,
            pages := paging_use_page_directory (pages k) (page_directory_virtual_addr (pcb_context b))\<rparr>)"
    if p: "p < 16" "process_slot_occupied k ! p" for p
  proof -
    obtain q b where q: "q < 16" "process_slot_occupied k ! q" "b = process_list k ! q"
      "scheduler_switch_to_next_process k = Some (pcb_context b,
          k\<lparr>process_list := (process_list k)[q := b\<lparr>proc_state := PROCESS_STATE_RUNNING\<rparr>], current_running_pid := of_nat q,
            pages := paging_use_page_directory (pages k) (page_directory_virtual_addr (pcb_context b))\<rparr>)"
      using switch_effect [OF assms p] by blast
    then have "ring_distance 16 (current_slot k) q \<le> ring_distance 16 (current_slot k) p'"
      if "p' < 16" "process_slot_occupied k ! p'" for p'
      using sched.switch_first [OF assms _ that] by (simp add: current_slot_def)
    then show ?thesis using q by blast
  qed
  ultimately show ?thesis by blast
qed

lemma three_wf: "sched_wf three_processes" "current_slot three_processes = 3"
  "process_slot_occupied three_processes ! p \<longleftrightarrow> p \<in> {0, 3, 9}" if "p < 16"
  using that by (auto simp: three_processes_def three_slots_def sched_wf_def current_slot_def NO_PROCESS_RUNNING_def nth_list_update)

theorem switch_to_next_process_witness:
  "\<exists>c k'. scheduler_switch_to_next_process three_processes = Some (c, k') \<and> current_running_pid k' = 9"
proof -
  have nine: "process_slot_occupied three_processes ! 9" using three_wf(3) [of 9] by simp
  then obtain q c k' where q: "q < 16" "process_slot_occupied three_processes ! q" "ring_distance 16 3 q \<le> ring_distance 16 3 9"
    "scheduler_switch_to_next_process three_processes = Some (c, k')" "current_running_pid k' = of_nat q"
    using switch_to_next_process [OF three_wf(1) [of 0]] three_wf(2) [of 0] by fastforce
  then have "q = 9" using three_wf(3) [of q] by (auto simp: ring_distance_def)
  then show ?thesis using q by auto
qed

text \<open>
  C29: no process starves. Every occupied slot is the running one after at most as many switches as
  there are occupied slots.
\<close>

theorem no_starvation_of_processes:
  assumes "sched_wf k" and "p < 16" and "process_slot_occupied k ! p"
  shows "\<exists>n k'. 0 < n \<and> n \<le> card {q. q < 16 \<and> process_slot_occupied k ! q} \<and>
     iterate (\<lambda>k. map_option snd (scheduler_switch_to_next_process k)) n k = Some k' \<and> current_slot k' = p"
  using assms by (rule sched.no_starvation)

theorem no_starvation_of_processes_witness:
  "\<exists>n k'. 0 < n \<and> n \<le> 3 \<and>
     iterate (\<lambda>k. map_option snd (scheduler_switch_to_next_process k)) n three_processes = Some k' \<and> current_slot k' = 0"
proof -
  have "{q. q < 16 \<and> process_slot_occupied three_processes ! q} = {0, 3, 9}" using three_wf(3) by auto
  then show ?thesis
    using no_starvation_of_processes [OF three_wf(1) [of 0], of 0] three_wf(3) [of 0] by (simp add: numeral_3_eq_3)
qed

text \<open>
  C30: preemption is transparent. Whatever happens between the interrupt that preempts a process and the
  interrupt that brings it back, the context that is loaded then has the registers, the instruction
  pointer and the flags that were saved, and the address space of the process.
\<close>

theorem preemption_transparent:
  assumes "sched_ok k" and "timer_tick k ctx = Some (c, k1)" and "ticks k1 ctxs = Some k2"
    and "\<not> runs_during (current_slot k) k1 ctxs" and "current_slot k2 \<noteq> current_slot k"
    and "timer_tick k2 ctx' = Some (c', k3)" and "current_slot k3 = current_slot k"
  shows "eip c' = eip ctx \<and> eflags c' = eflags ctx \<and> cpu c' = cpu ctx \<and>
    page_directory_virtual_addr c' = page_directory_virtual_addr (slot_context k (current_slot k)) \<and>
    process_slot_occupied k3 = process_slot_occupied k"
proof -
  let ?i = "current_slot k"
  have i: "?i < 16" using assms(1) by (simp add: current_slot_ok sched_ok_def)
  have k1: "sched_ok k1" "slot_context k1 ?i = (slot_context k ?i)\<lparr>eip := eip ctx, eflags := eflags ctx, cpu := cpu ctx\<rparr>"
    "process_slot_occupied k1 = process_slot_occupied k"
    using tick_effect [OF assms(1), of ctx] assms(2) i by auto
  note k2 = ticks_keep_context [OF k1(1) i assms(3,4)]
  have k3: "c' = slot_context k3 ?i" "slot_context k3 ?i = slot_context k2 ?i" "process_slot_occupied k3 = process_slot_occupied k2"
    using tick_effect [of k2 ctx'] k2 assms(5-7) i by auto
  have "process_slot_occupied k2 = process_slot_occupied k1" using ticks_return [OF k1(1), of ctxs] assms(3) by auto
  then show ?thesis using k1 k2 k3 by simp
qed

lemma three_ok: "sched_ok three_processes"
  by (auto simp: three_processes_def three_slots_def sched_ok_def sched_wf_def nth_list_update zero_pcb_def)

lemma three_tick:
  assumes "sched_ok k" and "process_slot_occupied k = three_slots"
  shows "\<exists>c k'. timer_tick k ctx = Some (c, k') \<and> sched_ok k' \<and> process_slot_occupied k' = three_slots \<and>
    current_slot k' = (if current_slot k < 3 then 3 else if current_slot k < 9 then 9 else 0)"
proof -
  obtain q k' where q: "timer_tick k ctx = Some (slot_context k' q, k')" "sched_ok k'" "current_slot k' = q"
    "process_slot_occupied k' = three_slots"
    "\<And>p. p < 16 \<Longrightarrow> three_slots ! p \<Longrightarrow> ring_distance 16 (current_slot k) q \<le> ring_distance 16 (current_slot k) p"
    using tick_effect [OF assms(1), of ctx] assms(2) by auto
  have mem: "p \<in> {0, 3, 9} \<longleftrightarrow> three_slots ! p" if "p < 16" for p
    using that by (auto simp: three_slots_def nth_list_update)
  have slot: "current_slot s < 16 \<and> three_slots ! current_slot s" if "sched_ok s" "process_slot_occupied s = three_slots" for s
    using that current_slot_ok [OF that(1)] by (simp add: sched_ok_def)
  have c: "current_slot k \<in> {0, 3, 9}" "current_slot k' \<in> {0, 3, 9}"
    using slot [OF assms] slot [OF q(2,4)] iffD2 [OF mem] by (simp_all only:)
  have "ring_distance 16 (current_slot k) q \<le> ring_distance 16 (current_slot k) p" if "p \<in> {0, 3, 9}" for p
    using q(5) [of p] mem [of p] that by auto
  from this [of 0] this [of 3] this [of 9] c q(3)
  have "q = (if current_slot k < 3 then 3 else if current_slot k < 9 then 9 else 0)"
    by (auto simp: ring_distance_def)
  then show ?thesis using q by blast
qed

theorem preemption_transparent_witness:
  "\<exists>c k1 k2 c' k3. timer_tick three_processes (zero_context\<lparr>eip := 0x1234\<rparr>) = Some (c, k1) \<and> ticks k1 [zero_context] = Some k2 \<and>
     timer_tick k2 zero_context = Some (c', k3) \<and> eip c' = 0x1234"
proof -
  let ?ctx = "zero_context\<lparr>eip := 0x1234\<rparr>"
  have cur: "current_slot three_processes = 3" "process_slot_occupied three_processes = three_slots"
    using three_wf(2) [of 0] by (simp_all add: three_processes_def)
  obtain c k1 where k1: "timer_tick three_processes ?ctx = Some (c, k1)" "sched_ok k1" "process_slot_occupied k1 = three_slots"
    "current_slot k1 = 9" using three_tick [OF three_ok cur(2), of ?ctx] cur(1) by auto
  obtain d k2 where k2: "timer_tick k1 zero_context = Some (d, k2)" "sched_ok k2" "process_slot_occupied k2 = three_slots"
    "current_slot k2 = 0" using three_tick [OF k1(2,3), of zero_context] k1(4) by auto
  obtain c' k3 where k3: "timer_tick k2 zero_context = Some (c', k3)" "current_slot k3 = 3"
    using three_tick [OF k2(2,3), of zero_context] k2(4) by auto
  have run: "ticks k1 [zero_context] = Some k2" using k2 by simp
  have "eip c' = 0x1234"
    using preemption_transparent [OF three_ok k1(1) run _ _ k3(1)] k1(4) k2(1,4) k3(2) cur(1) by simp
  then show ?thesis using k1(1) run k3(1) by blast
qed

text \<open>
  The timer. \<open>activate_timer_interrupt\<close> sends the PIT the square-wave mode for channel 0 and the reload value
  1193, low byte first, then clears the mask bit of IRQ 0 and no other bit, with interrupts off. The reload
  value gives a rate within a thousandth of the 1000 Hz that are asked for.
\<close>

theorem activate_timer:
  "dev (activate_timer_interrupt (log_bus answer) io) =
     dev io @ [(0x43, 0x36), (0x40, 0xA9), (0x40, 0x04), (0x21, unset_bit 0 (answer 0x21))] \<and>
   \<not> interrupt_flag (activate_timer_interrupt bus io') \<and>
   0xA9 + 0x04 * 256 = unat PIT_TIMER_COUNTER \<and>
   1000 * unat PIT_TIMER_COUNTER \<le> 1193182 \<and> 1193182 < 1001 * unat PIT_TIMER_COUNTER"
proof -
  have "x AND - 2 = unset_bit 0 x" for x :: u8
    by (simp add: unset_bit_eq_and_not)
  then show ?thesis
    by (simp add: activate_timer_interrupt_def pit_consts log_bus_def out_def in8_def cli_def Let_def split_def)
qed

end
