(* ===== verification/Pic.thy ===== *)
theory Pic
  imports Portio Scheduler
begin

text \<open>
  The interrupt controller part of \<open>src/src/interrupt.c\<close>: acknowledging, remapping and unmasking, and what
  the sequence of port writes does to a pair of 8259 controllers. The controllers are behind the bus; what
  is relied on is their initialisation sequence, stated as the hypothesis \<open>pic_chip\<close>.
\<close>

section \<open>Definitions\<close>

definition PIC1_OFFSET :: u8 where "PIC1_OFFSET = 0x20"
definition PIC2_OFFSET :: u8 where "PIC2_OFFSET = 0x28"
definition PIC1_COMMAND :: u16 where "PIC1_COMMAND = 0x20"
definition PIC2_COMMAND :: u16 where "PIC2_COMMAND = 0xA0"
definition PIC2_DATA :: u16 where "PIC2_DATA = 0xA0 + 1"
definition PIC_ACK :: u8 where "PIC_ACK = 0x20"
definition PIC_DISABLE_ALL_MASK :: u8 where "PIC_DISABLE_ALL_MASK = 0xFF"
definition ICW1_ICW4 :: u8 where "ICW1_ICW4 = 0x01"
definition ICW1_INIT :: u8 where "ICW1_INIT = 0x10"
definition ICW4_8086 :: u8 where "ICW4_8086 = 0x01"
definition IRQ_KEYBOARD :: nat where "IRQ_KEYBOARD = 1"
definition IRQ_SYSCALL :: nat where "IRQ_SYSCALL = 16"

lemmas pic_consts = PIC1_OFFSET_def PIC2_OFFSET_def PIC1_COMMAND_def PIC1_DATA_def PIC2_COMMAND_def PIC2_DATA_def
  PIC_ACK_def PIC_DISABLE_ALL_MASK_def ICW1_ICW4_def ICW1_INIT_def ICW4_8086_def IRQ_KEYBOARD_def IRQ_SYSCALL_def IRQ_TIMER_def

definition io_wait :: "'d bus \<Rightarrow> 'd io \<Rightarrow> 'd io" where
  "io_wait bus io = out bus 0x80 0 io"

definition pic_ack :: "'d bus \<Rightarrow> u8 \<Rightarrow> 'd io \<Rightarrow> 'd io" where
  "pic_ack bus irq io =
     (let io = (if irq \<ge> 8 then out bus PIC2_COMMAND PIC_ACK io else io)
      in out bus PIC1_COMMAND PIC_ACK io)"

definition pic_remap :: "'d bus \<Rightarrow> 'd io \<Rightarrow> 'd io" where
  "pic_remap bus io =
     (let io = io_wait bus (out bus PIC1_COMMAND (ICW1_INIT OR ICW1_ICW4) io);
          io = io_wait bus (out bus PIC2_COMMAND (ICW1_INIT OR ICW1_ICW4) io);
          io = io_wait bus (out bus PIC1_DATA PIC1_OFFSET io);
          io = io_wait bus (out bus PIC2_DATA PIC2_OFFSET io);
          io = io_wait bus (out bus PIC1_DATA 4 io);
          io = io_wait bus (out bus PIC2_DATA 2 io);
          io = io_wait bus (out bus PIC1_DATA ICW4_8086 io);
          io = io_wait bus (out bus PIC2_DATA ICW4_8086 io);
          io = out bus PIC1_DATA PIC_DISABLE_ALL_MASK io
      in out bus PIC2_DATA PIC_DISABLE_ALL_MASK io)"

definition activate_keyboard_interrupt :: "'d bus \<Rightarrow> 'd io \<Rightarrow> 'd io" where
  "activate_keyboard_interrupt bus io =
     (let (mask, io) = in8 bus PIC1_DATA io
      in out bus PIC1_DATA (mask AND NOT (push_bit IRQ_KEYBOARD 1)) io)"

section \<open>The 8259 controller\<close>

text \<open>
  The initialisation sequence of the controller: a command with bit 4 set is ICW1; the next writes to the
  data port are ICW2 (the vector offset), ICW3 unless bit 1 of ICW1 is set, and ICW4 if bit 0 of ICW1 is
  set; every later write to the data port is the interrupt mask.
\<close>

record pic =
  awaiting :: "nat list"
  offset :: u8
  cascade :: u8
  mode :: u8
  imr :: u8

definition pic_command :: "u8 \<Rightarrow> pic \<Rightarrow> pic" where
  "pic_command v p =
     (if bit v 4 then p\<lparr>awaiting := [2] @ (if bit v 1 then [] else [3]) @ (if bit v 0 then [4] else []), imr := 0\<rparr> else p)"

definition pic_data :: "u8 \<Rightarrow> pic \<Rightarrow> pic" where
  "pic_data v p = (case awaiting p of
      [] \<Rightarrow> p\<lparr>imr := v\<rparr>
    | w # ws \<Rightarrow> let p = p\<lparr>awaiting := ws\<rparr> in
        if w = 2 then p\<lparr>offset := v\<rparr> else if w = 3 then p\<lparr>cascade := v\<rparr> else p\<lparr>mode := v\<rparr>)"

definition pic_chip :: "'d bus \<Rightarrow> u16 \<Rightarrow> u16 \<Rightarrow> ('d \<Rightarrow> pic) \<Rightarrow> bool" where
  "pic_chip bus command data view \<longleftrightarrow>
     (\<forall>port v d. view (bus_out bus port v d) =
       (if port = command then pic_command v (view d) else if port = data then pic_data v (view d) else view d)) \<and>
     (\<forall>port d. view (snd (bus_in bus port d)) = view d) \<and> (\<forall>d. fst (bus_in bus data d) = imr (view d))"

lemma pic_chip_out:
  "pic_chip bus command data view \<Longrightarrow> view (dev (out bus port v io)) =
     (if port = command then pic_command v (view (dev io)) else if port = data then pic_data v (view (dev io)) else view (dev io))"
  by (simp add: pic_chip_def)

text \<open>The vector that a controller delivers for one of its eight lines, if the line is not masked.\<close>

definition delivered :: "pic \<Rightarrow> nat \<Rightarrow> u8 option" where
  "delivered p line = (if awaiting p = [] \<and> line < 8 \<and> \<not> bit (imr p) line then Some (offset p + of_nat line) else None)"

lemma remap_master:
  assumes "pic_chip bus 0x20 0x21 view"
  shows "view (dev (pic_remap bus io)) = \<lparr>awaiting = [], offset = 0x20, cascade = 4, mode = 1, imr = 0xFF\<rparr>"
  by (simp add: pic_remap_def io_wait_def pic_chip_out [OF assms] Let_def pic_consts pic_command_def pic_data_def
      bit_numeral_simps del: dev_out)

lemma remap_slave:
  assumes "pic_chip bus 0xA0 0xA1 view"
  shows "view (dev (pic_remap bus io)) = \<lparr>awaiting = [], offset = 0x28, cascade = 2, mode = 1, imr = 0xFF\<rparr>"
  by (simp add: pic_remap_def io_wait_def pic_chip_out [OF assms] Let_def pic_consts pic_command_def pic_data_def
      bit_numeral_simps del: dev_out)

lemma unmask_line:
  assumes "pic_chip bus 0x20 0x21 view" and "awaiting (view (dev io)) = []"
  shows "view (dev (activate_keyboard_interrupt bus io)) = (view (dev io))\<lparr>imr := imr (view (dev io)) AND NOT 2\<rparr>"
    and "view (dev (activate_timer_interrupt bus io)) = (view (dev io))\<lparr>imr := imr (view (dev io)) AND NOT 1\<rparr>"
  using assms by (simp_all add: activate_keyboard_interrupt_def activate_timer_interrupt_def Let_def split_def cli_def
      pic_chip_def pic_consts pit_consts pic_data_def)

section \<open>Properties\<close>

text \<open>
  Remapping. On two 8259 controllers, whatever they were doing before, \<open>pic_remap\<close> completes their initialisation:
  the master's vectors start at 0x20 and the slave's at 0x28, the slave is on line 2, both are in 8086 mode, and no line
  is delivered. Unmasking the keyboard and the timer then delivers exactly the vectors 0x20 and 0x21 that
  the interrupt handler expects.
\<close>

theorem remap_controllers:
  assumes "pic_chip bus 0x20 0x21 master" and "pic_chip bus 0xA0 0xA1 slave"
  shows "master (dev (pic_remap bus io)) = \<lparr>awaiting = [], offset = 0x20, cascade = 4, mode = 1, imr = 0xFF\<rparr> \<and>
    slave (dev (pic_remap bus io)) = \<lparr>awaiting = [], offset = 0x28, cascade = 2, mode = 1, imr = 0xFF\<rparr> \<and>
    (\<forall>line. delivered (master (dev (activate_timer_interrupt bus (activate_keyboard_interrupt bus (pic_remap bus io))))) line =
      (if line < 2 then Some (0x20 + of_nat line) else None))"
proof -
  note m = remap_master [OF assms(1), of io]
  have k: "master (dev (activate_keyboard_interrupt bus (pic_remap bus io))) = \<lparr>awaiting = [], offset = 0x20, cascade = 4, mode = 1, imr = 0xFD\<rparr>"
    using unmask_line(1) [OF assms(1), of "pic_remap bus io"] m by simp
  have t: "master (dev (activate_timer_interrupt bus (activate_keyboard_interrupt bus (pic_remap bus io)))) =
      \<lparr>awaiting = [], offset = 0x20, cascade = 4, mode = 1, imr = 0xFC\<rparr>"
    using unmask_line(2) [OF assms(1), of "activate_keyboard_interrupt bus (pic_remap bus io)"] k by simp
  have "(line < 8 \<and> \<not> bit (0xFC :: u8) line) \<longleftrightarrow> line < 2" for line
    by (cases "line < 8") (auto simp: less_Suc_eq numeral_eq_Suc bit_numeral_simps)
  then show ?thesis using m remap_slave [OF assms(2), of io] t by (simp add: delivered_def)
qed

definition pic_pair :: "(pic \<times> pic) bus" where
  "pic_pair = \<lparr>bus_in = (\<lambda>port d. (if port = 0x21 then imr (fst d) else if port = 0xA1 then imr (snd d) else 0, d)),
     bus_out = (\<lambda>port v (m, s). (if port = 0x20 then pic_command v m else if port = 0x21 then pic_data v m else m,
                                if port = 0xA0 then pic_command v s else if port = 0xA1 then pic_data v s else s)),
     bus_in16 = (\<lambda>port d. (0, d)), bus_out16 = (\<lambda>port v d. d)\<rparr>"

definition idle_pic :: pic where
  "idle_pic = \<lparr>awaiting = [4], offset = 8, cascade = 0, mode = 0, imr = 0xB8\<rparr>"

theorem remap_controllers_witness:
  "delivered (fst (dev (activate_timer_interrupt pic_pair (activate_keyboard_interrupt pic_pair
     (pic_remap pic_pair \<lparr>dev = (idle_pic, idle_pic), interrupt_flag = False\<rparr>))))) 1 = Some 0x21"
proof -
  have "pic_chip pic_pair 0x20 0x21 fst" "pic_chip pic_pair 0xA0 0xA1 snd" by (simp_all add: pic_chip_def pic_pair_def split_def)
  from remap_controllers [OF this] show ?thesis by simp
qed

text \<open>
  Acknowledging. Every interrupt sends exactly one end-of-interrupt to the master, preceded by one to the slave
  exactly when the line belongs to the slave.
\<close>

theorem pic_ack_sends:
  "dev (pic_ack (log_bus answer) irq io) = dev io @ (if unat irq < 8 then [] else [(0xA0, 0x20)]) @ [(0x20, 0x20)]"
  by (simp add: pic_ack_def pic_consts log_bus_def word_le_nat_alt)

end
