(* ===== verification/Keyboard.thy ===== *)
theory Keyboard
  imports Pic CMemory
begin

text \<open>
  The keyboard driver (\<open>src/src/keyboard.c\<close>): the scancode table, the interrupt routine and the calls that
  switch listening on and off and hand the last character to a program.
\<close>

section \<open>Definitions\<close>

definition KEYBOARD_DATA_PORT :: u16 where "KEYBOARD_DATA_PORT = 0x60"

text \<open>The table \<open>keyboard_scancode_1_to_ascii_map\<close> in its two halves: codes of pressed and of released keys.\<close>

definition scancode_make :: "u8 list" where
  "scancode_make =
    [0, 27, 49, 50, 51, 52, 53, 54, 55, 56, 57, 48, 45, 61,
     8, 9, 113, 119, 101, 114, 116, 121, 117, 105, 111, 112, 91, 93,
     10, 0, 97, 115, 100, 102, 103, 104, 106, 107, 108, 59, 39, 96,
     0, 92, 122, 120, 99, 118, 98, 110, 109, 44, 46, 47, 0, 42,
     0, 32, 0, 0, 0, 0, 0, 0, 0, 0, 0, 0, 0, 0,
     0, 0, 0, 0, 45, 0, 0, 0, 43] @ replicate 49 0"

definition scancode_break :: "u8 list" where
  "scancode_break = replicate 128 0"

definition keyboard_scancode_1_to_ascii_map :: "u8 list" where
  "keyboard_scancode_1_to_ascii_map = scancode_make @ scancode_break"

record KeyboardDriverState =
  read_extended_mode :: bool
  keyboard_input_on :: bool
  keyboard_buffer :: u8
  col :: u8

definition keyboard_isr :: "'d bus \<Rightarrow> KeyboardDriverState \<Rightarrow> 'd io \<Rightarrow> KeyboardDriverState \<times> 'd io" where
  "keyboard_isr bus keyboard_status io =
     (let (scancode, io) = in8 bus KEYBOARD_DATA_PORT io;
          keyboard_status =
            (if keyboard_input_on keyboard_status then
               let ascii_char = keyboard_scancode_1_to_ascii_map ! unat scancode;
                   keyboard_status = keyboard_status\<lparr>keyboard_buffer := ascii_char\<rparr>
               in if ascii_char = 10 then keyboard_status\<lparr>col := 0\<rparr>
                  else keyboard_status\<lparr>col := col keyboard_status + 1\<rparr>
             else keyboard_status)
      in (keyboard_status, pic_ack bus (of_nat IRQ_KEYBOARD) io))"

definition keyboard_state_activate :: "KeyboardDriverState \<Rightarrow> KeyboardDriverState" where
  "keyboard_state_activate keyboard_status = keyboard_status\<lparr>keyboard_input_on := True\<rparr>"

definition keyboard_state_deactivate :: "KeyboardDriverState \<Rightarrow> KeyboardDriverState" where
  "keyboard_state_deactivate keyboard_status = keyboard_status\<lparr>keyboard_input_on := False\<rparr>"

definition get_keyboard_buffer :: "KeyboardDriverState \<Rightarrow> mem \<Rightarrow> u32 \<Rightarrow> KeyboardDriverState \<times> mem" where
  "get_keyboard_buffer keyboard_status m buf =
     (keyboard_status\<lparr>keyboard_buffer := 0\<rparr>, m(buf := keyboard_buffer keyboard_status))"

section \<open>The scancode table\<close>

lemma length_scancode_make: "length scancode_make = 128"
  by (simp add: scancode_make_def)

lemma scancode_release: "128 \<le> i \<Longrightarrow> i < 256 \<Longrightarrow> keyboard_scancode_1_to_ascii_map ! i = 0"
  by (simp add: keyboard_scancode_1_to_ascii_map_def nth_append length_scancode_make scancode_break_def)

lemma scancode_press: "i < 128 \<Longrightarrow> keyboard_scancode_1_to_ascii_map ! i = scancode_make ! i"
  by (simp add: keyboard_scancode_1_to_ascii_map_def nth_append length_scancode_make)

text \<open>The keyboard behind the bus: reading the data port gives the scancode of the event.\<close>

definition scancode_of :: "'d bus \<Rightarrow> 'd io \<Rightarrow> u8" where
  "scancode_of bus io = fst (bus_in bus 0x60 (dev io))"

definition ascii_of :: "u8 \<Rightarrow> u8" where
  "ascii_of scancode = keyboard_scancode_1_to_ascii_map ! unat scancode"

lemma isr_status:
  "fst (keyboard_isr bus kb io) =
     (if keyboard_input_on kb then kb\<lparr>keyboard_buffer := ascii_of (scancode_of bus io),
        col := (if ascii_of (scancode_of bus io) = 10 then 0 else col kb + 1)\<rparr> else kb)"
  by (simp add: keyboard_isr_def in8_def Let_def split_def ascii_of_def scancode_of_def KEYBOARD_DATA_PORT_def)

lemma isr_acknowledges: "dev (snd (keyboard_isr bus kb io)) = bus_out bus 0x20 0x20 (snd (bus_in bus 0x60 (dev io)))"
  by (simp add: keyboard_isr_def in8_def Let_def split_def KEYBOARD_DATA_PORT_def pic_ack_def pic_consts word_le_nat_alt)

text \<open>The keyboard state after a sequence of scancodes, one interrupt each.\<close>

definition key_bus :: "u8 bus" where
  "key_bus = \<lparr>bus_in = (\<lambda>port d. (if port = 0x60 then d else 0, d)), bus_out = (\<lambda>port v d. d),
     bus_in16 = (\<lambda>port d. (0, d)), bus_out16 = (\<lambda>port v d. d)\<rparr>"

fun type_keys :: "u8 list \<Rightarrow> KeyboardDriverState \<Rightarrow> KeyboardDriverState" where
  "type_keys [] kb = kb"
| "type_keys (scancode # scancodes) kb =
     type_keys scancodes (fst (keyboard_isr key_bus kb \<lparr>dev = scancode, interrupt_flag = True\<rparr>))"

lemma key_bus_scancode [simp]: "scancode_of key_bus \<lparr>dev = s, interrupt_flag = b\<rparr> = s"
  by (simp add: scancode_of_def key_bus_def)

lemma type_keys_append: "type_keys (xs @ ys) kb = type_keys ys (type_keys xs kb)"
  by (induction xs arbitrary: kb) auto

lemma type_keys_on: "keyboard_input_on (type_keys xs kb) = keyboard_input_on kb"
  by (induction xs arbitrary: kb) (auto simp: isr_status)

lemma type_keys_col:
  "keyboard_input_on kb \<Longrightarrow> \<forall>s \<in> set xs. ascii_of s \<noteq> 10 \<Longrightarrow> col (type_keys xs kb) = col kb + of_nat (length xs)"
  by (induction xs arbitrary: kb) (auto simp: isr_status)

section \<open>Properties\<close>

text \<open>
  A key stroke. While the keyboard listens, an interrupt puts the table's character for the scancode into
  the buffer; the next \<open>get_keyboard_buffer\<close> stores it at the given address, changes no other byte, and leaves
  the buffer empty. While it does not listen nothing changes. In both cases the interrupt is acknowledged once.
\<close>

theorem key_delivered:
  "(keyboard_input_on kb \<longrightarrow>
     (let kb' = fst (keyboard_isr bus kb io); (kb'', m') = get_keyboard_buffer kb' m buf
      in m' buf = keyboard_scancode_1_to_ascii_map ! unat (fst (bus_in bus 0x60 (dev io))) \<and> (\<forall>a. a \<noteq> buf \<longrightarrow> m' a = m a) \<and>
         keyboard_buffer kb'' = 0 \<and> keyboard_input_on kb'')) \<and>
   (\<not> keyboard_input_on kb \<longrightarrow> fst (keyboard_isr bus kb io) = kb) \<and>
   dev (snd (keyboard_isr bus kb io)) = bus_out bus 0x20 0x20 (snd (bus_in bus 0x60 (dev io)))"
  by (simp add: isr_status isr_acknowledges get_keyboard_buffer_def ascii_of_def scancode_of_def)

definition listening :: KeyboardDriverState where
  "listening = \<lparr>read_extended_mode = False, keyboard_input_on = True, keyboard_buffer = 0, col = 0\<rparr>"

text \<open>The key marked A: its scancode is 0x1E.\<close>

theorem key_delivered_witness:
  "snd (get_keyboard_buffer (fst (keyboard_isr key_bus listening \<lparr>dev = 0x1E, interrupt_flag = True\<rparr>)) (\<lambda>_. 0) 0x1000) 0x1000 = 97"
proof -
  have "scancode_make ! 30 = 97" by (simp add: scancode_make_def)
  then show ?thesis
    using key_delivered [of listening key_bus "\<lparr>dev = 0x1E, interrupt_flag = True\<rparr>" "\<lambda>_. 0" "0x1000"] scancode_press [of 30]
    by (simp add: listening_def key_bus_def split_def Let_def)
qed

text \<open>
  Releasing a key. The table maps every scancode from 0x80 on to 0, and the interrupt routine stores it like
  any other: after press and release of a key without a read in between the buffer is empty, so the character is lost,
  and the column has moved by two.
\<close>

theorem release_loses_key:
  assumes "keyboard_input_on kb" and "press < 0x80" and "keyboard_scancode_1_to_ascii_map ! unat press \<noteq> 10"
  shows "keyboard_buffer (type_keys [press, press + 0x80] kb) = 0 \<and> col (type_keys [press, press + 0x80] kb) = col kb + 2"
proof -
  have u: "unat press < 128" using assms(2) by (simp add: word_less_nat_alt)
  then have "unat (press + 0x80) = unat press + 128" by (simp add: unat_word_ariths)
  then have "ascii_of (press + 0x80) = 0" using u by (simp add: ascii_of_def scancode_release)
  then show ?thesis using assms(1,3) by (simp add: isr_status) (simp add: ascii_of_def)
qed

theorem release_loses_key_witness: "keyboard_buffer (type_keys [0x1E, 0x9E] listening) = 0"
proof -
  have "keyboard_scancode_1_to_ascii_map ! 30 = 97" by (simp add: scancode_press) (simp add: scancode_make_def)
  then show ?thesis using release_loses_key [of listening "0x1E"] by (simp add: listening_def)
qed

text \<open>
  The column counter. After any sequence of events the column is the number of events since the last newline,
  modulo 256, and the buffer holds the character of the last event.
\<close>

theorem column_counts:
  assumes "keyboard_input_on kb" and "\<forall>s \<in> set line. keyboard_scancode_1_to_ascii_map ! unat s \<noteq> 10"
    and "keyboard_scancode_1_to_ascii_map ! unat newline = 10"
  shows "unat (col (type_keys (before @ [newline] @ line) kb)) = length line mod 256 \<and>
    keyboard_buffer (type_keys (before @ [newline] @ line) kb) = (if line = [] then 10 else keyboard_scancode_1_to_ascii_map ! unat (last line))"
proof -
  let ?k = "type_keys (before @ [newline]) kb"
  have on: "keyboard_input_on ?k" by (simp add: type_keys_on assms(1))
  have k: "col ?k = 0" "keyboard_buffer ?k = 10"
    using assms(1,3) by (simp_all add: type_keys_append isr_status type_keys_on ascii_of_def)
  have run: "type_keys (before @ [newline] @ line) kb = type_keys line ?k" by (simp add: type_keys_append)
  have c: "col (type_keys line ?k) = of_nat (length line)"
    using type_keys_col [OF on] assms(2) k(1) by (simp add: ascii_of_def)
  have b: "keyboard_buffer (type_keys line ?k) = (if line = [] then 10 else ascii_of (last line))"
    using on k(2) by (cases line rule: rev_cases) (simp_all add: type_keys_append isr_status type_keys_on)
  show ?thesis unfolding run c b by (simp add: unat_of_nat ascii_of_def)
qed

theorem column_counts_witness: "unat (col (type_keys ([0x1E] @ [0x1C] @ [0x1E, 0x9E, 0x30]) listening)) = 3"
proof -
  have tab: "scancode_make ! 30 = 97" "scancode_make ! 28 = 10" "scancode_make ! 48 = 98" by (simp_all add: scancode_make_def)
  show ?thesis using column_counts [of listening "[0x1E, 0x9E, 0x30]" "0x1C" "[0x1E]"]
    by (simp add: listening_def scancode_press scancode_release tab del: type_keys.simps)
qed

end
