(* ===== verification/Framebuffer.thy ===== *)
theory Framebuffer
  imports Portio CMemory
begin

text \<open>
  The text screen driver (\<open>src/src/framebuffer.c\<close>). The cells are bytes of memory from \<open>0xC00B8000\<close> on; the
  position of the cursor is kept by the display controller behind the ports \<open>0x3D4\<close> and \<open>0x3D5\<close>, an index and
  a data register, and the driver reads it back from there. What is relied on of the controller is the
  hypothesis \<open>vga_crtc\<close>.
\<close>

section \<open>Definitions\<close>

definition FRAMEBUFFER_MEMORY_OFFSET :: u32 where "FRAMEBUFFER_MEMORY_OFFSET = 0xC00B8000"
definition VGA_WIDTH :: nat where "VGA_WIDTH = 80"
definition VGA_HEIGHT :: nat where "VGA_HEIGHT = 25"

text \<open>The address of byte \<open>b\<close> of the cell at a row and a column; the index is computed in \<open>int\<close>.\<close>

definition cell_addr :: "nat \<Rightarrow> nat \<Rightarrow> nat \<Rightarrow> u32" where
  "cell_addr row col b = FRAMEBUFFER_MEMORY_OFFSET + of_nat ((row * VGA_WIDTH + col) * 2 + b)"

definition framebuffer_set_cursor :: "'d bus \<Rightarrow> u8 \<Rightarrow> u8 \<Rightarrow> 'd io \<Rightarrow> 'd io" where
  "framebuffer_set_cursor bus r c io =
     (let pos = (of_nat (unat r * VGA_WIDTH + unat c) :: u16);
          io = out bus 0x3D4 0x0F io;
          io = out bus 0x3D5 (ucast (pos AND 0xFF)) io;
          io = out bus 0x3D4 0x0E io
      in out bus 0x3D5 (ucast (drop_bit 8 pos AND 0xFF)) io)"

definition framebuffer_write :: "mem \<Rightarrow> u8 \<Rightarrow> u8 \<Rightarrow> u8 \<Rightarrow> u8 \<Rightarrow> u8 \<Rightarrow> mem" where
  "framebuffer_write m row col c fg bg =
     m(cell_addr (unat row) (unat col) 0 := c, cell_addr (unat row) (unat col) 1 := fg OR bg)"

definition framebuffer_get :: "mem \<Rightarrow> u8 \<Rightarrow> u8 \<Rightarrow> u8" where
  "framebuffer_get m row col = m (cell_addr (unat row) (unat col) 0)"

text \<open>The two nested loops of \<open>framebuffer_clear\<close>, the outer one over columns.\<close>

definition framebuffer_clear :: "'d bus \<Rightarrow> mem \<Rightarrow> 'd io \<Rightarrow> mem \<times> 'd io" where
  "framebuffer_clear bus m io =
     (fold (\<lambda>i m. fold (\<lambda>j m. framebuffer_write m (of_nat j) (of_nat i) 0 0x07 0x07) [0..<25] m) [0..<80] m,
      framebuffer_set_cursor bus 0 0 io)"

definition get_cursor_pos :: "'d bus \<Rightarrow> 'd io \<Rightarrow> u16 \<times> 'd io" where
  "get_cursor_pos bus io =
     (let pos = 0;
          io = out bus 0x3D4 0x0F io;
          (lo, io) = in8 bus 0x3D5 io;
          pos = pos OR ucast lo;
          io = out bus 0x3D4 0x0E io;
          (hi, io) = in8 bus 0x3D5 io;
          pos = pos OR push_bit 8 (ucast hi)
      in (pos, io))"

text \<open>The body of the inner loop of \<open>shift_up\<close> moves one cell up by one row.\<close>

definition shift_cell :: "nat \<Rightarrow> nat \<Rightarrow> mem \<Rightarrow> mem" where
  "shift_cell i j m =
     (let m = m(cell_addr i j 0 := m (cell_addr (i + 1) j 0))
      in m(cell_addr i j 1 := m (cell_addr (i + 1) j 1)))"

definition shift_up :: "mem \<Rightarrow> mem" where
  "shift_up m =
     (let m = fold (\<lambda>i m. fold (shift_cell i) [0..<VGA_WIDTH] m) [0..<VGA_HEIGHT - 1] m
      in fold (\<lambda>j m. framebuffer_write m (of_nat (VGA_HEIGHT - 1)) (of_nat j) 0 0x07 0x07) [0..<80] m)"

text \<open>
  The loop of the backspace branch: it walks left, and up at the start of a row, as long as the cell is
  empty; the second conjunct of its condition is implied by the first. Row and column are \<open>uint16_t\<close> and
  are cut to \<open>uint8_t\<close> by the calls. Nothing stops it at the top of the screen.
\<close>

partial_function (option) erase_scan :: "mem \<Rightarrow> u16 \<Rightarrow> u16 \<Rightarrow> (u16 \<times> u16) option" where
  "erase_scan m row_now col =
     (if framebuffer_get m (ucast row_now) (ucast col) = 0 \<and> framebuffer_get m (ucast row_now) (ucast col) \<noteq> 10 then
        if col = 0 then erase_scan m (row_now - 1) (of_nat VGA_WIDTH - 1)
        else erase_scan m row_now (col - 1)
      else Some (row_now, col))"

text \<open>What \<open>putchar\<close> does to the screen for each kind of character, before the wrap at the end.\<close>

definition putchar_cell :: "mem \<Rightarrow> u8 \<Rightarrow> u32 \<Rightarrow> u16 \<Rightarrow> u16 \<Rightarrow> (mem \<times> u16 \<times> u16) option" where
  "putchar_cell m c color row_now col =
     (if c = 10 then Some (framebuffer_write m (ucast row_now) (ucast col) c 0 0, row_now + 1, 0)
      else if c = 8 then
        if col > 0 then
          let col = col - 1 in Some (framebuffer_write m (ucast row_now) (ucast col) 0 0x07 0x07, row_now, col)
        else if row_now > 0 then
          do { (row_now, col) \<leftarrow> erase_scan m (row_now - 1) (of_nat VGA_WIDTH - 1);
               Some (framebuffer_write m (ucast row_now) (ucast col) 0 0x07 0x07, row_now, col) }
        else Some (m, row_now, col)
      else Some (framebuffer_write m (ucast row_now) (ucast col) c (ucast color) 0, row_now, col + 1))"

text \<open>The argument \<open>c\<close> is the character that the pointer points to.\<close>

definition putchar :: "'d bus \<Rightarrow> mem \<times> 'd io \<Rightarrow> u8 \<Rightarrow> u32 \<Rightarrow> (mem \<times> 'd io) option" where
  "putchar bus s c color =
     (if c = 0 then Some s
      else do {
        (m, io) \<leftarrow> Some s;
        (pos, io) \<leftarrow> Some (get_cursor_pos bus io);
        row_now \<leftarrow> Some (pos div of_nat VGA_WIDTH);
        (pos, io) \<leftarrow> Some (get_cursor_pos bus io);
        col \<leftarrow> Some (pos mod of_nat VGA_WIDTH);
        (m, row_now, col) \<leftarrow> putchar_cell m c color row_now col;
        row_now \<leftarrow> Some (row_now + col div of_nat VGA_WIDTH);
        col \<leftarrow> Some (col mod of_nat VGA_WIDTH);
        (m, row_now) \<leftarrow> Some (if row_now = of_nat VGA_HEIGHT then (shift_up m, of_nat VGA_HEIGHT - 1) else (m, row_now));
        Some (m, framebuffer_set_cursor bus (ucast row_now) (ucast col) io) })"

text \<open>\<open>puts\<close> on the characters of the string.\<close>

fun puts :: "'d bus \<Rightarrow> mem \<times> 'd io \<Rightarrow> u8 list \<Rightarrow> u32 \<Rightarrow> (mem \<times> 'd io) option" where
  "puts bus s [] color = Some s"
| "puts bus s (c # cs) color = Option.bind (putchar bus s c color) (\<lambda>s. puts bus s cs color)"

section \<open>The display controller\<close>

definition vga_crtc :: "'d bus \<Rightarrow> ('d \<Rightarrow> u8) \<Rightarrow> ('d \<Rightarrow> u8 \<Rightarrow> u8) \<Rightarrow> bool" where
  "vga_crtc bus index reg \<longleftrightarrow>
     (\<forall>v d. index (bus_out bus 0x3D4 v d) = v \<and> reg (bus_out bus 0x3D4 v d) = reg d) \<and>
     (\<forall>v d. index (bus_out bus 0x3D5 v d) = index d \<and> reg (bus_out bus 0x3D5 v d) = (reg d)(index d := v)) \<and>
     (\<forall>d. fst (bus_in bus 0x3D5 d) = reg d (index d) \<and> reg (snd (bus_in bus 0x3D5 d)) = reg d)"

definition cursor_of :: "(u8 \<Rightarrow> u8) \<Rightarrow> u16" where
  "cursor_of r = ucast (r 0x0F) OR push_bit 8 (ucast (r 0x0E))"

lemma get_cursor_effect:
  assumes "vga_crtc bus index reg"
  shows "fst (get_cursor_pos bus io) = cursor_of (reg (dev io)) \<and> reg (dev (snd (get_cursor_pos bus io))) = reg (dev io)"
  using assms by (simp add: get_cursor_pos_def vga_crtc_def in8_def Let_def split_def cursor_of_def)

lemma and_0xFF: "x AND 0xFF = take_bit 8 (x :: u16)"
  by (simp add: take_bit_eq_mask mask_eq_exp_minus_1)

lemma split_u16: "(ucast (ucast (x AND 0xFF :: u16) :: u8) :: u16) OR push_bit 8 (ucast (ucast (drop_bit 8 x AND 0xFF) :: u8)) = x"
  unfolding and_0xFF
  by (rule bit_word_eqI) (auto simp: bit_or_iff bit_take_bit_iff bit_push_bit_iff bit_drop_bit_eq bit_ucast_iff)

lemma set_cursor_effect:
  assumes "vga_crtc bus index reg"
  shows "cursor_of (reg (dev (framebuffer_set_cursor bus r c io))) = of_nat (unat r * 80 + unat c)"
proof -
  have "cursor_of (reg (dev (framebuffer_set_cursor bus r c io))) =
      ucast (ucast ((of_nat (unat r * 80 + unat c) :: u16) AND 0xFF) :: u8) OR
      push_bit 8 (ucast (ucast (drop_bit 8 (of_nat (unat r * 80 + unat c) :: u16) AND 0xFF) :: u8))"
    using assms by (simp add: framebuffer_set_cursor_def vga_crtc_def Let_def cursor_of_def VGA_WIDTH_def)
  then show ?thesis by (simp only: split_u16)
qed

section \<open>The screen\<close>

text \<open>The cells in reading order, and the distance of an address from the first cell.\<close>

definition fb_offset :: "u32 \<Rightarrow> nat" where
  "fb_offset a = unat (a - FRAMEBUFFER_MEMORY_OFFSET)"

definition screen :: "mem \<Rightarrow> (u8 \<times> u8) list" where
  "screen m = map (\<lambda>n. (m (cell_addr 0 n 0), m (cell_addr 0 n 1))) [0..<2000]"

definition off_screen_same :: "mem \<Rightarrow> mem \<Rightarrow> bool" where
  "off_screen_same m m' \<longleftrightarrow> (\<forall>a. 4000 \<le> fb_offset a \<longrightarrow> m' a = m a)"

definition blank_cell :: "u8 \<times> u8" where
  "blank_cell = (0, 0x07)"

lemma offset_iff: "i < 2 ^ 32 \<Longrightarrow> a = p + of_nat i \<longleftrightarrow> unat (a - p :: u32) = i"
  by (metis add_unat_diff unat_diff_of_nat)

lemma cell_addr_iff: "(row * 80 + col) * 2 + b < 2 ^ 32 \<Longrightarrow> a = cell_addr row col b \<longleftrightarrow> fb_offset a = (row * 80 + col) * 2 + b"
  unfolding cell_addr_def fb_offset_def VGA_WIDTH_def by (rule offset_iff)

lemma fb_offset_cell [simp]: "(row * 80 + col) * 2 + b < 2 ^ 32 \<Longrightarrow> fb_offset (cell_addr row col b) = (row * 80 + col) * 2 + b"
  using cell_addr_iff by blast

lemma unat_u8_bound: "unat (x :: u8) < 256"
  using unsigned_less [of x] by simp

lemma framebuffer_write_at:
  "framebuffer_write m row col c fg bg a =
     (let p = unat row * 80 + unat col
      in if fb_offset a = 2 * p then c else if fb_offset a = 2 * p + 1 then fg OR bg else m a)"
  using unat_u8_bound [of row] unat_u8_bound [of col]
  by (auto simp: framebuffer_write_def cell_addr_iff Let_def)

lemma length_screen [simp]: "length (screen m) = 2000"
  by (simp add: screen_def)

lemma screen_eqI: "(\<And>n. n < 2000 \<Longrightarrow> f (cell_addr 0 n 0) = fst (xs ! n) \<and> f (cell_addr 0 n 1) = snd (xs ! n)) \<Longrightarrow> length xs = 2000 \<Longrightarrow> screen f = xs"
  by (auto simp: screen_def list_eq_iff_nth_eq prod_eq_iff)

lemma nth_screen: "n < 2000 \<Longrightarrow> screen m ! n = (m (cell_addr 0 n 0), m (cell_addr 0 n 1))"
  by (simp add: screen_def)

lemma screen_write:
  assumes "unat row * 80 + unat col = p" and "p < 2000"
  shows "screen (framebuffer_write m row col c fg bg) = (screen m)[p := (c, fg OR bg)]"
    and "off_screen_same m (framebuffer_write m row col c fg bg)"
  using assms by (auto simp: screen_eqI framebuffer_write_at nth_list_update nth_screen off_screen_same_def Let_def intro!: screen_eqI)

lemma off_screen_same_trans: "off_screen_same m m' \<Longrightarrow> off_screen_same m' m'' \<Longrightarrow> off_screen_same m m''"
  by (simp add: off_screen_same_def)

lemma off_screen_same_refl [simp]: "off_screen_same m m"
  by (simp add: off_screen_same_def)

subsection \<open>Clearing and scrolling\<close>

lemma fold_fill:
  assumes "\<And>k m. k < n \<Longrightarrow> f k m = (\<lambda>a. if P k a then g a else m a)"
  shows "fold f [0..<n] m = (\<lambda>a. if \<exists>k < n. P k a then g a else m a)"
  using assms by (induction n arbitrary: m) (auto simp: less_Suc_eq fun_eq_iff)

definition blank_byte :: "u32 \<Rightarrow> u8" where
  "blank_byte a = (if even (fb_offset a) then 0 else 0x07)"

lemma half_iff: "o' div 2 = n \<longleftrightarrow> o' = 2 * n \<or> o' = 2 * n + (1 :: nat)"
  by presburger

lemma write_blank:
  "framebuffer_write m row col 0 0x07 0x07 =
     (\<lambda>a. if fb_offset a div 2 = unat row * 80 + unat col then blank_byte a else m a)"
  by (auto simp: framebuffer_write_at half_iff blank_byte_def fun_eq_iff Let_def)

lemma set_cursor_unat:
  assumes "vga_crtc bus index reg"
  shows "unat (cursor_of (reg (dev (framebuffer_set_cursor bus r c io)))) = unat r * 80 + unat c"
  unfolding set_cursor_effect [OF assms] using unat_u8_bound [of r] unat_u8_bound [of c]
  by (subst unsigned_of_nat) (simp add: take_bit_eq_mod)

lemma small_u8 [simp]: "k < 256 \<Longrightarrow> unat (of_nat k :: u8) = k"
  by (simp add: unat_of_nat)

lemma clear_memory:
  "fst (framebuffer_clear bus m io) = (\<lambda>a. if fb_offset a div 2 < 2000 then blank_byte a else m a)"
proof -
  have column: "fold (\<lambda>j m. framebuffer_write m (of_nat j) (of_nat i) 0 0x07 0x07) [0..<25] m =
      (\<lambda>a. if \<exists>j < 25. fb_offset a div 2 = j * 80 + i then blank_byte a else m a)" if "i < 80" for i m
  proof (rule fold_fill)
    fix j :: nat and m assume "j < 25"
    then have "unat (of_nat j :: u8) = j" "unat (of_nat i :: u8) = i" using that by simp_all
    then show "framebuffer_write m (of_nat j) (of_nat i) 0 0x07 0x07 =
        (\<lambda>a. if fb_offset a div 2 = j * 80 + i then blank_byte a else m a)"
      unfolding write_blank by (simp only:)
  qed
  have "fst (framebuffer_clear bus m io) =
      (\<lambda>a. if \<exists>i < 80. \<exists>j < 25. fb_offset a div 2 = j * 80 + i then blank_byte a else m a)"
    unfolding framebuffer_clear_def fst_conv by (rule fold_fill, rule column)
  moreover have "(\<exists>i < 80. \<exists>j < 25. n = j * 80 + i) \<longleftrightarrow> n < 2000" for n :: nat
  proof
    assume "n < 2000"
    then have "n div 80 < 25" "n = n div 80 * 80 + n mod 80" by simp_all
    then show "\<exists>i < 80. \<exists>j < 25. n = j * 80 + i" by (metis mod_less_divisor zero_less_numeral)
  qed auto
  ultimately show ?thesis by simp
qed

lemma screen_blank: "screen (\<lambda>a. if fb_offset a div 2 < 2000 then blank_byte a else m a) = replicate 2000 blank_cell"
  by (rule screen_eqI) (simp_all add: blank_byte_def blank_cell_def)

text \<open>Moving a cell up is a move by 160 bytes.\<close>

lemma cell_below: "cell_addr (i + 1) j b = cell_addr i j b + 160"
  by (simp add: cell_addr_def VGA_WIDTH_def algebra_simps)

lemma shift_cell_at:
  assumes "i < 24" and "j < 80"
  shows "shift_cell i j m = (\<lambda>a. if fb_offset a div 2 = i * 80 + j then m (a + 160) else m a)"
proof -
  have b: "(i * 80 + j) * 2 + 1 < 2 ^ 32" using assms by simp
  then have addr: "fb_offset a div 2 = i * 80 + j \<longleftrightarrow> a = cell_addr i j 0 \<or> a = cell_addr i j 1" for a
    using cell_addr_iff [of i j 0 a] cell_addr_iff [of i j 1 a] by (simp add: half_iff mult.commute)
  have "fb_offset (cell_addr i j 1 + 160) = (i * 80 + j) * 2 + 161"
    using fb_offset_cell [of "i + 1" j 1] assms unfolding cell_below by simp
  moreover have "fb_offset (cell_addr i j 0) = (i * 80 + j) * 2" "fb_offset (cell_addr i j 1) = (i * 80 + j) * 2 + 1"
    using fb_offset_cell [of i j 0] fb_offset_cell [of i j 1] b by simp_all
  ultimately have "cell_addr i j 1 + 160 \<noteq> cell_addr i j 0" "cell_addr i j 1 \<noteq> cell_addr i j 0" by auto
  then show ?thesis unfolding shift_cell_def Let_def cell_below addr by (auto simp: fun_eq_iff)
qed

lemma shift_row:
  assumes "i < 24" and "n \<le> 80"
  shows "fold (shift_cell i) [0..<n] m = (\<lambda>a. if i * 80 \<le> fb_offset a div 2 \<and> fb_offset a div 2 < i * 80 + n then m (a + 160) else m a)"
  using assms(2)
proof (induction n)
  case (Suc n)
  have below: "fb_offset (a + 160) div 2 = i * 80 + n + 80" if "fb_offset a div 2 = i * 80 + n" for a
  proof -
    have "fb_offset a < 4000" using that assms(1) Suc.prems by linarith
    then have "fb_offset (a + 160) = fb_offset a + 160"
      using unat_add_small [of "a - FRAMEBUFFER_MEMORY_OFFSET" 160] by (simp add: fb_offset_def diff_add_eq)
    then show ?thesis using that by simp
  qed
  have step: "fold (shift_cell i) [0..<Suc n] m = shift_cell i n
      (\<lambda>a. if i * 80 \<le> fb_offset a div 2 \<and> fb_offset a div 2 < i * 80 + n then m (a + 160) else m a)" using Suc by simp
  have n: "n < 80" using Suc.prems by simp
  show ?case unfolding step shift_cell_at [OF assms(1) n] using below by (auto simp: fun_eq_iff)
qed (auto simp: fun_eq_iff)

lemma fb_offset_below: "fb_offset a < 4000 \<Longrightarrow> fb_offset (a + 160) = fb_offset a + 160"
  using unat_add_small [of "a - FRAMEBUFFER_MEMORY_OFFSET" 160] by (simp add: fb_offset_def diff_add_eq)

lemma shift_rows:
  assumes "n \<le> 24"
  shows "fold (\<lambda>i m. fold (shift_cell i) [0..<VGA_WIDTH] m) [0..<n] m = (\<lambda>a. if fb_offset a div 2 < n * 80 then m (a + 160) else m a)"
  using assms
proof (induction n)
  case (Suc n)
  have n: "n < 24" using Suc.prems by simp
  have step: "fold (\<lambda>i m. fold (shift_cell i) [0..<VGA_WIDTH] m) [0..<Suc n] m =
      fold (shift_cell n) [0..<80] (\<lambda>a. if fb_offset a div 2 < n * 80 then m (a + 160) else m a)"
    using Suc by (simp add: VGA_WIDTH_def)
  have "\<not> fb_offset (a + 160) div 2 < n * 80" if "n * 80 \<le> fb_offset a div 2" "fb_offset a div 2 < n * 80 + 80" for a
    using that n fb_offset_below [of a] by simp
  then show ?case unfolding step shift_row [OF n order_refl] by (auto simp: fun_eq_iff)
qed (auto simp: fun_eq_iff)

lemma shift_up_memory:
  "shift_up m = (\<lambda>a. if fb_offset a div 2 < 1920 then m (a + 160) else if fb_offset a div 2 < 2000 then blank_byte a else m a)"
proof -
  have last: "fold (\<lambda>j m. framebuffer_write m (of_nat (VGA_HEIGHT - 1)) (of_nat j) 0 0x07 0x07) [0..<80] f =
      (\<lambda>a. if \<exists>j < 80. fb_offset a div 2 = 1920 + j then blank_byte a else f a)" for f
  proof (rule fold_fill)
    fix j :: nat and m assume "j < 80"
    then have "unat (of_nat j :: u8) = j" by simp
    then show "framebuffer_write m (of_nat (VGA_HEIGHT - 1)) (of_nat j) 0 0x07 0x07 =
        (\<lambda>a. if fb_offset a div 2 = 1920 + j then blank_byte a else m a)"
      unfolding write_blank by (simp add: VGA_HEIGHT_def)
  qed
  have "(\<exists>j < 80. n = 1920 + j) \<longleftrightarrow> 1920 \<le> n \<and> n < (2000 :: nat)" for n by presburger
  then show ?thesis
    unfolding shift_up_def Let_def last using shift_rows [of 24 m] by (auto simp: VGA_HEIGHT_def fun_eq_iff)
qed

definition scroll :: "(u8 \<times> u8) list \<Rightarrow> (u8 \<times> u8) list" where
  "scroll scr = drop 80 scr @ replicate 80 blank_cell"

lemma screen_shift_up: "screen (shift_up m) = scroll (screen m)"
proof (rule screen_eqI)
  fix n :: nat assume n: "n < 2000"
  have "cell_addr 0 n b + 160 = cell_addr 0 (n + 80) b" for b by (simp add: cell_addr_def VGA_WIDTH_def algebra_simps)
  then show "shift_up m (cell_addr 0 n 0) = fst (scroll (screen m) ! n) \<and> shift_up m (cell_addr 0 n 1) = snd (scroll (screen m) ! n)"
    using n by (auto simp: shift_up_memory scroll_def nth_append nth_screen blank_cell_def blank_byte_def add.commute)
qed (simp add: scroll_def)

lemma off_screen_shift_up: "off_screen_same m (shift_up m)"
  by (auto simp: off_screen_same_def shift_up_memory div_less_iff_less_mult)

section \<open>The terminal\<close>

text \<open>
  The specification: a terminal is the list of its 2000 cells and the position of the cursor. A newline marks
  its cell and goes to the start of the next row; other characters fill the cell and advance; at the end the
  screen scrolls. A backspace inside a row empties the cell before the cursor; at the start of a row it
  goes back to the last cell before the cursor that is not empty.
\<close>

type_synonym terminal = "(u8 \<times> u8) list \<times> nat"

definition term_advance :: "terminal \<Rightarrow> terminal" where
  "term_advance t = (if snd t < 2000 then t else (scroll (fst t), 1920))"

fun last_filled :: "(u8 \<times> u8) list \<Rightarrow> nat \<Rightarrow> nat option" where
  "last_filled scr 0 = None"
| "last_filled scr (Suc n) = (if fst (scr ! n) \<noteq> 0 then Some n else last_filled scr n)"

definition term_put :: "u8 \<Rightarrow> u8 \<Rightarrow> terminal \<Rightarrow> terminal option" where
  "term_put c color t = (case t of (scr, p) \<Rightarrow>
     if c = 0 then Some t
     else if c = 10 then Some (term_advance (scr[p := (10, 0)], (p div 80 + 1) * 80))
     else if c = 8 then
       if 0 < p mod 80 then Some (scr[p - 1 := blank_cell], p - 1)
       else if p = 0 then Some t
       else map_option (\<lambda>q. (scr[q := blank_cell], q)) (last_filled scr p)
     else Some (term_advance (scr[p := (c, color)], p + 1)))"

text \<open>The terminal that memory and display controller show.\<close>

definition shows_terminal :: "('d \<Rightarrow> u8 \<Rightarrow> u8) \<Rightarrow> mem \<times> 'd io \<Rightarrow> terminal \<Rightarrow> bool" where
  "shows_terminal reg s t \<longleftrightarrow>
     screen (fst s) = fst t \<and> unat (cursor_of (reg (dev (snd s)))) = snd t \<and> snd t < 2000"

lemma last_filled_bound: "last_filled scr p = Some q \<Longrightarrow> q < p"
  by (induction p) (auto split: if_splits)

lemma div_mod_u16:
  "unat ((x :: u16) div of_nat VGA_WIDTH) = unat x div 80" "unat (x mod of_nat VGA_WIDTH) = unat x mod 80"
  by (simp_all add: VGA_WIDTH_def unat_div unat_mod)

lemma unat_ucast_u8: "unat (ucast (x :: u16) :: u8) = unat x mod 256"
  by (simp add: unsigned_ucast_eq take_bit_eq_mod)

lemma screen_get:
  assumes "unat row * 80 + unat col < 2000" and "unat row < 256" and "unat col < 256"
  shows "framebuffer_get m (ucast (row :: u16)) (ucast (col :: u16)) = fst (screen m ! (unat row * 80 + unat col))"
  using assms by (simp add: framebuffer_get_def unat_ucast_u8 nth_screen cell_addr_def VGA_WIDTH_def)

text \<open>The scan of the backspace branch finds the last filled cell, if there is one.\<close>

lemma erase_scan_last:
  assumes "last_filled (screen m) (Suc (unat row * 80 + unat col)) = Some q" and "unat row < 25" and "unat col < 80"
  shows "\<exists>r c. erase_scan m row col = Some (r, c) \<and> unat r * 80 + unat c = q \<and> unat r < 25 \<and> unat c < 80"
  using assms
proof (induction "unat row * 80 + unat col" arbitrary: row col rule: less_induct)
  case less
  let ?n = "unat row * 80 + unat col"
  have get: "framebuffer_get m (ucast row) (ucast col) = fst (screen m ! ?n)" using less.prems by (intro screen_get) simp_all
  show ?case
  proof (cases "fst (screen m ! ?n) = 0")
    case False
    then show ?thesis using less.prems get by (subst erase_scan.simps) auto
  next
    case empty: True
    then have rest: "last_filled (screen m) ?n = Some q" using less.prems(1) by simp
    then have pos: "0 < ?n" by (cases ?n) auto
    show ?thesis
    proof (cases "col = 0")
      case True
      then have "row \<noteq> 0" using pos by auto
      then have row: "unat (row - 1) = unat row - 1" "0 < unat row" by (simp_all add: unat_minus_one unat_gt_0)
      have c: "unat (of_nat VGA_WIDTH - 1 :: u16) = 79" by (simp add: VGA_WIDTH_def)
      have n: "Suc (unat (row - 1) * 80 + unat (of_nat VGA_WIDTH - 1 :: u16)) = ?n" using True row c by simp
      have "erase_scan m row col = erase_scan m (row - 1) (of_nat VGA_WIDTH - 1)"
        using empty get True by (subst erase_scan.simps) simp
      then show ?thesis using less.hyps [of "row - 1" "of_nat VGA_WIDTH - 1"] n rest row c less.prems(2) by simp
    next
      case False
      then have col: "unat (col - 1) = unat col - 1" "0 < unat col" by (simp_all add: unat_minus_one unat_gt_0)
      have n: "Suc (unat row * 80 + unat (col - 1)) = ?n" using col by simp
      have "erase_scan m row col = erase_scan m row (col - 1)" using empty get False by (subst erase_scan.simps) simp
      then show ?thesis using less.hyps [of row "col - 1"] n rest col less.prems(2,3) by simp
    qed
  qed
qed

lemma unat_Suc_u16: "unat (x :: u16) < 1000 \<Longrightarrow> unat (x + 1) = unat x + 1"
  by (subst unat_add_lem [THEN iffD1]) simp_all

lemma put_blank:
  assumes "unat (r :: u16) * 80 + unat (c :: u16) < 2000" and "unat r < 25" and "unat c < 80"
  shows "screen (framebuffer_write m (ucast r) (ucast c) x fg bg) = (screen m)[unat r * 80 + unat c := (x, fg OR bg)]"
    and "off_screen_same m (framebuffer_write m (ucast r) (ucast c) x fg bg)"
  using assms by (auto simp: screen_write unat_ucast_u8)

lemma putchar_cell_refines:
  assumes "unat row < 25" and "unat col < 80" and "c \<noteq> 0"
    and "term_put c (ucast color) (screen m, unat row * 80 + unat col) = Some t"
  shows "\<exists>m' r' c'. putchar_cell m c color row col = Some (m', r', c') \<and> off_screen_same m m' \<and> unat c' \<le> 80 \<and> unat r' \<le> 25 \<and>
    unat r' * 80 + unat c' \<le> 2000 \<and> t = term_advance (screen m', unat r' * 80 + unat c')"
proof -
  let ?p = "unat row * 80 + unat col"
  have p: "?p < 2000" "?p div 80 = unat row" "?p mod 80 = unat col" using assms(1,2) by auto
  note wr = put_blank [OF p(1) assms(1,2)]
  consider (newline) "c = 10" | (left) "c = 8" "0 < unat col" | (top) "c = 8" "unat col = 0" "?p = 0"
    | (line) "c = 8" "unat col = 0" "?p \<noteq> 0" | (char) "c \<noteq> 10" "c \<noteq> 8" by fastforce
  then show ?thesis
  proof cases
    case newline
    then show ?thesis using assms p wr by (auto simp: putchar_cell_def term_put_def unat_Suc_u16)
  next
    case left
    then have c: "unat (col - 1) = unat col - 1" "col > 0" by (auto simp: unat_minus_one word_gt_0 unat_gt_0)
    then have "unat row * 80 + unat (col - 1) = ?p - 1" using left by simp
    then show ?thesis
      using left c assms p put_blank [of row "col - 1" m 0 7 7]
      by (auto simp: putchar_cell_def term_put_def term_advance_def blank_cell_def Let_def)
  next
    case top
    then show ?thesis using assms p
      by (auto simp: putchar_cell_def term_put_def term_advance_def word_gt_0 unat_gt_0 unat_eq_zero)
  next
    case line
    then have "row \<noteq> 0" "col = 0" by (auto simp: unat_eq_zero)
    then have row: "unat (row - 1) = unat row - 1" "0 < unat row" "row > 0" by (simp_all add: unat_minus_one unat_gt_0 word_gt_0)
    obtain q where q: "last_filled (screen m) ?p = Some q" "t = ((screen m)[q := blank_cell], q)"
      using assms(4) line p by (auto simp: term_put_def)
    have n: "Suc (unat (row - 1) * 80 + unat (of_nat VGA_WIDTH - 1 :: u16)) = ?p" using row line by (simp add: VGA_WIDTH_def)
    obtain r' c' where s: "erase_scan m (row - 1) (of_nat VGA_WIDTH - 1) = Some (r', c')" "unat r' * 80 + unat c' = q" "unat r' < 25" "unat c' < 80"
    proof -
      have "unat (row - 1) < 25" "unat (of_nat VGA_WIDTH - 1 :: u16) < 80" using row assms(1) by (simp_all add: VGA_WIDTH_def)
      then show ?thesis using that erase_scan_last [of m "row - 1" "of_nat VGA_WIDTH - 1" q] n q(1) by auto
    qed
    then show ?thesis using line row \<open>col = 0\<close> q last_filled_bound [OF q(1)] p put_blank [of r' c' m 0 7 7]
      by (auto simp: putchar_cell_def term_advance_def blank_cell_def)
  next
    case char
    then show ?thesis using assms p wr by (auto simp: putchar_cell_def term_put_def unat_Suc_u16)
  qed
qed

lemma wrap_column:
  assumes "unat (c :: u16) \<le> 80" and "unat (r :: u16) \<le> 25" and "unat r * 80 + unat c \<le> 2000"
  shows "unat (r + c div of_nat VGA_WIDTH) * 80 + unat (c mod of_nat VGA_WIDTH) = unat r * 80 + unat c"
    and "unat (r + c div of_nat VGA_WIDTH) \<le> 25" and "unat (c mod of_nat VGA_WIDTH) < 80"
proof -
  have sum: "unat (r + c div of_nat VGA_WIDTH) = unat r + unat c div 80"
    using assms by (subst unat_add_lem [THEN iffD1]) (simp_all add: div_mod_u16)
  show "unat (r + c div of_nat VGA_WIDTH) * 80 + unat (c mod of_nat VGA_WIDTH) = unat r * 80 + unat c"
    unfolding sum div_mod_u16 by simp
  show "unat (r + c div of_nat VGA_WIDTH) \<le> 25" unfolding sum using assms by linarith
  show "unat (c mod of_nat VGA_WIDTH) < 80" by (simp add: div_mod_u16)
qed

lemma putchar_refines:
  assumes crtc: "vga_crtc bus index reg" and shown: "shows_terminal reg (m, io) t" and put: "term_put c (ucast color) t = Some t'"
  shows "\<exists>m' io'. putchar bus (m, io) c color = Some (m', io') \<and> shows_terminal reg (m', io') t' \<and> off_screen_same m m'"
proof (cases "c = 0")
  case True
  then show ?thesis using shown put by (auto simp: putchar_def term_put_def split: prod.splits)
next
  case False
  let ?pos = "cursor_of (reg (dev io))"
  obtain io1 where g1: "get_cursor_pos bus io = (?pos, io1)" "reg (dev io1) = reg (dev io)"
    using get_cursor_effect [OF crtc, of io] by (metis prod.collapse)
  obtain io2 where g2: "get_cursor_pos bus io1 = (?pos, io2)"
    using get_cursor_effect [OF crtc, of io1] g1(2) by (metis prod.collapse)
  let ?row = "?pos div of_nat VGA_WIDTH" and ?col = "?pos mod of_nat VGA_WIDTH"
  have p: "unat ?pos < 2000" "t = (screen m, unat ?pos)" using shown by (auto simp: shows_terminal_def)
  have rc: "unat ?row < 25" "unat ?col < 80" "unat ?row * 80 + unat ?col = unat ?pos" using p by (auto simp: div_mod_u16)
  obtain m1 r1 c1 where cell: "putchar_cell m c color ?row ?col = Some (m1, r1, c1)" "off_screen_same m m1" "unat c1 \<le> 80" "unat r1 \<le> 25"
    "unat r1 * 80 + unat c1 \<le> 2000" "t' = term_advance (screen m1, unat r1 * 80 + unat c1)"
    using putchar_cell_refines [OF rc(1,2) False, of color m t'] put p rc(3) by auto
  let ?r = "r1 + c1 div of_nat VGA_WIDTH" and ?c = "c1 mod of_nat VGA_WIDTH"
  note wrap = wrap_column [OF cell(3-5)]
  have run: "putchar bus (m, io) c color = (let (m', r') = if ?r = of_nat VGA_HEIGHT then (shift_up m1, of_nat VGA_HEIGHT - 1) else (m1, ?r)
      in Some (m', framebuffer_set_cursor bus (ucast r') (ucast ?c) io2))"
    using False g1(1) g2 cell(1) by (simp add: putchar_def Let_def)
  have h: "?r = of_nat VGA_HEIGHT \<longleftrightarrow> unat ?r = 25" by (simp add: VGA_HEIGHT_def word_unat_eq_iff)
  show ?thesis
  proof (cases "unat ?r = 25")
    case True
    then have c: "unat ?c = 0" "unat r1 * 80 + unat c1 = 2000" using wrap(1) cell(5) by linarith+
    then have "?c = 0" by (simp only: unat_eq_zero)
    then show ?thesis
      using run h True c cell(2,6) set_cursor_unat [OF crtc, of "ucast (of_nat VGA_HEIGHT - 1 :: u16)" "ucast ?c" io2]
      by (auto simp: shows_terminal_def term_advance_def screen_shift_up VGA_HEIGHT_def
          intro: off_screen_same_trans off_screen_shift_up)
  next
    case no: False
    then have r: "unat ?r < 25" using wrap(2) by simp
    then have lt: "unat ?r * 80 + unat ?c < 2000" using wrap(3) by linarith
    have "unat (cursor_of (reg (dev (framebuffer_set_cursor bus (ucast ?r) (ucast ?c) io2)))) = unat ?r * 80 + unat ?c"
      unfolding set_cursor_unat [OF crtc] using r wrap(3) by (simp only: unat_ucast_u8) simp
    then show ?thesis using run h no lt wrap(1) cell(2,6) by (auto simp: shows_terminal_def term_advance_def)
  qed
qed

lemma puts_refines:
  assumes "vga_crtc bus index reg" and "shows_terminal reg s t"
    and "foldl (\<lambda>t c. Option.bind t (term_put c (ucast color))) (Some t) cs = Some t'"
  shows "\<exists>s'. puts bus s cs color = Some s' \<and> shows_terminal reg s' t' \<and> off_screen_same (fst s) (fst s')"
  using assms(2,3)
proof (induction cs arbitrary: s t)
  case (Cons c cs)
  have none: "foldl (\<lambda>t c. Option.bind t (term_put c (ucast color))) None cs = None" for cs by (induction cs) simp_all
  obtain t1 where t1: "term_put c (ucast color) t = Some t1" using Cons.prems(2) none by (cases "term_put c (ucast color) t") auto
  obtain m io where s: "s = (m, io)" by fastforce
  obtain s1 where s1: "putchar bus s c color = Some s1" "shows_terminal reg s1 t1" "off_screen_same (fst s) (fst s1)"
    using putchar_refines [OF assms(1) _ t1] Cons.prems(1) s by fastforce
  then show ?case using Cons.IH [OF s1(2)] Cons.prems(2) t1 by (auto intro: off_screen_same_trans)
qed auto

section \<open>Properties\<close>

text \<open>A display controller with the two registers, and the text screen it shows.\<close>

definition crtc :: "(u8 \<times> (u8 \<Rightarrow> u8)) bus" where
  "crtc = \<lparr>bus_in = (\<lambda>port d. (if port = 0x3D5 then snd d (fst d) else 0, d)),
     bus_out = (\<lambda>port v d. if port = 0x3D4 then (v, snd d) else if port = 0x3D5 then (fst d, (snd d)(fst d := v)) else d),
     bus_in16 = (\<lambda>port d. (0, d)), bus_out16 = (\<lambda>port v d. d)\<rparr>"

definition top_left :: "(u8 \<times> (u8 \<Rightarrow> u8)) io" where
  "top_left = \<lparr>dev = (0, \<lambda>_. 0), interrupt_flag = True\<rparr>"

lemma crtc_ok: "vga_crtc crtc fst snd"
  by (simp add: vga_crtc_def crtc_def)

text \<open>
  C31: \<open>puts\<close> refines the terminal. On a display controller that keeps its registers, printing a string does to the
  cells and to the cursor exactly what the terminal specification says character by character, including
  newlines, backspaces, the wrap at the end of a row and scrolling at the end of the screen, and touches no
  memory outside the screen. It returns whenever the specification has a result, that is unless a backspace at the
  start of a row finds only empty cells above.
\<close>

theorem puts_terminal:
  assumes "vga_crtc bus index reg" and "shows_terminal reg s t"
    and "foldl (\<lambda>t c. Option.bind t (term_put c (ucast color))) (Some t) cs = Some t'"
  shows "\<exists>s'. puts bus s cs color = Some s' \<and> shows_terminal reg s' t' \<and> off_screen_same (fst s) (fst s')"
  using assms by (rule puts_refines)

theorem puts_terminal_witness:
  "\<exists>s'. puts crtc (\<lambda>_. 0, top_left) [111, 115, 10, 8] 0x0F = Some s' \<and>
     shows_terminal snd s' ((replicate 2000 (0, 0))[0 := (111, 0x0F), 1 := (115, 0x0F), 2 := blank_cell], 2)"
proof -
  have shown: "shows_terminal snd (\<lambda>_. 0, top_left) (replicate 2000 (0, 0), 0)"
    by (simp add: shows_terminal_def top_left_def cursor_of_def screen_def map_replicate_const)
  define scr :: "(u8 \<times> u8) list" where "scr = (replicate 2000 (0, 0))[0 := (111, 0x0F), 1 := (115, 0x0F), 2 := (10, 0)]"
  have cell: "fst (scr ! k) = 0" if "3 \<le> k" "k < 80" for k using that by (simp add: scr_def)
  have empty: "last_filled scr n = last_filled scr (Suc 2)" if "Suc 2 \<le> n" "n \<le> 80" for n
    using that by (induction rule: dec_induct) (simp_all add: cell)
  have "fst (scr ! 2) = 10" by (simp add: scr_def)
  then have "last_filled scr (Suc 2) = Some 2" by (simp only: last_filled.simps) simp
  then have last: "last_filled scr 80 = Some 2" using empty [of 80] by simp
  have "foldl (\<lambda>t c. Option.bind t (term_put c (ucast (0x0F :: u32)))) (Some (replicate 2000 (0, 0), 0)) [111, 115, 10] = Some (scr, 80)"
    by (simp add: term_put_def term_advance_def scr_def) (simp only: numeral_2_eq_2)
  moreover have "term_put 8 (ucast (0x0F :: u32)) (scr, 80) = Some (scr[2 := blank_cell], 2)"
    by (simp add: term_put_def last)
  moreover have "scr[2 := blank_cell] = (replicate 2000 (0, 0))[0 := (111, 0x0F), 1 := (115, 0x0F), 2 := blank_cell]"
    by (simp add: scr_def)
  ultimately have "foldl (\<lambda>t c. Option.bind t (term_put c (ucast (0x0F :: u32)))) (Some (replicate 2000 (0, 0), 0)) [111, 115, 10, 8] =
      Some ((replicate 2000 (0, 0))[0 := (111, 0x0F), 1 := (115, 0x0F), 2 := blank_cell], 2)"
    by simp
  from puts_terminal [OF crtc_ok shown this] show ?thesis by blast
qed

text \<open>
  Clearing. After \<open>framebuffer_clear\<close> the terminal shows 2000 blank cells with the cursor at the top left, and no
  memory outside the screen has changed, whatever the screen showed before.
\<close>

theorem clear_terminal:
  assumes "vga_crtc bus index reg"
  shows "shows_terminal reg (framebuffer_clear bus m io) (replicate 2000 blank_cell, 0) \<and>
    off_screen_same m (fst (framebuffer_clear bus m io))"
proof -
  have "snd (framebuffer_clear bus m io) = framebuffer_set_cursor bus 0 0 io" by (simp add: framebuffer_clear_def)
  then show ?thesis using set_cursor_unat [OF assms, of 0 0 io]
    by (simp add: shows_terminal_def clear_memory screen_blank) (auto simp: off_screen_same_def div_less_iff_less_mult)
qed

theorem clear_terminal_witness: "shows_terminal snd (framebuffer_clear crtc (\<lambda>_. 65) top_left) (replicate 2000 blank_cell, 0)"
  using clear_terminal [OF crtc_ok] by blast

text \<open>
  Backspace above the text. At the start of a row with only empty cells above, the scan of \<open>putchar\<close> leaves the screen at the top: it goes on
  below row 0 at row 65535, that the cell access cuts to row 255, and reads memory behind the framebuffer.
\<close>

theorem backspace_leaves_screen:
  assumes "unat row < 25" and "unat col < 80" and "\<forall>n \<le> unat row * 80 + unat col. fst (screen m ! n) = 0"
  shows "erase_scan m row col = erase_scan m 0xFFFF 79"
  using assms
proof (induction "unat row * 80 + unat col" arbitrary: row col rule: less_induct)
  case less
  have get: "framebuffer_get m (ucast row) (ucast col) = 0" using less.prems by (subst screen_get) simp_all
  show ?case
  proof (cases "col = 0")
    case True
    then have "erase_scan m row col = erase_scan m (row - 1) 79" using get by (subst erase_scan.simps) (simp add: VGA_WIDTH_def)
    moreover have "erase_scan m (row - 1) 79 = erase_scan m 0xFFFF 79"
    proof (cases "row = 0")
      case False
      then have "unat (row - 1) = unat row - 1" "0 < unat row" by (simp_all add: unat_minus_one unat_gt_0)
      then show ?thesis using less.hyps [of "row - 1" 79] less.prems True by simp
    next
      case True
      moreover have "(- 1 :: u16) = 0xFFFF" by simp
      ultimately show ?thesis by (simp only: diff_0)
    qed
    ultimately show ?thesis by simp
  next
    case False
    then have "unat (col - 1) = unat col - 1" "0 < unat col" by (simp_all add: unat_minus_one unat_gt_0)
    moreover have "erase_scan m row col = erase_scan m row (col - 1)" using get False by (subst erase_scan.simps) simp
    ultimately show ?thesis using less.hyps [of row "col - 1"] less.prems by simp
  qed
qed

theorem backspace_leaves_screen_witness: "erase_scan (\<lambda>_. 0) 4 0 = erase_scan (\<lambda>_. 0) 0xFFFF 79"
  using backspace_leaves_screen [of 4 0 "\<lambda>_. 0"] by (simp add: nth_screen)

end
