(* ===== verification/Gdt.thy ===== *)
theory Gdt
  imports Layout
begin

text \<open>
  The segment descriptors (\<open>src/src/gdt.c\<close>, \<open>gdt.h\<close>) and the task state segment (\<open>interrupt.h\<close>): the table as it is
  initialised, the patch of the TSS base, the packed layout of a descriptor, and what the processor gets for each
  selector the kernel uses.
\<close>

section \<open>Definitions\<close>

definition GDT_MAX_ENTRY_COUNT :: nat where "GDT_MAX_ENTRY_COUNT = 32"
definition GDT_KERNEL_CODE_SEGMENT_SELECTOR :: u16 where "GDT_KERNEL_CODE_SEGMENT_SELECTOR = 0x8"
definition GDT_KERNEL_DATA_SEGMENT_SELECTOR :: u16 where "GDT_KERNEL_DATA_SEGMENT_SELECTOR = 0x10"
definition GDT_USER_CODE_SEGMENT_SELECTOR :: u16 where "GDT_USER_CODE_SEGMENT_SELECTOR = 0x18"
definition GDT_USER_DATA_SEGMENT_SELECTOR :: u16 where "GDT_USER_DATA_SEGMENT_SELECTOR = 0x20"
definition GDT_TSS_SELECTOR :: u16 where "GDT_TSS_SELECTOR = 0x28"

lemmas gdt_selectors = GDT_KERNEL_CODE_SEGMENT_SELECTOR_def GDT_KERNEL_DATA_SEGMENT_SELECTOR_def
  GDT_USER_CODE_SEGMENT_SELECTOR_def GDT_USER_DATA_SEGMENT_SELECTOR_def GDT_TSS_SELECTOR_def

record SegmentDescriptor =
  segment_low :: u16
  base_low :: u16
  base_mid :: u8
  type_bit :: "4 word"
  non_system :: "1 word"
  privilege_level :: "2 word"
  present :: "1 word"
  limit_high :: "4 word"
  avl :: "1 word"
  l_bit :: "1 word"
  db :: "1 word"
  granularity :: "1 word"
  base_high :: u8

text \<open>\<open>struct TSSEntry\<close>: three used words and 23 unused ones.\<close>

record TSSEntry =
  prev_tss :: u32
  esp0 :: u32
  ss0 :: u32
  unused_register :: "u32 list"

definition sizeof_TSSEntry :: u32 where "sizeof_TSSEntry = 3 * 4 + 23 * 4"

definition null_descriptor :: SegmentDescriptor where
  "null_descriptor = \<lparr>segment_low = 0, base_low = 0, base_mid = 0, type_bit = 0, non_system = 0, privilege_level = 0, present = 0,
     limit_high = 0, avl = 0, l_bit = 0, db = 0, granularity = 0, base_high = 0\<rparr>"

definition kernel_code :: SegmentDescriptor where
  "kernel_code = \<lparr>segment_low = 0xFFFF, base_low = 0, base_mid = 0, type_bit = 0xA, non_system = 1, privilege_level = 0, present = 1,
     limit_high = 0xF, avl = 0, l_bit = 0, db = 1, granularity = 1, base_high = 0\<rparr>"

definition kernel_data :: SegmentDescriptor where
  "kernel_data = \<lparr>segment_low = 0xFFFF, base_low = 0, base_mid = 0, type_bit = 0x2, non_system = 1, privilege_level = 0, present = 1,
     limit_high = 0xF, avl = 0, l_bit = 0, db = 1, granularity = 1, base_high = 0\<rparr>"

definition user_code :: SegmentDescriptor where
  "user_code = \<lparr>segment_low = 0xFFFF, base_low = 0, base_mid = 0, type_bit = 0xA, non_system = 1, privilege_level = 3, present = 1,
     limit_high = 0xF, avl = 0, l_bit = 0, db = 1, granularity = 1, base_high = 0\<rparr>"

definition user_data :: SegmentDescriptor where
  "user_data = \<lparr>segment_low = 0xFFFF, base_low = 0, base_mid = 0, type_bit = 0x2, non_system = 1, privilege_level = 3, present = 1,
     limit_high = 0xF, avl = 0, l_bit = 0, db = 1, granularity = 1, base_high = 0\<rparr>"

definition tss_descriptor :: SegmentDescriptor where
  "tss_descriptor = \<lparr>segment_low = ucast sizeof_TSSEntry, base_low = 0, base_mid = 0, type_bit = 0x9, non_system = 0, privilege_level = 0, present = 1,
     limit_high = ucast (drop_bit 16 (sizeof_TSSEntry AND push_bit 16 0xF)), avl = 0, l_bit = 0, db = 1, granularity = 0, base_high = 0\<rparr>"

definition global_descriptor_table :: "SegmentDescriptor list" where
  "global_descriptor_table = [null_descriptor, kernel_code, kernel_data, user_code, user_data, tss_descriptor]
     @ replicate (GDT_MAX_ENTRY_COUNT - 6) null_descriptor"

text \<open>\<open>base\<close> is the address of \<open>_interrupt_tss_entry\<close>.\<close>

definition gdt_install_tss :: "u32 \<Rightarrow> SegmentDescriptor list \<Rightarrow> SegmentDescriptor list" where
  "gdt_install_tss base table =
     table[5 := (table ! 5)\<lparr>base_high := ucast (drop_bit 24 (base AND push_bit 24 0xFF)),
        base_mid := ucast (drop_bit 16 (base AND push_bit 16 0xFF)), base_low := ucast (base AND 0xFFFF)\<rparr>]"

text \<open>\<open>_gdt_gdtr\<close>: the size of the table minus one, and its address.\<close>

definition gdt_gdtr :: "u32 \<Rightarrow> u16 \<times> u32" where
  "gdt_gdtr table_addr = (of_nat (GDT_MAX_ENTRY_COUNT * 8 - 1), table_addr)"

section \<open>The packed layout\<close>

text \<open>The eight bytes of a descriptor: bit fields fill their byte from the low end.\<close>

definition descriptor_bytes :: "SegmentDescriptor \<Rightarrow> u8 list" where
  "descriptor_bytes d = le16 (segment_low d) @ le16 (base_low d) @
     [base_mid d,
      ucast (type_bit d) OR push_bit 4 (ucast (non_system d)) OR push_bit 5 (ucast (privilege_level d)) OR push_bit 7 (ucast (present d)),
      ucast (limit_high d) OR push_bit 4 (ucast (avl d)) OR push_bit 5 (ucast (l_bit d)) OR push_bit 6 (ucast (db d)) OR push_bit 7 (ucast (granularity d)),
      base_high d]"

text \<open>What the processor takes from the bytes: base address and the last valid offset of the segment.\<close>

definition segment_base :: "SegmentDescriptor \<Rightarrow> u32" where
  "segment_base d = push_bit 24 (ucast (base_high d)) OR push_bit 16 (ucast (base_mid d)) OR ucast (base_low d)"

definition segment_limit :: "SegmentDescriptor \<Rightarrow> u32" where
  "segment_limit d = (let limit = push_bit 16 (ucast (limit_high d)) OR ucast (segment_low d)
     in if granularity d = 1 then push_bit 12 limit OR 0xFFF else limit)"

text \<open>The descriptor that a selector stands for: its index is in the bits from 3 on.\<close>

definition selected :: "SegmentDescriptor list \<Rightarrow> u16 \<Rightarrow> SegmentDescriptor" where
  "selected table selector = table ! unat (drop_bit 3 selector)"

section \<open>Properties\<close>

lemmas descriptors = null_descriptor_def kernel_code_def kernel_data_def user_code_def user_data_def tss_descriptor_def

lemma install_other: "i \<noteq> 5 \<Longrightarrow> gdt_install_tss base table ! i = table ! i"
  by (simp add: gdt_install_tss_def)

lemma tss_base_roundtrip:
  "push_bit 24 (ucast (ucast (drop_bit 24 (base AND push_bit 24 0xFF)) :: u8)) OR push_bit 16 (ucast (ucast (drop_bit 16 (base AND push_bit 16 0xFF)) :: u8))
     OR ucast (ucast (base AND 0xFFFF) :: u16) = (base :: u32)"
proof -
  have m: "(0xFF :: u32) = mask 8" "(0xFFFF :: u32) = mask 16" by (simp_all add: mask_eq_exp_minus_1)
  show ?thesis unfolding m
  proof (rule bit_word_eqI, goal_cases)
    case (1 n)
    have "n < 16 \<or> 16 \<le> n \<and> n < 24 \<or> 24 \<le> n" by linarith
    then show ?case using 1
      by (elim disjE) (auto simp: bit_or_iff bit_and_iff bit_mask_iff bit_push_bit_iff bit_drop_bit_eq bit_ucast_iff)
  qed
qed

text \<open>
  The segments. After \<open>gdt_install_tss\<close> the four code and data selectors stand for segments over the whole 4 GiB address space, code
  ones executable and data ones writable, at the privilege level the selector is used with; the TSS selector stands for an available
  32-bit task state segment at the address of the kernel's TSS; and entry 0 is the null descriptor.
\<close>

theorem segments:
  "let table = gdt_install_tss base global_descriptor_table in
   list_all (\<lambda>selector. segment_base (selected table selector) = 0 \<and> segment_limit (selected table selector) = 0xFFFFFFFF \<and>
        present (selected table selector) = 1 \<and> non_system (selected table selector) = 1)
     [GDT_KERNEL_CODE_SEGMENT_SELECTOR, GDT_KERNEL_DATA_SEGMENT_SELECTOR, GDT_USER_CODE_SEGMENT_SELECTOR, GDT_USER_DATA_SEGMENT_SELECTOR] \<and>
   descriptor_bytes (selected table GDT_KERNEL_CODE_SEGMENT_SELECTOR) = [0xFF, 0xFF, 0, 0, 0, 0x9A, 0xCF, 0] \<and>
   descriptor_bytes (selected table GDT_KERNEL_DATA_SEGMENT_SELECTOR) = [0xFF, 0xFF, 0, 0, 0, 0x92, 0xCF, 0] \<and>
   descriptor_bytes (selected table (GDT_USER_CODE_SEGMENT_SELECTOR OR 3)) = [0xFF, 0xFF, 0, 0, 0, 0xFA, 0xCF, 0] \<and>
   descriptor_bytes (selected table (GDT_USER_DATA_SEGMENT_SELECTOR OR 3)) = [0xFF, 0xFF, 0, 0, 0, 0xF2, 0xCF, 0] \<and>
   segment_base (selected table GDT_TSS_SELECTOR) = base \<and> type_bit (selected table GDT_TSS_SELECTOR) = 9 \<and>
   segment_limit (selected table GDT_TSS_SELECTOR) = sizeof_TSSEntry \<and> table ! 0 = null_descriptor \<and> length table = 32"
proof -
  let ?t = "gdt_install_tss base global_descriptor_table"
  have sel: "selected ?t 0x8 = kernel_code" "selected ?t 0x10 = kernel_data" "selected ?t 0x18 = user_code" "selected ?t 0x20 = user_data"
    "selected ?t 0x1B = user_code" "selected ?t 0x23 = user_data" "?t ! 0 = null_descriptor" "length ?t = 32"
    by (simp_all add: selected_def install_other global_descriptor_table_def GDT_MAX_ENTRY_COUNT_def gdt_install_tss_def)
  have tss: "segment_base (selected ?t 0x28) = base" "type_bit (selected ?t 0x28) = 9" "segment_limit (selected ?t 0x28) = sizeof_TSSEntry"
    using tss_base_roundtrip [of base]
    by (simp_all add: selected_def gdt_install_tss_def global_descriptor_table_def GDT_MAX_ENTRY_COUNT_def segment_base_def segment_limit_def
        tss_descriptor_def sizeof_TSSEntry_def Let_def)
  show ?thesis
    unfolding Let_def gdt_selectors using sel tss
    by (simp add: segment_base_def segment_limit_def descriptors descriptor_bytes_def le16_def)
qed

end
