(* ===== verification/Idt.thy ===== *)
theory Idt
  imports Gdt Portio
begin

text \<open>
  The interrupt descriptor table (\<open>src/src/idt.c\<close>, \<open>idt.h\<close>). The entry points \<open>isr_stub_table\<close> are labels of the assembly
  part and a parameter of the model.
\<close>

section \<open>Definitions\<close>

definition IDT_MAX_ENTRY_COUNT :: nat where "IDT_MAX_ENTRY_COUNT = 256"
definition ISR_STUB_TABLE_LIMIT :: nat where "ISR_STUB_TABLE_LIMIT = 64"
definition INTERRUPT_GATE_R_BIT_1 :: "3 word" where "INTERRUPT_GATE_R_BIT_1 = 0"
definition INTERRUPT_GATE_R_BIT_2 :: "3 word" where "INTERRUPT_GATE_R_BIT_2 = 6"
definition INTERRUPT_GATE_R_BIT_3 :: "1 word" where "INTERRUPT_GATE_R_BIT_3 = 0"

record IDTGate =
  offset_low :: u16
  gate_segment :: u16
  reserved_bits :: "5 word"
  r_bit_1 :: "3 word"
  r_bit_2 :: "3 word"
  gate_32 :: "1 word"
  r_bit_3 :: "1 word"
  dpl :: "2 word"
  valid_bit :: "1 word"
  offset_high :: u16

definition zero_gate :: IDTGate where
  "zero_gate = \<lparr>offset_low = 0, gate_segment = 0, reserved_bits = 0, r_bit_1 = 0, r_bit_2 = 0, gate_32 = 0, r_bit_3 = 0, dpl = 0,
     valid_bit = 0, offset_high = 0\<rparr>"

text \<open>\<open>interrupt_descriptor_table\<close> before the boot code fills it, and \<open>_idt_idtr\<close>.\<close>

definition interrupt_descriptor_table :: "IDTGate list" where
  "interrupt_descriptor_table = replicate IDT_MAX_ENTRY_COUNT zero_gate"

definition idt_idtr :: "u32 \<Rightarrow> u16 \<times> u32" where
  "idt_idtr location = (of_nat (IDT_MAX_ENTRY_COUNT * 8 - 1), location)"

definition set_interrupt_gate :: "IDTGate list \<Rightarrow> u8 \<Rightarrow> u32 \<Rightarrow> u16 \<Rightarrow> u8 \<Rightarrow> IDTGate list" where
  "set_interrupt_gate table int_vector handler_address gdt_seg_selector privilege =
     (let g = table ! unat int_vector;
          g = g\<lparr>offset_low := ucast (handler_address AND 0xFFFF)\<rparr>;
          g = g\<lparr>offset_high := ucast (drop_bit 16 handler_address AND 0xFFFF)\<rparr>;
          g = g\<lparr>gate_segment := gdt_seg_selector\<rparr>;
          g = g\<lparr>dpl := ucast privilege\<rparr>;
          g = g\<lparr>r_bit_1 := INTERRUPT_GATE_R_BIT_1, r_bit_2 := INTERRUPT_GATE_R_BIT_2, r_bit_3 := INTERRUPT_GATE_R_BIT_3, gate_32 := 1, valid_bit := 1\<rparr>
      in table[unat int_vector := g])"

text \<open>The loop, and the \<open>lidt\<close> and \<open>sti\<close> at the end.\<close>

definition initialize_idt :: "(nat \<Rightarrow> u32) \<Rightarrow> IDTGate list \<Rightarrow> 'd io \<Rightarrow> IDTGate list \<times> 'd io" where
  "initialize_idt isr_stub_table table io =
     (fold (\<lambda>i table.
        if 0x30 \<le> i \<and> i \<le> 0x3F then set_interrupt_gate table (of_nat i) (isr_stub_table i) GDT_KERNEL_CODE_SEGMENT_SELECTOR 3
        else set_interrupt_gate table (of_nat i) (isr_stub_table i) GDT_KERNEL_CODE_SEGMENT_SELECTOR 0) [0..<ISR_STUB_TABLE_LIMIT] table,
      sti io)"

section \<open>The packed layout\<close>

definition gate_bytes :: "IDTGate \<Rightarrow> u8 list" where
  "gate_bytes g = le16 (offset_low g) @ le16 (gate_segment g) @
     [ucast (reserved_bits g) OR push_bit 5 (ucast (r_bit_1 g)),
      ucast (r_bit_2 g) OR push_bit 3 (ucast (gate_32 g)) OR push_bit 4 (ucast (r_bit_3 g)) OR push_bit 5 (ucast (dpl g)) OR push_bit 7 (ucast (valid_bit g))] @
     le16 (offset_high g)"

lemma gate_offset_bytes:
  "le16 (ucast (h AND 0xFFFF :: u32)) = take 2 (le32 h)" "le16 (ucast (drop_bit 16 h AND 0xFFFF)) = drop 2 (le32 h)"
proof -
  have m: "(0xFFFF :: u32) = mask 16" by (simp add: mask_eq_exp_minus_1)
  show "le16 (ucast (h AND 0xFFFF :: u32)) = take 2 (le32 h)" "le16 (ucast (drop_bit 16 h AND 0xFFFF)) = drop 2 (le32 h)"
    unfolding m le16_def le32_def
    by (auto intro!: bit_word_eqI simp: bit_and_iff bit_mask_iff bit_drop_bit_eq bit_ucast_iff)
qed

lemma set_gate_nth:
  "length table = 256 \<Longrightarrow> i < 256 \<Longrightarrow> set_interrupt_gate table v h s p ! i =
     (if i = unat v then (table ! i)\<lparr>offset_low := ucast (h AND 0xFFFF), offset_high := ucast (drop_bit 16 h AND 0xFFFF), gate_segment := s,
        dpl := ucast p, r_bit_1 := 0, r_bit_2 := 6, r_bit_3 := 0, gate_32 := 1, valid_bit := 1\<rparr> else table ! i)"
  using unsigned_less [of v]
  by (simp add: set_interrupt_gate_def Let_def nth_list_update INTERRUPT_GATE_R_BIT_1_def INTERRUPT_GATE_R_BIT_2_def INTERRUPT_GATE_R_BIT_3_def)

lemma length_set_gate [simp]: "length (set_interrupt_gate table v h s p) = length table"
  by (simp add: set_interrupt_gate_def Let_def)

lemma gates_installed:
  assumes "length table = 256" and "n \<le> 256" and "i < 256"
  shows "fold (\<lambda>i table. set_interrupt_gate table (of_nat i) (h i) s (p i)) [0..<n] table ! i =
    (if i < n then (table ! i)\<lparr>offset_low := ucast (h i AND 0xFFFF), offset_high := ucast (drop_bit 16 (h i) AND 0xFFFF), gate_segment := s,
        dpl := ucast (p i), r_bit_1 := 0, r_bit_2 := 6, r_bit_3 := 0, gate_32 := 1, valid_bit := 1\<rparr> else table ! i) \<and>
    length (fold (\<lambda>i table. set_interrupt_gate table (of_nat i) (h i) s (p i)) [0..<n] table) = 256"
  using assms(2)
proof (induction n)
  case (Suc n)
  then have "unat (of_nat n :: u8) = n" by (simp add: unat_of_nat)
  then show ?case using Suc assms(3) by (auto simp: set_gate_nth)
qed (simp add: assms(1))

section \<open>Properties\<close>

text \<open>
  The interrupt gates. After \<open>initialize_idt\<close> the eight bytes of every vector below 64 are a present 32-bit interrupt gate to the entry point
  of that vector through the kernel code segment; user programs may raise exactly the vectors 0x30 to 0x3F, among them the
  system call, and none of the vectors of exceptions and devices; the gates from 64 on stay empty; and interrupts are enabled.
\<close>

theorem interrupt_gates:
  "let (table, io') = initialize_idt stubs interrupt_descriptor_table io in
   length table = 256 \<and> interrupt_flag io' \<and> dev io' = dev io \<and>
   (\<forall>i. i < 64 \<longrightarrow> gate_bytes (table ! i) =
      take 2 (le32 (stubs i)) @ [0x08, 0x00, 0x00, if 0x30 \<le> i \<and> i \<le> 0x3F then 0xEE else 0x8E] @ drop 2 (le32 (stubs i))) \<and>
   (\<forall>i. 64 \<le> i \<and> i < 256 \<longrightarrow> valid_bit (table ! i) = 0)"
proof -
  let ?p = "\<lambda>i :: nat. if 0x30 \<le> i \<and> i \<le> 0x3F then 3 else 0 :: u8"
  let ?t = "fst (initialize_idt stubs interrupt_descriptor_table io)"
  have t: "?t = fold (\<lambda>i table. set_interrupt_gate table (of_nat i) (stubs i) 8 (?p i)) [0..<64] (replicate 256 zero_gate)"
    unfolding initialize_idt_def interrupt_descriptor_table_def fst_conv ISR_STUB_TABLE_LIMIT_def IDT_MAX_ENTRY_COUNT_def
      GDT_KERNEL_CODE_SEGMENT_SELECTOR_def by (intro fold_cong refl) auto
  note gates = gates_installed [of "replicate 256 zero_gate" 64 _ stubs 8 ?p, folded t]
  have "length ?t = 256" using gates [of 0] by simp
  moreover have "gate_bytes (?t ! i) = take 2 (le32 (stubs i)) @ [0x08, 0x00, 0x00, if 0x30 \<le> i \<and> i \<le> 0x3F then 0xEE else 0x8E] @ drop 2 (le32 (stubs i))"
    if "i < 64" for i
    using gates [of i] that gate_offset_bytes [of "stubs i"] by (simp add: gate_bytes_def zero_gate_def) (simp add: le16_def)
  moreover have "valid_bit (?t ! i) = 0" if "64 \<le> i" "i < 256" for i using gates [of i] that by (simp add: zero_gate_def)
  moreover have "snd (initialize_idt stubs interrupt_descriptor_table io) = sti io" by (simp add: initialize_idt_def)
  ultimately show ?thesis by (simp add: split_def sti_def)
qed

theorem interrupt_gates_witness:
  "gate_bytes (fst (initialize_idt (\<lambda>i. 0xC0101000 + of_nat i * 16) interrupt_descriptor_table \<lparr>dev = (), interrupt_flag = False\<rparr>) ! 0x30) =
     [0x00, 0x13, 0x08, 0x00, 0x00, 0xEE, 0x10, 0xC0]"
  using interrupt_gates [of "\<lambda>i. 0xC0101000 + of_nat i * 16" "\<lparr>dev = (), interrupt_flag = False\<rparr>"]
  by (simp add: split_def Let_def le32_def)

end
