(* ===== verification/Interrupt.thy ===== *)
theory Interrupt
  imports Fat32_Move Scheduler Keyboard Framebuffer Gdt Idt
begin

text \<open>
  The interrupt handler and the system calls (\<open>src/src/interrupt.c\<close>). The state joins the kernel of the process
  manager with the keyboard driver, the memory of the text screen, the ports and the tables of the CPU.
  A system call works on the memory of the address space that is current when it is raised. The code does not check
  the pointers it gets: without a user page behind a pointer the kernel takes a page fault, for which it has no handling, or works on its own
  data, at addresses that the linker chooses. Neither is in the model, where such an access ends in \<open>memory None\<close>, which is the memory of no process.
  \<open>user_pointers\<close> tells the calls whose pointers lead to user pages, for which the model is exact; the properties of whole runs and of calls that follow
  pointers assume it.
\<close>

section \<open>Data\<close>

definition SYSCALL_GET_CURSOR_COL :: u32 where "SYSCALL_GET_CURSOR_COL = 16"
definition SYSCALL_TERMINATE_PROCESS :: u32 where "SYSCALL_TERMINATE_PROCESS = 18"
definition SYSCALL_GET_MAX_PROCESS_COUNT :: u32 where "SYSCALL_GET_MAX_PROCESS_COUNT = 20"
definition SYSCALL_GET_PROCESS_INFO :: u32 where "SYSCALL_GET_PROCESS_INFO = 21"

lemmas syscall_consts = SYSCALL_GET_CURSOR_COL_def SYSCALL_TERMINATE_PROCESS_def SYSCALL_GET_MAX_PROCESS_COUNT_def
  SYSCALL_GET_PROCESS_INFO_def

record InterruptStack =
  error_code :: u32
  int_eip :: u32
  int_cs :: u32
  int_eflags :: u32

record InterruptFrame =
  frame_cpu :: CPURegister
  int_number :: u32
  int_stack :: InterruptStack

record 'd machine =
  kern :: kernel
  keyboard_status :: KeyboardDriverState
  screen_mem :: mem
  ports :: "'d io"
  gdt :: "SegmentDescriptor list"
  idt :: "IDTGate list"
  tss :: TSSEntry

text \<open>The packed \<open>struct FAT32DriverRequest\<close>, 23 bytes.\<close>

definition request_bytes :: "FAT32DriverRequest \<Rightarrow> u8 list" where
  "request_bytes r = le32 (r_buf r) @ r_name r @ r_ext r @ le32 (r_parent_cluster_number r) @ le32 (r_buffer_size r)"

definition request_of_bytes :: "u8 list \<Rightarrow> FAT32DriverRequest" where
  "request_of_bytes bs = \<lparr>r_buf = of_le32 (take 4 bs), r_name = take 8 (drop 4 bs), r_ext = take 3 (drop 12 bs),
     r_parent_cluster_number = of_le32 (take 4 (drop 15 bs)), r_buffer_size = of_le32 (take 4 (drop 19 bs))\<rparr>"

section \<open>System calls\<close>

text \<open>
  \<open>*((int8_t*) ecx) = op(*(struct FAT32DriverRequest*) ebx)\<close>: the request is copied, the driver works on the memory of
  the caller, and one byte is stored as the result.
\<close>

definition fs_syscall :: "(fs_state \<Rightarrow> FAT32DriverRequest \<Rightarrow> (int \<times> fs_state) option) \<Rightarrow> kernel \<Rightarrow> u32 \<Rightarrow> u32 \<Rightarrow> kernel option" where
  "fs_syscall op k b c =
     do { (retcode, f) \<leftarrow> op ((fsys k)\<lparr>ram := user_mem k\<rparr>) (request_of_bytes (load_bytes (user_mem k) b 23));
          Some (set_user_mem ((ram f)(c := word_of_int retcode)) (k\<lparr>fsys := f\<rparr>)) }"

text \<open>\<open>"RUNNING"\<close>, \<open>"READY"\<close> and \<open>"BLOCKED"\<close> without the final NUL; no other state is stored.\<close>

definition state_text :: "PROCESS_STATE \<Rightarrow> u8 list" where
  "state_text st = (case st of
      PROCESS_STATE_RUNNING \<Rightarrow> bytes_of ''RUNNING''
    | PROCESS_STATE_READY \<Rightarrow> bytes_of ''READY''
    | PROCESS_STATE_BLOCKED \<Rightarrow> bytes_of ''BLOCKED''
    | NO_PROCESS \<Rightarrow> [])"

text \<open>
  \<open>struct SyscallProcessInfoArgs\<close> at \<open>args\<close>: \<open>pid\<close> at offset 0, \<open>name[32]\<close> at 4, \<open>state[8]\<close> at 36, \<open>process_exists\<close> at 44 and, aligned,
  \<open>page_frame_used_count\<close> at 48. The slot is indexed with the \<open>pid\<close> of the caller without a check.
\<close>

definition get_process_info :: "kernel \<Rightarrow> u32 \<Rightarrow> kernel option" where
  "get_process_info k args =
     do { p \<leftarrow> Some (of_le32 (load_bytes (user_mem k) args 4));
          exists \<leftarrow> get_at (process_slot_occupied k) (unat p);
          m \<leftarrow> Some ((user_mem k)(args + 44 := (if exists then 1 else 0)));
          if exists then
            do { pcb \<leftarrow> get_at (process_list k) (unat p);
                 m \<leftarrow> Some (store_bytes m (args + 4) (take PROCESS_NAME_LENGTH_MAX (proc_name pcb)));
                 m \<leftarrow> Some (store_bytes m (args + 36) (state_text (proc_state pcb)));
                 m \<leftarrow> Some (store_bytes m (args + 48) (le32 (page_frame_used_count pcb)));
                 Some (set_user_mem m k) }
          else Some (set_user_mem m k) }"

text \<open>\<open>syscall\<close>: the cases of the switch in their order.\<close>

definition syscall :: "'d bus \<Rightarrow> 'd machine \<Rightarrow> InterruptFrame \<Rightarrow> 'd machine option" where
  "syscall bus mach frame =
     (let k = kern mach; m = user_mem k;
          n = eax (frame_cpu frame); b = ebx (frame_cpu frame); c = ecx (frame_cpu frame); d = edx (frame_cpu frame) in
      if n = 0 then map_option (\<lambda>k. mach\<lparr>kern := k\<rparr>) (fs_syscall read k b c)
      else if n = 1 then map_option (\<lambda>k. mach\<lparr>kern := k\<rparr>) (fs_syscall read_directory k b c)
      else if n = 2 then map_option (\<lambda>k. mach\<lparr>kern := k\<rparr>) (fs_syscall write' k b c)
      else if n = 3 then map_option (\<lambda>k. mach\<lparr>kern := k\<rparr>) (fs_syscall delete k b c)
      else if n = 4 then
        (let (kb, m) = get_keyboard_buffer (keyboard_status mach) m b
         in Some (mach\<lparr>keyboard_status := kb, kern := set_user_mem m k\<rparr>))
      else if n = 5 then
        do { (scr, io) \<leftarrow> putchar bus (screen_mem mach, ports mach) (m b) c;
             Some (mach\<lparr>screen_mem := scr, ports := io\<rparr>) }
      else if n = 6 then
        do { (scr, io) \<leftarrow> puts bus (screen_mem mach, ports mach) (load_bytes m b (unat c)) d;
             Some (mach\<lparr>screen_mem := scr, ports := io\<rparr>) }
      else if n = 7 then Some (mach\<lparr>keyboard_status := keyboard_state_activate (keyboard_status mach)\<rparr>)
      else if n = 8 then Some (mach\<lparr>keyboard_status := keyboard_state_deactivate (keyboard_status mach)\<rparr>)
      else if n = 9 then Some mach
      else if n = 10 then
        (let (scr, io) = framebuffer_clear bus (screen_mem mach) (ports mach) in Some (mach\<lparr>screen_mem := scr, ports := io\<rparr>))
      else if n = 11 then
        map_option (\<lambda>f. mach\<lparr>kern := k\<lparr>fsys := f\<rparr>\<rparr>)
          (move_entry (fsys k) (table_of_bytes (load_bytes m b CLUSTER_SIZE)) (table_of_bytes (load_bytes m c CLUSTER_SIZE)) d)
      else if n = 12 then Some mach
      else if n = 13 then Some mach
      else if n = SYSCALL_GET_MAX_PROCESS_COUNT then
        Some (mach\<lparr>kern := set_user_mem (store_bytes m b (le32 (of_nat PROCESS_COUNT_MAX))) k\<rparr>)
      else if n = SYSCALL_GET_PROCESS_INFO then map_option (\<lambda>k. mach\<lparr>kern := k\<rparr>) (get_process_info k b)
      else if n = SYSCALL_TERMINATE_PROCESS then Some (mach\<lparr>kern := snd (process_destroy k (current_running_pid k))\<rparr>)
      else if n = SYSCALL_GET_CURSOR_COL then Some (mach\<lparr>kern := set_user_mem (m(b := col (keyboard_status mach))) k\<rparr>)
      else Some mach)"

text \<open>
  The pointers of a call and what is behind them: the request of 23 bytes, the result byte and the buffer of a file system call, which \<open>read\<close> fills with
  whole clusters, \<open>read_directory\<close> with one and from which \<open>write\<close> takes the bytes of the file; a byte for the keyboard, the character and the
  column; a string of \<open>ecx\<close> bytes; two directory tables; a word; and the struct of the process information.
\<close>

definition user_pointers :: "kernel \<Rightarrow> InterruptFrame \<Rightarrow> bool" where
  "user_pointers k frame =
     (let n = eax (frame_cpu frame); b = ebx (frame_cpu frame); c = ecx (frame_cpu frame);
          r = request_of_bytes (load_bytes (user_mem k) b 23) in
      if int_number frame \<noteq> ucast PIC1_OFFSET + of_nat IRQ_SYSCALL then True
      else if n = 0 then accessible k b 23 \<and> accessible k c 1 \<and> accessible k (r_buf r) (read_extent (fsys k) r)
      else if n = 1 then accessible k b 23 \<and> accessible k c 1 \<and> accessible k (r_buf r) CLUSTER_SIZE
      else if n = 2 then accessible k b 23 \<and> accessible k c 1 \<and> accessible k (r_buf r) (unat (r_buffer_size r))
      else if n = 3 then accessible k b 23 \<and> accessible k c 1
      else if n = 4 \<or> n = 5 \<or> n = SYSCALL_GET_CURSOR_COL then accessible k b 1
      else if n = 6 then accessible k b (unat c)
      else if n = 11 then accessible k b CLUSTER_SIZE \<and> accessible k c CLUSTER_SIZE
      else if n = SYSCALL_GET_MAX_PROCESS_COUNT then accessible k b 4
      else if n = SYSCALL_GET_PROCESS_INFO then accessible k b 52
      else True)"

section \<open>The handler\<close>

text \<open>
  \<open>main_interrupt_handler\<close>. The first component of the result is the context that \<open>process_context_switch\<close> loads, if the
  handler does not return to the interrupted program.
\<close>

definition main_interrupt_handler :: "'d bus \<Rightarrow> 'd machine \<Rightarrow> InterruptFrame \<Rightarrow> (Context option \<times> 'd machine) option" where
  "main_interrupt_handler bus mach frame =
     (if int_number frame = ucast PIC1_OFFSET + of_nat IRQ_TIMER then
        do { ctx \<leftarrow> Some (zero_context\<lparr>eip := int_eip (int_stack frame), eflags := int_eflags (int_stack frame), cpu := frame_cpu frame\<rparr>);
             io \<leftarrow> Some (pic_ack bus (of_nat IRQ_TIMER) (ports mach));
             (c, k) \<leftarrow> timer_tick (kern mach) ctx;
             Some (Some c, mach\<lparr>ports := io, kern := k\<rparr>) }
      else if int_number frame = ucast PIC1_OFFSET + of_nat IRQ_KEYBOARD then
        (let (kb, io) = keyboard_isr bus (keyboard_status mach) (ports mach)
         in Some (None, mach\<lparr>keyboard_status := kb, ports := io\<rparr>))
      else if int_number frame = ucast PIC1_OFFSET + of_nat IRQ_SYSCALL then
        map_option (\<lambda>mach. (None, mach)) (syscall bus mach frame)
      else Some (None, mach))"

text \<open>\<open>stack_ptr\<close> is the base pointer of the kernel stack when the function runs.\<close>

definition set_tss_kernel_current_stack :: "u32 \<Rightarrow> TSSEntry \<Rightarrow> TSSEntry" where
  "set_tss_kernel_current_stack stack_ptr t = t\<lparr>esp0 := stack_ptr + 8\<rparr>"

definition interrupt_tss_entry :: TSSEntry where
  "interrupt_tss_entry = \<lparr>prev_tss = 0, esp0 = 0, ss0 = ucast GDT_KERNEL_DATA_SEGMENT_SELECTOR, unused_register = replicate 23 0\<rparr>"

lemma vectors: "ucast PIC1_OFFSET + of_nat IRQ_TIMER = (0x20 :: u32)" "ucast PIC1_OFFSET + of_nat IRQ_KEYBOARD = (0x21 :: u32)"
  "ucast PIC1_OFFSET + of_nat IRQ_SYSCALL = (0x30 :: u32)"
  by (simp_all add: PIC1_OFFSET_def IRQ_TIMER_def IRQ_KEYBOARD_def IRQ_SYSCALL_def)

lemma length_request_bytes [simp]: "wf_request r \<Longrightarrow> length (request_bytes r) = 23"
  by (simp add: request_bytes_def wf_request_def)

lemma request_of_request_bytes [simp]: "wf_request r \<Longrightarrow> request_of_bytes (request_bytes r) = r"
  by (simp add: request_bytes_def request_of_bytes_def wf_request_def)

end
