(* ===== verification/Process_Theorems.thy ===== *)
theory Process_Theorems
  imports Process Fat32_Theorems
begin

text \<open>
  The properties of the process manager: creation with all its effects, the outcome when the executable
  cannot be read, destruction, and the arithmetic of the frame check.
\<close>

section \<open>An example kernel\<close>

text \<open>The kernel after boot, with a file of 3000 bytes in the root directory, and a request for that file.\<close>

definition boot_kernel :: kernel where
  "boot_kernel = \<lparr>process_list = replicate 16 zero_pcb, process_slot_occupied = replicate 16 False, active_process_count = 0,
     current_running_pid = 0, pages = boot_pages, fsys = with_file 3000, memory = (\<lambda>_ _. 0)\<rparr>"

lemma boot_flags_first: "first_index Not (replicate 32 False) = Some 0" "first_index (\<lambda>p. pid p = 0) (replicate 16 zero_pcb) = Some 0"
  by (simp_all add: numeral_eq_Suc zero_pcb_def)

lemma strncpy_array_step:
  "0 < n \<Longrightarrow> strncpy_array n (0 # src) = Some (replicate n 0)"
  "0 < n \<Longrightarrow> c \<noteq> 0 \<Longrightarrow> strncpy_array n (c # src) = map_option ((#) c) (strncpy_array (n - 1) src)"
  by (cases n; simp)+

lemma strncpy_boot: "strncpy_array 31 (request_name_bytes (file_request n)) = Some ([107, 97, 121, 97] @ replicate 27 0)"
  by (simp add: request_name_bytes_def file_request_def strncpy_array_step)

lemma boot_ready: "create_ready boot_kernel 0xC0200000 (file_request 3000) 0 0 ([107, 97, 121, 97] @ replicate 27 0)"
  using boot_pages_ok(1) strncpy_boot [of 3000] boot_flags_first
  by (simp add: create_ready_def boot_kernel_def file_request KERNEL_VIRTUAL_ADDRESS_BASE_def ceil_div_def frame_size
      boot_pages_def PAGE_FRAME_MAX_COUNT_def page_directory_addr_def paging_get_current_page_directory_addr_def)

lemma fs_inv_ram [simp]: "fs_inv (s\<lparr>ram := m\<rparr>) D = fs_inv s D"
  by (simp add: fs_inv_def)

section \<open>Reading into a page\<close>

text \<open>A range inside one page.\<close>

lemma page_index_inside:
  assumes "unat p mod 2 ^ 22 + n \<le> 2 ^ 22" and "unat (v - p) < n"
  shows "page_index v = page_index p"
proof -
  define q r d where "q = unat p div 2 ^ 22" and "r = unat p mod 2 ^ 22" and "d = unat (v - p)"
  have p: "unat p = q * 2 ^ 22 + r" by (simp add: q_def r_def)
  have small: "r + d < 2 ^ 22" using assms by (simp add: r_def d_def)
  have "q \<le> 1023" using unat_lt_2p32 [of p] p by simp
  then have "q * 2 ^ 22 \<le> 1023 * 2 ^ 22" by (rule mult_le_mono1)
  then have "unat p + d < 2 ^ 32" using p small by simp
  moreover have "v = p + of_nat d" by (simp add: d_def)
  ultimately have "unat v = unat p + d" using unat_add_small [of p d] by simp
  then have "unat v = q * 2 ^ 22 + (r + d)" using p by simp
  then have "unat v div 2 ^ 22 = q" using small by simp
  then show ?thesis by (simp add: page_index_div q_def)
qed

lemma accessible_page:
  assumes "unat p mod 2 ^ 22 + n \<le> 2 ^ 22" and "user_frame (pages k) (paging_get_current_page_directory_addr (pages k)) (page_index p) = Some fr"
  shows "accessible k p n" and "unat (v - p) < n \<Longrightarrow> backing k v = Some fr"
proof -
  show in_page: "backing k v = Some fr" if "unat (v - p) < n" for v
    using page_index_inside [OF assms(1) that] assms(2) by (simp add: backing_def)
  have n: "n \<le> 2 ^ 22" using assms(1) by simp
  show "accessible k p n" unfolding accessible_def list_all_iff
  proof
    fix i assume "i \<in> set [0..<n]"
    then have "unat (p + of_nat i - p) < n" using n by (simp add: unat_of_nat)
    then show "backing k (p + of_nat i) \<noteq> None" using in_page by blast
  qed
qed

text \<open>How many bytes \<open>read\<close> stores: the clusters of the file, and nothing when there is no file.\<close>

lemma read_extent_file:
  assumes "fs_inv s D" and "r_parent_cluster_number r \<in> D" and "wf_request r" and "request_key r \<noteq> zero_key"
    and "r_buffer_size r \<noteq> 0" and "listing (disk s) (r_parent_cluster_number r) (request_key r) = Some (File xs)" and "length xs mod 2048 \<noteq> 0"
  shows "read_extent s r = 2048 * cluster_need (length xs)"
proof -
  let ?p = "r_parent_cluster_number r" and ?t = "disk_dir (disk s) (r_parent_cluster_number r)"
  have ok: "fs_ok (disk s) D" using assms(1) by (simp add: fs_inv_def)
  obtain i where i: "i < 64" "used (?t ! i)" "key_of (?t ! i) = request_key r"
    and xs: "file_data (disk s) (disk_fat (disk s)) (?t ! i) = xs"
    using listing_file [OF ok assms(2,6)] .
  have t: "table_ok ?p ?t" and p: "cluster_ok ?p" using fs_inv_dir [OF assms(1,2)] dir_cluster_ok by auto
  have n: "unat (e_filesize (?t ! i)) = length xs" using xs length_file_data by metis
  have "search_from (\<lambda>e. same_file e r) 0 ?t = Some i" using i by (simp add: search_same_file [OF t assms(3,4)])
  moreover have "e_attribute (?t ! i) \<noteq> 1" using table_ok_attribute [OF t i(1)] by simp
  moreover note read_cluster_count [OF file_size_bound [OF ok [unfolded fs_ok_def] assms(2) i(1)]]
  ultimately show ?thesis
    using assms(5) i(1) p cluster_count_need [OF assms(7)] n by (simp add: read_extent_def run_simps)
qed

lemma read_extent_missing:
  assumes "fs_inv s D" and "r_parent_cluster_number r \<in> D" and "wf_request r" and "request_key r \<noteq> zero_key"
    and "listing (disk s) (r_parent_cluster_number r) (request_key r) = None"
  shows "read_extent s r = 0"
proof -
  have t: "table_ok (r_parent_cluster_number r) (disk_dir (disk s) (r_parent_cluster_number r))" and p: "cluster_ok (r_parent_cluster_number r)"
    using fs_inv_dir [OF assms(1,2)] dir_cluster_ok by auto
  have "search_from (\<lambda>e. same_file e r) 0 (disk_dir (disk s) (r_parent_cluster_number r)) = None"
    using assms(5) unfolding search_same_file_None [OF t assms(3,4)] by (simp add: listing_def)
  then show ?thesis using p by (simp add: read_extent_def run_simps)
qed

text \<open>The read of an executable into the page of its entry point, and of one that is missing.\<close>

definition executable :: "fs_state \<Rightarrow> u32 set \<Rightarrow> FAT32DriverRequest \<Rightarrow> u8 list \<Rightarrow> bool" where
  "executable s D request xs \<longleftrightarrow> fs_inv s D \<and> wf_request request \<and> r_parent_cluster_number request \<in> D \<and> request_key request \<noteq> zero_key \<and>
     r_buffer_size request \<noteq> 0 \<and> listing (disk s) (r_parent_cluster_number request) (request_key request) = Some (File xs) \<and>
     length xs mod 2048 \<noteq> 0"

lemma kernel_read_file:
  assumes exe: "executable (fsys k) D r xs" and fits: "unat (r_buf r) mod 2 ^ 22 + 2048 * cluster_need (length xs) \<le> 2 ^ 22"
    and page: "user_frame (pages k) (paging_get_current_page_directory_addr (pages k)) (page_index (r_buf r)) = Some frame"
  shows "\<exists>f m. kernel_read k r = Some (0, k\<lparr>fsys := f, memory := m\<rparr>) \<and> fs_inv f D \<and> disk f = disk (fsys k) \<and>
    load_bytes (m (Some frame)) (r_buf r) (length xs) = xs \<and> (\<forall>g. g \<noteq> Some frame \<longrightarrow> m g = memory k g)"
proof -
  let ?s = "(fsys k)\<lparr>ram := user_mem k\<rparr>" and ?n = "2048 * cluster_need (length xs)"
  note e = exe [unfolded executable_def]
  have inv: "fs_inv ?s D" using e by simp
  obtain f where f: "read ?s r = Some (0, f)" "load_bytes (ram f) (r_buf r) (length xs) = xs" "disk f = disk (fsys k)" "fs_inv f D"
    "\<forall>a. ?n \<le> unat (a - r_buf r) \<longrightarrow> ram f a = user_mem k a"
    using read_effect [OF inv, of r xs] e by auto
  have ext: "read_extent (fsys k) r = ?n" using read_extent_file e by blast
  note acc = accessible_page [OF fits page]
  let ?m = "\<lambda>g v. if backing k v = g then ram f v else memory k g v"
  have "kernel_read k r = Some (0, k\<lparr>fsys := f, memory := ?m\<rparr>)"
    using f(1) acc(1) ext by (simp add: kernel_read_def set_user_mem_def cong: if_cong)
  moreover have "load_bytes (?m (Some frame)) (r_buf r) (length xs) = xs"
  proof -
    have len: "length xs \<le> ?n" "?n \<le> 2 ^ 22" using cluster_need_bounds(1) [of "length xs"] fits by simp_all
    have "backing k (r_buf r + of_nat i) = Some frame" if "i < length xs" for i
      using that len by (intro acc(2)) (simp add: unat_of_nat)
    then have "load_bytes (?m (Some frame)) (r_buf r) (length xs) = load_bytes (ram f) (r_buf r) (length xs)" by (intro load_bytes_cong) simp
    then show ?thesis using f(2) by simp
  qed
  moreover have "?m g = memory k g" if "g \<noteq> Some frame" for g
  proof
    fix v
    show "?m g v = memory k g v"
    proof (cases "backing k v = g")
      case True
      then have "\<not> unat (v - r_buf r) < ?n" using that acc(2) by metis
      then show ?thesis using True f(5) by (simp add: user_mem_def)
    qed simp
  qed
  ultimately show ?thesis using f(3,4) by blast
qed

lemma kernel_read_missing:
  assumes "fs_inv (fsys k) D" and "r_parent_cluster_number r \<in> D" and "wf_request r" and "request_key r \<noteq> zero_key"
    and "listing (disk (fsys k)) (r_parent_cluster_number r) (request_key r) = None"
  shows "\<exists>f. kernel_read k r = Some (2, k\<lparr>fsys := f\<rparr>) \<and> fs_inv f D \<and> disk f = disk (fsys k)"
proof -
  let ?s = "(fsys k)\<lparr>ram := user_mem k\<rparr>"
  have inv: "fs_inv ?s D" using assms(1) by simp
  obtain f where f: "read ?s r = Some (2, f)" "disk f = disk (fsys k)" "ram f = user_mem k" "fs_inv f D"
    using refusal_effects [OF inv assms(2-4)] assms(5) by auto
  have "read_extent (fsys k) r = 0" using read_extent_missing assms by blast
  then have "kernel_read k r = Some (2, set_user_mem (user_mem k) (k\<lparr>fsys := f\<rparr>))"
    using f(1,3) by (simp add: kernel_read_def accessible_def)
  then show ?thesis using f(2,4) by (intro exI [of _ f]) simp
qed

section \<open>Effects of a creation\<close>

lemma created_pcb:
  "pid (created_pcb k i name entry a) = current_running_pid k" "proc_name (created_pcb k i name entry a) = name @ [0]"
  "proc_state (created_pcb k i name entry a) = PROCESS_STATE_READY" "eip (pcb_context (created_pcb k i name entry a)) = entry"
  "esp (cpu (pcb_context (created_pcb k i name entry a))) = 0x3FFFFC" "seg_ds (cpu (pcb_context (created_pcb k i name entry a))) = 0x23"
  "eflags (pcb_context (created_pcb k i name entry a)) = 0x202" "page_directory_virtual_addr (pcb_context (created_pcb k i name entry a)) = a"
  by (simp_all add: created_pcb_def claimed_pcb_def process_initialize_context_def CPU_STACK_def USER_DATA_SEGMENT_SELECTOR_def
      CPU_EFLAGS_BASE_FLAG_def CPU_EFLAGS_FLAG_INTERRUPT_ENABLE_def Let_def)

lemma ready_index:
  assumes "create_ready k pdl request i j name"
  shows "i < length (process_list k)" "i < length (process_slot_occupied k)" "pid (process_list k ! i) = 0" "\<forall>n < i. pid (process_list k ! n) \<noteq> 0"
    "paging_get_current_page_directory_addr (pages k) > KERNEL_VIRTUAL_ADDRESS_BASE"
  using assms first_index_SomeD [of "\<lambda>p. pid p = 0" "process_list k" i] by (simp_all add: create_ready_def)

lemma creation_effect:
  assumes ready: "create_ready k pdl request i j name" and junk: "benign_entry junkE" and exe: "executable (fsys k) D request xs"
    and fits: "unat (r_buf request) mod 2 ^ 22 + 2048 * cluster_need (length xs) \<le> 2 ^ 22"
  shows "\<exists>k' b frame. process_create_user_process junkE junkF pdl k request = Some (PROCESS_CREATE_SUCCESS, k') \<and>
     process_slot_occupied k' = (process_slot_occupied k)[i := True] \<and> process_list k' = (process_list k)[i := b] \<and>
     pid b = current_running_pid k \<and> proc_name b = name @ [0] \<and> proc_state b = PROCESS_STATE_READY \<and> eip (pcb_context b) = r_buf request \<and>
     esp (cpu (pcb_context b)) = 0x3FFFFC \<and> seg_ds (cpu (pcb_context b)) = 0x23 \<and> eflags (pcb_context b) = 0x202 \<and>
     page_directory_virtual_addr (pcb_context b) = page_directory_addr pdl j \<and>
     active_process_count k' = active_process_count k + 1 \<and> current_running_pid k' = current_running_pid k + 1 \<and>
     pg_ok (pages k') \<and> cr3 (pages k') = cr3 (pages k) \<and>
     (\<forall>a. a \<noteq> page_directory_addr pdl j \<longrightarrow> (\<forall>n. \<not> user_mapping (pages k) a n frame)) \<and>
     (\<forall>a n fr. user_mapping (pages k') a n fr \<longleftrightarrow>
       (if a = page_directory_addr pdl j then n = page_index (r_buf request) \<and> fr = frame else user_mapping (pages k) a n fr)) \<and>
     (\<forall>a. maps_kernel (pages k') a \<longleftrightarrow> a = page_directory_addr pdl j \<or> maps_kernel (pages k) a) \<and>
     load_bytes (memory k' (Some frame)) (r_buf request) (length xs) = xs \<and> (\<forall>g. g \<noteq> Some frame \<longrightarrow> memory k' g = memory k g) \<and>
     fs_inv (fsys k') D \<and> disk (fsys k') = disk (fsys k)"
proof -
  let ?a = "page_directory_addr pdl j" and ?b = "created_pcb k i name (r_buf request) (page_directory_addr pdl j)"
  obtain pg frame where pg: "pg_ok pg" "paging_get_current_page_directory_addr pg = ?a"
    and fresh: "\<And>b n. b \<noteq> ?a \<Longrightarrow> \<not> user_mapping (pages k) b n frame"
    and map: "\<And>b n fr. user_mapping pg b n fr \<longleftrightarrow> (if b = ?a then n = page_index (r_buf request) \<and> fr = frame else user_mapping (pages k) b n fr)"
    and kern: "\<And>b. maps_kernel pg b \<longleftrightarrow> (if b = ?a then benign_entry junkE else maps_kernel (pages k) b)"
    and run: "process_create_user_process junkE junkF pdl k request =
       (if benign_entry junkE then
          do { (retcode, k') \<leftarrow> kernel_read (k\<lparr>process_list := (process_list k)[i := claimed_pcb k i name], pages := pg\<rparr>) request;
               if retcode \<noteq> 0 then Some (retcode, k')
               else do { occ \<leftarrow> put_at (process_slot_occupied k') i True;
                 Some (retcode, k'\<lparr>pages := paging_use_page_directory (pages k') (paging_get_current_page_directory_addr (pages k)),
                   current_running_pid := current_running_pid k' + 1, process_list := (process_list k')[i := ?b],
                   process_slot_occupied := occ, active_process_count := active_process_count k' + 1\<rparr>) } }
        else None)"
    by (rule create_until_read [OF ready benign_user_bit [OF junk], of junkF]) (rule that; assumption)
  let ?k = "k\<lparr>process_list := (process_list k)[i := claimed_pcb k i name], pages := pg\<rparr>"
  have page: "user_frame (pages ?k) (paging_get_current_page_directory_addr (pages ?k)) (page_index (r_buf request)) = Some frame"
    using map [of ?a] by (simp add: pg(2) flip: user_mapping_iff)
  have exe': "executable (fsys ?k) D request xs" using exe by simp
  obtain f m where read: "kernel_read ?k request = Some (0, ?k\<lparr>fsys := f, memory := m\<rparr>)"
    and f: "fs_inv f D" "disk f = disk (fsys k)" "load_bytes (m (Some frame)) (r_buf request) (length xs) = xs"
      "\<And>g. g \<noteq> Some frame \<Longrightarrow> m g = memory k g"
    using kernel_read_file [OF exe' fits page] by auto
  have ok: "pg_ok (pg\<lparr>cr3 := x\<rparr>)" for x using pg(1) by (simp add: pg_ok_def)
  show ?thesis
    by (rule exI, rule exI [of _ ?b], rule exI [of _ frame], rule conjI)
      (use run read junk ready_index [OF ready] in \<open>simp add: PROCESS_CREATE_SUCCESS_def\<close>,
       use f fresh map kern junk ok ready_index(5) [OF ready] in
         \<open>simp add: created_pcb paging_use_page_directory_def paging_get_current_page_directory_addr_def\<close>)
qed

lemma create_missing_effect:
  assumes ready: "create_ready k pdl request i j name" and junk: "benign_entry junkE" and inv: "fs_inv (fsys k) D"
    and p: "r_parent_cluster_number request \<in> D" and r: "wf_request request" "request_key request \<noteq> zero_key"
    and none: "listing (disk (fsys k)) (r_parent_cluster_number request) (request_key request) = None"
  shows "\<exists>k'. process_create_user_process junkE junkF pdl k request = Some (2, k') \<and>
     process_slot_occupied k' = process_slot_occupied k \<and> active_process_count k' = active_process_count k \<and>
     current_running_pid k' = current_running_pid k \<and>
     cr3 (pages k') = page_directory_addr pdl j - KERNEL_VIRTUAL_ADDRESS_BASE \<and>
     page_directory_used (pages k') = (page_directory_used (pages k))[j := True] \<and>
     free_page_frame_count (pages k') = free_page_frame_count (pages k) - 1 \<and>
     process_list k' = (process_list k)[i := (process_list k ! i)\<lparr>pid := current_running_pid k, proc_name := name @ [0],
       proc_state := PROCESS_STATE_READY\<rparr>] \<and>
     (process_list_get_inactive_index k' = int i \<longleftrightarrow> current_running_pid k = 0) \<and>
     fs_inv (fsys k') D \<and> disk (fsys k') = disk (fsys k)"
proof -
  let ?b = "created_pcb k i name (r_buf request) (page_directory_addr pdl j)" and ?c = "claimed_pcb k i name"
  obtain pg where pg: "cr3 pg = page_directory_addr pdl j - KERNEL_VIRTUAL_ADDRESS_BASE"
    "free_page_frame_count pg = free_page_frame_count (pages k) - 1" "page_directory_used pg = (page_directory_used (pages k))[j := True]"
    and run: "process_create_user_process junkE junkF pdl k request =
       (if benign_entry junkE then
          do { (retcode, k') \<leftarrow> kernel_read (k\<lparr>process_list := (process_list k)[i := ?c], pages := pg\<rparr>) request;
               if retcode \<noteq> 0 then Some (retcode, k')
               else do { occ \<leftarrow> put_at (process_slot_occupied k') i True;
                 Some (retcode, k'\<lparr>pages := paging_use_page_directory (pages k') (paging_get_current_page_directory_addr (pages k)),
                   current_running_pid := current_running_pid k' + 1, process_list := (process_list k')[i := ?b],
                   process_slot_occupied := occ, active_process_count := active_process_count k' + 1\<rparr>) } }
        else None)"
    by (rule create_until_read [OF ready benign_user_bit [OF junk], of junkF]) (rule that; assumption)
  let ?k = "k\<lparr>process_list := (process_list k)[i := ?c], pages := pg\<rparr>"
  obtain f where f: "kernel_read ?k request = Some (2, ?k\<lparr>fsys := f\<rparr>)" "fs_inv f D" "disk f = disk (fsys k)"
    using kernel_read_missing [of ?k D request] inv p r none by auto
  have first: "process_list_get_inactive_index (?k\<lparr>fsys := f\<rparr>) = int i \<longleftrightarrow> current_running_pid k = 0"
  proof -
    have "first_index (\<lambda>p. pid p = 0) ((process_list k)[i := ?c]) = Some i \<longleftrightarrow> pid ?c = 0"
      using ready_index(1,4) [OF ready] by (auto simp: first_index_Some_iff)
    then show ?thesis by (auto simp: process_list_get_inactive_index_def claimed_pcb_def split: option.splits)
  qed
  show ?thesis
    by (rule exI [of _ "?k\<lparr>fsys := f\<rparr>"]) (use run f junk pg first in \<open>simp add: claimed_pcb_def\<close>)
qed

text \<open>The example.\<close>

lemma zero_pde_benign: "benign_entry zero_pde"
  by (simp add: benign_entry_def zero_pde_def zero_flag_def)

lemma boot_executable: "executable (fsys boot_kernel) {2} (file_request 3000) (replicate 3000 7)"
  using with_file(2,3) [of 3000] formatted_hyps(1) file_request(1,2) by (simp add: executable_def boot_kernel_def file_request)

section \<open>Properties\<close>

text \<open>
  C23: creating a process. Let the checks pass (\<open>create_ready\<close>), let the executable be a file whose size is not a multiple of 2048 and whose
  clusters fit into the 4 MiB page of the entry point, and let the uninitialised page directory entry happen to name the kernel's frame.
  Then the creation returns success. Slot and control block are those of the first block with pid 0, which is how the code marks a free block and what
  the block of process 0 carries as well. The block is ready with the entry point, the user segments, the user stack and interrupts
  enabled. The process has a page directory of its own with exactly one user page, that of the entry point, on a frame that no other directory maps; so its
  stack at the end of the first page is mapped only if the entry point is in that page. The directory also maps the kernel, and in the other directories nothing changes. The frame holds the executable, no other
  frame changes, the directory of the caller is the current one again, and no other control block has changed.
\<close>

theorem create_user_process:
  assumes "create_ready k pdl request i j name" and "benign_entry junkE" and "executable (fsys k) D request xs"
    and "unat (r_buf request) mod 2 ^ 22 + 2048 * cluster_need (length xs) \<le> 2 ^ 22"
  shows "\<exists>k' b frame. process_create_user_process junkE junkF pdl k request = Some (PROCESS_CREATE_SUCCESS, k') \<and>
     process_slot_occupied k' = (process_slot_occupied k)[i := True] \<and> process_list k' = (process_list k)[i := b] \<and>
     pid b = current_running_pid k \<and> proc_name b = name @ [0] \<and> proc_state b = PROCESS_STATE_READY \<and> eip (pcb_context b) = r_buf request \<and>
     esp (cpu (pcb_context b)) = 0x3FFFFC \<and> seg_ds (cpu (pcb_context b)) = 0x23 \<and> eflags (pcb_context b) = 0x202 \<and>
     page_directory_virtual_addr (pcb_context b) = page_directory_addr pdl j \<and>
     active_process_count k' = active_process_count k + 1 \<and> current_running_pid k' = current_running_pid k + 1 \<and>
     pg_ok (pages k') \<and> cr3 (pages k') = cr3 (pages k) \<and>
     (\<forall>a. a \<noteq> page_directory_addr pdl j \<longrightarrow> (\<forall>n. \<not> user_mapping (pages k) a n frame)) \<and>
     (\<forall>a n fr. user_mapping (pages k') a n fr \<longleftrightarrow>
       (if a = page_directory_addr pdl j then n = page_index (r_buf request) \<and> fr = frame else user_mapping (pages k) a n fr)) \<and>
     (\<forall>a. maps_kernel (pages k') a \<longleftrightarrow> a = page_directory_addr pdl j \<or> maps_kernel (pages k) a) \<and>
     load_bytes (memory k' (Some frame)) (r_buf request) (length xs) = xs \<and> (\<forall>g. g \<noteq> Some frame \<longrightarrow> memory k' g = memory k g) \<and>
     fs_inv (fsys k') D \<and> disk (fsys k') = disk (fsys k)"
  using assms by (rule creation_effect)

theorem create_user_process_witness:
  "\<exists>k' b frame. process_create_user_process zero_pde zero_flag 0xC0200000 boot_kernel (file_request 3000) = Some (PROCESS_CREATE_SUCCESS, k') \<and>
     process_slot_occupied k' ! 0 \<and> process_list k' ! 0 = b \<and> eip (pcb_context b) = 0x100000 \<and> active_process_count k' = 1 \<and>
     user_mapping (pages k') 0xC0200000 0 frame \<and> load_bytes (memory k' (Some frame)) 0x100000 3000 = replicate 3000 7"
proof -
  have fits: "unat (r_buf (file_request 3000)) mod 2 ^ 22 + 2048 * cluster_need (length (replicate 3000 (7 :: u8))) \<le> 2 ^ 22"
    by (simp add: file_request cluster_need_def)
  have page: "page_index 0x100000 = 0" by (simp add: page_index_div)
  have a: "page_directory_addr 0xC0200000 0 = 0xC0200000" by (simp add: page_directory_addr_def)
  show ?thesis
    using create_user_process [OF boot_ready zero_pde_benign boot_executable fits, of zero_flag]
    unfolding a by (elim exE conjE) (fastforce simp: boot_kernel_def file_request page)
qed

text \<open>
  Losing the kernel. When the uninitialised entry names another frame, the directory that becomes the current one
  does not map the kernel, and the creation has no result.
\<close>

theorem create_loses_kernel:
  assumes "create_ready k pdl request i j name" and "\<not> user_bit (flag junkE)" and "lower_address junkE \<noteq> 0"
  shows "process_create_user_process junkE junkF pdl k request = None"
proof -
  have "\<not> benign_entry junkE" using assms(3) by (simp add: benign_entry_def)
  then show ?thesis by - (rule create_until_read [OF assms(1,2), of junkF], simp)
qed

theorem create_loses_kernel_witness:
  "process_create_user_process (zero_pde\<lparr>lower_address := 7\<rparr>) zero_flag 0xC0200000 boot_kernel (file_request 3000) = None"
  by (rule create_loses_kernel [OF boot_ready]) (simp_all add: zero_pde_def zero_flag_def)

text \<open>
  C26: creating a process whose executable is missing. The code 2 of \<open>read\<close> is returned as it is (the
  process manager's own code for this case is never used), and the cleanup is missing: the current
  address space is left switched to the new directory, that directory stays marked as used and a frame
  is lost. The slot is not occupied, but its control block keeps the pid of the next process, its name and the ready state; only if that pid
  is 0 does the search for a free block find it again.
\<close>

theorem create_read_failure:
  assumes "create_ready k pdl request i j name" and "benign_entry junkE" and "fs_inv (fsys k) D" and "r_parent_cluster_number request \<in> D"
    and "wf_request request" and "request_key request \<noteq> zero_key"
    and "listing (disk (fsys k)) (r_parent_cluster_number request) (request_key request) = None"
  shows "\<exists>k'. process_create_user_process junkE junkF pdl k request = Some (2, k') \<and>
     process_slot_occupied k' = process_slot_occupied k \<and> active_process_count k' = active_process_count k \<and>
     current_running_pid k' = current_running_pid k \<and>
     cr3 (pages k') = page_directory_addr pdl j - KERNEL_VIRTUAL_ADDRESS_BASE \<and>
     page_directory_used (pages k') = (page_directory_used (pages k))[j := True] \<and>
     free_page_frame_count (pages k') = free_page_frame_count (pages k) - 1 \<and>
     process_list k' = (process_list k)[i := (process_list k ! i)\<lparr>pid := current_running_pid k, proc_name := name @ [0],
       proc_state := PROCESS_STATE_READY\<rparr>] \<and>
     (process_list_get_inactive_index k' = int i \<longleftrightarrow> current_running_pid k = 0) \<and>
     fs_inv (fsys k') D \<and> disk (fsys k') = disk (fsys k)"
  using assms by (rule create_missing_effect)

theorem create_read_failure_witness:
  "\<exists>k'. process_create_user_process zero_pde zero_flag 0xC0200000 (boot_kernel\<lparr>current_running_pid := 3\<rparr>) (dir_request\<lparr>r_buffer_size := 3000\<rparr>) =
       Some (2, k') \<and>
     cr3 (pages k') = 0x200000 \<and> cr3 (pages boot_kernel) = 0x100000 \<and> process_list_get_inactive_index k' \<noteq> 0"
proof -
  let ?r = "dir_request\<lparr>r_buffer_size := 3000\<rparr>" and ?k = "boot_kernel\<lparr>current_running_pid := 3\<rparr>"
  have ready: "create_ready ?k 0xC0200000 ?r 0 0 ([100, 105, 114] @ replicate 28 0)"
    using boot_ready by (simp add: create_ready_def request_name_bytes_def dir_request_def file_request_def strncpy_array_step
        KERNEL_VIRTUAL_ADDRESS_BASE_def)
  have inv: "fs_inv (fsys ?k) {2}" using with_file(2) [of 3000] by (simp add: boot_kernel_def)
  have r: "wf_request ?r" "request_key ?r = request_key dir_request" "r_parent_cluster_number ?r \<in> {2}"
    using dir_request(1,4) by (simp_all add: wf_request_def request_key_def)
  have none: "listing (disk (fsys ?k)) (r_parent_cluster_number ?r) (request_key ?r) = None"
    using with_file(4) [of 3000] dir_request(4) r(2) by (simp add: boot_kernel_def)
  have a: "page_directory_addr 0xC0200000 0 - KERNEL_VIRTUAL_ADDRESS_BASE = 0x200000" by (simp add: page_directory_addr_def KERNEL_VIRTUAL_ADDRESS_BASE_def)
  obtain k' where k': "process_create_user_process zero_pde zero_flag 0xC0200000 ?k ?r = Some (2, k')" "cr3 (pages k') = 0x200000"
    "process_list_get_inactive_index k' = int 0 \<longleftrightarrow> current_running_pid ?k = 0"
    using create_read_failure [OF ready zero_pde_benign inv r(3,1) _ none, of zero_flag] dir_request(2) r(2) a by auto
  show ?thesis using k' by (intro exI [of _ k']) (simp add: boot_kernel_def boot_pages_def)
qed

text \<open>
  C27: destroying a process. When a control block has the pid, \<open>process_destroy\<close> returns true, clears
  the first such block, frees its slot and counts one process less; the other blocks and slots stay.
  Without such a block it returns false and nothing changes. The page directory and the frames of
  the process are not released in either case, although the comment above the function says so.
\<close>

theorem destroy_process:
  assumes "length (process_list k) = 16" and "length (process_slot_occupied k) = 16"
  shows "(\<forall>i < 16. pid (process_list k ! i) = p \<and> (\<forall>j < i. pid (process_list k ! j) \<noteq> p) \<longrightarrow>
      (\<exists>k'. process_destroy k p = (True, k') \<and> process_list k' = (process_list k)[i := zero_pcb] \<and>
        process_slot_occupied k' = (process_slot_occupied k)[i := False] \<and> active_process_count k' = active_process_count k - 1 \<and>
        current_running_pid k' = current_running_pid k \<and> pages k' = pages k \<and> memory k' = memory k)) \<and>
    ((\<forall>i < 16. pid (process_list k ! i) \<noteq> p) \<longrightarrow> process_destroy k p = (False, k))"
proof (intro conjI allI impI)
  fix i assume i: "i < 16" "pid (process_list k ! i) = p \<and> (\<forall>j < i. pid (process_list k ! j) \<noteq> p)"
  then have "first_index (\<lambda>b. pid b = p) (process_list k) = Some i" using assms(1) by (simp add: first_index_Some_iff)
  then show "\<exists>k'. process_destroy k p = (True, k') \<and> process_list k' = (process_list k)[i := zero_pcb] \<and>
        process_slot_occupied k' = (process_slot_occupied k)[i := False] \<and> active_process_count k' = active_process_count k - 1 \<and>
        current_running_pid k' = current_running_pid k \<and> pages k' = pages k \<and> memory k' = memory k"
    by (simp add: process_destroy_def)
next
  assume "\<forall>i < 16. pid (process_list k ! i) \<noteq> p"
  then have "first_index (\<lambda>b. pid b = p) (process_list k) = None" using assms(1) by (auto simp: first_index_None_iff all_set_conv_all_nth)
  then show "process_destroy k p = (False, k)" by (simp add: process_destroy_def)
qed

theorem destroy_process_witness:
  "\<exists>k'. process_destroy (boot_kernel\<lparr>process_list := (process_list boot_kernel)[3 := zero_pcb\<lparr>pid := 5\<rparr>, 7 := zero_pcb\<lparr>pid := 5\<rparr>]\<rparr>) 5 = (True, k') \<and>
     process_list k' ! 3 = zero_pcb \<and> pid (process_list k' ! 7) = 5"
proof -
  let ?k = "boot_kernel\<lparr>process_list := (process_list boot_kernel)[3 := zero_pcb\<lparr>pid := 5\<rparr>, 7 := zero_pcb\<lparr>pid := 5\<rparr>]\<rparr>"
  have len: "length (process_list ?k) = 16" "length (process_slot_occupied ?k) = 16" by (simp_all add: boot_kernel_def)
  have "pid (process_list ?k ! j) \<noteq> 5" if "j < 3" for j using that by (simp add: boot_kernel_def zero_pcb_def)
  then have "(3 :: nat) < 16 \<and> pid (process_list ?k ! 3) = 5 \<and> (\<forall>j < 3. pid (process_list ?k ! j) \<noteq> 5)" by (simp add: boot_kernel_def)
  then obtain k' where "process_destroy ?k 5 = (True, k')" "process_list k' = (process_list ?k)[3 := zero_pcb]"
    using destroy_process [OF len, of 5] by blast
  then show ?thesis by (simp add: boot_kernel_def)
qed

text \<open>
  The pid 0. The first process gets the pid 0, which is also the mark of a free control block: as
  long as an occupied slot has the pid 0 and no free block comes before it, the search for a free
  block returns that slot, so the next creation overwrites the running process. And destroying pid 0 on
  an empty table succeeds and drives the process counter below zero.
\<close>

theorem pid_zero:
  "(length (process_list k) = 16 \<and> pid (process_list k ! 0) = 0 \<longrightarrow> process_list_get_inactive_index k = 0) \<and>
   fst (process_destroy boot_kernel 0) \<and> active_process_count (snd (process_destroy boot_kernel 0)) = - 1"
proof -
  have "process_list_get_inactive_index k = 0" if "length (process_list k) = 16" "pid (process_list k ! 0) = 0"
    using that by (cases "process_list k") (auto simp: process_list_get_inactive_index_def)
  moreover have "first_index (\<lambda>b. pid b = 0) (process_list boot_kernel) = Some 0"
    using boot_flags_first(2) by (simp add: boot_kernel_def)
  ultimately show ?thesis by (simp add: process_destroy_def) (simp add: boot_kernel_def)
qed

theorem pid_zero_witness:
  "process_list_get_inactive_index (boot_kernel\<lparr>process_slot_occupied := (replicate 16 False)[0 := True]\<rparr>) = 0"
  using pid_zero [of "boot_kernel\<lparr>process_slot_occupied := (replicate 16 False)[0 := True]\<rparr>"]
  by (simp add: boot_kernel_def zero_pcb_def)

text \<open>
  The arithmetic of the frame check. \<open>ceil_div\<close> rounds up as long as its sum does not wrap; in the check
  of a request the sum does wrap for sizes close to \<open>2\<^sup>3\<^sup>2\<close>, and a request of 4 GiB minus one byte
  counts as a single frame.
\<close>

theorem ceil_div_rounds:
  "(0 < d \<and> unat n + unat d \<le> 2 ^ 32 \<longrightarrow>
     unat (ceil_div n d) * unat d \<ge> unat n \<and> unat (ceil_div n d) * unat d < unat n + unat d) \<and>
   ceil_div (0xFFFFFFFF + PAGE_FRAME_SIZE) PAGE_FRAME_SIZE = 1"
proof -
  have "unat (ceil_div n d) * unat d \<ge> unat n \<and> unat (ceil_div n d) * unat d < unat n + unat d"
    if d: "0 < d" and s: "unat n + unat d \<le> 2 ^ 32"
  proof -
    have pos: "0 < unat d" using d by (simp add: unat_gt_0 word_gt_0)
    have "n + d - 1 = n + of_nat (unat d - 1)" using pos by (simp add: of_nat_diff)
    then have eq: "unat (n + d - 1) = unat n + (unat d - 1)" using s pos unat_add_small [of n "unat d - 1"] by (simp only:) simp
    have q: "unat (ceil_div n d) = (unat n + (unat d - 1)) div unat d" by (simp add: ceil_div_def unat_div eq)
    have "(unat n + (unat d - 1)) div unat d * unat d + (unat n + (unat d - 1)) mod unat d = unat n + (unat d - 1)"
      by simp
    moreover have "(unat n + (unat d - 1)) mod unat d < unat d" using pos by simp
    ultimately show ?thesis unfolding q using pos by linarith
  qed
  moreover have "ceil_div (0xFFFFFFFF + PAGE_FRAME_SIZE) PAGE_FRAME_SIZE = 1" by (simp add: ceil_div_def frame_size)
  ultimately show ?thesis by blast
qed

theorem ceil_div_rounds_witness:
  "unat (ceil_div 4195328 PAGE_FRAME_SIZE) * unat PAGE_FRAME_SIZE \<ge> 4195328"
  using ceil_div_rounds [of PAGE_FRAME_SIZE 4195328] by (simp add: frame_size)

end
