(* ===== verification/Interrupt_Theorems.thy ===== *)
theory Interrupt_Theorems
  imports Interrupt Process_Theorems
begin

text \<open>
  The properties of the interrupt handler: which parts of the state an interrupt can change, the separation of the
  address spaces over whole runs of the system, and the behaviour of the file, process and keyboard system calls
  as a program sees it.
\<close>

section \<open>What a system call can change\<close>

lemma nth_upd: "xs[i := v] ! j = (if i = j \<and> j < length xs then v else xs ! j)"
  by (cases "i = j") (simp_all add: list_update_beyond)

text \<open>
  The memory manager and the running slot stay; a page frame changes only at the addresses to which the current page directory maps it; of the process
  table, entries can only be cleared.
\<close>

definition touches_current :: "kernel \<Rightarrow> kernel \<Rightarrow> bool" where
  "touches_current k k' \<longleftrightarrow> pages k' = pages k \<and> current_running_pid k' = current_running_pid k \<and>
     (\<forall>f v. backing k v \<noteq> f \<longrightarrow> memory k' f v = memory k f v) \<and>
     length (process_list k') = length (process_list k) \<and> length (process_slot_occupied k') = length (process_slot_occupied k) \<and>
     (\<forall>i < length (process_slot_occupied k). process_slot_occupied k' ! i \<longrightarrow>
        process_slot_occupied k ! i \<and> process_list k' ! i = process_list k ! i)"

lemma touches_refl [simp]: "touches_current k k"
  by (simp add: touches_current_def)

lemma touches_user_mem [simp]: "touches_current k ((set_user_mem m k)\<lparr>fsys := f\<rparr>)" "touches_current k (set_user_mem m k)"
  "touches_current k (k\<lparr>fsys := f\<rparr>)"
  by (simp_all add: touches_current_def memory_set_user_mem)

lemma touches_fs_syscall: "fs_syscall op k b c = Some k' \<Longrightarrow> touches_current k k'"
  by (auto simp: fs_syscall_def bind_eq_Some_conv)

lemma touches_process_info: "get_process_info k a = Some k' \<Longrightarrow> touches_current k k'"
  by (auto simp: get_process_info_def bind_eq_Some_conv split: if_splits)

lemma touches_destroy: "touches_current k (snd (process_destroy k p))"
  by (auto simp: touches_current_def process_destroy_def nth_upd split: option.splits if_splits)

lemma syscall_touches:
  assumes "syscall bus mach frame = Some mach'"
  shows "touches_current (kern mach) (kern mach') \<and> gdt mach' = gdt mach \<and> idt mach' = idt mach \<and> tss mach' = tss mach"
  using assms
  by (auto simp: syscall_def Let_def split_def bind_eq_Some_conv touches_destroy split: if_splits
      dest: touches_fs_syscall touches_process_info)

section \<open>Runs of the system\<close>

text \<open>
  A run alternates programs and interrupts. Until the next interrupt the running program changes the memory behind its user pages as it likes, and
  the devices change theirs. A system call of the program has pointers to user pages only: with any other pointer the kernel overwrites its own data or
  takes a page fault. \<open>P\<close> holds in every state in which a program runs.
\<close>

inductive runs :: "'d bus \<Rightarrow> ('d machine \<Rightarrow> bool) \<Rightarrow> 'd machine \<Rightarrow> 'd machine \<Rightarrow> bool" for bus P where
  start: "runs bus P mach mach"
| interrupt: "runs bus P mach m1 \<Longrightarrow> P m1 \<Longrightarrow> (\<forall>v. backing (kern m1) v = None \<longrightarrow> m v = user_mem (kern m1) v) \<Longrightarrow>
    user_pointers (set_user_mem m (kern m1)) frame \<Longrightarrow>
    main_interrupt_handler bus (m1\<lparr>kern := set_user_mem m (kern m1), ports := io\<rparr>) frame = Some (c, m2) \<Longrightarrow> runs bus P mach m2"

text \<open>
  The page directory of a slot and its value in CR3, and the invariant: the running process is in its own address space, and in no other one; the
  directories of the processes map the kernel, and no frame belongs to two of them.
\<close>

definition slot_directory :: "kernel \<Rightarrow> nat \<Rightarrow> u32" where
  "slot_directory k i = page_directory_virtual_addr (slot_context k i)"

definition slot_space :: "kernel \<Rightarrow> nat \<Rightarrow> u32" where
  "slot_space k i = slot_directory k i - KERNEL_VIRTUAL_ADDRESS_BASE"

definition spaces_ok :: "kernel \<Rightarrow> bool" where
  "spaces_ok k \<longleftrightarrow> sched_wf k \<and> pg_ok (pages k) \<and> unat (current_running_pid k) < 16 \<and>
     (\<forall>i < 16. process_slot_occupied k ! i \<longrightarrow> slot_directory k i > KERNEL_VIRTUAL_ADDRESS_BASE \<and> maps_kernel (pages k) (slot_directory k i)) \<and>
     (\<forall>i < 16. \<forall>j < 16. process_slot_occupied k ! i \<and> process_slot_occupied k ! j \<and> i \<noteq> j \<longrightarrow> slot_space k i \<noteq> slot_space k j) \<and>
     (\<forall>i < 16. process_slot_occupied k ! i \<longrightarrow> (cr3 (pages k) = slot_space k i \<longleftrightarrow> i = unat (current_running_pid k)))"

lemma spaces_ok_touches:
  assumes "spaces_ok k" and "touches_current k k'"
  shows "spaces_ok k'"
  using assms unfolding spaces_ok_def touches_current_def sched_wf_def slot_space_def slot_directory_def slot_context_def by simp

lemma spaces_okD:
  assumes "spaces_ok k" and "i < 16" and "process_slot_occupied k ! i"
  shows "cr3 (pages k) = slot_space k i \<longleftrightarrow> i = unat (current_running_pid k)"
    and "j < 16 \<Longrightarrow> process_slot_occupied k ! j \<Longrightarrow> i \<noteq> j \<Longrightarrow> slot_space k i \<noteq> slot_space k j"
  using assms by (simp_all add: spaces_ok_def)

lemma pg_ok_cr3 [simp]: "pg_ok (s\<lparr>cr3 := x\<rparr>) = pg_ok s"
  by (simp add: pg_ok_def)

text \<open>A frame of another process is not behind any address of the current directory.\<close>

lemma not_backing:
  assumes "spaces_ok k" and "user_mapping (pages k) (slot_directory k' p) j frame" and "cr3 (pages k) \<noteq> slot_space k' p"
  shows "backing k v \<noteq> Some frame"
proof
  assume "backing k v = Some frame"
  then have "user_mapping (pages k) (paging_get_current_page_directory_addr (pages k)) (page_index v) frame" by (simp add: backing_def user_mapping_iff)
  then have "paging_get_current_page_directory_addr (pages k) = slot_directory k' p"
    using pg_ok_unique [OF _ _ assms(2)] assms(1) by (simp add: spaces_ok_def)
  then show False using assms(3) by (metis add_diff_cancel slot_space_def paging_get_current_page_directory_addr_def)
qed

lemma spaces_ok_pid: "spaces_ok k \<Longrightarrow> unat (current_running_pid k) < 16"
  by (simp add: spaces_ok_def)

lemma current_slot_small: "unat (current_running_pid k) < 16 \<Longrightarrow> current_slot k = unat (current_running_pid k)"
  by (auto simp: current_slot_def NO_PROCESS_RUNNING_def)

text \<open>The timer: the saved context keeps the page directory, and the switch enters the address space of the slot it chooses.\<close>

lemma save_keeps:
  assumes "sched_wf k"
  shows "sched_wf (scheduler_save_context_to_current_running_pcb k ctx)"
    and "process_slot_occupied (scheduler_save_context_to_current_running_pcb k ctx) = process_slot_occupied k"
    and "current_running_pid (scheduler_save_context_to_current_running_pcb k ctx) = current_running_pid k"
    and "pages (scheduler_save_context_to_current_running_pcb k ctx) = pages k"
    and "memory (scheduler_save_context_to_current_running_pcb k ctx) = memory k"
    and "fsys (scheduler_save_context_to_current_running_pcb k ctx) = fsys k"
    and "i < 16 \<Longrightarrow> page_directory_virtual_addr (slot_context (scheduler_save_context_to_current_running_pcb k ctx) i) =
           page_directory_virtual_addr (slot_context k i)"
  using assms
  by (auto simp: scheduler_save_context_to_current_running_pcb_def sched_wf_def Let_def slot_context_def nth_upd split: option.splits)

lemma timer_tick_spaces:
  assumes "spaces_ok k" and "timer_tick k ctx = Some (c, k')"
  shows "spaces_ok k' \<and> process_slot_occupied k' = process_slot_occupied k \<and> memory k' = memory k \<and> fsys k' = fsys k \<and>
     (\<exists>x. pages k' = (pages k)\<lparr>cr3 := x\<rparr>) \<and> (\<forall>i < 16. slot_directory k' i = slot_directory k i) \<and>
     process_slot_occupied k ! unat (current_running_pid k') \<and> c = slot_context k' (unat (current_running_pid k'))"
proof -
  let ?s = "scheduler_save_context_to_current_running_pcb k ctx"
  have wf: "sched_wf k" using assms(1) by (simp add: spaces_ok_def)
  note keep = save_keeps [OF wf, where ctx = ctx]
  have run: "scheduler_switch_to_next_process ?s = Some (c, k')" using assms(2) by (simp add: timer_tick_def)
  then obtain p where p: "p < 16" "process_slot_occupied ?s ! p" using switch_occupied_slot [of ?s] by fastforce
  obtain q where q: "q < 16" "process_slot_occupied k ! q" "c = slot_context ?s q"
    "k' = ?s\<lparr>process_list := (process_list ?s)[q := (process_list ?s ! q)\<lparr>proc_state := PROCESS_STATE_RUNNING\<rparr>], current_running_pid := of_nat q,
        pages := paging_use_page_directory (pages ?s) (page_directory_virtual_addr (slot_context ?s q))\<rparr>"
    using switch_effect [OF keep(1) p] run keep(2) by (auto simp: slot_context_def)
  have len: "length (process_list ?s) = 16" "length (process_slot_occupied ?s) = 16" using keep(1) by (simp_all add: sched_wf_def)
  have dir: "slot_directory k' i = slot_directory k i" if "i < 16" for i
    using that keep(7) [OF that] q(4) len by (auto simp: slot_directory_def slot_context_def nth_upd)
  have cur: "unat (current_running_pid k') = q" using q by simp
  have above: "slot_directory k q > KERNEL_VIRTUAL_ADDRESS_BASE" using assms(1) q by (simp add: spaces_ok_def)
  have cr3: "cr3 (pages k') = slot_space k q" "\<exists>x. pages k' = (pages k)\<lparr>cr3 := x\<rparr>"
    using q(4) keep(4,7) q(1) above by (auto simp: paging_use_page_directory_def slot_space_def slot_directory_def)
  have c: "c = slot_context k' q" using q len by (simp add: slot_context_def)
  have same: "process_slot_occupied k' = process_slot_occupied k" "memory k' = memory k" "fsys k' = fsys k" "sched_wf k'"
    using q(4) keep by (simp_all add: sched_wf_def)
  have sp: "slot_space k' i = slot_space k i" if "i < 16" for i using dir [OF that] by (simp add: slot_space_def)
  have "slot_space k q = slot_space k i \<longleftrightarrow> i = q" if "i < 16" "process_slot_occupied k ! i" for i
    using assms(1) that q(1,2) unfolding spaces_ok_def by metis
  then have "spaces_ok k'"
    using assms(1) same dir sp cr3 cur q(1) unfolding spaces_ok_def by auto
  then show ?thesis using same cr3 dir c cur q(2) by simp
qed

text \<open>One interrupt.\<close>

lemma handler_cases:
  assumes "main_interrupt_handler bus mach frame = Some (c, mach')"
  obtains (timer) ctx t where "timer_tick (kern mach) ctx = Some (t, kern mach')" "c = Some t" "gdt mach' = gdt mach" "idt mach' = idt mach" "tss mach' = tss mach"
    | (keep) "touches_current (kern mach) (kern mach')" "c = None" "gdt mach' = gdt mach" "idt mach' = idt mach" "tss mach' = tss mach"
proof -
  consider (t) "int_number frame = 0x20" | (k) "int_number frame = 0x21" | (s) "int_number frame = 0x30"
    | (o) "int_number frame \<noteq> 0x20" "int_number frame \<noteq> 0x21" "int_number frame \<noteq> 0x30" by blast
  then show thesis
  proof cases
    case t
    then obtain ctx cc k where "timer_tick (kern mach) ctx = Some (cc, k)" "c = Some cc"
      "mach' = mach\<lparr>ports := pic_ack bus (of_nat IRQ_TIMER) (ports mach), kern := k\<rparr>"
      using assms by (auto simp: main_interrupt_handler_def vectors bind_eq_Some_conv)
    then show thesis using timer [of ctx cc] by simp
  next
    case k
    then have "c = None" "\<exists>kb io. mach' = mach\<lparr>keyboard_status := kb, ports := io\<rparr>"
      using assms by (auto simp: main_interrupt_handler_def vectors split_def Let_def)
    then show thesis using keep by auto
  next
    case s
    then have "c = None" "syscall bus mach frame = Some mach'" using assms by (auto simp: main_interrupt_handler_def vectors)
    then show thesis using keep syscall_touches by blast
  next
    case o
    then have "c = None" "mach' = mach" using assms by (auto simp: main_interrupt_handler_def vectors)
    then show thesis using keep by simp
  qed
qed

lemma handler_spaces:
  assumes "spaces_ok (kern mach)" and "main_interrupt_handler bus mach frame = Some (c, mach')"
  shows "spaces_ok (kern mach') \<and> (\<forall>f v. backing (kern mach) v \<noteq> f \<longrightarrow> memory (kern mach') f v = memory (kern mach) f v) \<and>
    (\<exists>x. pages (kern mach') = (pages (kern mach))\<lparr>cr3 := x\<rparr>) \<and>
    (\<forall>i < 16. process_slot_occupied (kern mach') ! i \<longrightarrow>
       process_slot_occupied (kern mach) ! i \<and> slot_directory (kern mach') i = slot_directory (kern mach) i) \<and>
    (cr3 (pages (kern mach')) = cr3 (pages (kern mach)) \<or> process_slot_occupied (kern mach') ! unat (current_running_pid (kern mach')))"
  using assms(2)
proof (cases rule: handler_cases)
  case (timer ctx t)
  then show ?thesis using timer_tick_spaces [OF assms(1) timer(1)] by simp
next
  case keep
  have len: "length (process_slot_occupied (kern mach)) = 16" using assms(1) by (simp add: spaces_ok_def sched_wf_def)
  have "\<exists>x. pages (kern mach') = (pages (kern mach))\<lparr>cr3 := x\<rparr>"
    using keep(1) by (intro exI [of _ "cr3 (pages (kern mach))"]) (simp add: touches_current_def)
  then show ?thesis using keep(1) spaces_ok_touches [OF assms(1) keep(1)] len
    unfolding touches_current_def slot_directory_def slot_context_def by simp
qed

lemma run_spaces:
  assumes "runs bus P mach mach'" and "spaces_ok (kern mach)"
  shows "spaces_ok (kern mach') \<and> (\<exists>x. pages (kern mach') = (pages (kern mach))\<lparr>cr3 := x\<rparr>) \<and>
    (\<forall>i < 16. process_slot_occupied (kern mach') ! i \<longrightarrow>
       process_slot_occupied (kern mach) ! i \<and> slot_directory (kern mach') i = slot_directory (kern mach) i)"
  using assms
proof induction
  case (start mach)
  then show ?case by (auto intro!: exI [of _ "cr3 (pages (kern mach))"])
next
  case (interrupt mach m1 m frm io c m2)
  let ?k = "set_user_mem m (kern m1)"
  have IH: "spaces_ok (kern m1)" "\<exists>x. pages (kern m1) = (pages (kern mach))\<lparr>cr3 := x\<rparr>"
    "\<forall>i < 16. process_slot_occupied (kern m1) ! i \<longrightarrow>
       process_slot_occupied (kern mach) ! i \<and> slot_directory (kern m1) i = slot_directory (kern mach) i"
    using interrupt.IH interrupt.prems by blast+
  have ok: "spaces_ok (kern (m1\<lparr>kern := ?k, ports := io\<rparr>))" using spaces_ok_touches [OF IH(1)] by simp
  have sp: "slot_directory ?k i = slot_directory (kern m1) i" for i by (simp add: slot_directory_def slot_context_def)
  show ?case using handler_spaces [OF ok interrupt.hyps(5)] IH(2,3) sp by auto
qed

text \<open>
  As long as a slot does not run, nothing changes the frames that its page directory maps.
\<close>

lemma run_private:
  assumes "runs bus (\<lambda>m. unat (current_running_pid (kern m)) \<noteq> p) mach mach'" and "spaces_ok (kern mach)"
    and "p < 16" and "process_slot_occupied (kern mach) ! p" and "user_mapping (pages (kern mach)) (slot_directory (kern mach) p) j frame"
  shows "memory (kern mach') (Some frame) = memory (kern mach) (Some frame) \<and>
    (unat (current_running_pid (kern mach')) \<noteq> p \<longrightarrow> cr3 (pages (kern mach')) \<noteq> slot_space (kern mach) p)"
  using assms
proof induction
  case (start mach)
  then show ?case using spaces_okD(1) [of "kern mach" p] by auto
next
  case (interrupt mach m1 m frm io c m2)
  let ?a = "slot_space (kern mach) p" and ?k = "set_user_mem m (kern m1)"
  have "runs bus (\<lambda>m. unat (current_running_pid (kern m)) \<noteq> p) mach m2" using interrupt.hyps by (rule runs.interrupt)
  note m1 = run_spaces [OF interrupt.hyps(1) interrupt.prems(1)] and m2 = run_spaces [OF this interrupt.prems(1)]
  have IH: "memory (kern m1) (Some frame) = memory (kern mach) (Some frame)" "cr3 (pages (kern m1)) \<noteq> ?a"
    using interrupt.IH interrupt.prems interrupt.hyps(2) by blast+
  have map: "user_mapping (pages (kern m1)) (slot_directory (kern mach) p) j frame" using m1 interrupt.prems(4) by auto
  have other: "backing (kern m1) v \<noteq> Some frame" for v using not_backing [OF _ map IH(2)] m1 by blast
  have "spaces_ok ?k" using spaces_ok_touches [of "kern m1" ?k] m1 by simp
  then have ok: "spaces_ok (kern (m1\<lparr>kern := ?k, ports := io\<rparr>))" by simp
  note h = handler_spaces [OF ok interrupt.hyps(5)]
  have "memory (kern m2) (Some frame) v = memory (kern m1) (Some frame) v" for v
    using h other [of v] by (simp add: memory_set_user_mem)
  then have mem: "memory (kern m2) (Some frame) = memory (kern mach) (Some frame)" using IH(1) by auto
  have "cr3 (pages (kern m2)) \<noteq> ?a" if ne: "unat (current_running_pid (kern m2)) \<noteq> p"
  proof (cases "cr3 (pages (kern m2)) = cr3 (pages (kern m1))")
    case False
    let ?j = "unat (current_running_pid (kern m2))"
    have j: "?j < 16" "process_slot_occupied (kern m2) ! ?j" using h False spaces_ok_pid m2 by auto
    then have "cr3 (pages (kern m2)) = slot_space (kern mach) ?j" using spaces_okD(1) [OF _ j] m2 by (simp add: slot_space_def)
    then show ?thesis using spaces_okD(2) [OF interrupt.prems(1) j(1) _ interrupt.prems(2,3)] m2 j ne by auto
  qed (use IH(2) in simp)
  then show ?case using mem by blast
qed

lemma run_own_space:
  assumes "runs bus P mach mach'" and "spaces_ok (kern mach)"
  shows "unat (current_running_pid (kern mach')) < 16 \<and>
    (\<forall>i < 16. process_slot_occupied (kern mach') ! i \<longrightarrow> process_slot_occupied (kern mach) ! i \<and>
       slot_directory (kern mach') i = slot_directory (kern mach) i \<and> maps_kernel (pages (kern mach')) (slot_directory (kern mach) i) \<and>
       (cr3 (pages (kern mach')) = slot_space (kern mach) i \<longleftrightarrow> i = unat (current_running_pid (kern mach'))) \<and>
       (i \<noteq> unat (current_running_pid (kern mach')) \<longrightarrow>
          (\<forall>n frame v. user_mapping (pages (kern mach')) (slot_directory (kern mach) i) n frame \<longrightarrow> backing (kern mach') v \<noteq> Some frame))) \<and>
    (\<exists>x. pages (kern mach') = (pages (kern mach))\<lparr>cr3 := x\<rparr>)"
proof (intro conjI allI impI)
  note run = run_spaces [OF assms]
  show "unat (current_running_pid (kern mach')) < 16" using run spaces_ok_pid by blast
  show "\<exists>x. pages (kern mach') = (pages (kern mach))\<lparr>cr3 := x\<rparr>" using run by blast
  fix i assume i: "i < 16" "process_slot_occupied (kern mach') ! i"
  show occ: "process_slot_occupied (kern mach) ! i" and dir: "slot_directory (kern mach') i = slot_directory (kern mach) i" using run i by blast+
  show "maps_kernel (pages (kern mach')) (slot_directory (kern mach) i)" using run i dir by (auto simp: spaces_ok_def)
  have sp: "slot_space (kern mach') i = slot_space (kern mach) i" using dir by (simp add: slot_space_def)
  show cr3: "cr3 (pages (kern mach')) = slot_space (kern mach) i \<longleftrightarrow> i = unat (current_running_pid (kern mach'))"
    using spaces_okD(1) [OF _ i] run sp by simp
  show "backing (kern mach') v \<noteq> Some frame"
    if "i \<noteq> unat (current_running_pid (kern mach'))" "user_mapping (pages (kern mach')) (slot_directory (kern mach) i) n frame" for n frame v
    using not_backing [OF _ that(2)] run cr3 that(1) by blast
qed

section \<open>System calls as a program sees them\<close>

text \<open>A frame that asks for system call \<open>n\<close>.\<close>

definition calls :: "InterruptFrame \<Rightarrow> u32 \<Rightarrow> u32 \<Rightarrow> u32 \<Rightarrow> bool" where
  "calls frame n b c \<longleftrightarrow> int_number frame = 0x30 \<and> eax (frame_cpu frame) = n \<and> ebx (frame_cpu frame) = b \<and> ecx (frame_cpu frame) = c"

lemma handler_syscall:
  "calls frame n b c \<Longrightarrow> main_interrupt_handler bus mach frame = map_option (\<lambda>mach. (None, mach)) (syscall bus mach frame)"
  by (simp add: main_interrupt_handler_def vectors calls_def)

lemma fs_syscall_run:
  assumes "load_bytes (user_mem k) b 23 = request_bytes r" and "wf_request r"
    and "op ((fsys k)\<lparr>ram := user_mem k\<rparr>) r = Some (retcode, f)"
  shows "fs_syscall op k b c = Some (set_user_mem ((ram f)(c := word_of_int retcode)) (k\<lparr>fsys := f\<rparr>))"
  using assms by (simp add: fs_syscall_def)

lemma syscall_fs:
  "calls frame 0 b c \<Longrightarrow> syscall bus mach frame = map_option (\<lambda>k. mach\<lparr>kern := k\<rparr>) (fs_syscall read (kern mach) b c)"
  "calls frame 1 b c \<Longrightarrow> syscall bus mach frame = map_option (\<lambda>k. mach\<lparr>kern := k\<rparr>) (fs_syscall read_directory (kern mach) b c)"
  "calls frame 2 b c \<Longrightarrow> syscall bus mach frame = map_option (\<lambda>k. mach\<lparr>kern := k\<rparr>) (fs_syscall write' (kern mach) b c)"
  "calls frame 3 b c \<Longrightarrow> syscall bus mach frame = map_option (\<lambda>k. mach\<lparr>kern := k\<rparr>) (fs_syscall delete (kern mach) b c)"
  by (simp_all add: syscall_def Let_def calls_def)

lemma load_bytes_upd: "\<not> unat (a - p) < n \<Longrightarrow> load_bytes (m(a := v)) p n = load_bytes m p n"
proof (rule load_bytes_cong)
  fix i
  assume "\<not> unat (a - p) < n" and "i < n"
  moreover have "unat (p + of_nat i - p) \<le> i" by (simp add: unat_of_nat)
  ultimately have "a \<noteq> p + of_nat i" by auto
  then show "(m(a := v)) (p + of_nat i) = m (p + of_nat i)" by simp
qed

text \<open>Writing a file and reading it back, by two system calls.\<close>

lemma write_call:
  assumes inv: "fs_inv (fsys k) D" and req: "load_bytes (user_mem k) b 23 = request_bytes r" "wf_request r"
    and r: "r_parent_cluster_number r \<in> D" "request_key r \<noteq> zero_key" "r_buffer_size r \<noteq> 0"
    and new: "listing (disk (fsys k)) (r_parent_cluster_number r) (request_key r) = None"
    and room: "\<exists>i < 64. \<not> used (disk_dir (disk (fsys k)) (r_parent_cluster_number r) ! i)"
      "cluster_need (unat (r_buffer_size r)) \<le> length (frees (disk_fat (disk (fsys k))) 3)"
  shows "\<exists>k'. fs_syscall write' k b c = Some k' \<and> fs_inv (fsys k') D \<and> user_mem k' = (user_mem k)(c := 0) \<and>
    (\<forall>q \<in> D. listing (disk (fsys k')) q = (if q = r_parent_cluster_number r
       then (listing (disk (fsys k)) q)(request_key r \<mapsto> File (load_bytes (user_mem k) (r_buf r) (unat (r_buffer_size r))))
       else listing (disk (fsys k)) q))"
proof -
  let ?s = "(fsys k)\<lparr>ram := user_mem k\<rparr>"
  have "fs_inv ?s D" using inv by simp
  from write_file_effect [OF this r(1) req(2) r(2,3)] new room
  obtain f where f: "write' ?s r = Some (0, f)" "fs_inv f D" "ram f = user_mem k"
    "\<forall>q \<in> D. listing (disk f) q = (if q = r_parent_cluster_number r
       then (listing (disk (fsys k)) q)(request_key r \<mapsto> File (load_bytes (user_mem k) (r_buf r) (unat (r_buffer_size r))))
       else listing (disk (fsys k)) q)"
    by auto
  show ?thesis using fs_syscall_run [OF req, of write'] f by simp
qed

lemma read_call:
  assumes inv: "fs_inv (fsys k) D" and req: "load_bytes (user_mem k) b 23 = request_bytes r" "wf_request r"
    and r: "r_parent_cluster_number r \<in> D" "request_key r \<noteq> zero_key" "r_buffer_size r \<noteq> 0"
    and stored: "listing (disk (fsys k)) (r_parent_cluster_number r) (request_key r) = Some (File xs)" "length xs mod 2048 \<noteq> 0"
    and apart: "\<not> unat (c - r_buf r) < length xs"
  shows "\<exists>k'. fs_syscall read k b c = Some k' \<and> fs_inv (fsys k') D \<and> disk (fsys k') = disk (fsys k) \<and>
    user_mem k' c = 0 \<and> load_bytes (user_mem k') (r_buf r) (length xs) = xs"
proof -
  let ?s = "(fsys k)\<lparr>ram := user_mem k\<rparr>"
  have "fs_inv ?s D" using inv by simp
  from read_effect [OF this r(1) req(2) r(2,3)] stored
  obtain f where f: "read ?s r = Some (0, f)" "load_bytes (ram f) (r_buf r) (length xs) = xs" "disk f = disk (fsys k)" "fs_inv f D"
    by auto
  show ?thesis using fs_syscall_run [OF req, of read] f load_bytes_upd [OF apart] by simp
qed

text \<open>Terminating the running process, and the timer interrupt after that.\<close>

lemma running_block:
  assumes "sched_ok k" and "i < 16" and "process_slot_occupied k ! i"
  shows "pid (process_list k ! i) = current_running_pid k \<longleftrightarrow> i = current_slot k"
proof -
  have "unat (pid (process_list k ! i)) = i" using assms by (simp add: sched_ok_def)
  then show ?thesis unfolding current_slot_ok [OF assms(1)] by (metis word_unat_eq_iff)
qed

lemma destroy_running:
  assumes "sched_ok k" and "\<forall>i < 16. \<not> process_slot_occupied k ! i \<longrightarrow> pid (process_list k ! i) = 0"
  shows "snd (process_destroy k (current_running_pid k)) =
    k\<lparr>process_list := (process_list k)[current_slot k := zero_pcb], process_slot_occupied := (process_slot_occupied k)[current_slot k := False],
      active_process_count := active_process_count k - 1\<rparr>"
proof -
  let ?p = "current_slot k"
  have p: "?p < 16" "process_slot_occupied k ! ?p" "unat (current_running_pid k) = ?p" "length (process_list k) = 16"
    using assms(1) current_slot_ok [OF assms(1)] by (simp_all add: sched_ok_def sched_wf_def)
  have "pid (process_list k ! j) \<noteq> current_running_pid k" if "j < ?p" for j
  proof (cases "process_slot_occupied k ! j")
    case True
    then show ?thesis using running_block [OF assms(1) _ True] that p(1) by simp
  next
    case False
    then have "pid (process_list k ! j) = 0" using assms(2) that p(1) by simp
    then show ?thesis using that p(3) by auto
  qed
  then have "first_index (\<lambda>b. pid b = current_running_pid k) (process_list k) = Some ?p"
    using p(1,4) running_block [OF assms(1) p(1,2)] by (simp add: first_index_Some_iff)
  then show ?thesis by (simp add: process_destroy_def)
qed

text \<open>With no control block of the running pid there is nothing to save.\<close>

lemma save_nothing:
  assumes "sched_ok k" and "k' = k\<lparr>process_list := (process_list k)[current_slot k := zero_pcb],
      process_slot_occupied := (process_slot_occupied k)[current_slot k := False], active_process_count := n\<rparr>"
  shows "scheduler_save_context_to_current_running_pcb k' ctx = k'"
proof -
  have p: "current_slot k < 16" "unat (current_running_pid k) = current_slot k" "length (process_slot_occupied k) = 16" "length (process_list k) = 16"
    using assms(1) current_slot_ok [OF assms(1)] by (simp_all add: sched_ok_def sched_wf_def)
  have "process_get_current_running_pcb_pointer k' = None"
    using p assms(2) running_block [OF assms(1)] by (auto simp: process_get_current_running_pcb_pointer_def first_index_None_iff PROCESS_COUNT_MAX_def nth_upd)
  then show ?thesis by (simp add: scheduler_save_context_to_current_running_pcb_def)
qed

section \<open>Example machines\<close>

definition call_frame :: "u32 \<Rightarrow> u32 \<Rightarrow> u32 \<Rightarrow> u32 \<Rightarrow> InterruptFrame" where
  "call_frame n b c d = \<lparr>frame_cpu = zero_cpu\<lparr>eax := n, ebx := b, ecx := c, edx := d\<rparr>, int_number = 0x30,
     int_stack = \<lparr>error_code = 0, int_eip = 0x400, int_cs = 0x1B, int_eflags = 0x202\<rparr>\<rparr>"

definition machine_of :: "kernel \<Rightarrow> u8 machine" where
  "machine_of k = \<lparr>kern = k, keyboard_status = listening, screen_mem = (\<lambda>_. 0), ports = \<lparr>dev = 0, interrupt_flag = False\<rparr>,
     gdt = global_descriptor_table, idt = interrupt_descriptor_table, tss = interrupt_tss_entry\<rparr>"

lemma calls_call_frame: "calls (call_frame n b c d) n b c"
  by (simp add: calls_def call_frame_def)

text \<open>
  The page tables of two programs: the directory of each has one user page at address 0, with the frames 1 and 2.
\<close>

definition program_directory :: "10 word \<Rightarrow> PageDirectory" where
  "program_directory frame = (replicate PAGE_ENTRY_COUNT zero_pde)[0 := kernel_pde\<lparr>flag := (flag kernel_pde)\<lparr>user_bit := True\<rparr>, lower_address := frame\<rparr>,
     0x300 := kernel_pde]"

definition program_pages :: page_state where
  "program_pages = \<lparr>page_dirs = [0xC0100000 \<mapsto> paging_kernel_page_directory, 0xC0200000 \<mapsto> program_directory 1, 0xC0201000 \<mapsto> program_directory 2],
     page_directory_used = (replicate 32 False)[0 := True, 1 := True], page_frame_map = (replicate 32 False)[0 := True, 1 := True, 2 := True],
     free_page_frame_count = 29, cr3 = 0x200000\<rparr>"

lemma program_directory: "i < 1024 \<Longrightarrow> present_bit (flag (program_directory f ! i)) \<and> user_bit (flag (program_directory f ! i)) \<longleftrightarrow> i = 0"
  "lower_address (program_directory f ! 0) = f" "length (program_directory f) = 1024" "kernel_entry (program_directory f ! 0x300)"
  by (auto simp: program_directory_def PAGE_ENTRY_COUNT_def kernel_pde_def zero_pde_def zero_flag_def kernel_entry_def nth_upd)

lemma program_pages_mapping:
  "user_mapping program_pages a i frame \<longleftrightarrow> i = 0 \<and> (a = 0xC0200000 \<and> frame = 1 \<or> a = 0xC0201000 \<and> frame = 2)"
proof -
  have "\<not> user_bit (flag (paging_kernel_page_directory ! j))" if "j < 1024" for j
    using that by (auto simp: paging_kernel_page_directory_def kernel_pde_def zero_pde_def zero_flag_def PAGE_ENTRY_COUNT_def nth_upd)
  moreover have "length paging_kernel_page_directory = 1024" by (simp add: paging_kernel_page_directory_def PAGE_ENTRY_COUNT_def)
  moreover have "program_directory f \<noteq> []" for f using program_directory(3) [of f] by auto
  ultimately show ?thesis
    using program_directory(1) [of i] program_directory(2)
    by (cases "i = 0") (auto simp: user_mapping_def program_pages_def program_directory(3))
qed

lemma program_pages: "pg_ok program_pages" "maps_kernel program_pages 0xC0200000" "maps_kernel program_pages 0xC0201000"
  "user_frame program_pages 0xC0200000 0 = Some 1"
proof -
  let ?m = "(replicate 32 False)[0 := True, 1 := True, 2 := True]"
  have "{i. i < length ?m \<and> \<not> ?m ! i} = {3..<32}" by (auto simp: nth_upd)
  then have "flags.free_count ?m = 29" by (simp add: flags.free_count_def)
  then show "pg_ok program_pages"
    unfolding pg_ok_def program_pages_mapping
    by (auto simp: program_pages_def program_directory(3) paging_kernel_page_directory_def PAGE_ENTRY_COUNT_def split: if_splits)
  show "maps_kernel program_pages 0xC0200000" "maps_kernel program_pages 0xC0201000"
    by (simp_all add: maps_kernel_def program_pages_def program_directory)
  show "user_frame program_pages 0xC0200000 0 = Some 1" by (simp add: program_pages_mapping flip: user_mapping_iff)
qed

text \<open>A machine with programs in the slots 0 and 1 with address spaces of their own, slot 0 running, and all memory filled with 5.\<close>

definition two_programs :: "u8 machine" where
  "two_programs = machine_of (boot_kernel\<lparr>
     process_list := (replicate 16 zero_pcb)[0 := zero_pcb\<lparr>pcb_context := zero_context\<lparr>page_directory_virtual_addr := 0xC0200000\<rparr>\<rparr>,
        1 := zero_pcb\<lparr>pid := 1, pcb_context := zero_context\<lparr>page_directory_virtual_addr := 0xC0201000\<rparr>\<rparr>],
     process_slot_occupied := (replicate 16 False)[0 := True, 1 := True], active_process_count := 2,
     pages := program_pages, memory := (\<lambda>_ _. 5)\<rparr>)"

lemma two_programs_occ: "i < 16 \<Longrightarrow> process_slot_occupied (kern two_programs) ! i \<longleftrightarrow> i < 2"
  by (auto simp: two_programs_def machine_of_def boot_kernel_def nth_upd)

lemma two_programs:
  "spaces_ok (kern two_programs)" "sched_ok (kern two_programs)" "slot_space (kern two_programs) 0 = 0x200000"
  "slot_space (kern two_programs) 1 = 0x201000" "current_running_pid (kern two_programs) = 0" "memory (kern two_programs) = (\<lambda>_ _. 5)"
  "pages (kern two_programs) = program_pages"
proof -
  have lt: "i < 2 \<longleftrightarrow> i = 0 \<or> i = Suc 0" for i :: nat by auto
  show sp: "slot_space (kern two_programs) 0 = 0x200000" "slot_space (kern two_programs) 1 = 0x201000"
    by (simp_all add: two_programs_def machine_of_def slot_space_def slot_directory_def slot_context_def boot_kernel_def KERNEL_VIRTUAL_ADDRESS_BASE_def)
  show cur: "current_running_pid (kern two_programs) = 0" "memory (kern two_programs) = (\<lambda>_ _. 5)" "pages (kern two_programs) = program_pages"
    by (simp_all add: two_programs_def machine_of_def boot_kernel_def)
  have wf: "sched_wf (kern two_programs)" by (simp add: two_programs_def machine_of_def boot_kernel_def sched_wf_def)
  have "pid (process_list (kern two_programs) ! i) = of_nat i" if "i < 2" for i
    using that by (auto simp: two_programs_def machine_of_def boot_kernel_def zero_pcb_def lt)
  then show "sched_ok (kern two_programs)" using wf two_programs_occ cur(1) by (simp add: sched_ok_def)
  have dir: "slot_directory (kern two_programs) i > KERNEL_VIRTUAL_ADDRESS_BASE \<and> maps_kernel program_pages (slot_directory (kern two_programs) i)"
    if "i < 2" for i
    using that program_pages(2,3)
    by (auto simp: two_programs_def machine_of_def boot_kernel_def slot_directory_def slot_context_def lt KERNEL_VIRTUAL_ADDRESS_BASE_def)
  have "cr3 program_pages = 0x200000" by (simp add: program_pages_def)
  then show "spaces_ok (kern two_programs)"
    unfolding spaces_ok_def using wf two_programs_occ dir sp cur(1,3) program_pages(1) by (auto simp: lt)
qed

text \<open>Page 0 of the running program.\<close>

lemma two_programs_names: "i < 16 \<Longrightarrow> length (proc_name (process_list (kern two_programs) ! i)) = 32"
  by (auto simp: two_programs_def machine_of_def boot_kernel_def nth_upd zero_pcb_def PROCESS_NAME_LENGTH_MAX_def)

lemma accessible_two_programs:
  "unat p + n \<le> 2 ^ 22 \<Longrightarrow> pages k = program_pages \<Longrightarrow> accessible k p n"
  using accessible_page(1) [of p n k 1] program_pages(4)
  by (cases "n = 0") (simp_all add: accessible_def page_index_div paging_get_current_page_directory_addr_def program_pages_def KERNEL_VIRTUAL_ADDRESS_BASE_def)

text \<open>Memory with a request to write a file and one to read it, at 0x1000 and 0x1100.\<close>

definition two_requests :: mem where
  "two_requests = store_bytes (store_bytes (\<lambda>_. 7) 0x1000 (request_bytes (file_request 3000)))
     0x1100 (request_bytes ((file_request 3000)\<lparr>r_buf := 0x200000\<rparr>))"

section \<open>Properties\<close>

text \<open>
  C35: a program stores a file and gets it back through the system calls. The size of the file is not a multiple of 2048 (\<open>read\<close> has no result for such a file),
  there is room for it, no file has its name, and all pointers lead to user pages of the program, where the second buffer must have room for whole clusters. Given the
  two requests in its memory, the first interrupt writes the bytes of the buffer to the file and stores the result 0 at the address in \<open>ecx\<close> and nothing else; the
  second one puts exactly those bytes into the first bytes of the other buffer. Both return to the program, and the invariant of the file system is kept.
\<close>

theorem file_system_calls:
  assumes "fs_inv (fsys (kern mach)) D" and "load_bytes (user_mem (kern mach)) b 23 = request_bytes r" and "wf_request r"
    and "load_bytes (user_mem (kern mach)) b' 23 = request_bytes r'" and "wf_request r'"
    and "r_parent_cluster_number r \<in> D" and "request_key r \<noteq> zero_key" and "r_buffer_size r \<noteq> 0" and "unat (r_buffer_size r) mod 2048 \<noteq> 0"
    and "listing (disk (fsys (kern mach))) (r_parent_cluster_number r) (request_key r) = None"
    and "\<exists>i < 64. \<not> used (disk_dir (disk (fsys (kern mach))) (r_parent_cluster_number r) ! i)"
    and "cluster_need (unat (r_buffer_size r)) \<le> length (frees (disk_fat (disk (fsys (kern mach)))) 3)"
    and "request_key r' = request_key r" and "r_parent_cluster_number r' = r_parent_cluster_number r" and "r_buffer_size r' \<noteq> 0"
    and "calls frame 2 b c" and "calls frame' 0 b' c'"
    and "\<not> unat (c - b') < 23" and "\<not> unat (c' - r_buf r') < unat (r_buffer_size r)"
    and "list_all (\<lambda>(p, n). accessible (kern mach) p n) [(b, 23), (c, 1), (b', 23), (c', 1), (r_buf r, unat (r_buffer_size r)),
           (r_buf r', 2048 * cluster_need (unat (r_buffer_size r)))]"
  shows "\<exists>m1 m2. main_interrupt_handler bus mach frame = Some (None, m1) \<and> main_interrupt_handler bus m1 frame' = Some (None, m2) \<and>
    user_mem (kern m1) = (user_mem (kern mach))(c := 0) \<and> user_mem (kern m2) c' = 0 \<and>
    load_bytes (user_mem (kern m2)) (r_buf r') (unat (r_buffer_size r)) = load_bytes (user_mem (kern mach)) (r_buf r) (unat (r_buffer_size r)) \<and>
    fs_inv (fsys (kern m2)) D"
proof -
  let ?xs = "load_bytes (user_mem (kern mach)) (r_buf r) (unat (r_buffer_size r))"
  obtain k1 where k1: "fs_syscall write' (kern mach) b c = Some k1" "fs_inv (fsys k1) D" "user_mem k1 = (user_mem (kern mach))(c := 0)"
    "listing (disk (fsys k1)) (r_parent_cluster_number r) (request_key r) = Some (File ?xs)"
    using write_call [OF assms(1-3,6-8,10-12), of c] assms(6) by auto
  have req: "load_bytes (user_mem k1) b' 23 = request_bytes r'" using k1(3) load_bytes_upd [OF assms(18)] assms(4) by simp
  obtain k2 where k2: "fs_syscall read k1 b' c' = Some k2" "fs_inv (fsys k2) D" "user_mem k2 c' = 0"
    "load_bytes (user_mem k2) (r_buf r') (length ?xs) = ?xs"
    using read_call [OF k1(2) req assms(5), of ?xs c'] k1(4) assms by auto
  show ?thesis
    using k1 k2 handler_syscall [OF assms(16), of bus mach] handler_syscall [OF assms(17), of bus "mach\<lparr>kern := k1\<rparr>"]
    by (simp add: syscall_fs(3) [OF assms(16)] syscall_fs(1) [OF assms(17)])
qed

lemma two_requests:
  "load_bytes two_requests 0x1000 23 = request_bytes (file_request 3000)"
  "load_bytes two_requests 0x1100 23 = request_bytes ((file_request 3000)\<lparr>r_buf := 0x200000\<rparr>)"
  "load_bytes two_requests 0x100000 3000 = replicate 3000 7"
proof -
  let ?r = "request_bytes (file_request 3000)" and ?s = "request_bytes ((file_request 3000)\<lparr>r_buf := 0x200000\<rparr>)"
  have len: "length ?r = 23" "length ?s = 23" using file_request(1) [of 3000] by (simp_all add: wf_request_def)
  have apart: "ranges_disjoint 0x1000 23 0x1100 23" "ranges_disjoint 0x100000 3000 0x1000 23" "ranges_disjoint 0x100000 3000 0x1100 23"
    by (rule ranges_disjointI; simp add: no_wrap_def)+
  show "load_bytes two_requests 0x1000 23 = ?r"
    unfolding two_requests_def using len apart load_store_bytes [of ?r "\<lambda>_. 7" "0x1000"] by (subst load_store_bytes_disjoint) simp_all
  show "load_bytes two_requests 0x1100 23 = ?s"
    unfolding two_requests_def using len load_store_bytes [of ?s _ "0x1100"] by simp
  show "load_bytes two_requests 0x100000 3000 = replicate 3000 7"
    unfolding two_requests_def using len apart by (simp add: load_store_bytes_disjoint load_const)
qed

theorem file_system_calls_witness:
  "\<exists>m1 m2. main_interrupt_handler key_bus (machine_of ((kern two_programs)\<lparr>fsys := formatted, memory := (\<lambda>_. two_requests)\<rparr>)) (call_frame 2 0x1000 0x2000 0) = Some (None, m1) \<and>
     main_interrupt_handler key_bus m1 (call_frame 0 0x1100 0x2001 0) = Some (None, m2) \<and>
     user_mem (kern m2) 0x2001 = 0 \<and> load_bytes (user_mem (kern m2)) 0x200000 3000 = replicate 3000 7"
proof -
  let ?m = "machine_of ((kern two_programs)\<lparr>fsys := formatted, memory := (\<lambda>_. two_requests)\<rparr>)"
  let ?r = "file_request 3000" and ?s = "(file_request 3000)\<lparr>r_buf := 0x200000\<rparr>"
  have m: "fsys (kern ?m) = formatted" "user_mem (kern ?m) = two_requests" "pages (kern ?m) = program_pages"
    using two_programs(7) by (simp_all add: machine_of_def user_mem_def)
  have s: "wf_request ?s" "request_key ?s = request_key ?r" "r_buf ?s = 0x200000"
    using file_request(1) [of 3000] by (simp_all add: wf_request_def request_key_def)
  have need: "cluster_need 3000 = 2" by (simp add: cluster_need_def)
  have range: "list_all (\<lambda>(p, n). accessible (kern ?m) p n) [(0x1000, 23), (0x2000, 1), (0x1100, 23), (0x2001, 1), (r_buf ?r, unat (r_buffer_size ?r)),
      (r_buf ?s, 2048 * cluster_need (unat (r_buffer_size ?r)))]"
    using accessible_two_programs [OF _ m(3)] by (simp add: file_request need)
  show ?thesis
    using file_system_calls [of ?m "{2}" "0x1000" ?r "0x1100" ?s "call_frame 2 0x1000 0x2000 0" "0x2000" "call_frame 0 0x1100 0x2001 0" "0x2001" key_bus]
      formatted(2) two_requests file_request(1,2,6) [of 3000] s formatted_hyps(1,3) [of 3000] calls_call_frame range need
    by (auto simp: m file_request formatted(5))
qed

text \<open>
  C36: every program runs in its own address space. In every state that a run of programs and interrupts reaches whose system calls have pointers to user pages,
  the page directory in use is that of the running slot, if that slot is still occupied, and that of no other process; it maps the kernel and frames that no directory
  of another process maps; no interrupt changes the page tables or the book-keeping of the memory manager, nor gives a slot another page directory.
\<close>

theorem own_address_space:
  assumes "runs bus (\<lambda>_. True) mach mach'" and "spaces_ok (kern mach)"
  shows "unat (current_running_pid (kern mach')) < 16 \<and>
    (\<forall>i < 16. process_slot_occupied (kern mach') ! i \<longrightarrow> process_slot_occupied (kern mach) ! i \<and>
       slot_directory (kern mach') i = slot_directory (kern mach) i \<and> maps_kernel (pages (kern mach')) (slot_directory (kern mach) i) \<and>
       (cr3 (pages (kern mach')) = slot_space (kern mach) i \<longleftrightarrow> i = unat (current_running_pid (kern mach'))) \<and>
       (i \<noteq> unat (current_running_pid (kern mach')) \<longrightarrow>
          (\<forall>n frame v. user_mapping (pages (kern mach')) (slot_directory (kern mach) i) n frame \<longrightarrow> backing (kern mach') v \<noteq> Some frame))) \<and>
    (\<exists>x. pages (kern mach') = (pages (kern mach))\<lparr>cr3 := x\<rparr>)"
  using run_own_space [OF assms] .

definition timer_frame :: InterruptFrame where
  "timer_frame = (call_frame 0 0 0 0)\<lparr>int_number := 0x20\<rparr>"

lemma two_programs_tick:
  "\<exists>t m2. main_interrupt_handler key_bus (two_programs\<lparr>kern := set_user_mem (user_mem (kern two_programs)) (kern two_programs), ports := io\<rparr>) timer_frame =
       Some (Some t, m2) \<and> unat (current_running_pid (kern m2)) = 1 \<and> process_slot_occupied (kern m2) ! 1"
proof -
  let ?k = "set_user_mem (user_mem (kern two_programs)) (kern two_programs)"
  have ok: "sched_ok ?k" using two_programs(2) by (simp add: sched_ok_def sched_wf_def)
  have occ: "process_slot_occupied ?k ! i \<longleftrightarrow> i < 2" if "i < 16" for i using two_programs_occ [OF that] by simp
  have cur: "current_slot ?k = 0" using current_slot_ok [OF ok] two_programs(5) by simp
  obtain t k2 where t: "timer_tick ?k (zero_context\<lparr>eip := int_eip (int_stack timer_frame), eflags := int_eflags (int_stack timer_frame), cpu := frame_cpu timer_frame\<rparr>) =
      Some (t, k2)" "sched_ok k2" "process_slot_occupied k2 = process_slot_occupied ?k"
      "\<And>q. q < 16 \<Longrightarrow> process_slot_occupied ?k ! q \<Longrightarrow> ring_distance 16 (current_slot ?k) (current_slot k2) \<le> ring_distance 16 (current_slot ?k) q"
    using tick_effect [OF ok] by blast
  have slot: "current_slot k2 < 16" "process_slot_occupied ?k ! current_slot k2"
    using t(2,3) current_slot_ok [OF t(2)] by (simp_all add: sched_ok_def)
  then have "current_slot k2 = 1" using t(4) [of 1] occ [of 1] occ [of "current_slot k2"] cur by (auto simp: ring_distance_def split: if_splits)
  then show ?thesis
    using t(1,3) current_slot_ok [OF t(2)] occ [of 1] by (simp add: main_interrupt_handler_def vectors timer_frame_def)
qed

theorem own_address_space_witness:
  "\<exists>mach'. runs key_bus (\<lambda>_. True) two_programs mach' \<and> current_running_pid (kern mach') = 1 \<and> cr3 (pages (kern mach')) = 0x201000"
proof -
  obtain t m2 where m2: "main_interrupt_handler key_bus (two_programs\<lparr>kern := set_user_mem (user_mem (kern two_programs)) (kern two_programs), ports := ports two_programs\<rparr>)
      timer_frame = Some (Some t, m2)" "unat (current_running_pid (kern m2)) = 1" "process_slot_occupied (kern m2) ! 1"
    using two_programs_tick by blast
  have pointers: "user_pointers k timer_frame" for k by (simp add: user_pointers_def Let_def timer_frame_def vectors)
  have run: "runs key_bus (\<lambda>_. True) two_programs m2" using runs.interrupt [OF runs.start TrueI _ pointers m2(1)] by simp
  have "cr3 (pages (kern m2)) = slot_space (kern two_programs) 1"
    using own_address_space [OF run two_programs(1)] m2(2,3) by auto
  moreover have "current_running_pid (kern m2) = 1" using m2(2) by (simp add: word_unat_eq_iff)
  ultimately show ?thesis using run two_programs(4) by auto
qed

text \<open>
  C37: the memory of a process is private. As long as a process does not run, whatever the programs that do run compute in their pages and whatever interrupts
  and system calls with pointers to their pages they raise, the page frames that the page directory of the process maps keep their content, and the
  directory maps them as before. (A system call with a pointer into the kernel breaks this: the kernel does not check it.)
\<close>

theorem process_memory_private:
  assumes "runs bus (\<lambda>m. unat (current_running_pid (kern m)) \<noteq> p) mach mach'" and "spaces_ok (kern mach)"
    and "p < 16" and "process_slot_occupied (kern mach) ! p" and "user_mapping (pages (kern mach)) (slot_directory (kern mach) p) j frame"
  shows "memory (kern mach') (Some frame) = memory (kern mach) (Some frame) \<and>
    user_mapping (pages (kern mach')) (slot_directory (kern mach) p) j frame"
  using run_private [OF assms] run_spaces [OF assms(1,2)] assms(5) by auto

theorem process_memory_private_witness:
  "\<exists>mach'. runs key_bus (\<lambda>m. unat (current_running_pid (kern m)) \<noteq> 1) two_programs mach' \<and>
     memory (kern mach') (Some 1) 0x1000 = 9 \<and> memory (kern mach') (Some 2) = (\<lambda>_. 5)"
proof -
  let ?w = "(user_mem (kern two_programs))(0x1000 := 9)"
  let ?k = "set_user_mem ?w (kern two_programs)"
  let ?m = "two_programs\<lparr>kern := ?k, ports := ports two_programs\<rparr>" and ?f = "call_frame 7 0 0 0"
  have "main_interrupt_handler key_bus ?m ?f = Some (None, ?m\<lparr>keyboard_status := keyboard_state_activate (keyboard_status ?m)\<rparr>)"
    using handler_syscall [OF calls_call_frame, of key_bus ?m 7 0 0 0] by (simp add: syscall_def Let_def call_frame_def)
  then obtain m2 where m2: "main_interrupt_handler key_bus ?m ?f = Some (None, m2)" "kern m2 = ?k" by auto
  have page: "backing (kern two_programs) 0x1000 = Some 1"
    using program_pages(4) two_programs(7)
    by (simp add: backing_def page_index_div paging_get_current_page_directory_addr_def KERNEL_VIRTUAL_ADDRESS_BASE_def) (simp add: program_pages_def)
  have own: "\<forall>v. backing (kern two_programs) v = None \<longrightarrow> ?w v = user_mem (kern two_programs) v" using page by auto
  have pointers: "user_pointers k ?f" for k by (simp add: user_pointers_def Let_def call_frame_def syscall_consts)
  have run: "runs key_bus (\<lambda>m. unat (current_running_pid (kern m)) \<noteq> 1) two_programs m2"
    using runs.interrupt [OF runs.start, of "\<lambda>m. unat (current_running_pid (kern m)) \<noteq> 1", OF _ own pointers m2(1)] two_programs(5) by simp
  have "user_mapping (pages (kern two_programs)) (slot_directory (kern two_programs) 1) 0 2"
    using two_programs(7) by (simp add: program_pages_mapping)
      (simp add: two_programs_def machine_of_def slot_directory_def slot_context_def)
  then have "memory (kern m2) (Some 2) = memory (kern two_programs) (Some 2)"
    using process_memory_private [OF run two_programs(1)] two_programs_occ [of 1] by auto
  moreover have "memory (kern m2) (Some 1) 0x1000 = 9" using m2(2) page by (simp add: memory_set_user_mem)
  ultimately show ?thesis using run two_programs(6) by auto
qed

text \<open>
  C38: termination. The system call clears the control block and the slot of the running process, which goes on running until the next timer interrupt. That
  interrupt loads the context of another process, if there is one. If there is none the handler never ends: the search for an
  occupied slot has no exit.
\<close>

theorem terminate_running_process:
  assumes "sched_ok (kern mach)" and "\<forall>i < 16. \<not> process_slot_occupied (kern mach) ! i \<longrightarrow> pid (process_list (kern mach) ! i) = 0"
    and "calls frame 18 b c" and "int_number tick = 0x20"
  shows "\<exists>m1. main_interrupt_handler bus mach frame = Some (None, m1) \<and>
    process_slot_occupied (kern m1) = (process_slot_occupied (kern mach))[current_slot (kern mach) := False] \<and>
    process_list (kern m1) = (process_list (kern mach))[current_slot (kern mach) := zero_pcb] \<and>
    (if \<exists>q < 16. q \<noteq> current_slot (kern mach) \<and> process_slot_occupied (kern mach) ! q
     then \<exists>q m2. q < 16 \<and> q \<noteq> current_slot (kern mach) \<and> process_slot_occupied (kern mach) ! q \<and>
        main_interrupt_handler bus m1 tick = Some (Some (slot_context (kern mach) q), m2) \<and> current_slot (kern m2) = q
     else main_interrupt_handler bus m1 tick = None)"
proof -
  let ?k = "kern mach" and ?p = "current_slot (kern mach)"
  let ?k1 = "?k\<lparr>process_list := (process_list ?k)[?p := zero_pcb], process_slot_occupied := (process_slot_occupied ?k)[?p := False],
      active_process_count := active_process_count ?k - 1\<rparr>"
  let ?m1 = "mach\<lparr>kern := ?k1\<rparr>"
  have run: "main_interrupt_handler bus mach frame = Some (None, ?m1)"
    using handler_syscall [OF assms(3), of bus mach] destroy_running [OF assms(1,2)] assms(3)
    by (simp add: syscall_def Let_def calls_def syscall_consts)
  have wf: "sched_wf ?k1" "length (process_slot_occupied ?k) = 16" "?p < 16"
    using assms(1) current_slot_ok [OF assms(1)] by (simp_all add: sched_ok_def sched_wf_def)
  have tick: "main_interrupt_handler bus ?m1 tick = map_option (\<lambda>(t, k). (Some t, ?m1\<lparr>ports := pic_ack bus (of_nat IRQ_TIMER) (ports mach), kern := k\<rparr>))
      (scheduler_switch_to_next_process ?k1)"
    using save_nothing [OF assms(1) refl] assms(4)
    by (cases "scheduler_switch_to_next_process ?k1") (auto simp: main_interrupt_handler_def vectors timer_tick_def)
  have occ: "process_slot_occupied ?k1 ! q \<longleftrightarrow> q \<noteq> ?p \<and> process_slot_occupied ?k ! q" if "q < 16" for q
    using that wf(2) by (auto simp: nth_upd)
  show ?thesis
  proof (cases "\<exists>q < 16. q \<noteq> ?p \<and> process_slot_occupied ?k ! q")
    case True
    then obtain q' where "q' < 16" "process_slot_occupied ?k1 ! q'" using occ by blast
    from switch_effect [OF wf(1) this] obtain q k2 where q: "q < 16" "process_slot_occupied ?k1 ! q"
      "scheduler_switch_to_next_process ?k1 = Some (slot_context ?k1 q, k2)" "current_running_pid k2 = of_nat q"
      by (fastforce simp: slot_context_def)
    have "slot_context ?k1 q = slot_context ?k q" using occ [OF q(1)] q(2) by (simp add: slot_context_def)
    moreover have "current_slot k2 = q" using q(1,4) by (simp add: current_slot_def)
    ultimately show ?thesis
      using True run tick q occ [OF q(1)] by (intro exI [of _ ?m1]) auto
  next
    case False
    then have "scheduler_switch_to_next_process ?k1 = None"
      using switch_occupied_slot [of ?k1] occ by (cases "scheduler_switch_to_next_process ?k1") blast+
    then show ?thesis using False run tick by (intro exI [of _ ?m1]) simp
  qed
qed

text \<open>The same machine with only the program in slot 0.\<close>

definition one_program :: "u8 machine" where
  "one_program = machine_of ((kern two_programs)\<lparr>process_list := (process_list (kern two_programs))[1 := zero_pcb],
     process_slot_occupied := (replicate 16 False)[0 := True], active_process_count := 1\<rparr>)"

lemma one_program:
  "i < 16 \<Longrightarrow> process_slot_occupied (kern one_program) ! i \<longleftrightarrow> i = 0" "i < 16 \<Longrightarrow> pid (process_list (kern one_program) ! i) = 0"
  "sched_ok (kern one_program)" "current_slot (kern one_program) = 0"
proof -
  show occ: "process_slot_occupied (kern one_program) ! i \<longleftrightarrow> i = 0" if "i < 16" for i
    using that by (auto simp: one_program_def machine_of_def nth_upd)
  show pid: "pid (process_list (kern one_program) ! i) = 0" if "i < 16" for i
    using that by (auto simp: one_program_def two_programs_def machine_of_def boot_kernel_def nth_upd zero_pcb_def)
  show "sched_ok (kern one_program)"
    using occ pid two_programs(2,5) by (auto simp: sched_ok_def sched_wf_def one_program_def machine_of_def)
  then show "current_slot (kern one_program) = 0"
    using current_slot_ok two_programs(5) by (simp add: one_program_def machine_of_def)
qed

lemma two_programs_free: "i < 16 \<Longrightarrow> \<not> process_slot_occupied (kern two_programs) ! i \<Longrightarrow> pid (process_list (kern two_programs) ! i) = 0"
  by (auto simp: two_programs_def machine_of_def boot_kernel_def nth_upd zero_pcb_def split: if_splits)

theorem terminate_running_process_witness:
  "(\<exists>m1 m2 t. main_interrupt_handler key_bus two_programs (call_frame 18 0 0 0) = Some (None, m1) \<and>
      main_interrupt_handler key_bus m1 timer_frame = Some (Some t, m2) \<and> current_slot (kern m2) = 1) \<and>
   (\<exists>m1. main_interrupt_handler key_bus one_program (call_frame 18 0 0 0) = Some (None, m1) \<and>
      main_interrupt_handler key_bus m1 timer_frame = None)"
proof
  have tf: "int_number timer_frame = 0x20" by (simp add: timer_frame_def)
  have cur: "current_slot (kern two_programs) = 0" using current_slot_ok [OF two_programs(2)] two_programs(5) by simp
  have only: "q = 1" if "q < 16" "q \<noteq> 0" "process_slot_occupied (kern two_programs) ! q" for q
    using that two_programs_occ [of q] by simp
  have other: "\<exists>q < 16. q \<noteq> current_slot (kern two_programs) \<and> process_slot_occupied (kern two_programs) ! q"
    using two_programs_occ [of 1] cur by (intro exI [of _ 1]) simp
  have free: "\<forall>i < 16. \<not> process_slot_occupied (kern two_programs) ! i \<longrightarrow> pid (process_list (kern two_programs) ! i) = 0"
    using two_programs_free by blast
  show "\<exists>m1 m2 t. main_interrupt_handler key_bus two_programs (call_frame 18 0 0 0) = Some (None, m1) \<and>
      main_interrupt_handler key_bus m1 timer_frame = Some (Some t, m2) \<and> current_slot (kern m2) = 1"
  proof -
    obtain m1 q m2 where m: "main_interrupt_handler key_bus two_programs (call_frame 18 0 0 0) = Some (None, m1)"
      "q < 16" "q \<noteq> 0" "process_slot_occupied (kern two_programs) ! q"
      "main_interrupt_handler key_bus m1 timer_frame = Some (Some (slot_context (kern two_programs) q), m2)" "current_slot (kern m2) = q"
      using terminate_running_process [OF two_programs(2) free calls_call_frame tf, of key_bus 0 0 0, unfolded if_P [OF other]]
      unfolding cur by (elim exE conjE) (rule that)
    then have "q = 1" using only by blast
    then show ?thesis using m(1,5,6) by blast
  qed
  have none: "\<not> (\<exists>q < 16. q \<noteq> current_slot (kern one_program) \<and> process_slot_occupied (kern one_program) ! q)"
    using one_program(1,4) by auto
  have free1: "\<forall>i < 16. \<not> process_slot_occupied (kern one_program) ! i \<longrightarrow> pid (process_list (kern one_program) ! i) = 0"
    using one_program(2) by blast
  show "\<exists>m1. main_interrupt_handler key_bus one_program (call_frame 18 0 0 0) = Some (None, m1) \<and>
      main_interrupt_handler key_bus m1 timer_frame = None"
    using terminate_running_process [OF one_program(3) free1 calls_call_frame tf, of key_bus 0 0 0, unfolded if_not_P [OF none]] by blast
qed

text \<open>Fields of a struct in memory do not overlap.\<close>

lemma fields_apart:
  assumes "i + n \<le> j" and "j + l \<le> 2 ^ 32"
  shows "ranges_disjoint (p + of_nat i) n (p + of_nat j) l" and "ranges_disjoint (p + of_nat j) l (p + of_nat i) n"
proof -
  have "p + of_nat i + of_nat a \<noteq> p + of_nat j + of_nat b" if "a < n" "b < l" for a b
  proof -
    have "(of_nat (i + a) :: u32) \<noteq> of_nat (j + b)"
      using that assms by (subst of_nat_eq_iff_small) auto
    then show ?thesis by (simp add: add.assoc)
  qed
  then show "ranges_disjoint (p + of_nat i) n (p + of_nat j) l" by (auto simp: ranges_disjoint_def)
  then show "ranges_disjoint (p + of_nat j) l (p + of_nat i) n" by (rule ranges_disjoint_sym)
qed

lemma unat_diff_offset:
  assumes "j \<le> unat (a - p :: u32)"
  shows "unat (a - (p + of_nat j)) = unat (a - p) - j"
proof -
  have small: "j < 4294967296" using assms unat_lt_2p32 [of "a - p"] by linarith
  then have "(of_nat j :: u32) \<le> a - p" using assms by (simp add: word_le_nat_alt)
  then have "unat (a - p - of_nat j) = unat (a - p) - unat (of_nat j :: u32)" by (rule unat_sub)
  then show ?thesis using small by (simp add: diff_diff_eq)
qed

lemma length_state_text: "length (state_text st) \<le> 7"
  by (cases st) (simp_all add: state_text_def bytes_of_def)

text \<open>The answer for an occupied slot, as a memory, and its fields.\<close>

definition info_mem :: "mem \<Rightarrow> u32 \<Rightarrow> ProcessControlBlock \<Rightarrow> mem" where
  "info_mem m args b = store_bytes (store_bytes (store_bytes (m(args + 44 := 1)) (args + 4) (proc_name b)) (args + 36) (state_text (proc_state b)))
     (args + 48) (le32 (page_frame_used_count b))"

lemma info_mem:
  assumes "length (proc_name b) = 32"
  shows "load_bytes (info_mem m args b) (args + 4) 32 = proc_name b" "of_le32 (load_bytes (info_mem m args b) (args + 48) 4) = page_frame_used_count b"
    "load_bytes (info_mem m args b) (args + 36) (length (state_text (proc_state b))) = state_text (proc_state b)"
    "info_mem m args b (args + 44) = 1" "load_bytes (info_mem m args b) args 4 = load_bytes m args 4"
    "52 \<le> unat (a - args) \<Longrightarrow> info_mem m args b a = m a"
proof -
  let ?st = "state_text (proc_state b)"
  have st: "length ?st \<le> 7" by (rule length_state_text)
  note apart = fields_apart [of 4 32 36 "length ?st" args] fields_apart [of 4 32 48 4 args] fields_apart [of 36 "length ?st" 48 4 args]
    fields_apart [of 0 4 4 32 args] fields_apart [of 0 4 36 "length ?st" args] fields_apart [of 0 4 48 4 args]
    fields_apart [of 36 "length ?st" 44 1 args] fields_apart [of 4 32 44 1 args] fields_apart [of 44 1 48 4 args]
  show "load_bytes (info_mem m args b) (args + 4) 32 = proc_name b"
    unfolding info_mem_def using apart(1,3) st assms load_store_bytes [of "proc_name b"] by (simp add: load_store_bytes_disjoint)
  show "of_le32 (load_bytes (info_mem m args b) (args + 48) 4) = page_frame_used_count b"
    unfolding info_mem_def using load_store_bytes [of "le32 (page_frame_used_count b)"] by simp
  show "load_bytes (info_mem m args b) (args + 36) (length ?st) = ?st"
    unfolding info_mem_def using apart(5) st load_store_bytes [of ?st] by (simp add: load_store_bytes_disjoint)
  have "load_bytes (info_mem m args b) (args + 44) 1 = load_bytes (m(args + 44 := 1)) (args + 44) 1"
    unfolding info_mem_def using apart(14,16,17) st assms by (simp add: load_store_bytes_disjoint)
  then show "info_mem m args b (args + 44) = 1" by (simp add: load_bytes_def)
  have "44 \<le> unat (args + 44 - args)" by simp
  then have "load_bytes (m(args + 44 := 1)) args 4 = load_bytes m args 4" by (intro load_bytes_upd) simp
  then show "load_bytes (info_mem m args b) args 4 = load_bytes m args 4"
    unfolding info_mem_def using apart(7,9,11) st assms by (simp add: load_store_bytes_disjoint)
  assume out: "52 \<le> unat (a - args)"
  have "unat (a - (args + 4)) = unat (a - args) - 4" "unat (a - (args + 36)) = unat (a - args) - 36" "unat (a - (args + 48)) = unat (a - args) - 48"
    using out unat_diff_offset [of 4 a args] unat_diff_offset [of 36 a args] unat_diff_offset [of 48 a args] by simp_all
  moreover have "a \<noteq> args + 44" using out by auto
  ultimately show "info_mem m args b a = m a"
    unfolding info_mem_def using out st assms by (simp add: store_bytes_outside)
qed

text \<open>
  C21: process information. When the caller's struct is in its user pages, then for a slot below 16 the answer in the caller's struct says whether the slot is occupied and, if it is, holds the name, the state and
  the frame count of its control block; the \<open>pid\<close> that was asked for and all memory outside the struct stay. A larger number is
  used as an index without a check and reads outside the table.
\<close>

theorem process_info:
  assumes "sched_wf k" and "of_le32 (load_bytes (user_mem k) args 4) = p" and "accessible k args 52"
  shows "(16 \<le> unat p \<longrightarrow> get_process_info k args = None) \<and>
    (unat p < 16 \<and> length (proc_name (process_list k ! unat p)) = 32 \<longrightarrow>
      (\<exists>k'. get_process_info k args = Some k' \<and>
        user_mem k' (args + 44) = (if process_slot_occupied k ! unat p then 1 else 0) \<and>
        load_bytes (user_mem k') args 4 = load_bytes (user_mem k) args 4 \<and>
        (\<forall>a. 52 \<le> unat (a - args) \<longrightarrow> user_mem k' a = user_mem k a) \<and>
        (process_slot_occupied k ! unat p \<longrightarrow>
          load_bytes (user_mem k') (args + 4) 32 = proc_name (process_list k ! unat p) \<and>
          take (length (state_text (proc_state (process_list k ! unat p)))) (load_bytes (user_mem k') (args + 36) 8) =
            state_text (proc_state (process_list k ! unat p)) \<and>
          of_le32 (load_bytes (user_mem k') (args + 48) 4) = page_frame_used_count (process_list k ! unat p))))"
proof -
  let ?b = "process_list k ! unat p" and ?m = "user_mem k"
  have len: "length (process_list k) = 16" "length (process_slot_occupied k) = 16" using assms(1) by (simp_all add: sched_wf_def)
  have out: "get_process_info k args = None" if "16 \<le> unat p" using that assms(2) len by (simp add: get_process_info_def)
  have absent: "get_process_info k args = Some (set_user_mem (?m(args + 44 := 0)) k)" if "unat p < 16" "\<not> process_slot_occupied k ! unat p"
    using that assms(2) len by (simp add: get_process_info_def)
  have occupied: "get_process_info k args = Some (set_user_mem (info_mem ?m args ?b) k)"
    if "unat p < 16" "process_slot_occupied k ! unat p" "length (proc_name ?b) = 32"
    using that assms(2) len by (simp add: get_process_info_def info_mem_def PROCESS_NAME_LENGTH_MAX_def)
  have keep: "load_bytes (?m(args + 44 := 0)) args 4 = load_bytes ?m args 4"
    using load_bytes_upd [of "args + 44" args 4 ?m 0] by simp
  have state: "take (length (state_text st)) (load_bytes m q 8) = load_bytes m q (length (state_text st))" for st m q
    using length_state_text [of st] by (simp add: take_load_bytes)
  show ?thesis
    using out absent occupied keep state info_mem by (cases "process_slot_occupied k ! unat p") (auto simp del: info_mem_def)
qed

theorem process_info_witness:
  "get_process_info (kern two_programs) 0x1000 = None \<and>
   (\<exists>k'. get_process_info (set_user_mem (\<lambda>_. 0) (kern two_programs)) 0x1000 = Some k' \<and> user_mem k' 0x102C = 1)"
proof
  have wf: "sched_wf (kern two_programs)" "sched_wf (set_user_mem (\<lambda>_. 0) (kern two_programs))"
    using two_programs(2) by (simp_all add: sched_ok_def sched_wf_def)
  have range: "accessible (kern two_programs) 0x1000 52" "accessible (set_user_mem (\<lambda>_. 0) (kern two_programs)) 0x1000 52"
    using accessible_two_programs two_programs(7) by simp_all
  have "of_le32 (load_bytes (user_mem (kern two_programs)) 0x1000 4) = 0x05050505"
    using two_programs(6) by (simp add: user_mem_def load_const of_le32_def)
  from process_info [OF wf(1) this range(1)] show "get_process_info (kern two_programs) 0x1000 = None" by simp
  have "of_le32 (load_bytes (user_mem (set_user_mem (\<lambda>_. 0) (kern two_programs))) 0x1000 4) = 0"
    by (simp add: load_const of_le32_def)
  moreover have "length (proc_name (process_list (kern two_programs) ! 0)) = 32" by (rule two_programs_names) simp
  ultimately show "\<exists>k'. get_process_info (set_user_mem (\<lambda>_. 0) (kern two_programs)) 0x1000 = Some k' \<and> user_mem k' 0x102C = 1"
    using process_info [OF wf(2) _ range(2), of 0] two_programs_occ [of 0] by auto
qed

end
