(* ===== verification/Shell.thy ===== *)
theory Shell
  imports Shell_Input Fat32_Dir Interrupt_Theorems
begin

text \<open>
  The shell's commands (\<open>src/src/user-shell.c\<close>) as a program in user mode: it changes its own memory and the rest of the machine only
  through the interrupt handler of the kernel. The addresses of its local variables and of its string literals are chosen by compiler and
  linker: they are parameters, \<open>lit s\<close> being the address of the literal \<open>s\<close>.
\<close>

section \<open>System calls of the shell\<close>

abbreviation mem_of :: "'d machine \<Rightarrow> mem" where
  "mem_of mach \<equiv> user_mem (kern mach)"

definition with_mem :: "mem \<Rightarrow> 'd machine \<Rightarrow> 'd machine" where
  "with_mem m mach = mach\<lparr>kern := set_user_mem m (kern mach)\<rparr>"

text \<open>\<open>int $0x30\<close> with the four registers; the handler reads nothing else from the frame and returns to the shell.\<close>

definition shell_syscall :: "'d bus \<Rightarrow> u32 \<Rightarrow> u32 \<Rightarrow> u32 \<Rightarrow> u32 \<Rightarrow> 'd machine \<Rightarrow> 'd machine option" where
  "shell_syscall bus n b c d mach = map_option snd (main_interrupt_handler bus mach (call_frame n b c d))"

definition shell_puts :: "'d bus \<Rightarrow> u32 \<Rightarrow> u32 \<Rightarrow> 'd machine \<Rightarrow> 'd machine option" where
  "shell_puts bus text color mach = do { n \<leftarrow> strlen (mem_of mach) text; shell_syscall bus 6 text n color mach }"

text \<open>A local \<open>struct FAT32DriverRequest\<close> at \<open>request\<close>, which the initialiser fills.\<close>

definition init_request :: "u32 \<Rightarrow> u32 \<Rightarrow> u8 list \<Rightarrow> u32 \<Rightarrow> u32 \<Rightarrow> mem \<Rightarrow> mem" where
  "init_request request buf name cluster buffer_size m = store_bytes m request (request_bytes
     \<lparr>r_buf = buf, r_name = name, r_ext = replicate 3 0, r_parent_cluster_number = cluster, r_buffer_size = buffer_size\<rparr>)"

text \<open>\<open>get_parent_directory\<close>, with the addresses of its locals \<open>buff\<close>, \<open>req\<close> and \<open>retcode\<close>.\<close>

definition get_parent_directory :: "'d bus \<Rightarrow> u32 \<Rightarrow> u32 \<Rightarrow> u32 \<Rightarrow> u32 \<Rightarrow> 'd machine \<Rightarrow> (u32 \<times> 'd machine) option" where
  "get_parent_directory bus buff req retcode current_cluster mach =
     do { mach \<leftarrow> Some (with_mem (init_request req buff dot_name current_cluster 0 (mem_of mach)) mach);
          mach \<leftarrow> shell_syscall bus 1 req retcode 0 mach;
          Some (entry_cluster (table_of_bytes (load_bytes (mem_of mach) buff CLUSTER_SIZE) ! 1), mach) }"

text \<open>
  \<open>read_directory_interface\<close>: \<open>buf\<close> is the table of the caller, \<open>req\<close> and \<open>retcode\<close> are locals. The result is an \<open>int8_t\<close>.
\<close>

definition read_directory_interface ::
  "'d bus \<Rightarrow> (string \<Rightarrow> u32) \<Rightarrow> u32 \<Rightarrow> u32 \<Rightarrow> u32 \<Rightarrow> u32 \<Rightarrow> u8 \<Rightarrow> u16 \<Rightarrow> 'd machine \<Rightarrow> (u8 \<times> 'd machine) option" where
  "read_directory_interface bus lit req retcode buf folder_name len cluster mach =
     do { m \<leftarrow> Some (init_request req buf (replicate 8 0) (ucast cluster) 0 (mem_of mach));
          m \<leftarrow> Some (fst (memcpy m (req + 4) folder_name (ucast len)));
          mach \<leftarrow> shell_syscall bus 1 req retcode 0 (with_mem m mach);
          if mem_of mach retcode = 0 then
            if mem_of mach buf = 0xE5 \<or> mem_of mach buf = 0 then
              do { mach \<leftarrow> shell_puts bus (lit ''Directory not found!'') 0x4 mach;
                   Some (0xFF, with_mem ((mem_of mach)(retcode := 0xFF)) mach) }
            else Some (mem_of mach retcode, mach)
          else Some (mem_of mach retcode, mach) }"

text \<open>\<open>is_in_directory\<close>: apart from the two special names it only asks whether the directory itself can be read.\<close>

definition is_in_directory ::
  "'d bus \<Rightarrow> (string \<Rightarrow> u32) \<Rightarrow> u32 \<Rightarrow> u32 \<Rightarrow> u32 \<Rightarrow> u16 \<Rightarrow> u32 \<Rightarrow> u32 \<Rightarrow> 'd machine \<Rightarrow> (bool \<times> 'd machine) option" where
  "is_in_directory bus lit dirbuffer request retval parent_cluster name found_path mach =
     do { root \<leftarrow> strcmp (mem_of mach) name (lit ''/'');
          empty \<leftarrow> strcmp (mem_of mach) name (lit '''');
          if root = 0 \<or> empty = 0 then
            do { (m, _) \<leftarrow> strcpy (mem_of mach) found_path (lit ''/''); Some (True, with_mem m mach) }
          else
            do { mach \<leftarrow> Some (with_mem (init_request request dirbuffer dot_name (ucast parent_cluster) 0 (mem_of mach)) mach);
                 mach \<leftarrow> shell_syscall bus 1 request retval 0 mach;
                 Some (mem_of mach retval = 0, mach) } }"

section \<open>mkdir and rm\<close>

text \<open>The \<open>mkdir\<close> branch of \<open>parseCommand\<close>; \<open>folder_name\<close>, \<open>request\<close> and \<open>retcode\<close> are locals.\<close>

definition mkdir_command ::
  "'d bus \<Rightarrow> (string \<Rightarrow> u32) \<Rightarrow> u32 \<Rightarrow> u32 \<Rightarrow> u32 \<Rightarrow> u32 \<Rightarrow> u16 \<Rightarrow> 'd machine \<Rightarrow> 'd machine option" where
  "mkdir_command bus lit folder_name request retcode buffer parent_cluster mach =
     do { m \<leftarrow> Some (fst (memcpy (mem_of mach) folder_name (buffer + 6) 8));
          m \<leftarrow> Some (m(folder_name + 8 := 0));
          m \<leftarrow> Some (init_request request 0 (replicate 8 0) (ucast parent_cluster) 0 m);
          n \<leftarrow> strlen m folder_name;
          m \<leftarrow> Some (fst (memcpy m (request + 4) folder_name n));
          mach \<leftarrow> shell_syscall bus 2 request retcode 0 (with_mem m mach);
          if mem_of mach retcode = 0 then shell_puts bus (lit ''Folder created successfully'') 0x2 mach
          else if mem_of mach retcode = 1 then shell_puts bus (lit ''Folder already exists'') 0x4 mach
          else if mem_of mach retcode = 2 then shell_puts bus (lit ''Invalid parent cluster'') 0x4 mach
          else shell_puts bus (lit ''Unknown error'') 0x4 mach }"

text \<open>The test for a blank argument that \<open>cd\<close>, \<open>rm\<close> and \<open>mv\<close> begin with; the literal is \<open>" \t\n\r"\<close>.\<close>

definition blanks :: string where "blanks = [CHR '' '', CHR 0x09, CHR 0x0A, CHR 0x0D]"

definition blank_argument :: "(string \<Rightarrow> u32) \<Rightarrow> u32 \<Rightarrow> mem \<Rightarrow> bool option" where
  "blank_argument lit argument m =
     (if argument = 0 then Some True
      else do { n \<leftarrow> strlen m argument; k \<leftarrow> strspn m argument (lit blanks); Some (n = k) })"

text \<open>
  The \<open>rm\<close> branch; \<open>found_path\<close> (256 bytes, initialised to the empty string), \<open>req\<close> and \<open>retval\<close> are locals, \<open>sub\<close> the
  locals of \<open>is_in_directory\<close>.
\<close>

definition rm_command ::
  "'d bus \<Rightarrow> (string \<Rightarrow> u32) \<Rightarrow> u32 \<times> u32 \<times> u32 \<Rightarrow> u32 \<Rightarrow> u32 \<Rightarrow> u32 \<Rightarrow> u32 \<Rightarrow> u16 \<Rightarrow> 'd machine \<Rightarrow> 'd machine option" where
  "rm_command bus lit sub found_path req retval argument parent_cluster mach =
     do { blank \<leftarrow> blank_argument lit argument (mem_of mach);
          if blank then Some mach
          else
            do { mach \<leftarrow> Some (with_mem (store_bytes (mem_of mach) found_path (replicate SHELL_MAX_LENGTH 0)) mach);
                 (found, mach) \<leftarrow> is_in_directory bus lit (fst sub) (fst (snd sub)) (snd (snd sub)) parent_cluster argument found_path mach;
                 if found then
                   do { m \<leftarrow> Some (init_request req 0 (replicate 8 0) (ucast parent_cluster) 0 (mem_of mach));
                        n \<leftarrow> strlen m argument;
                        m \<leftarrow> Some (fst (memcpy m (req + 4) argument n));
                        mach \<leftarrow> shell_syscall bus 3 req retval 0 (with_mem m mach);
                        if mem_of mach retval = 0 then shell_puts bus (lit ''File or directory removed successfully.'') 0x0F mach
                        else shell_puts bus (lit ''Failed to remove file or directory.'') 0x4 mach }
                 else shell_puts bus (lit ''File or directory not found.\<newline>'') 0x4 mach } }"

section \<open>Memory of the shell\<close>

text \<open>Stores inside a range that was stored as a whole, and strings.\<close>

lemma unat_diff_inside:
  assumes "i < 2 ^ 32"
  shows "unat (a - (p + of_nat i) :: u32) = (if i \<le> unat (a - p) then unat (a - p) - i else 2 ^ 32 + unat (a - p) - i)"
proof -
  have "a - (p + of_nat i) = (a - p) - of_nat i" by simp
  moreover have "unat (of_nat i :: u32) = i" using assms by simp
  ultimately show ?thesis by (simp only: unat_sub_if_size word_size) auto
qed

lemma store_inside:
  assumes "i + length xs \<le> length bs" and "length bs < 2 ^ 32"
  shows "store_bytes (store_bytes m p bs) (p + of_nat i) xs = store_bytes m p (take i bs @ xs @ drop (i + length xs) bs)"
proof
  fix a
  have i: "i < 2 ^ 32" using assms by simp
  show "store_bytes (store_bytes m p bs) (p + of_nat i) xs a = store_bytes m p (take i bs @ xs @ drop (i + length xs) bs) a"
    using assms unfolding store_bytes_def unat_diff_inside [OF i] by (auto simp: nth_append min_def)
qed

lemma store_one: "store_bytes m p [v] = m(p := v)"
  by (simp add: store_bytes_Cons)

lemma cstr_store:
  assumes "length bs < 2 ^ 32"
  shows "cstr (store_bytes m p (bs @ [0])) p (takeWhile (\<lambda>c. c \<noteq> 0) bs)"
  using assms
proof (induction bs arbitrary: m p)
  case (Cons b bs)
  have "p \<noteq> p + 1 + of_nat j" if "j < Suc (length bs)" for j
    using that Cons.prems add_of_nat_eq_iff [of 0 "Suc j" p] by (simp add: add.assoc)
  then have "\<not> unat (p - (p + 1)) < length (bs @ [0])"
    using in_range_iff [of "length (bs @ [0])" p "p + 1"] Cons.prems by auto
  then have "store_bytes (m(p := b)) (p + 1) (bs @ [0]) p = b" by (simp add: store_bytes_outside)
  then show ?case using Cons by (cases "b = 0") (simp_all add: store_bytes_Cons)
qed (simp add: store_one)

lemma cstr_store_apart:
  assumes "cstr m p xs" and "ranges_disjoint p (Suc (length xs)) q (length bs)"
  shows "cstr (store_bytes m q bs) p xs"
proof -
  have "load_bytes (store_bytes m q bs) p (Suc (length xs)) = load_bytes m p (Suc (length xs))"
    using assms(2) by (rule load_store_bytes_disjoint)
  then have "load_bytes (store_bytes m q bs) p (length xs) = load_bytes m p (length xs)"
    "store_bytes m q bs (p + of_nat (length xs)) = m (p + of_nat (length xs))"
    by (metis take_load_bytes le_SucI order_refl) (metis nth_load_bytes lessI \<open>load_bytes (store_bytes m q bs) p (Suc (length xs)) = load_bytes m p (Suc (length xs))\<close>)
  then show ?thesis using assms(1) by (simp add: cstr_iff_load)
qed

lemma ranges_disjoint_part:
  assumes "ranges_disjoint p n q k" and "i + n' \<le> n" and "j + k' \<le> k"
  shows "ranges_disjoint (p + of_nat i) n' (q + of_nat j) k'"
  unfolding ranges_disjoint_def
proof (intro allI impI)
  fix a b
  assume "a < n'" and "b < k'"
  then have "p + of_nat (i + a) \<noteq> q + of_nat (j + b)" using assms unfolding ranges_disjoint_def by (metis add_less_mono1 add.commute less_le_trans)
  then show "p + of_nat i + of_nat a \<noteq> q + of_nat j + of_nat b" by (simp add: add.assoc)
qed

lemma memcpy_apart: "ranges_disjoint d (unat n) s (unat n) \<Longrightarrow> fst (memcpy m d s n) = store_bytes m d (load_bytes m s (unat n))"
  by (simp add: memcpy_def memcpy_from_store copy_up_safe_disjoint less_imp_le)

text \<open>Areas of memory that do not overlap, and literals that stand outside of them.\<close>

definition apart :: "(u32 \<times> nat) list \<Rightarrow> bool" where
  "apart areas \<longleftrightarrow> sorted_wrt (\<lambda>a b. ranges_disjoint (fst a) (snd a) (fst b) (snd b)) areas"

definition literals :: "(string \<Rightarrow> u32) \<Rightarrow> mem \<Rightarrow> (u32 \<times> nat) list \<Rightarrow> string list \<Rightarrow> bool" where
  "literals lit m areas ss \<longleftrightarrow> list_all (\<lambda>s. cstr m (lit s) (bytes_of s) \<and>
     list_all (\<lambda>a. ranges_disjoint (lit s) (Suc (length s)) (fst a) (snd a)) areas) ss"

lemma literals_store:
  assumes "literals lit m areas ss" and "list_ex (\<lambda>a. fst a = p \<and> length bs \<le> snd a) areas"
  shows "literals lit (store_bytes m p bs) areas ss"
proof -
  obtain n where n: "(p, n) \<in> set areas" "length bs \<le> n" using assms(2) by (auto simp: list_ex_iff)
  have "cstr (store_bytes m p bs) (lit s) (bytes_of s)" if s: "s \<in> set ss" for s
  proof (rule cstr_store_apart)
    show "cstr m (lit s) (bytes_of s)" using assms(1) s by (simp add: literals_def list_all_iff)
    have "ranges_disjoint (lit s) (Suc (length s)) p n" using assms(1) n(1) s unfolding literals_def list_all_iff by fastforce
    then show "ranges_disjoint (lit s) (Suc (length (bytes_of s))) p (length bs)"
      using ranges_disjoint_part [of "lit s" "Suc (length s)" p n 0 "Suc (length s)" 0 "length bs"] n(2) by (simp add: bytes_of_def)
  qed
  then show ?thesis using assms(1) by (simp add: literals_def list_all_iff)
qed

lemma literal_at: "literals lit m areas ss \<Longrightarrow> s \<in> set ss \<Longrightarrow> cstr m (lit s) (bytes_of s)"
  by (simp add: literals_def list_all_iff)

text \<open>What a part of the shell leaves alone: the memory outside of its areas.\<close>

definition kept_outside :: "(u32 \<times> nat) list \<Rightarrow> mem \<Rightarrow> mem \<Rightarrow> bool" where
  "kept_outside areas m m' \<longleftrightarrow> (\<forall>a. list_all (\<lambda>x. snd x \<le> unat (a - fst x)) areas \<longrightarrow> m' a = m a)"

lemma kept_refl [simp]: "kept_outside areas m m"
  by (simp add: kept_outside_def)

lemma kept_trans [trans]: "kept_outside areas m m' \<Longrightarrow> kept_outside areas m' m'' \<Longrightarrow> kept_outside areas m m''"
  by (simp add: kept_outside_def)

lemma kept_mono: "kept_outside areas m m' \<Longrightarrow> set areas \<subseteq> set areas' \<Longrightarrow> kept_outside areas' m m'"
  unfolding kept_outside_def list_all_iff by blast

lemma kept_store:
  assumes "list_ex (\<lambda>a. fst a = p \<and> length bs \<le> snd a) areas"
  shows "kept_outside areas m (store_bytes m p bs)"
proof -
  obtain n where n: "(p, n) \<in> set areas" "length bs \<le> n" using assms by (auto simp: list_ex_iff)
  show ?thesis unfolding kept_outside_def
  proof (intro allI impI)
    fix a assume "list_all (\<lambda>x. snd x \<le> unat (a - fst x)) areas"
    with n have "length bs \<le> unat (a - p)" unfolding list_all_iff by fastforce
    then show "store_bytes m p bs a = m a" by (simp add: store_bytes_outside)
  qed
qed

lemma kept_store_at:
  assumes "(p, n) \<in> set areas" and "i + length bs \<le> n" and "n < 2 ^ 32"
  shows "kept_outside areas m (store_bytes m (p + of_nat i) bs)"
  unfolding kept_outside_def
proof (intro allI impI)
  fix a assume "list_all (\<lambda>x. snd x \<le> unat (a - fst x)) areas"
  with assms(1) have "n \<le> unat (a - p)" unfolding list_all_iff by fastforce
  then have "\<not> unat (a - (p + of_nat i)) < length bs" using assms(2,3) unat_diff_inside [of i a p] by simp
  then show "store_bytes m (p + of_nat i) bs a = m a" by (simp add: store_bytes_outside)
qed

lemma load_kept:
  assumes "kept_outside areas m m'" and "list_all (\<lambda>a. ranges_disjoint p n (fst a) (snd a)) areas"
  shows "load_bytes m' p n = load_bytes m p n"
proof (rule load_bytes_cong)
  fix i assume i: "i < n"
  have "k \<le> unat (p + of_nat i - q)" if "(q, k) \<in> set areas" for q k
  proof (rule ccontr)
    assume j: "\<not> k \<le> unat (p + of_nat i - q)"
    have "q + of_nat (unat (p + of_nat i - q)) = p + of_nat i" by simp
    moreover have "ranges_disjoint p n q k" using assms(2) that by (auto simp: list_all_iff)
    ultimately show False using j i unfolding ranges_disjoint_def by (metis not_le)
  qed
  then have "list_all (\<lambda>x. snd x \<le> unat (p + of_nat i - fst x)) areas" by (simp add: list_all_iff)
  then show "m' (p + of_nat i) = m (p + of_nat i)" using assms(1) unfolding kept_outside_def by blast
qed

lemma cstr_kept:
  assumes "cstr m p xs" and "kept_outside areas m m'" and "list_all (\<lambda>a. ranges_disjoint p (Suc (length xs)) (fst a) (snd a)) areas"
  shows "cstr m' p xs"
proof -
  have all: "load_bytes m' p (Suc (length xs)) = load_bytes m p (Suc (length xs))" by (rule load_kept [OF assms(2,3)])
  have "load_bytes m' p (length xs) = load_bytes m p (length xs)" using arg_cong [OF all, of "take (length xs)"] by (simp add: take_load_bytes)
  moreover have "m' (p + of_nat (length xs)) = m (p + of_nat (length xs))" using arg_cong [OF all, of "\<lambda>l. l ! length xs"] by simp
  ultimately show ?thesis using assms(1) by (simp add: cstr_iff_load)
qed

lemma literals_kept:
  assumes "literals lit m areas ss" and "kept_outside areas' m m'" and "set areas' \<subseteq> set areas"
  shows "literals lit m' areas ss"
proof -
  have "cstr m' (lit s) (bytes_of s)" if s: "s \<in> set ss" for s
  proof (rule cstr_kept [OF _ assms(2)])
    show "cstr m (lit s) (bytes_of s)" using assms(1) s by (simp add: literals_def list_all_iff)
    show "list_all (\<lambda>a. ranges_disjoint (lit s) (Suc (length (bytes_of s))) (fst a) (snd a)) areas'"
      using assms(1,3) s by (auto simp: literals_def list_all_iff bytes_of_def)
  qed
  then show ?thesis using assms(1) by (simp add: literals_def list_all_iff)
qed

section \<open>The machine during a command\<close>

text \<open>The parts of the machine that a command of the shell changes: the file system, the memory of the shell, and the screen.\<close>

definition with_fs :: "fs_state \<Rightarrow> mem \<Rightarrow> 'd machine \<Rightarrow> 'd machine" where
  "with_fs f m mach = mach\<lparr>kern := set_user_mem m ((kern mach)\<lparr>fsys := f\<rparr>)\<rparr>"

definition with_screen :: "mem \<times> 'd io \<Rightarrow> 'd machine \<Rightarrow> 'd machine" where
  "with_screen s mach = mach\<lparr>screen_mem := fst s, ports := snd s\<rparr>"

abbreviation screen_of :: "'d machine \<Rightarrow> mem \<times> 'd io" where
  "screen_of mach \<equiv> (screen_mem mach, ports mach)"

lemma with_fs_simps [simp]:
  "mem_of (with_fs f m mach) = m" "fsys (kern (with_fs f m mach)) = f" "screen_mem (with_fs f m mach) = screen_mem mach"
  "ports (with_fs f m mach) = ports mach" "keyboard_status (with_fs f m mach) = keyboard_status mach"
  "process_list (kern (with_fs f m mach)) = process_list (kern mach)" "process_slot_occupied (kern (with_fs f m mach)) = process_slot_occupied (kern mach)"
  "with_fs f m (with_fs f' m' mach) = with_fs f m mach"
  "with_mem m mach = with_fs (fsys (kern mach)) m mach"
  by (simp_all add: with_fs_def with_mem_def)

lemma with_screen_simps [simp]:
  "kern (with_screen s mach) = kern mach" "screen_mem (with_screen s mach) = fst s" "ports (with_screen s mach) = snd s"
  "keyboard_status (with_screen s mach) = keyboard_status mach"
  by (simp_all add: with_screen_def)

lemma file_call:
  assumes "load_bytes (mem_of mach) b 23 = request_bytes r" and "wf_request r"
    and "n = 0 \<and> op = read \<or> n = 1 \<and> op = read_directory \<or> n = 2 \<and> op = write' \<or> n = 3 \<and> op = delete"
    and "op ((fsys (kern mach))\<lparr>ram := mem_of mach\<rparr>) r = Some (retcode, f)"
  shows "shell_syscall bus n b c d mach = Some (with_fs f (store_bytes (ram f) c [word_of_int retcode]) mach)"
proof -
  note calls = calls_call_frame [of n b c d]
  have "fs_syscall op (kern mach) b c = Some (set_user_mem ((ram f)(c := word_of_int retcode)) ((kern mach)\<lparr>fsys := f\<rparr>))"
    using assms(1,2,4) by (rule fs_syscall_run)
  then show ?thesis
    using assms(3) by (auto simp: shell_syscall_def handler_syscall [OF calls] syscall_fs [OF calls_call_frame] with_fs_def store_one)
qed

text \<open>Printing a string without backspaces.\<close>

definition term_print :: "u8 list \<Rightarrow> u8 \<Rightarrow> terminal \<Rightarrow> terminal" where
  "term_print cs color t = fold (\<lambda>c t. the (term_put c color t)) cs t"

lemma term_print_foldl:
  "8 \<notin> set cs \<Longrightarrow> foldl (\<lambda>t c. Option.bind t (term_put c color)) (Some t) cs = Some (term_print cs color t)"
proof (induction cs arbitrary: t)
  case (Cons c cs)
  then have "term_put c color t = Some (the (term_put c color t))" by (cases t) (auto simp: term_put_def)
  then show ?case using Cons by (simp add: term_print_def) (metis option.sel)
qed (simp add: term_print_def)

lemma puts_call:
  "shell_syscall bus 6 text n color mach =
    map_option (\<lambda>s. with_screen s mach) (puts bus (screen_of mach) (load_bytes (mem_of mach) text (unat n)) color)"
proof -
  have calls: "calls (call_frame 6 text n color) 6 text n" by (rule calls_call_frame)
  have "edx (frame_cpu (call_frame 6 text n color)) = color" by (simp add: call_frame_def)
  then show ?thesis using calls unfolding shell_syscall_def handler_syscall [OF calls] syscall_def calls_def Let_def
    by (cases "puts bus (screen_of mach) (load_bytes (mem_of mach) text (unat n)) color")
      (auto simp: with_screen_def)
qed

lemma shell_puts_effect:
  assumes "vga_crtc bus index reg" and "shows_terminal reg (screen_of mach) t"
    and "cstr (mem_of mach) text msg" and "8 \<notin> set msg" and "length msg < 2 ^ 32"
  shows "\<exists>s. shell_puts bus text color mach = Some (with_screen s mach) \<and>
    shows_terminal reg s (term_print msg (ucast color) t)"
proof -
  have msg: "load_bytes (mem_of mach) text (length msg) = msg" using assms(3) by (simp add: cstr_iff_load)
  obtain s where "puts bus (screen_of mach) msg color = Some s" "shows_terminal reg s (term_print msg (ucast color) t)"
    using puts_refines [OF assms(1,2) term_print_foldl [OF assms(4)]] by blast
  then show ?thesis using assms(5) msg by (intro exI [of _ s]) (simp add: shell_puts_def strlen_cstr [OF assms(3)] puts_call)
qed

section \<open>Requests with a name\<close>

definition request_for :: "u32 \<Rightarrow> u8 list \<Rightarrow> u32 \<Rightarrow> FAT32DriverRequest" where
  "request_for buf xs cluster = \<lparr>r_buf = buf, r_name = xs @ replicate (8 - length xs) 0, r_ext = replicate 3 0,
     r_parent_cluster_number = cluster, r_buffer_size = 0\<rparr>"

lemma request_for_simps [simp]:
  "length xs \<le> 8 \<Longrightarrow> wf_request (request_for buf xs cluster)" "r_parent_cluster_number (request_for buf xs cluster) = cluster"
  "r_buffer_size (request_for buf xs cluster) = 0" "r_ext (request_for buf xs cluster) = replicate 3 0" "r_buf (request_for buf xs cluster) = buf"
  "r_name (request_for buf xs cluster) = xs @ replicate (8 - length xs) 0"
  by (simp_all add: request_for_def wf_request_def)

lemma request_key_nonzero: "xs \<noteq> [] \<Longrightarrow> 0 \<notin> set xs \<Longrightarrow> request_key (request_for buf xs cluster) \<noteq> zero_key"
  by (cases xs) (auto simp: request_key_def zero_key_def replicate_8)

text \<open>The initialiser and the \<open>memcpy\<close> of the name store the request as a whole.\<close>

lemma named_request:
  assumes "length xs \<le> 8"
  shows "store_bytes (init_request q buf (replicate 8 0) cluster 0 m) (q + 4) xs = store_bytes m q (request_bytes (request_for buf xs cluster))"
proof -
  let ?bs = "le32 buf @ replicate 8 0 @ replicate 3 0 @ le32 cluster @ le32 0"
  have 4: "q + 4 = q + of_nat 4" by simp
  have "init_request q buf (replicate 8 0) cluster 0 m = store_bytes m q ?bs" by (simp add: init_request_def request_bytes_def)
  moreover have "store_bytes (store_bytes m q ?bs) (q + of_nat 4) xs = store_bytes m q (take 4 ?bs @ xs @ drop (4 + length xs) ?bs)"
    using assms by (intro store_inside) simp_all
  moreover have "take 4 ?bs @ xs @ drop (4 + length xs) ?bs = request_bytes (request_for buf xs cluster)"
    using assms by (simp add: request_bytes_def request_for_def)
  ultimately show ?thesis by (simp only: 4)
qed

lemma cstr_init_request:
  "cstr m p xs \<Longrightarrow> ranges_disjoint p (Suc (length xs)) q 23 \<Longrightarrow> length name = 8 \<Longrightarrow> cstr (init_request q buf name cluster n m) p xs"
  unfolding init_request_def by (erule cstr_store_apart) (simp add: request_bytes_def)

lemma takeWhile_load: "cstr m p xs \<Longrightarrow> takeWhile (\<lambda>c. c \<noteq> 0) (load_bytes m p n) = take n xs"
proof (induction n arbitrary: p xs)
  case (Suc n)
  then show ?case by (cases xs) (simp_all add: load_bytes_Suc)
qed simp

section \<open>The mkdir command\<close>

lemma mkdir_run:
  assumes name: "cstr (mem_of mach) (buffer + 6) ys"
    and areas: "apart [(buffer, 256), (folder_name, 9), (request, 23), (retcode, 1)]"
    and m: "m = store_bytes (store_bytes (mem_of mach) folder_name (load_bytes (mem_of mach) (buffer + 6) 8 @ [0])) request
        (request_bytes (request_for 0 (take 8 ys) (ucast parent_cluster)))"
  shows "mkdir_command bus lit folder_name request retcode buffer parent_cluster mach =
     do { mach \<leftarrow> shell_syscall bus 2 request retcode 0 (with_mem m mach);
          if mem_of mach retcode = 0 then shell_puts bus (lit ''Folder created successfully'') 0x2 mach
          else if mem_of mach retcode = 1 then shell_puts bus (lit ''Folder already exists'') 0x4 mach
          else if mem_of mach retcode = 2 then shell_puts bus (lit ''Invalid parent cluster'') 0x4 mach
          else shell_puts bus (lit ''Unknown error'') 0x4 mach }"
proof -
  let ?m = "mem_of mach" and ?xs = "take 8 ys" and ?src = "load_bytes (mem_of mach) (buffer + 6) 8"
  have d1: "ranges_disjoint folder_name (unat (8 :: u32)) (buffer + 6) (unat (8 :: u32))"
    using areas ranges_disjoint_sym [OF ranges_disjoint_part [of buffer 256 folder_name 9 6 8 0 8]] by (simp add: apart_def)
  have c1: "fst (memcpy ?m folder_name (buffer + 6) 8) = store_bytes ?m folder_name ?src" using memcpy_apart [OF d1] by simp
  have c2: "(store_bytes ?m folder_name ?src)(folder_name + 8 := 0) = store_bytes ?m folder_name (?src @ [0])"
    using store_bytes_append [of ?src "[0]" ?m folder_name] by (simp add: store_one)
  let ?m2 = "store_bytes ?m folder_name (?src @ [0])"
  let ?m3 = "init_request request 0 (replicate 8 0) (ucast parent_cluster) 0 ?m2"
  have "cstr ?m2 folder_name ?xs" using cstr_store [of ?src ?m folder_name] takeWhile_load [OF name] by simp
  moreover have "ranges_disjoint folder_name (Suc (length ?xs)) request 23"
    using areas ranges_disjoint_part [of folder_name 9 request 23 0 "Suc (length ?xs)" 0 23] by (simp add: apart_def)
  ultimately have s: "cstr ?m3 folder_name ?xs" by (intro cstr_init_request) simp_all
  have d2: "ranges_disjoint (request + 4) (length ?xs) folder_name (length ?xs)"
    using areas ranges_disjoint_sym [OF ranges_disjoint_part [of folder_name 9 request 23 0 "length ?xs" 4 "length ?xs"]] by (simp add: apart_def)
  have n: "strlen ?m3 folder_name = Some (of_nat (length ?xs))" using s by (rule strlen_cstr)
  have "fst (memcpy ?m3 (request + 4) folder_name (of_nat (length ?xs))) = store_bytes ?m3 (request + 4) (load_bytes ?m3 folder_name (length ?xs))"
    using memcpy_apart [of "request + 4" "of_nat (length ?xs)" folder_name ?m3] d2 by simp
  moreover have "load_bytes ?m3 folder_name (length ?xs) = ?xs" using s by (simp add: cstr_iff_load)
  moreover have "store_bytes ?m3 (request + 4) ?xs = m" unfolding m by (rule named_request) simp
  ultimately have c3: "fst (memcpy ?m3 (request + 4) folder_name (of_nat (length ?xs))) = m" by (simp only:)
  show ?thesis
    unfolding mkdir_command_def by (simp only: c1 c2 n c3 Option.bind.simps)
qed

text \<open>Printing a literal after system calls of the file system. \<open>reports\<close>: afterwards the screen shows the message.\<close>

definition reports :: "('d \<Rightarrow> u8 \<Rightarrow> u8) \<Rightarrow> 'd machine \<Rightarrow> string \<Rightarrow> u8 \<Rightarrow> terminal \<Rightarrow> bool" where
  "reports reg mach s color t \<longleftrightarrow> shows_terminal reg (screen_of mach) (term_print (bytes_of s) color t)"

lemma puts_literal:
  assumes "vga_crtc bus index reg" and "shows_terminal reg (screen_of mach) t"
    and "literals lit m areas ss" and "s \<in> set ss" and "8 \<notin> set (bytes_of s)" and "length s < 2 ^ 32"
  shows "\<exists>scr. shell_puts bus (lit s) color (with_fs f m mach) = Some (with_screen scr (with_fs f m mach)) \<and>
    reports reg (with_screen scr (with_fs f m mach)) s (ucast color) t"
  using shell_puts_effect [OF assms(1), of "with_fs f m mach" t "lit s" "bytes_of s" color] assms(2,5,6) literal_at [OF assms(3,4)]
  by (auto simp: bytes_of_def reports_def)

definition mkdir_areas :: "u32 \<Rightarrow> u32 \<Rightarrow> u32 \<Rightarrow> (u32 \<times> nat) list" where
  "mkdir_areas folder_name request retcode = [(folder_name, 9), (request, 23), (retcode, 1)]"

text \<open>What \<open>mkdir\<close> does with a name in the directory \<open>p\<close> of the tree \<open>D\<close>.\<close>

definition mkdir_outcome :: "('d \<Rightarrow> u8 \<Rightarrow> u8) \<Rightarrow> terminal \<Rightarrow> u32 set \<Rightarrow> u32 \<Rightarrow> file_key \<Rightarrow> fs_state \<Rightarrow> 'd machine \<Rightarrow> bool" where
  "mkdir_outcome reg t D p key f mach' \<longleftrightarrow>
    (listing (disk f) p key = None \<longrightarrow>
      (\<exists>w. w \<notin> D \<and> fs_inv (fsys (kern mach')) (insert w D) \<and>
        listing (disk (fsys (kern mach'))) w = [key \<mapsto> Dir w, dotdot_key \<mapsto> Dir p] \<and>
        (\<forall>q \<in> D. listing (disk (fsys (kern mach'))) q =
          (if q = p then (listing (disk f) q)(key \<mapsto> Dir w) else listing (disk f) q))) \<and>
      reports reg mach' ''Folder created successfully'' 0x2 t) \<and>
    (listing (disk f) p key \<noteq> None \<longrightarrow>
      fs_inv (fsys (kern mach')) D \<and> disk (fsys (kern mach')) = disk f \<and> reports reg mach' ''Folder already exists'' 0x4 t)"

lemma mkdir_effect:
  assumes screen: "vga_crtc bus index reg" "shows_terminal reg (screen_of mach) t"
    and inv: "fs_inv (fsys (kern mach)) D" and p: "ucast parent_cluster \<in> D"
    and name: "cstr (mem_of mach) (buffer + 6) ys" "ys \<noteq> []"
    and areas: "apart ((buffer, 256) # mkdir_areas folder_name request retcode)"
    and lits: "literals lit (mem_of mach) (mkdir_areas folder_name request retcode) [''Folder created successfully'', ''Folder already exists'']"
    and free: "\<exists>i < 64. \<not> used (disk_dir (disk (fsys (kern mach))) (ucast parent_cluster) ! i)" "frees (disk_fat (disk (fsys (kern mach)))) 3 \<noteq> []"
    and key: "key = request_key (request_for 0 (take 8 ys) 0)"
  shows "\<exists>mach'. mkdir_command bus lit folder_name request retcode buffer parent_cluster mach = Some mach' \<and>
    mkdir_outcome reg t D (ucast parent_cluster) key (fsys (kern mach)) mach' \<and>
    kept_outside (mkdir_areas folder_name request retcode) (mem_of mach) (mem_of mach')"
proof -
  let ?r = "request_for 0 (take 8 ys) (ucast parent_cluster)"
  let ?src = "load_bytes (mem_of mach) (buffer + 6) 8"
  define m where "m = store_bytes (store_bytes (mem_of mach) folder_name (?src @ [0])) request (request_bytes ?r)"
  note run = mkdir_run [OF name(1) areas [unfolded mkdir_areas_def] m_def, of bus lit]
  have r: "wf_request ?r" "request_key ?r = key" "request_key ?r \<noteq> zero_key" "length (request_bytes ?r) = 23"
    using name request_key_nonzero [of "take 8 ys"] cstr_no_nul [OF name(1)]
    by (simp_all add: key request_key_def) (auto dest: in_set_takeD)
  have req: "load_bytes m request 23 = request_bytes ?r" unfolding m_def using load_store_bytes [of "request_bytes ?r" _ request] r(4) by simp
  have lits': "literals lit (store_bytes m retcode [v]) (mkdir_areas folder_name request retcode)
      [''Folder created successfully'', ''Folder already exists'']" for v
    unfolding m_def using lits r(4)
    by (intro literals_store) (simp_all add: mkdir_areas_def)
  have kept: "kept_outside (mkdir_areas folder_name request retcode) (mem_of mach) (store_bytes m retcode [v])" for v
    unfolding m_def using r(4)
    by (intro kept_trans [OF kept_trans [OF kept_store kept_store] kept_store]) (simp_all add: mkdir_areas_def)
  let ?f = "(fsys (kern mach))\<lparr>ram := m\<rparr>"
  have inv': "fs_inv ?f D" using inv by simp
  have call: "shell_syscall bus 2 request retcode 0 (with_fs (fsys (kern mach)) m mach) = Some (with_fs f (store_bytes (ram f) retcode [word_of_int rc]) mach)"
    if "write' ?f ?r = Some (rc, f)" for rc f
    using file_call [of "with_mem m mach" request ?r 2 write' rc f bus retcode 0] req r(1) that by simp
  have plain: "8 \<notin> set (bytes_of ''Folder created successfully'')" "8 \<notin> set (bytes_of ''Folder already exists'')"
    by (simp_all add: bytes_of_def)
  show ?thesis
  proof (cases "listing (disk (fsys (kern mach))) (ucast parent_cluster) key = None")
    case True
    obtain f w where f: "write' ?f ?r = Some (0, f)" "w \<notin> D" "fs_inv f (insert w D)" "ram f = m"
      "listing (disk f) w = [key \<mapsto> Dir w, dotdot_key \<mapsto> Dir (ucast parent_cluster)]"
      "\<forall>q \<in> D. listing (disk f) q = (if q = ucast parent_cluster then (listing (disk (fsys (kern mach))) q)(key \<mapsto> Dir w) else listing (disk (fsys (kern mach))) q)"
      using write_dir_effect [OF inv' _ r(1,3)] p r(2) True free by auto
    obtain scr where "shell_puts bus (lit ''Folder created successfully'') 2 (with_fs f (store_bytes m retcode [0]) mach) = Some (with_screen scr (with_fs f (store_bytes m retcode [0]) mach))"
      "reports reg (with_screen scr (with_fs f (store_bytes m retcode [0]) mach)) ''Folder created successfully'' (ucast (2 :: u32)) t"
      using puts_literal [OF screen lits' [of 0] _ plain(1), where f = f and color = 2] by (auto split del: if_split)
    then have "mkdir_command bus lit folder_name request retcode buffer parent_cluster mach = Some (with_screen scr (with_fs f (store_bytes m retcode [0]) mach))"
      and "reports reg (with_screen scr (with_fs f (store_bytes m retcode [0]) mach)) ''Folder created successfully'' 2 t"
      using f(4) by (simp_all add: run call [OF f(1)] store_one)
    then show ?thesis using f True kept by (intro exI [of _ "with_screen scr (with_fs f (store_bytes m retcode [0]) mach)"]) (auto simp: mkdir_outcome_def)
  next
    case False
    obtain f where f: "write' ?f ?r = Some (1, f)" "disk f = disk (fsys (kern mach))" "fs_inv f D" "ram f = m"
      using refusal_effects [OF inv' _ r(1,3)] p r(2) False free by auto
    obtain scr where "shell_puts bus (lit ''Folder already exists'') 4 (with_fs f (store_bytes m retcode [1]) mach) = Some (with_screen scr (with_fs f (store_bytes m retcode [1]) mach))"
      "reports reg (with_screen scr (with_fs f (store_bytes m retcode [1]) mach)) ''Folder already exists'' (ucast (4 :: u32)) t"
      using puts_literal [OF screen lits' [of 1] _ plain(2), where f = f and color = 4] by (auto split del: if_split)
    then have "mkdir_command bus lit folder_name request retcode buffer parent_cluster mach = Some (with_screen scr (with_fs f (store_bytes m retcode [1]) mach))"
      and "reports reg (with_screen scr (with_fs f (store_bytes m retcode [1]) mach)) ''Folder already exists'' 4 t"
      using f(4) by (simp_all add: run call [OF f(1)] store_one)
    then show ?thesis using f False kept by (intro exI [of _ "with_screen scr (with_fs f (store_bytes m retcode [1]) mach)"]) (auto simp: mkdir_outcome_def)
  qed
qed

section \<open>The rm command\<close>

lemma blank_argument_cstr:
  assumes "cstr m argument xs" and "cstr m (lit blanks) (bytes_of blanks)" and "argument \<noteq> 0" and "length xs < 2 ^ 32"
  shows "blank_argument lit argument m = Some (list_all (\<lambda>c. c \<in> set (bytes_of blanks)) xs)"
proof -
  let ?k = "length (takeWhile (\<lambda>c. c \<in> set (bytes_of blanks)) xs)"
  have k: "?k \<le> length xs" by (rule length_takeWhile_le)
  have "strspn m argument (lit blanks) = Some (of_nat ?k)" using strspn_outer_cstr [OF assms(1,2), of 0] by (simp add: strspn_def)
  moreover have "(of_nat (length xs) :: u32) = of_nat ?k \<longleftrightarrow> length xs = ?k" using k assms(4) by (intro of_nat_eq_iff_small) simp_all
  moreover have "length xs = ?k \<longleftrightarrow> takeWhile (\<lambda>c. c \<in> set (bytes_of blanks)) xs = xs"
    using takeWhile_eq_take [of "\<lambda>c. c \<in> set (bytes_of blanks)" xs] by (metis take_all order_refl)
  ultimately show ?thesis using assms(3) strlen_cstr [OF assms(1)]
    by (simp add: blank_argument_def takeWhile_eq_all_conv list_all_iff)
qed

text \<open>A request that the driver answers with a directory table.\<close>

lemma directory_call:
  assumes "fs_inv (fsys (kern mach)) D" and "load_bytes (mem_of mach) b 23 = request_bytes r" and "wf_request r"
    and "answers D ((fsys (kern mach))\<lparr>ram := mem_of mach\<rparr>) r w"
  shows "\<exists>f. shell_syscall bus 1 b c d mach =
      Some (with_fs f (store_bytes (store_bytes (mem_of mach) (r_buf r) (table_bytes (disk_dir (disk (fsys (kern mach))) w))) c [0]) mach) \<and>
    fs_inv f D \<and> disk f = disk (fsys (kern mach))"
proof -
  obtain f where f: "read_directory ((fsys (kern mach))\<lparr>ram := mem_of mach\<rparr>) r = Some (0, f)" "disk f = disk (fsys (kern mach))" "fs_inv f D"
    "ram f = store_bytes (mem_of mach) (r_buf r) (table_bytes (disk_dir (disk (fsys (kern mach))) w))"
    using assms(4) by (auto simp: answers_def)
  then show ?thesis using file_call [where op = read_directory and n = 1 and bus = bus and c = c and d = d, OF assms(2,3) _ f(1)] by (intro exI [of _ f]) simp
qed

lemma own_directory_call:
  assumes "fs_inv (fsys (kern mach)) D" and "cluster \<in> D" and "mem_of mach = init_request req buf dot_name cluster n m"
  shows "\<exists>f. shell_syscall bus 1 req retcode 0 mach =
      Some (with_fs f (store_bytes (store_bytes (mem_of mach) buf (table_bytes (disk_dir (disk (fsys (kern mach))) cluster))) retcode [0]) mach) \<and>
    fs_inv f D \<and> disk f = disk (fsys (kern mach))"
proof -
  let ?r = "\<lparr>r_buf = buf, r_name = dot_name, r_ext = replicate 3 0, r_parent_cluster_number = cluster, r_buffer_size = n\<rparr>"
  have r: "wf_request ?r" "length (request_bytes ?r) = 23" by (simp_all add: wf_request_def dot_name_def request_bytes_def)
  have req: "load_bytes (mem_of mach) req 23 = request_bytes ?r"
    using load_store_bytes [of "request_bytes ?r" m req] r(2) by (simp add: assms(3) init_request_def)
  have inv: "fs_inv ((fsys (kern mach))\<lparr>ram := mem_of mach\<rparr>) D" using assms(1) by simp
  have "answers D ((fsys (kern mach))\<lparr>ram := mem_of mach\<rparr>) ?r cluster"
    using read_directory_effects [OF inv _ r(1)] assms(2) by simp
  from directory_call [OF assms(1) req r(1) this] show ?thesis by simp
qed

text \<open>The part of \<open>rm\<close> before the system call: the checks pass and the request asks for the name.\<close>

definition rm_areas :: "u32 \<times> u32 \<times> u32 \<Rightarrow> u32 \<Rightarrow> u32 \<Rightarrow> u32 \<Rightarrow> (u32 \<times> nat) list" where
  "rm_areas sub found_path req retval =
     [(fst sub, 2048), (fst (snd sub), 23), (snd (snd sub), 1), (found_path, 256), (req, 23), (retval, 1)]"

definition rm_literals :: "string list" where
  "rm_literals = [blanks, ''/'', '''', ''File or directory removed successfully.'', ''Failed to remove file or directory.'']"

lemma rm_areas_apart:
  assumes "apart ((argument, 9) # rm_areas sub found_path req retval)" and "(a, n) \<in> set (rm_areas sub found_path req retval)" and "j \<le> 9" and "k \<le> n"
  shows "ranges_disjoint argument j a k"
proof -
  have "ranges_disjoint argument 9 a n" using assms(1,2) by (auto simp: apart_def)
  then show ?thesis using ranges_disjoint_part [of argument 9 a n 0 j 0 k] assms(3,4) by simp
qed

lemma rm_found:
  assumes inv: "fs_inv (fsys (kern mach)) D" and p: "ucast parent_cluster \<in> D"
    and arg: "cstr (mem_of mach) argument xs" "argument \<noteq> 0" "length xs \<le> 8" "xs \<noteq> bytes_of ''/''" "\<not> list_all (\<lambda>c. c \<in> set (bytes_of blanks)) xs"
    and areas: "apart ((argument, 9) # rm_areas sub found_path req retval)"
    and lits: "literals lit (mem_of mach) (rm_areas sub found_path req retval) rm_literals"
  shows "\<exists>f m. is_in_directory bus lit (fst sub) (fst (snd sub)) (snd (snd sub)) parent_cluster argument found_path
      (with_mem (store_bytes (mem_of mach) found_path (replicate 256 0)) mach) = Some (True, with_fs f m mach) \<and>
    fs_inv f D \<and> disk f = disk (fsys (kern mach)) \<and> literals lit m (rm_areas sub found_path req retval) rm_literals \<and> cstr m argument xs"
proof -
  obtain dirbuffer request retval1 where sub: "sub = (dirbuffer, request, retval1)" by (cases sub) auto
  let ?areas = "rm_areas sub found_path req retval" and ?p = "ucast parent_cluster :: u32"
  define m1 where "m1 = store_bytes (mem_of mach) found_path (replicate 256 0)"
  define m2 where "m2 = init_request request dirbuffer dot_name ?p 0 m1"
  let ?table = "table_bytes (disk_dir (disk (fsys (kern mach))) ?p)"
  have table: "length ?table = 2048" by (simp add: table_bytes_disk_dir)
  define m3 where "m3 = store_bytes (store_bytes m2 dirbuffer ?table) retval1 [0]"
  have far: "ranges_disjoint argument (Suc (length xs)) found_path 256" "ranges_disjoint argument (Suc (length xs)) dirbuffer 2048"
    "ranges_disjoint argument (Suc (length xs)) request 23" "ranges_disjoint argument (Suc (length xs)) retval1 1"
    using arg(3) by (auto intro!: rm_areas_apart [OF areas] simp: rm_areas_def sub)
  have s1: "cstr m1 argument xs" unfolding m1_def using arg(1) far(1) by (intro cstr_store_apart) simp_all
  have s2: "cstr m2 argument xs" unfolding m2_def using s1 far(3) by (intro cstr_init_request) (simp_all add: dot_name_def)
  have s3: "cstr m3 argument xs" unfolding m3_def using s2 far(2,4) table by (intro cstr_store_apart) simp_all
  have l1: "literals lit m1 ?areas rm_literals" unfolding m1_def using lits by (rule literals_store) (simp add: rm_areas_def)
  have l2: "literals lit m2 ?areas rm_literals"
    unfolding m2_def init_request_def using l1 by (rule literals_store) (simp add: rm_areas_def sub request_bytes_def dot_name_def)
  have l3: "literals lit m3 ?areas rm_literals" unfolding m3_def using l2 table by (intro literals_store) (simp_all add: rm_areas_def sub)
  obtain r1 r2 where "strcmp m1 argument (lit ''/'') = Some r1" "r1 \<noteq> 0" "strcmp m1 argument (lit '''') = Some r2" "r2 \<noteq> 0"
    using strcmp_cstr [OF s1 literal_at [OF l1, of "''/''"]] strcmp_cstr [OF s1 literal_at [OF l1, of "''''"]] arg(4,5)
    by (auto simp: rm_literals_def bytes_of_def)
  moreover obtain f where "shell_syscall bus 1 request retval1 0 (with_fs (fsys (kern mach)) m2 mach) = Some (with_fs f m3 mach)"
    and f: "fs_inv f D" "disk f = disk (fsys (kern mach))"
    using own_directory_call [of "with_fs (fsys (kern mach)) m2 mach" D ?p request dirbuffer 0 m1 bus retval1] inv p by (auto simp: m2_def m3_def)
  ultimately have "is_in_directory bus lit dirbuffer request retval1 parent_cluster argument found_path (with_fs (fsys (kern mach)) m1 mach) =
      Some (True, with_fs f m3 mach)"
    by (simp add: is_in_directory_def m2_def) (simp add: m3_def store_one)
  then show ?thesis using f l3 s3 by (intro exI [of _ f] exI [of _ m3]) (simp add: m1_def sub)
qed

lemma rm_run:
  assumes inv: "fs_inv (fsys (kern mach)) D" and p: "ucast parent_cluster \<in> D"
    and arg: "cstr (mem_of mach) argument xs" "argument \<noteq> 0" "length xs \<le> 8" "xs \<noteq> bytes_of ''/''" "\<not> list_all (\<lambda>c. c \<in> set (bytes_of blanks)) xs"
    and areas: "apart ((argument, 9) # rm_areas sub found_path req retval)"
    and lits: "literals lit (mem_of mach) (rm_areas sub found_path req retval) rm_literals"
  shows "\<exists>f m. fs_inv f D \<and> disk f = disk (fsys (kern mach)) \<and> literals lit m (rm_areas sub found_path req retval) rm_literals \<and>
    load_bytes m req 23 = request_bytes (request_for 0 xs (ucast parent_cluster)) \<and>
    rm_command bus lit sub found_path req retval argument parent_cluster mach =
      do { mach \<leftarrow> shell_syscall bus 3 req retval 0 (with_fs f m mach);
           if mem_of mach retval = 0 then shell_puts bus (lit ''File or directory removed successfully.'') 0x0F mach
           else shell_puts bus (lit ''Failed to remove file or directory.'') 0x4 mach }"
proof -
  let ?areas = "rm_areas sub found_path req retval" and ?p = "ucast parent_cluster :: u32"
  obtain f m3 where found: "is_in_directory bus lit (fst sub) (fst (snd sub)) (snd (snd sub)) parent_cluster argument found_path
      (with_mem (store_bytes (mem_of mach) found_path (replicate 256 0)) mach) = Some (True, with_fs f m3 mach)"
    and f: "fs_inv f D" "disk f = disk (fsys (kern mach))" and l3: "literals lit m3 ?areas rm_literals" and s3: "cstr m3 argument xs"
    using rm_found [OF assms] by blast
  have blank: "blank_argument lit argument (mem_of mach) = Some False"
    using blank_argument_cstr [of "mem_of mach" argument xs lit] literal_at [OF lits, of blanks] arg by (simp add: rm_literals_def)
  define m4 where "m4 = store_bytes m3 req (request_bytes (request_for 0 xs ?p))"
  have far: "ranges_disjoint argument (Suc (length xs)) req 23" using arg(3) by (intro rm_areas_apart [OF areas]) (auto simp: rm_areas_def)
  have s4: "cstr (init_request req 0 (replicate 8 0) ?p 0 m3) argument xs" using s3 far by (intro cstr_init_request) simp_all
  have "ranges_disjoint (req + 4) (length xs) argument (length xs)"
    using ranges_disjoint_sym [OF ranges_disjoint_part [OF far, of 0 "length xs" 4 "length xs"]] arg(3) by simp
  then have "fst (memcpy (init_request req 0 (replicate 8 0) ?p 0 m3) (req + 4) argument (of_nat (length xs))) = m4"
    using memcpy_apart [of "req + 4" "of_nat (length xs)" argument] s4 arg(3) named_request [OF arg(3)] by (simp add: m4_def cstr_iff_load)
  then have run: "rm_command bus lit sub found_path req retval argument parent_cluster mach =
      do { mach \<leftarrow> shell_syscall bus 3 req retval 0 (with_fs f m4 mach);
           if mem_of mach retval = 0 then shell_puts bus (lit ''File or directory removed successfully.'') 0x0F mach
           else shell_puts bus (lit ''Failed to remove file or directory.'') 0x4 mach }"
    using blank found strlen_cstr [OF s4] by (cases sub) (simp add: rm_command_def SHELL_MAX_LENGTH_def)
  have r: "length (request_bytes (request_for 0 xs ?p)) = 23" using arg(3) by simp
  have "literals lit m4 ?areas rm_literals" unfolding m4_def using l3 by (rule literals_store) (simp add: rm_areas_def r)
  moreover have "load_bytes m4 req 23 = request_bytes (request_for 0 xs ?p)"
    unfolding m4_def using load_store_bytes [of "request_bytes (request_for 0 xs ?p)" m3 req] r by simp
  ultimately show ?thesis using run f by blast
qed

lemma rm_finish:
  assumes screen: "vga_crtc bus index reg" "shows_terminal reg (screen_of mach) t"
    and req: "load_bytes m req 23 = request_bytes r" "wf_request r"
    and lits: "literals lit m (rm_areas sub found_path req retval) rm_literals"
    and f': "delete (f\<lparr>ram := m\<rparr>) r = Some (rc, f')" "ram f' = m" "0 \<le> rc" "rc < 256"
  shows "\<exists>mach'. do { mach \<leftarrow> shell_syscall bus 3 req retval 0 (with_fs f m mach);
      if mem_of mach retval = 0 then shell_puts bus (lit ''File or directory removed successfully.'') 0x0F mach
      else shell_puts bus (lit ''Failed to remove file or directory.'') 0x4 mach } = Some mach' \<and>
    fsys (kern mach') = f' \<and>
    (if rc = 0 then reports reg mach' ''File or directory removed successfully.'' 0x0F t
     else reports reg mach' ''Failed to remove file or directory.'' 0x4 t)"
proof -
  let ?m = "store_bytes m retval [word_of_int rc]"
  have call: "shell_syscall bus 3 req retval 0 (with_fs f m mach) = Some (with_fs f' ?m mach)"
    using file_call [where op = delete and n = 3 and mach = "with_fs f m mach" and bus = bus and c = retval and d = 0 and b = req and r = r and retcode = rc and f = f'] req f'
    by simp
  have l: "literals lit ?m (rm_areas sub found_path req retval) rm_literals" using lits by (rule literals_store) (simp add: rm_areas_def)
  have rc: "word_of_int rc = (0 :: u8) \<longleftrightarrow> rc = 0" using f'(3,4) by (auto simp: word_of_int_eq_0_iff dest: zdvd_imp_le)
  have plain: "8 \<notin> set (bytes_of ''File or directory removed successfully.'')" "8 \<notin> set (bytes_of ''Failed to remove file or directory.'')"
    by (simp_all add: bytes_of_def)
  show ?thesis
  proof (cases "rc = 0")
    case True
    obtain scr where "shell_puts bus (lit ''File or directory removed successfully.'') 0x0F (with_fs f' ?m mach) = Some (with_screen scr (with_fs f' ?m mach))"
      "reports reg (with_screen scr (with_fs f' ?m mach)) ''File or directory removed successfully.'' (ucast (0x0F :: u32)) t"
      using puts_literal [OF screen l _ plain(1), where f = f' and color = "0x0F"] by (auto simp: rm_literals_def)
    then show ?thesis using True by (intro exI [of _ "with_screen scr (with_fs f' ?m mach)"]) (simp add: call store_one)
  next
    case False
    obtain scr where "shell_puts bus (lit ''Failed to remove file or directory.'') 4 (with_fs f' ?m mach) = Some (with_screen scr (with_fs f' ?m mach))"
      "reports reg (with_screen scr (with_fs f' ?m mach)) ''Failed to remove file or directory.'' (ucast (4 :: u32)) t"
      using puts_literal [OF screen l _ plain(2), where f = f' and color = 4] by (auto simp: rm_literals_def)
    then show ?thesis using False rc by (intro exI [of _ "with_screen scr (with_fs f' ?m mach)"]) (simp add: call store_one)
  qed
qed

lemma rm_effect:
  assumes screen: "vga_crtc bus index reg" "shows_terminal reg (screen_of mach) t"
    and inv: "fs_inv (fsys (kern mach)) D" and p: "ucast parent_cluster \<in> D"
    and arg: "cstr (mem_of mach) argument xs" "argument \<noteq> 0" "length xs \<le> 8" "xs \<noteq> bytes_of ''/''" "\<not> list_all (\<lambda>c. c \<in> set (bytes_of blanks)) xs"
    and areas: "apart ((argument, 9) # rm_areas sub found_path req retval)"
    and lits: "literals lit (mem_of mach) (rm_areas sub found_path req retval) rm_literals"
    and ordinary: "\<forall>w. listing d (ucast parent_cluster) key = Some (Dir w) \<longrightarrow> w \<noteq> ucast parent_cluster \<and> key \<noteq> dotdot_key"
    and key: "key = request_key (request_for 0 xs 0)" and d: "d = disk (fsys (kern mach))"
  shows "\<exists>mach'. rm_command bus lit sub found_path req retval argument parent_cluster mach = Some mach' \<and>
    (\<forall>ys. listing d (ucast parent_cluster) key = Some (File ys) \<longrightarrow>
      fs_inv (fsys (kern mach')) D \<and> reports reg mach' ''File or directory removed successfully.'' 0x0F t \<and>
      (\<forall>q \<in> D. listing (disk (fsys (kern mach'))) q =
        (if q = ucast parent_cluster then (listing d q)(key := None) else listing d q))) \<and>
    (\<forall>w. listing d (ucast parent_cluster) key = Some (Dir w) \<longrightarrow>
      (if \<exists>j < 64. 2 \<le> j \<and> used (disk_dir d w ! j)
       then disk (fsys (kern mach')) = d \<and> fs_inv (fsys (kern mach')) D \<and> reports reg mach' ''Failed to remove file or directory.'' 0x4 t
       else fs_inv (fsys (kern mach')) (D - {w}) \<and> reports reg mach' ''File or directory removed successfully.'' 0x0F t \<and>
         (\<forall>q \<in> D - {w}. listing (disk (fsys (kern mach'))) q =
           (if q = ucast parent_cluster then (listing d q)(key := None) else listing d q)))) \<and>
    (listing d (ucast parent_cluster) key = None \<longrightarrow>
      disk (fsys (kern mach')) = d \<and> fs_inv (fsys (kern mach')) D \<and> reports reg mach' ''Failed to remove file or directory.'' 0x4 t)"
proof -
  let ?p = "ucast parent_cluster :: u32" and ?r = "request_for 0 xs (ucast parent_cluster)"
  have ne: "xs \<noteq> []" using arg(5) by auto
  obtain f m where f: "fs_inv f D" "disk f = d" and lits': "literals lit m (rm_areas sub found_path req retval) rm_literals"
    and req: "load_bytes m req 23 = request_bytes ?r"
    and run: "rm_command bus lit sub found_path req retval argument parent_cluster mach =
      do { mach \<leftarrow> shell_syscall bus 3 req retval 0 (with_fs f m mach);
           if mem_of mach retval = 0 then shell_puts bus (lit ''File or directory removed successfully.'') 0x0F mach
           else shell_puts bus (lit ''Failed to remove file or directory.'') 0x4 mach }"
    using rm_run [OF inv p arg areas lits] d by blast
  have r: "wf_request ?r" "request_key ?r = key" "request_key ?r \<noteq> zero_key"
    using arg(3) request_key_nonzero [OF ne cstr_no_nul [OF arg(1)], of 0 ?p] by (simp_all add: key request_key_def)
  have inv': "fs_inv (f\<lparr>ram := m\<rparr>) D" using f(1) by simp
  have finish: "\<exists>mach'. rm_command bus lit sub found_path req retval argument parent_cluster mach = Some mach' \<and> fsys (kern mach') = f' \<and>
      (if rc = 0 then reports reg mach' ''File or directory removed successfully.'' 0x0F t
       else reports reg mach' ''Failed to remove file or directory.'' 0x4 t)"
    if "delete (f\<lparr>ram := m\<rparr>) ?r = Some (rc, f')" "ram f' = m" "0 \<le> rc" "rc < 256" for rc f'
    unfolding run by (rule rm_finish [OF screen req r(1) lits' that])
  have p': "r_parent_cluster_number ?r \<in> D" using p by simp
  have o: "\<forall>w. listing (disk (f\<lparr>ram := m\<rparr>)) (r_parent_cluster_number ?r) (request_key ?r) = Some (Dir w) \<longrightarrow>
      w \<noteq> r_parent_cluster_number ?r \<and> request_key ?r \<noteq> dotdot_key"
    using ordinary f(2) r(2) by simp
  from inv' p' r(1,3) o show ?thesis
  proof (cases rule: delete_cases)
    case (removed_file xs f')
    obtain mach' where "rm_command bus lit sub found_path req retval argument parent_cluster mach = Some mach'" "fsys (kern mach') = f'"
      "reports reg mach' ''File or directory removed successfully.'' 0x0F t"
      using finish [OF removed_file(2)] removed_file(3) by auto
    then show ?thesis using removed_file f(2) r(2) by (intro exI [of _ mach']) simp
  next
    case (removed_dir w f')
    obtain mach' where "rm_command bus lit sub found_path req retval argument parent_cluster mach = Some mach'" "fsys (kern mach') = f'"
      "reports reg mach' ''File or directory removed successfully.'' 0x0F t"
      using finish [OF removed_dir(3)] removed_dir(4) by auto
    then show ?thesis using removed_dir f(2) r(2) by (intro exI [of _ mach']) (simp split del: if_split, auto)
  next
    case (refused rc f')
    obtain mach' where "rm_command bus lit sub found_path req retval argument parent_cluster mach = Some mach'" "fsys (kern mach') = f'"
      "reports reg mach' ''Failed to remove file or directory.'' 0x4 t"
      using finish [OF refused(2)] refused(3,4) by auto
    then show ?thesis using refused f(2) r(2) by (intro exI [of _ mach']) auto
  qed
qed

end
