(* ===== verification/Shell_Cd.thy ===== *)
theory Shell_Cd
  imports Shell
begin

text \<open>
  The \<open>cd\<close> command of the shell (\<open>src/src/user-shell.c\<close>): the path is taken apart at its backslashes and followed with one
  system call for each directory. The shell keeps a stack of the directories it was in, and \<open>cd ..\<close> goes back to the last one.
\<close>

section \<open>Definitions\<close>

text \<open>The global variables \<open>idx\<close> and \<open>clusters\<close>, and the static variable of \<open>strtok\<close>.\<close>

record shell_globals =
  next_token :: u32
  idx :: u32
  clusters :: "u32 list"

definition splitter :: u8 where "splitter = 92"

text \<open>The inner loop: the length of the path component at \<open>buffer + progress\<close>, at most 8.\<close>

partial_function (option) component_len :: "mem \<Rightarrow> u32 \<Rightarrow> u8 \<Rightarrow> u8 \<Rightarrow> u8 option" where
  "component_len m buffer progress current_len =
     (if m (buffer + (ucast progress + ucast current_len)) \<noteq> splitter \<and> current_len < 8 then
        do { n \<leftarrow> strlen m (buffer + (ucast progress + ucast current_len));
             if n > 0 then component_len m buffer progress (current_len + 1) else Some current_len }
      else Some current_len)"

text \<open>
  The outer loop, with the values of \<open>retcode\<close>, \<open>progress\<close>, \<open>current_cluster\<close> and \<open>directory_found\<close>; \<open>req\<close> and \<open>ret\<close> are the
  locals of \<open>read_directory_interface\<close>. The \<open>int8_t\<close> result is widened with its sign.
\<close>

partial_function (option) cd_loop ::
  "'d bus \<Rightarrow> (string \<Rightarrow> u32) \<Rightarrow> u32 \<Rightarrow> u32 \<Rightarrow> u32 \<Rightarrow> u32 \<Rightarrow> u32 \<Rightarrow> u8 \<Rightarrow> u16 \<Rightarrow> bool \<Rightarrow> 'd machine \<Rightarrow> (u32 \<times> u16 \<times> bool \<times> 'd machine) option" where
  "cd_loop bus lit dirbuffer req ret buffer retcode progress current_cluster directory_found mach =
     (if retcode = 0 then
        do { n \<leftarrow> strlen (mem_of mach) (buffer + ucast progress);
             if n > 0 then
               do { current_len \<leftarrow> component_len (mem_of mach) buffer progress 0;
                    if current_len = 8 \<and> mem_of mach (buffer + (ucast progress + ucast current_len)) \<noteq> splitter then
                      do { mach \<leftarrow> shell_puts bus (lit ''File name too long!'') 0x4 mach;
                           Some (retcode, current_cluster, directory_found, mach) }
                    else
                      do { (rc, mach) \<leftarrow> read_directory_interface bus lit req ret dirbuffer (buffer + ucast progress) current_len current_cluster mach;
                           if scast rc \<noteq> (0 :: u32) then Some (scast rc, current_cluster, directory_found, mach)
                           else if mem_of mach dirbuffer \<noteq> 0 then
                             cd_loop bus lit dirbuffer req ret buffer (scast rc) (progress + (current_len + 1))
                               (ucast (entry_cluster (table_of_bytes (load_bytes (mem_of mach) dirbuffer CLUSTER_SIZE) ! 0))) True mach
                           else cd_loop bus lit dirbuffer req ret buffer (scast rc) (progress + (current_len + 1)) current_cluster directory_found mach } }
             else Some (retcode, current_cluster, directory_found, mach) }
      else Some (retcode, current_cluster, directory_found, mach))"

text \<open>The \<open>cd\<close> branch of \<open>parseCommand\<close>. The result has the new value of \<open>*parent_cluster\<close>.\<close>

definition cd_command ::
  "'d bus \<Rightarrow> (string \<Rightarrow> u32) \<Rightarrow> u32 \<Rightarrow> u32 \<Rightarrow> u32 \<Rightarrow> u32 \<Rightarrow> u32 \<Rightarrow> u16 \<Rightarrow> shell_globals \<Rightarrow> 'd machine \<Rightarrow> (u16 \<times> shell_globals \<times> 'd machine) option" where
  "cd_command bus lit dirbuffer req ret buffer argument parent_cluster g mach =
     (if memcmp (mem_of mach) (buffer + 3) (lit ''..'') 2 = 0 then
        if idx g = 0 then do { mach \<leftarrow> shell_puts bus (lit ''Already in root'') 0x4 mach; Some (parent_cluster, g, mach) }
        else
          do { g \<leftarrow> Some (g\<lparr>idx := idx g - 1\<rparr>);
               mach \<leftarrow> shell_puts bus (lit ''Successfully changed directory.'') 0xF mach;
               c \<leftarrow> get_at (clusters g) (unat (idx g));
               Some (ucast c, g, mach) }
      else
        do { blank \<leftarrow> blank_argument lit argument (mem_of mach);
             if blank then Some (parent_cluster, g, mach)
             else
               do { (retcode, current_cluster, directory_found, mach) \<leftarrow> cd_loop bus lit dirbuffer req ret buffer 0 3 parent_cluster False mach;
                    if \<not> directory_found then
                      do { mach \<leftarrow> shell_puts bus (lit ''Directory not found!'') 0x4 mach; Some (parent_cluster, g, mach) }
                    else if retcode = 0 then
                      do { g \<leftarrow> Some (g\<lparr>idx := idx g + 1\<rparr>);
                           cs \<leftarrow> put_at (clusters g) (unat (idx g)) (ucast current_cluster);
                           mach \<leftarrow> shell_puts bus (lit ''Successfully changed directory.'') 0xF mach;
                           Some (current_cluster, g\<lparr>clusters := cs\<rparr>, mach) }
                    else Some (parent_cluster, g, mach) } })"

section \<open>Path components\<close>

definition cd_areas :: "u32 \<Rightarrow> u32 \<Rightarrow> u32 \<Rightarrow> (u32 \<times> nat) list" where
  "cd_areas dirbuffer req ret = [(dirbuffer, 2048), (req, 23), (ret, 1)]"

text \<open>
  \<open>subdirectory d p n w\<close>: the name \<open>n\<close> (any extension) is listed once in directory \<open>p\<close>, for the directory \<open>w\<close>, whose own
  entry has a name that the shell does not take for a missing one.
\<close>

definition pad8 :: "u8 list \<Rightarrow> u8 list" where
  "pad8 n = n @ replicate (8 - length n) 0"

definition subdirectory :: "image \<Rightarrow> u32 \<Rightarrow> u8 list \<Rightarrow> u32 \<Rightarrow> bool" where
  "subdirectory d p n w \<longleftrightarrow> w \<noteq> p \<and> pad8 n \<notin> {dot_name, fst dotdot_key, fst zero_key} \<and>
     (\<exists>x. listing d p (pad8 n, x) = Some (Dir w) \<and> (\<forall>y. listing d p (pad8 n, y) \<noteq> None \<longrightarrow> y = x)) \<and>
     e_name (disk_dir d w ! 0) ! 0 \<notin> {0, 0xE5}"

fun walks :: "image \<Rightarrow> u32 \<Rightarrow> u8 list list \<Rightarrow> u32 \<Rightarrow> bool" where
  "walks d p [] q \<longleftrightarrow> q = p"
| "walks d p (n # ns) q \<longleftrightarrow> (\<exists>w. subdirectory d p n w \<and> walks d w ns q)"

lemma subdirectory_answers:
  assumes "fs_inv s D" and "r_parent_cluster_number r \<in> D" and "wf_request r" and "r_name r = pad8 n"
    and "subdirectory (disk s) (r_parent_cluster_number r) n w"
  shows "w \<in> D \<and> answers D s r w"
proof -
  obtain x where x: "listing (disk s) (r_parent_cluster_number r) (pad8 n, x) = Some (Dir w)"
      "\<forall>y. listing (disk s) (r_parent_cluster_number r) (pad8 n, y) \<noteq> None \<longrightarrow> y = x"
    and w: "w \<noteq> r_parent_cluster_number r" "pad8 n \<notin> {dot_name, fst dotdot_key, fst zero_key}"
    using assms(5) by (auto simp: subdirectory_def)
  note e = read_directory_effects [OF assms(1-3), THEN conjunct2, THEN conjunct2, THEN conjunct1, rule_format, of x w, unfolded assms(4)]
  show ?thesis by (rule e) (intro conjI x w)
qed

lemma first_name_byte: "table_bytes t ! 0 = e_name (t ! 0) ! 0" if "length t = 64" "length (e_name (t ! 0)) = 8" for t
  using that by (cases t) (simp_all add: table_bytes_def entry_bytes_def nth_append)

text \<open>One system call of the loop.\<close>

lemma interface_step:
  assumes inv: "fs_inv (fsys (kern mach)) D" and p: "ucast cluster \<in> D"
    and name: "load_bytes (mem_of mach) (buffer + of_nat off) (length n) = n" "length n \<le> 8" "off + length n \<le> 256"
    and areas: "apart ((buffer, 256) # cd_areas dirbuffer req ret)"
    and lits: "literals lit (mem_of mach) (cd_areas dirbuffer req ret) ss"
    and sub: "subdirectory (disk (fsys (kern mach))) (ucast cluster) n w"
  shows "\<exists>f m. read_directory_interface bus lit req ret dirbuffer (buffer + of_nat off) (of_nat (length n)) cluster mach = Some (0, with_fs f m mach) \<and>
    fs_inv f D \<and> disk f = disk (fsys (kern mach)) \<and> m dirbuffer \<noteq> 0 \<and>
    entry_cluster (table_of_bytes (load_bytes m dirbuffer 2048) ! 0) = w \<and> w \<in> D \<and>
    load_bytes m buffer 256 = load_bytes (mem_of mach) buffer 256 \<and> literals lit m (cd_areas dirbuffer req ret) ss"
proof -
  let ?p = "ucast cluster :: u32" and ?r = "request_for dirbuffer n (ucast cluster)" and ?d = "disk (fsys (kern mach))" and ?m = "mem_of mach"
  have r: "wf_request ?r" "r_name ?r = pad8 n" "length (request_bytes ?r) = 23" using name(2) by (simp_all add: pad8_def)
  have apart: "ranges_disjoint buffer 256 req 23" "ranges_disjoint buffer 256 dirbuffer 2048" "ranges_disjoint buffer 256 ret 1"
    "ranges_disjoint dirbuffer 2048 ret 1"
    using areas by (simp_all add: apart_def cd_areas_def)
  let ?m1 = "init_request req dirbuffer (replicate 8 0) ?p 0 ?m"
  have load1: "load_bytes ?m1 (buffer + of_nat off) (length n) = n"
    unfolding init_request_def using name ranges_disjoint_part [OF apart(1), of off "length n" 0 23] by (subst load_store_bytes_disjoint) (simp_all add: request_bytes_def)
  have d: "ranges_disjoint (req + 4) (length n) (buffer + of_nat off) (length n)"
    using ranges_disjoint_sym [OF ranges_disjoint_part [OF apart(1), of off "length n" 4 "length n"]] name by simp
  have len: "(ucast (of_nat (length n) :: u8) :: u32) = of_nat (length n)"
    using name(2) by (simp add: unsigned_of_nat take_bit_eq_mod)
  define m2 where "m2 = store_bytes ?m req (request_bytes ?r)"
  have copy: "fst (memcpy ?m1 (req + 4) (buffer + of_nat off) (ucast (of_nat (length n) :: u8))) = m2"
    unfolding len m2_def using memcpy_apart [of "req + 4" "of_nat (length n)" "buffer + of_nat off" ?m1] d load1 name named_request [OF name(2)] by simp
  have req: "load_bytes m2 req 23 = request_bytes ?r" unfolding m2_def using load_store_bytes [of "request_bytes ?r" ?m req] r(3) by simp
  have inv': "fs_inv ((fsys (kern mach))\<lparr>ram := m2\<rparr>) D" using inv by simp
  have ans: "w \<in> D" "answers D ((fsys (kern mach))\<lparr>ram := m2\<rparr>) ?r w"
    using subdirectory_answers [OF inv' _ r(1,2), of w] p sub by simp_all
  let ?t = "disk_dir ?d w"
  define m3 where "m3 = store_bytes (store_bytes m2 dirbuffer (table_bytes ?t)) ret [0]"
  obtain f where call: "shell_syscall bus 1 req ret 0 (with_fs (fsys (kern mach)) m2 mach) = Some (with_fs f m3 mach)" and f: "fs_inv f D" "disk f = ?d"
    using directory_call [of "with_fs (fsys (kern mach)) m2 mach" D req ?r w bus ret 0] inv req r(1) ans(2) by (auto simp: m3_def)
  have tl: "length (table_bytes ?t) = 2048" by (simp add: table_bytes_disk_dir)
  have table: "load_bytes m3 dirbuffer 2048 = table_bytes ?t"
    unfolding m3_def using apart(4) tl load_store_bytes [of "table_bytes ?t" m2 dirbuffer] by (subst load_store_bytes_disjoint) simp_all
  have ok: "table_ok w ?t" using fs_inv_dir [OF inv ans(1)] by simp
  have "m3 dirbuffer = e_name (?t ! 0) ! 0"
    using table nth_load_bytes [of 0 2048 m3 dirbuffer] first_name_byte [of ?t] table_ok_wf [OF ok, of 0] by (simp add: wf_entry_def)
  then have first: "m3 dirbuffer \<noteq> 0" "m3 dirbuffer \<noteq> 0xE5" using sub by (simp_all add: subdirectory_def)
  have buf: "load_bytes m3 buffer 256 = load_bytes ?m buffer 256"
    unfolding m3_def m2_def using apart tl r(3) by (simp add: load_store_bytes_disjoint)
  have l: "literals lit m3 (cd_areas dirbuffer req ret) ss"
    unfolding m3_def m2_def using lits tl r(3) by (intro literals_store) (simp_all add: cd_areas_def)
  have "entry_cluster (table_of_bytes (load_bytes m3 dirbuffer 2048) ! 0) = w"
    unfolding table table_bytes_disk_dir using ok by (simp add: table_ok_def flip: disk_dir_def)
  moreover have "m3 ret = 0" by (simp add: m3_def store_one)
  then have "read_directory_interface bus lit req ret dirbuffer (buffer + of_nat off) (of_nat (length n)) cluster mach = Some (0, with_fs f m3 mach)"
    using call first by (simp add: read_directory_interface_def copy)
  ultimately show ?thesis using f first(1) ans(1) buf l by blast
qed

section \<open>The loop over the path\<close>

fun path :: "u8 list list \<Rightarrow> u8 list" where
  "path [] = []"
| "path [n] = n"
| "path (n # ns) = n @ splitter # path ns"

lemma path_Cons: "path (n # ns) = n @ (if ns = [] then [] else splitter # path ns)"
  by (cases ns) simp_all

definition name_ok :: "u8 list \<Rightarrow> bool" where
  "name_ok n \<longleftrightarrow> n \<noteq> [] \<and> splitter \<notin> set n \<and> 0 \<notin> set n \<and> length n \<le> 8"

lemma path_no_nul: "list_all name_ok ns \<Longrightarrow> 0 \<notin> set (path ns)"
  by (induction ns rule: path.induct) (auto simp: name_ok_def splitter_def)

lemma cstr_in_buffer:
  assumes "load_bytes m b k = pre @ xs @ 0 # post" and "0 \<notin> set xs"
  shows "cstr m (b + of_nat (length pre)) xs"
proof -
  have k: "k = length pre + (length xs + Suc (length post))" using assms(1) [THEN arg_cong, of length] by simp
  have split: "load_bytes m (b + of_nat (length pre)) (length xs + Suc (length post)) = xs @ 0 # post"
    using assms(1) unfolding k load_bytes_add by simp
  then have "load_bytes m (b + of_nat (length pre)) (length xs) = xs" "load_bytes m (b + of_nat (length pre) + of_nat (length xs)) (Suc (length post)) = 0 # post"
    unfolding load_bytes_add by simp_all
  then show ?thesis using assms(2) by (simp add: cstr_iff_load load_bytes_Suc)
qed

lemma cstr_drop: "cstr m p xs \<Longrightarrow> i \<le> length xs \<Longrightarrow> cstr m (p + of_nat i) (drop i xs)"
  using cstr_append [of m p "take i xs" "drop i xs"] by simp

lemma small_index: "i \<le> 8 \<Longrightarrow> (ucast (of_nat i :: u8) :: u32) = of_nat i" "i < 256 \<Longrightarrow> (ucast (of_nat i :: u8) :: u32) = of_nat i"
  by (simp_all add: unsigned_of_nat take_bit_eq_mod)

lemma component_len_run:
  assumes s: "cstr m (buffer + ucast progress) (n @ rest)" and rest: "rest = [] \<or> hd rest = splitter" and n: "splitter \<notin> set n" "length n \<le> 8"
    and len: "length rest < 2 ^ 16"
  shows "i \<le> length n \<Longrightarrow> component_len m buffer progress (of_nat i) = Some (of_nat (length n))"
proof (induction "length n - i" arbitrary: i)
  case 0
  then have i: "i = length n" by simp
  have c: "cstr m (buffer + ucast progress + of_nat i) rest" using cstr_drop [OF s, of i] i by simp
  then have "length n < 8 \<Longrightarrow> m (buffer + (ucast progress + of_nat i)) \<noteq> splitter \<Longrightarrow> strlen m (buffer + (ucast progress + of_nat i)) = Some 0"
    using strlen_cstr [OF c] rest by (cases rest) (simp_all add: add.assoc)
  moreover have "(of_nat (length n) :: u8) < 8 \<Longrightarrow> length n < 8"
    using n(2) by (cases "length n = 8") simp_all
  ultimately show ?case using i n(2) by (subst component_len.simps) (auto simp: small_index)
next
  case (Suc k)
  then have i: "i < length n" "i < 8" using n(2) by simp_all
  have c: "cstr m (buffer + ucast progress + of_nat i) (drop i n @ rest)" using cstr_drop [OF s, of i] i by simp
  have "drop i n = n ! i # drop (Suc i) n" using i(1) by (simp add: Cons_nth_drop_Suc)
  then have at: "m (buffer + (ucast progress + of_nat i)) = n ! i" using c by (simp add: add.assoc)
  then have ne: "m (buffer + (ucast progress + of_nat i)) \<noteq> splitter" using n(1) i(1) nth_mem by metis
  have pos: "0 < (of_nat (length (drop i n @ rest)) :: u32)"
  proof -
    have "0 < length (drop i n @ rest)" "length (drop i n @ rest) < 4294967296" using i n(2) len by simp_all
    then show ?thesis by (simp only: word_less_nat_alt unat_0 unat_of_nat_u32)
  qed
  have small: "(of_nat i :: u8) < 8" using i(2) by (simp add: word_less_nat_alt unat_of_nat)
  have "component_len m buffer progress (of_nat i) = component_len m buffer progress (of_nat (Suc i))"
  proof -
    have "strlen m (buffer + (ucast progress + of_nat i)) = Some (of_nat (length (drop i n @ rest)))"
      using strlen_cstr [OF c] by (simp only: add.assoc)
    moreover have "(of_nat (Suc i) :: u8) = of_nat i + 1" by simp
    ultimately show ?thesis using ne pos small small_index(1) [of i] i(2)
      by (subst component_len.simps) (simp only: Option.bind.simps if_True simp_thms less_imp_le)
  qed
  then show ?case using Suc.hyps(1) [of "Suc i"] Suc.hyps(2) i(1) by simp
qed

lemma with_fs_self: "with_fs (fsys (kern mach)) (mem_of mach) mach = mach"
  by (simp add: with_fs_def)

lemma cluster_u16: "fs_inv s D \<Longrightarrow> w \<in> D \<Longrightarrow> ucast (ucast w :: u16) = w"
proof -
  assume "fs_inv s D" and "w \<in> D"
  then have "unat w < 512" using fs_inv_dir by (auto simp: dir_cluster_def CLUSTER_MAP_SIZE_def)
  then have "unat (ucast (ucast w :: u16) :: u32) = unat w"
    by (simp add: unsigned_ucast_eq take_bit_eq_mod unat_mod)
  then show ?thesis by (simp only: word_unat_eq_iff)
qed

text \<open>What the loop finds out about the component at \<open>progress\<close>.\<close>

lemma component_facts:
  assumes s: "cstr m (buffer + of_nat off) (n @ rest)" and n: "name_ok n" and off: "off + length n + length rest + 2 \<le> 256"
    and rest: "rest = [] \<and> length n < 8 \<or> rest \<noteq> [] \<and> hd rest = splitter"
  shows "\<exists>k. strlen m (buffer + of_nat off) = Some k \<and> 0 < k"
    and "component_len m buffer (of_nat off) 0 = Some (of_nat (length n))"
    and "\<not> ((of_nat (length n) :: u8) = 8 \<and> m (buffer + (of_nat off + of_nat (length n))) \<noteq> splitter)"
    and "load_bytes m (buffer + of_nat off) (length n) = n"
proof -
  have n': "n \<noteq> []" "splitter \<notin> set n" "length n \<le> 8" using n by (simp_all add: name_ok_def)
  have "0 < length (n @ rest)" "length (n @ rest) < 4294967296" using n'(1) off by simp_all
  then have "(0 :: u32) < of_nat (length (n @ rest))" by (simp only: word_less_nat_alt unat_0 unat_of_nat_u32)
  then show "\<exists>k. strlen m (buffer + of_nat off) = Some k \<and> 0 < k" using strlen_cstr [OF s] by blast
  have "ucast (of_nat off :: u8) = (of_nat off :: u32)" using off by (intro small_index) simp
  then show "component_len m buffer (of_nat off) 0 = Some (of_nat (length n))"
    using component_len_run [of m buffer "of_nat off" n rest 0] s n' off rest by auto
  have "(of_nat (length n) :: u8) \<noteq> 8" if "length n < 8"
    using that by (simp add: word_unat_eq_iff unat_of_nat)
  moreover have "m (buffer + (of_nat off + of_nat (length n))) = splitter" if "rest \<noteq> []" "hd rest = splitter"
    using cstr_drop [OF s, of "length n"] that by (cases rest) (simp_all add: add.assoc)
  ultimately show "\<not> ((of_nat (length n) :: u8) = 8 \<and> m (buffer + (of_nat off + of_nat (length n))) \<noteq> splitter)" using rest by blast
  show "load_bytes m (buffer + of_nat off) (length n) = n" using s by (simp add: cstr_append)
qed

lemma cd_loop_walks:
  assumes "fs_inv (fsys (kern mach)) D" and "ucast cluster \<in> D" and "walks (disk (fsys (kern mach))) (ucast cluster) ns q"
    and "list_all name_ok ns" and "ns \<noteq> [] \<longrightarrow> length (last ns) < 8 \<and> hd post = 0 \<and> post \<noteq> []"
    and "load_bytes (mem_of mach) buffer 256 = pre @ path ns @ 0 # post"
    and areas: "apart ((buffer, 256) # cd_areas dirbuffer req ret)"
    and "literals lit (mem_of mach) (cd_areas dirbuffer req ret) ss"
  shows "\<exists>f m cluster'. cd_loop bus lit dirbuffer req ret buffer 0 (of_nat (length pre)) cluster found mach =
      Some (0, cluster', found \<or> ns \<noteq> [], with_fs f m mach) \<and>
    ucast cluster' = q \<and> fs_inv f D \<and> disk f = disk (fsys (kern mach)) \<and> literals lit m (cd_areas dirbuffer req ret) ss"
  using assms(1-6,8)
proof (induction ns arbitrary: mach cluster pre post found)
  case Nil
  have "length pre < 256" using Nil.prems(6) [THEN arg_cong, of length] by simp
  then have "cstr (mem_of mach) (buffer + ucast (of_nat (length pre) :: u8)) []"
    using cstr_in_buffer [of "mem_of mach" buffer 256 pre "[]"] Nil.prems(6) by (simp add: small_index)
  then have "strlen (mem_of mach) (buffer + ucast (of_nat (length pre) :: u8)) = Some 0" using strlen_cstr by fastforce
  then have "cd_loop bus lit dirbuffer req ret buffer 0 (of_nat (length pre)) cluster found mach = Some (0, cluster, found, mach)"
    by (subst cd_loop.simps) simp
  then show ?case using Nil.prems by (intro exI [of _ "fsys (kern mach)"] exI [of _ "mem_of mach"] exI [of _ cluster]) (simp add: with_fs_self)
next
  case (Cons n ns)
  let ?off = "length pre" and ?rest = "if ns = [] then [] else splitter # path ns"
  have n: "name_ok n" "n \<noteq> []" "splitter \<notin> set n" "length n \<le> 8" and ns: "list_all name_ok ns" using Cons.prems(4) unfolding list.pred_inject by (simp_all add: name_ok_def)
  have total: "256 = ?off + length (path (n # ns)) + Suc (length post)" using Cons.prems(6) [THEN arg_cong, of length] by simp
  have post: "post \<noteq> []" "hd post = 0" using Cons.prems(5) by simp_all
  have "1 \<le> length post" using post(1) by (cases post) simp_all
  then have off: "?off + length n + length ?rest + 2 \<le> 256" using total unfolding path_Cons length_append by linarith
  have progress: "ucast (of_nat ?off :: u8) = (of_nat ?off :: u32)" using off by (intro small_index) simp
  have s: "cstr (mem_of mach) (buffer + of_nat ?off) (n @ ?rest)"
    using cstr_in_buffer [OF Cons.prems(6)] path_no_nul [OF Cons.prems(4)] unfolding path_Cons by simp
  note facts = component_facts [OF s n(1) off]
  have last: "?rest = [] \<and> length n < 8 \<or> ?rest \<noteq> [] \<and> hd ?rest = splitter" using Cons.prems(5) by (cases "ns = []") simp_all
  obtain w where w: "subdirectory (disk (fsys (kern mach))) (ucast cluster) n w" "walks (disk (fsys (kern mach))) w ns q"
    using Cons.prems(3) by auto
  obtain f m where step: "read_directory_interface bus lit req ret dirbuffer (buffer + of_nat ?off) (of_nat (length n)) cluster mach = Some (0, with_fs f m mach)"
    and f: "fs_inv f D" "disk f = disk (fsys (kern mach))" and m: "m dirbuffer \<noteq> 0" "entry_cluster (table_of_bytes (load_bytes m dirbuffer 2048) ! 0) = w"
    and w': "w \<in> D" and buf: "load_bytes m buffer 256 = load_bytes (mem_of mach) buffer 256" and l: "literals lit m (cd_areas dirbuffer req ret) ss"
    using interface_step [OF Cons.prems(1,2) facts(4) [OF last] n(4) _ areas Cons.prems(7) w(1), of bus] off by auto
  define c where "c = (if ns = [] then 0 else splitter)"
  define pre' where "pre' = pre @ n @ [c]"
  define post' where "post' = (if ns = [] then tl post else post)"
  have "load_bytes m buffer 256 = pre' @ path ns @ 0 # post'"
    unfolding buf Cons.prems(6) path_Cons pre'_def post'_def c_def using post by (cases post) auto
  moreover have "ns \<noteq> [] \<longrightarrow> length (last ns) < 8 \<and> hd post' = 0 \<and> post' \<noteq> []" using Cons.prems(5) by (cases "ns = []") (simp_all add: post'_def)
  moreover have cw: "ucast (ucast w :: u16) = w" using cluster_u16 [OF Cons.prems(1) w'] .
  ultimately obtain g m' cluster' where rest: "cd_loop bus lit dirbuffer req ret buffer 0 (of_nat (length pre')) (ucast w) True (with_fs f m mach) =
      Some (0, cluster', True, with_fs g m' mach)"
    and g: "ucast cluster' = q" "fs_inv g D" "disk g = disk f" "literals lit m' (cd_areas dirbuffer req ret) ss"
    using Cons.IH [of "with_fs f m mach" "ucast w" post' pre' True] f w(2) w' ns l by auto
  have pr: "(of_nat ?off :: u8) + (of_nat (length n) + 1) = of_nat (length pre')" by (simp add: pre'_def)
  obtain k where k: "strlen (mem_of mach) (buffer + of_nat ?off) = Some k" "0 < k" using facts(1) [OF last] by blast
  have ln: "ucast (of_nat (length n) :: u8) = (of_nat (length n) :: u32)" using n(4) by (intro small_index) simp
  have "cd_loop bus lit dirbuffer req ret buffer 0 (of_nat ?off) cluster found mach =
      cd_loop bus lit dirbuffer req ret buffer 0 (of_nat (length pre')) (ucast w) True (with_fs f m mach)"
    using k facts(2,3) [OF last] step m unfolding pr [symmetric]
    by (subst cd_loop.simps) (auto simp: progress ln CLUSTER_SIZE_eq)
  then show ?case using rest g f by auto
qed

section \<open>The command\<close>

definition cd_literals :: "string list" where
  "cd_literals = [''..'', blanks, ''Successfully changed directory.'']"

lemma starts_with_dots:
  assumes "literals lit m areas cd_literals" and "load_bytes m p 2 = xs"
  shows "memcmp m p (lit ''..'') 2 = 0 \<longleftrightarrow> xs = [46, 46]"
proof -
  have "cstr m (lit ''..'') [46, 46]" using literal_at [OF assms(1), of "''..''"] by (simp add: cd_literals_def bytes_of_def)
  then have "load_bytes m (lit ''..'') 2 = [46, 46]" by (simp add: cstr_iff_load numeral_2_eq_2)
  then show ?thesis using assms(2) by (simp add: memcmp_eq memcmp_bytes_eq_0_iff length_load_bytes [of m p 2, unfolded assms(2)])
qed

lemma changed_text: "8 \<notin> set (bytes_of ''Successfully changed directory.'')"
  by (simp add: bytes_of_def)

text \<open>The command up to the push on the stack.\<close>

lemma cd_reaches:
  assumes inv: "fs_inv (fsys (kern mach)) D" and p: "ucast parent_cluster \<in> D"
    and walk: "walks (disk (fsys (kern mach))) (ucast parent_cluster) ns q"
    and ns: "list_all name_ok ns" "ns \<noteq> []" "length (last ns) < 8" "take 2 (path ns) \<noteq> [46, 46]" "\<not> list_all (\<lambda>c. c \<in> set (bytes_of blanks)) (path ns)"
    and buffer: "load_bytes (mem_of mach) buffer 256 = pre @ path ns @ 0 # 0 # post" "length pre = 3" "buffer + 3 \<noteq> 0"
    and areas: "apart ((buffer, 256) # cd_areas dirbuffer req ret)"
    and lits: "literals lit (mem_of mach) (cd_areas dirbuffer req ret) cd_literals"
  shows "\<exists>f m c. cd_command bus lit dirbuffer req ret buffer (buffer + 3) parent_cluster g mach =
      do { cs \<leftarrow> put_at (clusters g) (unat (idx g + 1)) q;
           mach \<leftarrow> shell_puts bus (lit ''Successfully changed directory.'') 0xF (with_fs f m mach);
           Some (c, g\<lparr>idx := idx g + 1, clusters := cs\<rparr>, mach) } \<and>
    ucast c = q \<and> fs_inv f D \<and> disk f = disk (fsys (kern mach)) \<and> literals lit m (cd_areas dirbuffer req ret) cd_literals"
proof -
  have s: "cstr (mem_of mach) (buffer + 3) (path ns)"
    using cstr_in_buffer [OF buffer(1) path_no_nul [OF ns(1)]] buffer(2) by simp
  have len: "length (path ns) < 256" using buffer(1) [THEN arg_cong, of length] by simp
  have "path ns \<noteq> []" using ns(1,2) by (cases ns) (auto simp: path_Cons name_ok_def)
  then obtain x xs where path: "path ns = x # xs" by (cases "path ns") auto
  have "load_bytes (mem_of mach) (buffer + 3) 2 \<noteq> [46, 46]"
  proof
    assume "load_bytes (mem_of mach) (buffer + 3) 2 = [46, 46]"
    then have b: "mem_of mach (buffer + 3) = 46" "mem_of mach (buffer + 3 + 1) = 46" by (simp_all add: numeral_2_eq_2 load_bytes_Suc)
    show False
    proof (cases xs)
      case Nil
      then show ?thesis using s b path by simp
    next
      case (Cons y ys)
      then show ?thesis using s b path ns(4) by simp
    qed
  qed
  then have dots: "memcmp (mem_of mach) (buffer + 3) (lit ''..'') 2 \<noteq> 0" using starts_with_dots [OF lits] by blast
  have blank: "blank_argument lit (buffer + 3) (mem_of mach) = Some False"
    using blank_argument_cstr [of "mem_of mach" "buffer + 3" "path ns" lit] literal_at [OF lits, of blanks] s buffer(3) len ns(5)
    by (simp add: cd_literals_def)
  obtain f m c where loop: "cd_loop bus lit dirbuffer req ret buffer 0 3 parent_cluster False mach = Some (0, c, True, with_fs f m mach)"
    and c: "ucast c = q" and f: "fs_inv f D" "disk f = disk (fsys (kern mach))" and l: "literals lit m (cd_areas dirbuffer req ret) cd_literals"
    using cd_loop_walks [OF inv p walk ns(1) _ buffer(1) areas lits, of bus False] ns(2,3) buffer(2) by auto
  then show ?thesis using dots blank by (intro exI [of _ f] exI [of _ m] exI [of _ c]) (simp add: cd_command_def)
qed

lemma cd_effect:
  assumes screen: "vga_crtc bus index reg" "shows_terminal reg (screen_of mach) t"
    and inv: "fs_inv (fsys (kern mach)) D" and p: "ucast parent_cluster \<in> D"
    and walk: "walks (disk (fsys (kern mach))) (ucast parent_cluster) ns q"
    and ns: "list_all name_ok ns" "ns \<noteq> []" "length (last ns) < 8" "take 2 (path ns) \<noteq> [46, 46]" "\<not> list_all (\<lambda>c. c \<in> set (bytes_of blanks)) (path ns)"
    and buffer: "load_bytes (mem_of mach) buffer 256 = pre @ path ns @ 0 # 0 # post" "length pre = 3" "buffer + 3 \<noteq> 0"
    and areas: "apart ((buffer, 256) # cd_areas dirbuffer req ret)"
    and lits: "literals lit (mem_of mach) (cd_areas dirbuffer req ret) cd_literals"
    and g: "unat (idx g) + 1 < length (clusters g)" "length (clusters g) < 2 ^ 32"
  shows "\<exists>mach' c. cd_command bus lit dirbuffer req ret buffer (buffer + 3) parent_cluster g mach =
      Some (c, g\<lparr>idx := idx g + 1, clusters := (clusters g)[unat (idx g) + 1 := q]\<rparr>, mach') \<and> ucast c = q \<and>
    fs_inv (fsys (kern mach')) D \<and> disk (fsys (kern mach')) = disk (fsys (kern mach)) \<and>
    reports reg mach' ''Successfully changed directory.'' 0xF t"
proof -
  obtain f m c where run: "cd_command bus lit dirbuffer req ret buffer (buffer + 3) parent_cluster g mach =
      do { cs \<leftarrow> put_at (clusters g) (unat (idx g + 1)) q;
           mach \<leftarrow> shell_puts bus (lit ''Successfully changed directory.'') 0xF (with_fs f m mach);
           Some (c, g\<lparr>idx := idx g + 1, clusters := cs\<rparr>, mach) }"
    and c: "ucast c = q" and f: "fs_inv f D" "disk f = disk (fsys (kern mach))" and l: "literals lit m (cd_areas dirbuffer req ret) cd_literals"
    using cd_reaches [OF inv p walk ns buffer areas lits, of bus g] by blast
  obtain scr where say: "shell_puts bus (lit ''Successfully changed directory.'') 0xF (with_fs f m mach) = Some (with_screen scr (with_fs f m mach))"
    "reports reg (with_screen scr (with_fs f m mach)) ''Successfully changed directory.'' (ucast (0xF :: u32)) t"
    using puts_literal [OF screen l _ changed_text, where f = f and color = "0xF"] by (auto simp: cd_literals_def)
  have "unat (idx g + 1) = unat (idx g) + 1" using g by (simp add: unat_word_ariths)
  then have "cd_command bus lit dirbuffer req ret buffer (buffer + 3) parent_cluster g mach =
      Some (c, g\<lparr>idx := idx g + 1, clusters := (clusters g)[unat (idx g) + 1 := q]\<rparr>, with_screen scr (with_fs f m mach))"
    using run say(1) g by simp
  then show ?thesis using say(2) c f by auto
qed

lemma cd_back_effect:
  assumes screen: "vga_crtc bus index reg" "shows_terminal reg (screen_of mach) t"
    and lits: "literals lit (mem_of mach) areas cd_literals" and dots: "load_bytes (mem_of mach) (buffer + 3) 2 = [46, 46]"
    and g: "0 < idx g" "unat (idx g) \<le> length (clusters g)"
  shows "\<exists>mach'. cd_command bus lit dirbuffer req ret buffer argument parent_cluster g mach =
      Some (ucast (clusters g ! (unat (idx g) - 1)), g\<lparr>idx := idx g - 1\<rparr>, mach') \<and> kern mach' = kern mach \<and>
    reports reg mach' ''Successfully changed directory.'' 0xF t"
proof -
  have i: "unat (idx g - 1) = unat (idx g) - 1" "0 < unat (idx g)" using g(1) by (simp_all add: unat_minus_one unat_gt_0 word_gt_0)
  have m: "with_fs (fsys (kern mach)) (mem_of mach) mach = mach" by (rule with_fs_self)
  obtain scr where say: "shell_puts bus (lit ''Successfully changed directory.'') 0xF mach = Some (with_screen scr mach)"
    "reports reg (with_screen scr mach) ''Successfully changed directory.'' (ucast (0xF :: u32)) t"
    using puts_literal [OF screen lits _ changed_text, where f = "fsys (kern mach)" and color = "0xF"] by (auto simp: cd_literals_def m)
  show ?thesis using say g i starts_with_dots [OF lits dots] by (auto simp: cd_command_def)
qed

end
