(* ===== verification/Shell_Commands.thy ===== *)
theory Shell_Commands
  imports Shell_Cd
begin

text \<open>
  The other commands of the shell (\<open>src/src/user-shell.c\<close>) on files: \<open>ls\<close>, \<open>cat\<close>, \<open>cp\<close> and \<open>mv\<close>. Local variables live in memory at addresses that are parameters; a variable the code does not initialise
  keeps what was in memory.
\<close>

section \<open>ls\<close>

definition entry_at :: "mem \<Rightarrow> u32 \<Rightarrow> nat \<Rightarrow> FAT32DirectoryEntry" where
  "entry_at m table i = entry_of_bytes (load_bytes m (table + of_nat (32 * i)) 32)"

text \<open>The addresses of the name and of the extension of entry \<open>i\<close>.\<close>

definition name_at :: "u32 \<Rightarrow> nat \<Rightarrow> u32" where "name_at table i = table + of_nat (32 * i)"
definition ext_at :: "u32 \<Rightarrow> nat \<Rightarrow> u32" where "ext_at table i = table + of_nat (32 * i + 8)"

text \<open>The search for the argument; the truth value says whether it was found.\<close>

fun ls_search :: "'d bus \<Rightarrow> u32 \<Rightarrow> u32 \<Rightarrow> nat list \<Rightarrow> 'd machine \<Rightarrow> (bool \<times> 'd machine) option" where
  "ls_search bus dtable argument [] mach = Some (False, mach)"
| "ls_search bus dtable argument (i # is) mach =
     (if e_user_attribute (entry_at (mem_of mach) dtable i) \<noteq> 0 then
        do { r \<leftarrow> strcmp (mem_of mach) (name_at dtable i) argument;
             if r = 0 then
               do { n \<leftarrow> strlen (mem_of mach) (name_at dtable i);
                    mach \<leftarrow> shell_syscall bus 6 (name_at dtable i) n 0xF mach;
                    Some (True, mach) }
             else ls_search bus dtable argument is mach }
      else ls_search bus dtable argument is mach)"

text \<open>The body of the listing loop.\<close>

definition ls_entry :: "'d bus \<Rightarrow> (string \<Rightarrow> u32) \<Rightarrow> u32 \<Rightarrow> nat \<Rightarrow> 'd machine \<Rightarrow> 'd machine option" where
  "ls_entry bus lit dtable i mach =
     (if e_user_attribute (entry_at (mem_of mach) dtable i) \<noteq> 0 then
        if memcmp (mem_of mach) (name_at dtable i) (lit ''.'') 1 = 0 \<or> memcmp (mem_of mach) (name_at dtable i) (lit ''..'') 2 = 0 then Some mach
        else
          do { len \<leftarrow> strlen (mem_of mach) (name_at dtable i);
               mach \<leftarrow>
                 (if e_attribute (entry_at (mem_of mach) dtable i) AND 0x10 \<noteq> 0 then shell_syscall bus 6 (name_at dtable i) len 0xF mach
                  else
                    do { mach \<leftarrow>
                           (if mem_of mach (ext_at dtable i) = 0 then shell_syscall bus 6 (name_at dtable i) len 0xF mach
                            else
                              do { mach \<leftarrow> shell_syscall bus 6 (name_at dtable i) len 0xF mach;
                                   shell_syscall bus 6 (lit ''.'') 1 0xF mach });
                         shell_syscall bus 6 (ext_at dtable i) 3 0xF mach });
               shell_syscall bus 6 (lit '' '') 1 0xF mach }
      else Some mach)"

fun ls_entries :: "'d bus \<Rightarrow> (string \<Rightarrow> u32) \<Rightarrow> u32 \<Rightarrow> nat list \<Rightarrow> 'd machine \<Rightarrow> 'd machine option" where
  "ls_entries bus lit dtable [] mach = Some mach"
| "ls_entries bus lit dtable (i # is) mach = Option.bind (ls_entry bus lit dtable i mach) (ls_entries bus lit dtable is)"

definition ls_command ::
  "'d bus \<Rightarrow> (string \<Rightarrow> u32) \<Rightarrow> u32 \<Rightarrow> u32 \<Rightarrow> u32 \<Rightarrow> u32 \<Rightarrow> u16 \<Rightarrow> 'd machine \<Rightarrow> 'd machine option" where
  "ls_command bus lit dtable request retval argument parent_cluster mach =
     do { m \<leftarrow> Some (init_request request dtable dot_name (ucast parent_cluster) 0 (mem_of mach));
          m \<leftarrow> Some (m(retval := 0));
          mach \<leftarrow> shell_syscall bus 1 request retval 0 (with_mem m mach);
          n \<leftarrow> (if argument \<noteq> 0 then strlen (mem_of mach) argument else Some 0);
          if argument \<noteq> 0 \<and> n > 0 then
            do { (found, mach) \<leftarrow> ls_search bus dtable argument [0..<64] mach;
                 if found then Some mach else shell_puts bus (lit ''Not found'') 0x4 mach }
          else ls_entries bus lit dtable [0..<64] mach }"

section \<open>cat, cp and mv\<close>

text \<open>
  The loop that the three commands share: it counts the characters before the first dot and copies the three characters
  behind the dot into the extension of the request at \<open>request\<close> (offset 12).
\<close>

partial_function (option) split_name :: "mem \<Rightarrow> u32 \<Rightarrow> u32 \<Rightarrow> u32 \<Rightarrow> u32 \<Rightarrow> (mem \<times> u32) option" where
  "split_name m request itr i nameLen =
     do { n \<leftarrow> strlen m itr;
          if i < n then
            if m (itr + i) = 46 then
              do { m \<leftarrow> Some (m(request + 12 := m (itr + (i + 1))));
                   m \<leftarrow> Some (m(request + 13 := m (itr + (i + 2))));
                   m \<leftarrow> Some (m(request + 14 := m (itr + (i + 3))));
                   Some (m, nameLen) }
            else split_name m request itr (i + 1) (nameLen + 1)
          else Some (m, nameLen) }"

definition cat_command ::
  "'d bus \<Rightarrow> (string \<Rightarrow> u32) \<Rightarrow> u32 \<Rightarrow> u32 \<Rightarrow> u32 \<Rightarrow> u32 \<Rightarrow> u16 \<Rightarrow> 'd machine \<Rightarrow> 'd machine option" where
  "cat_command bus lit cl_b request retcode argument parent_cluster mach =
     do { m \<leftarrow> Some (store_bytes (mem_of mach) cl_b (replicate (4 * CLUSTER_SIZE) 0));
          m \<leftarrow> Some (init_request request cl_b (replicate 8 0) (ucast parent_cluster) (of_nat (CLUSTER_SIZE * 4)) m);
          m \<leftarrow> Some (store_bytes m retcode (le32 0));
          (m, nameLen) \<leftarrow> split_name m request argument 0 0;
          m \<leftarrow> Some (fst (memcpy m (request + 4) argument nameLen));
          mach \<leftarrow> shell_syscall bus 0 request retcode 0 (with_mem m mach);
          rc \<leftarrow> Some (of_le32 (load_bytes (mem_of mach) retcode 4));
          if rc = 3 then shell_puts bus (lit ''The file size is too big to read!'') 0x4 mach
          else if rc = 2 then shell_puts bus (lit ''Can't find the file!'') 0x4 mach
          else if rc = 1 then shell_puts bus (lit ''Not a file!'') 0x4 mach
          else if rc = - 1 then shell_puts bus (lit ''An error occured!'') 0x4 mach
          else
            do { mach \<leftarrow> shell_syscall bus 6 cl_b (of_nat CLUSTER_SIZE) 0xf mach;
                 mach \<leftarrow> shell_syscall bus 6 (cl_b + of_nat CLUSTER_SIZE) (of_nat CLUSTER_SIZE) 0xf mach;
                 shell_syscall bus 5 (lit ''\<newline>'') 0xf 0 mach } }"

text \<open>
  What \<open>cp\<close> and \<open>mv\<close> do first: a request for the file whose name starts at \<open>buffer + 3\<close>, with the length of a buffer of five
  clusters although \<open>clusbuff\<close> is one, and the pointer to the second argument.
\<close>

definition source_request :: "u32 \<Rightarrow> u32 \<Rightarrow> u32 \<Rightarrow> u32 \<Rightarrow> u16 \<Rightarrow> mem \<Rightarrow> (mem \<times> u32) option" where
  "source_request clusbuff request request2 buffer parent_cluster m =
     do { m \<leftarrow> Some (store_bytes m clusbuff (replicate CLUSTER_SIZE 0));
          m \<leftarrow> Some (init_request request clusbuff (replicate 8 0) (ucast parent_cluster) 0 m);
          m \<leftarrow> Some (store_bytes m (request + 19) (le32 (of_nat (5 * CLUSTER_SIZE))));
          (m, nameLen) \<leftarrow> split_name m request (buffer + 3) 0 0;
          m \<leftarrow> Some (fst (memcpy m (request + 4) (buffer + 3) nameLen));
          m \<leftarrow> Some (init_request request2 clusbuff (replicate 8 0) (ucast parent_cluster) 0 m);
          Some (m, if m (request + 12) = 0 then buffer + 4 + nameLen else buffer + 8 + nameLen) }"

text \<open>The search for the target directory among the entries of \<open>table\<close>, and the write.\<close>

fun cp_target :: "'d bus \<Rightarrow> u32 \<Rightarrow> u32 \<Rightarrow> u32 \<Rightarrow> u32 \<Rightarrow> nat list \<Rightarrow> 'd machine \<Rightarrow> 'd machine option" where
  "cp_target bus table request request2 retcode2 [] mach = Some mach"
| "cp_target bus table request request2 retcode2 (i # is) mach =
     do { n \<leftarrow> strlen (mem_of mach) (request2 + 4);
          if memcmp (mem_of mach) (name_at table i) (request2 + 4) n = 0 then
            shell_syscall bus 2 request retcode2 0
              (with_mem (store_bytes (mem_of mach) (request + 15) (le32 (entry_cluster (entry_at (mem_of mach) table i)))) mach)
          else cp_target bus table request request2 retcode2 is mach }"

definition cp_command ::
  "'d bus \<Rightarrow> (string \<Rightarrow> u32) \<Rightarrow> u32 \<Rightarrow> u32 \<Rightarrow> u32 \<Rightarrow> u32 \<Rightarrow> u32 \<Rightarrow> u32 \<Rightarrow> u32 \<Rightarrow> u16 \<Rightarrow> 'd machine \<Rightarrow> 'd machine option" where
  "cp_command bus lit clusbuff request retcode request2 retcode2 table buffer parent_cluster mach =
     do { (m, itr2) \<leftarrow> source_request clusbuff request request2 buffer parent_cluster (mem_of mach);
          mach \<leftarrow> shell_syscall bus 0 request retcode 0 (with_mem m mach);
          rc \<leftarrow> Some (of_le32 (load_bytes (mem_of mach) retcode 4));
          if rc = 0 then
            do { mach \<leftarrow> shell_puts bus (lit ''Read success'') 0x2 mach;
                 m \<leftarrow> Some (fst (memcpy (mem_of mach) (request2 + 4) itr2 8));
                 m \<leftarrow> Some (store_bytes m table (replicate CLUSTER_SIZE 0));
                 m \<leftarrow> Some (store_bytes m request2 (le32 table));
                 mach \<leftarrow> shell_syscall bus 1 request2 retcode 0 (with_mem m mach);
                 mach \<leftarrow> cp_target bus table request request2 retcode2 [0..<64] mach;
                 rc2 \<leftarrow> Some (of_le32 (load_bytes (mem_of mach) retcode2 4));
                 if rc2 = 0 then shell_puts bus (lit ''Write success'') 0x2 mach
                 else if rc2 = 1 then shell_puts bus (lit ''File/Folder already exist'') 0x4 mach
                 else if rc2 = 2 then shell_puts bus (lit ''Invalid parent cluster'') 0x4 mach
                 else shell_puts bus (lit ''Target folder not found'') 0x4 mach }
          else if rc = 1 then shell_puts bus (lit ''Not a file'') 0x4 mach
          else if rc = 2 then shell_puts bus (lit ''File Not found'') 0x4 mach
          else shell_puts bus (lit ''Unknown error'') 0x4 mach }"

text \<open>\<open>mv\<close> returns after the read in every case: the success of the read is the last \<open>else\<close>.\<close>

definition mv_command ::
  "'d bus \<Rightarrow> (string \<Rightarrow> u32) \<Rightarrow> u32 \<Rightarrow> u32 \<Rightarrow> u32 \<Rightarrow> u32 \<Rightarrow> u32 \<Rightarrow> u32 \<Rightarrow> u16 \<Rightarrow> 'd machine \<Rightarrow> 'd machine option" where
  "mv_command bus lit clusbuff request retcode request2 argument buffer parent_cluster mach =
     do { blank \<leftarrow> blank_argument lit argument (mem_of mach);
          if blank then shell_puts bus (lit ''mv: missing file operand'') 0x4 mach
          else
            do { (m, itr2) \<leftarrow> source_request clusbuff request request2 buffer parent_cluster (mem_of mach);
                 mach \<leftarrow> shell_syscall bus 0 request retcode 0 (with_mem m mach);
                 rc \<leftarrow> Some (of_le32 (load_bytes (mem_of mach) retcode 4));
                 if rc = 1 then shell_puts bus (lit ''Not a file'') 0x4 mach
                 else if rc = 2 then shell_puts bus (lit ''File Not found'') 0x4 mach
                 else shell_puts bus (lit ''Unknown error'') 0x4 mach } }"

end
