(* ===== verification/Shell_Ps.thy ===== *)
theory Shell_Ps
  imports Shell
begin

text \<open>
  The \<open>ps\<close> command of the shell (\<open>src/src/user-shell.c\<close>). It passes the address of a struct to system call 6, which expects a
  text and a length, so it prints nothing; and it waits for the cursor to reach a column.
\<close>

section \<open>Definitions\<close>

definition COL_NAME :: u32 where "COL_NAME = 11"
definition COL_STATE :: u32 where "COL_STATE = 23"
definition COL_FRAME_COUNT :: u32 where "COL_FRAME_COUNT = 36"

text \<open>\<open>struct SyscallPutsArgs\<close> at \<open>p\<close>: the members are initialised in order, \<open>count\<close> with the length of \<open>buf\<close>.\<close>

definition init_puts_args :: "u32 \<Rightarrow> u32 \<Rightarrow> u32 \<Rightarrow> mem \<Rightarrow> mem option" where
  "init_puts_args p buf fg_color m =
     do { n \<leftarrow> strlen m buf; Some (store_bytes m p (le32 buf @ le32 n @ le32 fg_color @ le32 0)) }"

text \<open>\<open>struct SyscallProcessInfoArgs process_info = { .pid = i }\<close>, 52 bytes.\<close>

definition init_process_info :: "u32 \<Rightarrow> u32 \<Rightarrow> mem \<Rightarrow> mem" where
  "init_process_info p i m = store_bytes m p (le32 i @ replicate 48 0)"

definition puts_args :: "'d bus \<Rightarrow> u32 \<Rightarrow> u32 \<Rightarrow> u32 \<Rightarrow> 'd machine \<Rightarrow> 'd machine option" where
  "puts_args bus p buf fg_color mach =
     do { m \<leftarrow> init_puts_args p buf fg_color (mem_of mach); shell_syscall bus 6 p 0 0 (with_mem m mach) }"

text \<open>The loops that print blanks up to a column; \<open>col\<close> is a \<open>uint32_t\<close> that is never initialised, and the system call stores one byte.\<close>

partial_function (option) wait_column :: "'d bus \<Rightarrow> u32 \<Rightarrow> u32 \<Rightarrow> u32 \<Rightarrow> 'd machine \<Rightarrow> 'd machine option" where
  "wait_column bus whitespace colp limit mach =
     do { mach \<leftarrow> shell_syscall bus 6 whitespace 0 0 mach;
          mach \<leftarrow> shell_syscall bus SYSCALL_GET_CURSOR_COL colp 0 0 mach;
          if of_le32 (load_bytes (mem_of mach) colp 4) < limit then wait_column bus whitespace colp limit mach else Some mach }"

text \<open>The addresses of the local variables, and of the table \<open>itoa\<close> of pointers to literals.\<close>

record ps_locals =
  a_max_process_count :: u32
  a_newline :: u32
  a_whitespace :: u32
  a_header :: u32
  a_process_info :: u32
  a_col :: u32
  a_pid :: u32
  a_name :: u32
  a_state :: u32
  a_frame_count :: u32
  a_itoa :: u32

definition itoa :: "ps_locals \<Rightarrow> mem \<Rightarrow> u32 \<Rightarrow> u32" where
  "itoa loc m i = of_le32 (load_bytes m (a_itoa loc + 4 * i) 4)"

text \<open>The body of the loop over the slots.\<close>

definition ps_slot :: "'d bus \<Rightarrow> ps_locals \<Rightarrow> u32 \<Rightarrow> 'd machine \<Rightarrow> 'd machine option" where
  "ps_slot bus loc i mach =
     do { mach \<leftarrow> Some (with_mem (init_process_info (a_process_info loc) i (mem_of mach)) mach);
          mach \<leftarrow> shell_syscall bus SYSCALL_GET_PROCESS_INFO (a_process_info loc) 0 0 mach;
          if mem_of mach (a_process_info loc + 44) \<noteq> 0 then
            do { mach \<leftarrow> shell_syscall bus 6 (a_newline loc) 0 0 mach;
                 mach \<leftarrow> puts_args bus (a_pid loc) (itoa loc (mem_of mach) (of_le32 (load_bytes (mem_of mach) (a_process_info loc) 4))) 0xF mach;
                 mach \<leftarrow> wait_column bus (a_whitespace loc) (a_col loc) COL_NAME mach;
                 mach \<leftarrow> puts_args bus (a_name loc) (a_process_info loc + 4) 0xA mach;
                 mach \<leftarrow> wait_column bus (a_whitespace loc) (a_col loc) COL_STATE mach;
                 mach \<leftarrow> puts_args bus (a_state loc) (a_process_info loc + 36) 0xB mach;
                 mach \<leftarrow> wait_column bus (a_whitespace loc) (a_col loc) COL_FRAME_COUNT mach;
                 puts_args bus (a_frame_count loc) (itoa loc (mem_of mach) (of_le32 (load_bytes (mem_of mach) (a_process_info loc + 48) 4))) 0x9 mach }
          else Some mach }"

partial_function (option) ps_loop :: "'d bus \<Rightarrow> ps_locals \<Rightarrow> u32 \<Rightarrow> 'd machine \<Rightarrow> 'd machine option" where
  "ps_loop bus loc i mach =
     (if i < of_le32 (load_bytes (mem_of mach) (a_max_process_count loc) 4) then
        do { mach \<leftarrow> ps_slot bus loc i mach; ps_loop bus loc (i + 1) mach }
      else Some mach)"

definition ps_command :: "'d bus \<Rightarrow> (string \<Rightarrow> u32) \<Rightarrow> ps_locals \<Rightarrow> 'd machine \<Rightarrow> 'd machine option" where
  "ps_command bus lit loc mach =
     do { mach \<leftarrow> shell_syscall bus SYSCALL_GET_MAX_PROCESS_COUNT (a_max_process_count loc) 0 0 mach;
          m \<leftarrow> init_puts_args (a_newline loc) (lit ''\<newline>'') 0 (mem_of mach);
          m \<leftarrow> init_puts_args (a_whitespace loc) (lit '' '') 0 m;
          mach \<leftarrow> puts_args bus (a_header loc) (lit ''PID        Name        State        Frame Count'') 0xE (with_mem m mach);
          ps_loop bus loc 0 mach }"

section \<open>The loop that waits for a column\<close>

text \<open>Neither system call of the loop changes anything but the lowest byte of \<open>col\<close>.\<close>

lemma empty_puts: "shell_syscall bus 6 p 0 0 mach = Some mach"
  by (simp add: puts_call with_screen_def)

lemma column_call:
  "shell_syscall bus SYSCALL_GET_CURSOR_COL a 0 0 mach = Some (with_mem ((mem_of mach)(a := col (keyboard_status mach))) mach)"
proof -
  note calls = calls_call_frame [of SYSCALL_GET_CURSOR_COL a 0 0]
  show ?thesis using calls unfolding shell_syscall_def handler_syscall [OF calls] syscall_def calls_def Let_def
    by (simp add: syscall_consts with_fs_def)
qed

text \<open>What the loop reads from \<open>col\<close>: the column in the lowest byte, below the three bytes that were there before.\<close>

definition column_read :: "'d machine \<Rightarrow> u32 \<Rightarrow> u32" where
  "column_read mach a = of_le32 [col (keyboard_status mach), mem_of mach (a + 1), mem_of mach (a + 2), mem_of mach (a + 3)]"

lemma load_4: "load_bytes m a 4 = [m a, m (a + 1), m (a + 2), m (a + 3)]"
  by (simp add: load_bytes_def upt_rec)

lemma column_load:
  "of_le32 (load_bytes ((mem_of mach)(a := c)) a 4) = of_le32 [c, mem_of mach (a + 1), mem_of mach (a + 2), mem_of mach (a + 3)]"
  by (simp add: load_4)

lemma column_read_keeps: "column_read (with_mem ((mem_of mach)(a := v)) mach) a = column_read mach a"
  by (simp add: column_read_def)

lemma wait_column_step:
  "wait_column bus w a limit mach = (let mach' = with_mem ((mem_of mach)(a := col (keyboard_status mach))) mach in
     if column_read mach a < limit then wait_column bus w a limit mach' else Some mach')"
  by (subst wait_column.simps) (simp add: empty_puts column_call column_load column_read_def Let_def)

text \<open>The loop ends at once or never.\<close>

lemma wait_column_result:
  "wait_column bus w a limit mach = (if column_read mach a < limit then None
     else Some (with_mem ((mem_of mach)(a := col (keyboard_status mach))) mach))"
proof (cases "column_read mach a < limit")
  case True
  have "\<not> column_read mach a < limit" if "wait_column bus w a limit mach = Some mach'" for mach'
  proof (rule wait_column.raw_induct [where P = "\<lambda>bus w a limit mach r. \<not> column_read mach a < limit", OF _ that])
    fix loop :: "'a bus \<Rightarrow> u32 \<Rightarrow> u32 \<Rightarrow> u32 \<Rightarrow> 'a machine \<Rightarrow> 'a machine option" and bus w a limit mach r
    assume IH: "\<And>bus w a limit mach r. loop bus w a limit mach = Some r \<Longrightarrow> \<not> column_read mach a < limit"
      and body: "do { mach \<leftarrow> shell_syscall bus 6 w 0 0 mach;
          mach \<leftarrow> shell_syscall bus SYSCALL_GET_CURSOR_COL a 0 0 mach;
          if of_le32 (load_bytes (mem_of mach) a 4) < limit then loop bus w a limit mach else Some mach } = Some r"
    let ?next = "with_mem ((mem_of mach)(a := col (keyboard_status mach))) mach"
    show "\<not> column_read mach a < limit"
    proof
      assume lt: "column_read mach a < limit"
      then have "loop bus w a limit ?next = Some r" using body by (simp add: empty_puts column_call column_load column_read_def)
      from IH [OF this] show False using lt by (simp only: column_read_keeps not_True_eq_False)
    qed
  qed
  then have "wait_column bus w a limit mach = None" using True by (cases "wait_column bus w a limit mach") auto
  then show ?thesis using True by simp
next
  case False
  then show ?thesis by (subst wait_column_step) simp
qed

section \<open>The command\<close>

definition ps_areas :: "ps_locals \<Rightarrow> (u32 \<times> nat) list" where
  "ps_areas loc = [(a_col loc, 4), (a_max_process_count loc, 4), (a_newline loc, 16), (a_whitespace loc, 16), (a_header loc, 16),
     (a_process_info loc, 52), (a_pid loc, 16)]"

text \<open>The three upper bytes of the uninitialised \<open>col\<close> are zero, and the cursor of the keyboard driver is left of the first column.\<close>

definition ps_ready :: "ps_locals \<Rightarrow> 'd machine \<Rightarrow> bool" where
  "ps_ready loc mach \<longleftrightarrow> tl (load_bytes (mem_of mach) (a_col loc) 4) = [0, 0, 0] \<and> col (keyboard_status mach) < 11 \<and>
     sched_wf (kern mach) \<and> (\<forall>i < 16. length (proc_name (process_list (kern mach) ! i)) = 32)"

lemma ready_waits: "ps_ready loc mach \<Longrightarrow> wait_column bus w (a_col loc) COL_NAME mach = None"
proof -
  assume "ps_ready loc mach"
  then have "column_read mach (a_col loc) = of_le32 [col (keyboard_status mach), 0, 0, 0]" and c: "col (keyboard_status mach) < 11"
    by (simp_all add: ps_ready_def column_read_def load_4)
  moreover have "of_le32 [c, 0, 0, 0] = ucast c" for c by (simp add: of_le32_def of_le16_def)
  moreover have "unat (ucast (col (keyboard_status mach)) :: u32) < 11"
    using c unsigned_less [of "col (keyboard_status mach)", where 'a = nat]
    by (simp add: unsigned_ucast_eq take_bit_eq_mod word_less_nat_alt)
  ultimately show ?thesis by (simp add: wait_column_result COL_NAME_def word_less_nat_alt)
qed

lemma ready_mem:
  "ps_ready loc mach \<Longrightarrow> load_bytes m (a_col loc) 4 = load_bytes (mem_of mach) (a_col loc) 4 \<Longrightarrow> ps_ready loc (with_fs (fsys (kern mach)) m mach)"
  by (simp add: ps_ready_def sched_wf_def)

lemma info_call:
  "shell_syscall bus SYSCALL_GET_PROCESS_INFO a 0 0 mach = map_option (\<lambda>k. mach\<lparr>kern := k\<rparr>) (get_process_info (kern mach) a)"
proof -
  note calls = calls_call_frame [of SYSCALL_GET_PROCESS_INFO a 0 0]
  show ?thesis using calls unfolding shell_syscall_def handler_syscall [OF calls] syscall_def calls_def Let_def
    by (cases "get_process_info (kern mach) a") (simp_all add: syscall_consts)
qed

lemma outside_load:
  assumes "ranges_disjoint p n q k" and "k < 2 ^ 32" and "\<And>a. k \<le> unat (a - q) \<Longrightarrow> m' a = m a"
  shows "load_bytes m' p n = load_bytes m p n"
proof (rule load_bytes_cong)
  fix i
  assume "i < n"
  then have "\<not> unat (p + of_nat i - q) < k" using assms(1,2) in_range_iff [of k "p + of_nat i" q] unfolding ranges_disjoint_def by auto
  then show "m' (p + of_nat i) = m (p + of_nat i)" using assms(3) by simp
qed

text \<open>The record the shell asks with: its first field is the slot, and the rest of the memory is as before.\<close>

lemma info_request:
  "of_le32 (load_bytes (init_process_info a index m) a 4) = index"
  "ranges_disjoint p n a 52 \<Longrightarrow> load_bytes (init_process_info a index m) p n = load_bytes m p n"
proof -
  have len: "length (le32 index @ replicate 48 (0 :: u8)) = 52" by simp
  have "load_bytes (init_process_info a index m) a 4 = take 4 (load_bytes (init_process_info a index m) a 52)" by (simp add: take_load_bytes)
  also have "load_bytes (init_process_info a index m) a 52 = le32 index @ replicate 48 0"
    unfolding init_process_info_def using load_store_bytes [of "le32 index @ replicate 48 0" m a] len by simp
  finally show "of_le32 (load_bytes (init_process_info a index m) a 4) = index" by simp
  show "ranges_disjoint p n a 52 \<Longrightarrow> load_bytes (init_process_info a index m) p n = load_bytes m p n"
    unfolding init_process_info_def using len by (subst load_store_bytes_disjoint) simp_all
qed

text \<open>The body of the loop at a free and at an occupied slot.\<close>

lemma ps_slot_free:
  assumes ready: "ps_ready loc mach" and j: "j < 16" and areas: "apart (ps_areas loc)" and free: "\<not> process_slot_occupied (kern mach) ! j"
  shows "\<exists>m. ps_slot bus loc (of_nat j) mach = Some (with_fs (fsys (kern mach)) m mach) \<and>
      load_bytes m (a_col loc) 4 = load_bytes (mem_of mach) (a_col loc) 4 \<and>
      load_bytes m (a_max_process_count loc) 4 = load_bytes (mem_of mach) (a_max_process_count loc) 4"
proof -
  let ?a = "a_process_info loc" and ?k = "kern mach"
  let ?m = "init_process_info ?a (of_nat j) (mem_of mach)"
  let ?m' = "?m(?a + 44 := 0)"
  have apart: "ranges_disjoint (a_col loc) 4 ?a 52" "ranges_disjoint (a_max_process_count loc) 4 ?a 52"
    using areas by (simp_all add: apart_def ps_areas_def)
  have "get_process_info (set_user_mem ?m ?k) ?a = Some (set_user_mem ?m' (set_user_mem ?m ?k))"
    using free ready j by (simp add: get_process_info_def info_request(1) ps_ready_def sched_wf_def)
  then have "ps_slot bus loc (of_nat j) mach = Some (with_fs (fsys ?k) ?m' mach)"
    by (simp add: ps_slot_def info_call) (simp add: with_fs_def)
  moreover have "load_bytes ?m' p n = load_bytes ?m p n" if "ranges_disjoint p n ?a 52" for p n
  proof (rule outside_load [OF that])
    fix a
    assume "52 \<le> unat (a - ?a)"
    then show "?m' a = ?m a" by auto
  qed simp
  ultimately show ?thesis using apart info_request(2) by (intro exI [of _ ?m']) simp_all
qed

lemma ps_slot_occupied:
  assumes ready: "ps_ready loc mach" and j: "j < 16" and areas: "apart (ps_areas loc)" and occupied: "process_slot_occupied (kern mach) ! j"
  shows "ps_slot bus loc (of_nat j) mach = None"
proof -
  let ?a = "a_process_info loc" and ?k = "kern mach" and ?b = "process_list (kern mach) ! j"
  let ?m = "init_process_info ?a (of_nat j) (mem_of mach)"
  let ?m' = "info_mem ?m ?a ?b"
  have apart: "ranges_disjoint (a_col loc) 4 ?a 52" "ranges_disjoint (a_col loc) 4 (a_pid loc) 16"
    using areas by (simp_all add: apart_def ps_areas_def)
  have name: "length (proc_name ?b) = 32" using ready j by (simp add: ps_ready_def sched_wf_def)
  have info: "get_process_info (set_user_mem ?m ?k) ?a = Some (set_user_mem ?m' (set_user_mem ?m ?k))"
    using occupied ready j by (simp add: get_process_info_def info_mem_def PROCESS_NAME_LENGTH_MAX_def info_request(1) ps_ready_def sched_wf_def)
  have "load_bytes ?m' (a_col loc) 4 = load_bytes (mem_of mach) (a_col loc) 4"
    using outside_load [OF apart(1), of ?m' ?m] info_mem(6) [OF name] info_request(2) [OF apart(1)] by simp
  then have ready': "ps_ready loc (with_fs (fsys ?k) ?m' mach)" using ready by (rule ready_mem [rotated])
  have "Option.bind (puts_args bus (a_pid loc) p color (with_fs (fsys ?k) ?m' mach))
      (\<lambda>mach. Option.bind (wait_column bus w (a_col loc) COL_NAME mach) F) = None" for p color w F
  proof (cases "strlen ?m' p")
    case (Some n)
    let ?m2 = "store_bytes ?m' (a_pid loc) (le32 p @ le32 n @ le32 color @ le32 0)"
    have "load_bytes ?m2 (a_col loc) 4 = load_bytes ?m' (a_col loc) 4" using apart(2) by (simp add: load_store_bytes_disjoint)
    then have "ps_ready loc (with_fs (fsys ?k) ?m2 mach)" using ready_mem [OF ready', of ?m2] by simp
    then show ?thesis using Some by (simp add: puts_args_def init_puts_args_def empty_puts ready_waits)
  qed (simp add: puts_args_def init_puts_args_def)
  moreover have call: "shell_syscall bus SYSCALL_GET_PROCESS_INFO ?a 0 0 (with_fs (fsys ?k) ?m mach) = Some (with_fs (fsys ?k) ?m' mach)"
    using info by (simp add: info_call with_fs_def)
  moreover have "info_mem ?m ?a ?b (?a + 44) = 1" using info_mem(4) [OF name] .
  ultimately show ?thesis using call by (simp add: ps_slot_def empty_puts)
qed

lemmas ps_slot_step = ps_slot_free ps_slot_occupied

lemma ps_loop_hangs:
  assumes "ps_ready loc mach" and "j \<le> i" and "i < 16" and "process_slot_occupied (kern mach) ! i" and "apart (ps_areas loc)"
    and "of_le32 (load_bytes (mem_of mach) (a_max_process_count loc) 4) = 16"
  shows "ps_loop bus loc (of_nat j) mach = None"
  using assms
proof (induction "i - j" arbitrary: j mach)
  case 0
  have "(of_nat j :: u32) < 16" using 0 by (simp add: word_less_nat_alt)
  then show ?case using ps_slot_step [of loc mach j bus] 0 by (subst ps_loop.simps) simp
next
  case (Suc k)
  have j: "j < 16" "(of_nat j :: u32) < 16" using Suc by (simp_all add: word_less_nat_alt)
  note step = ps_slot_step [OF Suc.prems(1) j(1) Suc.prems(5), of bus]
  show ?case
  proof (cases "process_slot_occupied (kern mach) ! j")
    case True
    then show ?thesis using step j Suc.prems(6) by (subst ps_loop.simps) simp
  next
    case False
    then obtain m where m: "ps_slot bus loc (of_nat j) mach = Some (with_fs (fsys (kern mach)) m mach)"
      "load_bytes m (a_col loc) 4 = load_bytes (mem_of mach) (a_col loc) 4"
      "load_bytes m (a_max_process_count loc) 4 = load_bytes (mem_of mach) (a_max_process_count loc) 4"
      using step by blast
    have "ps_loop bus loc (of_nat (Suc j)) (with_fs (fsys (kern mach)) m mach) = None"
    proof (rule Suc.hyps(1))
      show "k = i - Suc j" "Suc j \<le> i" using Suc.hyps(2) by simp_all
      show "ps_ready loc (with_fs (fsys (kern mach)) m mach)" using ready_mem [OF Suc.prems(1) m(2)] .
    qed (use Suc.prems m(3) in simp_all)
    then show ?thesis using m(1) j Suc.prems(6) by (subst ps_loop.simps) (simp add: add.commute)
  qed
qed

lemma max_call:
  "shell_syscall bus SYSCALL_GET_MAX_PROCESS_COUNT a 0 0 mach = Some (with_mem (store_bytes (mem_of mach) a (le32 16)) mach)"
proof -
  note calls = calls_call_frame [of SYSCALL_GET_MAX_PROCESS_COUNT a 0 0]
  show ?thesis using calls unfolding shell_syscall_def handler_syscall [OF calls] syscall_def calls_def Let_def
    by (simp add: syscall_consts PROCESS_COUNT_MAX_def with_fs_def)
qed

lemma ps_hangs:
  assumes ready: "ps_ready loc mach" and i: "i < 16" "process_slot_occupied (kern mach) ! i" and areas: "apart (ps_areas loc)"
  shows "ps_command bus lit loc mach = None"
proof -
  define m1 where "m1 = store_bytes (mem_of mach) (a_max_process_count loc) (le32 16)"
  have d: "ranges_disjoint (a_col loc) 4 (a_max_process_count loc) 4" "ranges_disjoint (a_col loc) 4 (a_newline loc) 16"
    "ranges_disjoint (a_col loc) 4 (a_whitespace loc) 16" "ranges_disjoint (a_col loc) 4 (a_header loc) 16"
    "ranges_disjoint (a_max_process_count loc) 4 (a_newline loc) 16" "ranges_disjoint (a_max_process_count loc) 4 (a_whitespace loc) 16"
    "ranges_disjoint (a_max_process_count loc) 4 (a_header loc) 16"
    using areas by (simp_all add: apart_def ps_areas_def)
  have m1: "load_bytes m1 (a_col loc) 4 = load_bytes (mem_of mach) (a_col loc) 4" "load_bytes m1 (a_max_process_count loc) 4 = le32 16"
    unfolding m1_def using d(1) load_store_bytes [of "le32 16" "mem_of mach" "a_max_process_count loc"] by (simp_all add: load_store_bytes_disjoint)
  define fields where "fields = (\<lambda>p (n :: u32) (c :: u32). le32 p @ le32 n @ le32 c @ le32 0)"
  have len: "length (fields p n c) = 16" for p n c by (simp add: fields_def)
  define m4 where "m4 = (\<lambda>a b c. store_bytes (store_bytes (store_bytes m1 (a_newline loc) (fields (lit ''\<newline>'') a 0))
      (a_whitespace loc) (fields (lit '' '') b 0)) (a_header loc) (fields (lit ''PID        Name        State        Frame Count'') c 0xE))"
  have m4: "load_bytes (m4 a b c) (a_col loc) 4 = load_bytes (mem_of mach) (a_col loc) 4" "load_bytes (m4 a b c) (a_max_process_count loc) 4 = le32 16" for a b c
    unfolding m4_def using d m1 len by (simp_all add: load_store_bytes_disjoint)
  have "ps_loop bus loc 0 (with_fs (fsys (kern mach)) (m4 a b c) mach) = None" for a b c
    using ps_loop_hangs [of loc "with_fs (fsys (kern mach)) (m4 a b c) mach" 0 i bus] ready_mem [OF ready m4(1)] i areas m4(2) by simp
  then show ?thesis
    by (simp add: ps_command_def max_call init_puts_args_def puts_args_def empty_puts bind_eq_None_conv flip: m1_def)
      (simp add: m4_def fields_def)
qed

end
