(* ===== verification/Shell_Prompt.thy ===== *)
theory Shell_Prompt
  imports Shell_Cd
begin

text \<open>
  \<open>print_dir_tree\<close> of the shell (\<open>src/src/user-shell.c\<close>), which finds the path of the current directory for the prompt: it walks up
  from the directory, appends the names to a buffer, and turns the path around by reversing the whole buffer and then each name.
\<close>

section \<open>Definitions\<close>

text \<open>The addresses of the local variables.\<close>

record tree_locals =
  t_temp :: u32
  t_buff :: u32
  t_req :: u32
  t_retcode :: u32
  t_name :: u32

text \<open>
  The \<open>do\<close> loop; the result is the number of characters in \<open>temp\<close>, and the truth value is false if the function has returned because a
  directory could not be read.
\<close>

partial_function (option) collect_names :: "'d bus \<Rightarrow> (string \<Rightarrow> u32) \<Rightarrow> tree_locals \<Rightarrow> u32 \<Rightarrow> u32 \<Rightarrow> 'd machine \<Rightarrow> (bool \<times> u32 \<times> 'd machine) option" where
  "collect_names bus lit loc current_cluster prog mach =
     do { m \<leftarrow> Some (init_request (t_req loc) (t_buff loc) dot_name current_cluster (of_nat CLUSTER_SIZE) (mem_of mach));
          mach \<leftarrow> shell_syscall bus 1 (t_req loc) (t_retcode loc) 0 (with_mem m mach);
          if mem_of mach (t_retcode loc) \<noteq> 0 then
            do { mach \<leftarrow> shell_puts bus (lit ''Error: Unable to read directory.'') 0xE mach; Some (False, prog, mach) }
          else
            do { m \<leftarrow> Some (fst (strncpy (mem_of mach) (t_name loc) (t_buff loc) 8));
                 m \<leftarrow> Some (m(t_name loc + 8 := 0));
                 name_len \<leftarrow> strlen m (t_name loc);
                 m \<leftarrow> Some (fst (memcpy m (t_temp loc + prog) (t_name loc) name_len));
                 prog \<leftarrow> Some (prog + name_len);
                 t \<leftarrow> Some (table_of_bytes (load_bytes m (t_buff loc) CLUSTER_SIZE));
                 (m, prog) \<leftarrow> Some (if \<not> (e_cluster_low (t ! 0) = e_cluster_low (t ! 1) \<and> e_cluster_high (t ! 0) = e_cluster_high (t ! 1))
                   then (m(t_temp loc + prog := splitter), prog + 1) else (m, prog));
                 current_cluster \<leftarrow> Some (entry_cluster (table_of_bytes (load_bytes m (t_buff loc) CLUSTER_SIZE) ! 1));
                 if current_cluster \<noteq> 2 then collect_names bus lit loc current_cluster prog (with_mem m mach)
                 else Some (True, prog, with_mem m mach) } }"

text \<open>The swapping loop, between two pointers.\<close>

partial_function (option) swap_loop :: "mem \<Rightarrow> u32 \<Rightarrow> u32 \<Rightarrow> mem option" where
  "swap_loop m start end1 =
     (if start < end1 then swap_loop (m(start := m end1, end1 := m start)) (start + 1) (end1 - 1) else Some m)"

text \<open>The loop that reverses each name; \<open>stop\<close> is \<open>temp + prog\<close>.\<close>

partial_function (option) reverse_names :: "mem \<Rightarrow> u32 \<Rightarrow> u32 \<Rightarrow> mem option" where
  "reverse_names m start stop =
     (if start < stop then
        do { e \<leftarrow> strchr m start (uint splitter);
             e \<leftarrow> Some (if e = 0 then stop else e);
             m \<leftarrow> swap_loop m start (e - 1);
             reverse_names m (e + 1) stop }
      else Some m)"

definition print_dir_tree :: "'d bus \<Rightarrow> (string \<Rightarrow> u32) \<Rightarrow> tree_locals \<Rightarrow> u32 \<Rightarrow> u32 \<Rightarrow> 'd machine \<Rightarrow> 'd machine option" where
  "print_dir_tree bus lit loc cluster_number text_pointer mach =
     do { mach \<leftarrow> Some (with_mem (store_bytes (mem_of mach) (t_temp loc) (replicate 128 0)) mach);
          (done1, prog, mach) \<leftarrow> collect_names bus lit loc cluster_number 0 mach;
          if \<not> done1 then Some mach
          else
            do { m \<leftarrow> swap_loop (mem_of mach) (t_temp loc) (t_temp loc + prog - 1);
                 m \<leftarrow> reverse_names m (t_temp loc) (t_temp loc + prog);
                 m \<leftarrow> Some (fst (memcpy m text_pointer (t_temp loc) prog));
                 m \<leftarrow> Some (m(text_pointer + prog := 0));
                 Some (with_mem m mach) } }"

section \<open>Reversing a buffer\<close>

text \<open>Ranges of memory that do not wrap, so that pointers compare like offsets.\<close>

lemma store_update: "i < length bs \<Longrightarrow> length bs < 2 ^ 32 \<Longrightarrow> (store_bytes m p bs)(p + of_nat i := v) = store_bytes m p (bs[i := v])"
  using store_inside [of i "[v]" bs m p] by (simp add: store_one upd_conv_take_nth_drop)

lemma offset_address: "unat p + n < 2 ^ 32 \<Longrightarrow> k \<le> n \<Longrightarrow> unat (p + of_nat k :: u32) = unat p + k"
  by (rule unat_add_small) simp

lemma swap_loop_rev:
  assumes "unat p + length (xs @ ys @ zs) < 2 ^ 32" and "0 < unat p"
  shows "swap_loop (store_bytes m p (xs @ ys @ zs)) (p + of_nat (length xs)) (p + of_nat (length xs + length ys) - 1) =
    Some (store_bytes m p (xs @ rev ys @ zs))"
  using assms(1)
proof (induction "length ys" arbitrary: xs ys zs rule: less_induct)
  case less
  let ?n = "length (xs @ ys @ zs)"
  have at: "unat (p + of_nat k :: u32) = unat p + k" if "k \<le> ?n" for k using less.prems that by (rule offset_address)
  have pos: "0 < unat (p + of_nat (length xs + length ys))" using at [of "length xs + length ys"] assms(2) by simp
  then have e: "unat (p + of_nat (length xs + length ys) - 1) = unat p + (length xs + length ys) - 1"
  proof -
    have "p + of_nat (length xs + length ys) \<noteq> 0" using pos by (metis unat_0 less_irrefl)
    moreover have "unat (p + of_nat (length xs + length ys)) = unat p + (length xs + length ys)" by (rule at) simp
    ultimately show ?thesis by (metis unat_minus_one)
  qed
  have lt: "p + of_nat (length xs) < p + of_nat (length xs + length ys) - 1 \<longleftrightarrow> 1 < length ys"
    unfolding word_less_nat_alt e using at [of "length xs"] assms(2) by auto
  show ?case
  proof (cases "1 < length ys")
    case False
    then have "rev ys = ys" by (cases ys) simp_all
    then show ?thesis using lt False by (subst swap_loop.simps) simp
  next
    case True
    then obtain y ws z where ys: "ys = y # ws @ [z]" by (cases ys; cases "tl ys" rule: rev_cases) auto
    let ?bs = "xs @ ys @ zs"
    have n: "length ?bs < 2 ^ 32" using less.prems by simp
    have end1: "p + of_nat (length xs + length ys) - 1 = p + of_nat (Suc (length xs + length ws))" by (simp add: ys)
    have vals: "store_bytes m p ?bs (p + of_nat (length xs)) = y" "store_bytes m p ?bs (p + of_nat (Suc (length xs + length ws))) = z"
      using n store_bytes_at [of "length xs" ?bs m p] store_bytes_at [of "Suc (length xs + length ws)" ?bs m p] by (simp_all add: ys nth_append)
    have upd: "(store_bytes m p ?bs)(p + of_nat (length xs) := z, p + of_nat (Suc (length xs + length ws)) := y) =
        store_bytes m p ((xs @ [z]) @ ws @ y # zs)"
    proof -
      have "(store_bytes m p ?bs)(p + of_nat (length xs) := z) = store_bytes m p (?bs[length xs := z])" using n by (intro store_update) (simp_all add: ys)
      moreover have "(store_bytes m p (?bs[length xs := z]))(p + of_nat (Suc (length xs + length ws)) := y) =
          store_bytes m p (?bs[length xs := z, Suc (length xs + length ws) := y])" using n by (intro store_update) (simp_all add: ys)
      moreover have "?bs[length xs := z, Suc (length xs + length ws) := y] = (xs @ [z]) @ ws @ y # zs" by (simp add: ys list_update_append)
      ultimately show ?thesis by simp
    qed
    have IH: "swap_loop (store_bytes m p ((xs @ [z]) @ ws @ y # zs)) (p + of_nat (length (xs @ [z]))) (p + of_nat (length (xs @ [z]) + length ws) - 1) =
        Some (store_bytes m p ((xs @ [z]) @ rev ws @ y # zs))"
      using less.prems by (intro less.hyps) (simp_all add: ys)
    have next1: "p + of_nat (length xs) + 1 = p + of_nat (length (xs @ [z]))" "p + of_nat (Suc (length xs + length ws)) - 1 = p + of_nat (length (xs @ [z]) + length ws) - 1"
      by (simp_all add: algebra_simps)
    have "swap_loop (store_bytes m p ?bs) (p + of_nat (length xs)) (p + of_nat (length xs + length ys) - 1) =
        swap_loop (store_bytes m p ((xs @ [z]) @ ws @ y # zs)) (p + of_nat (length (xs @ [z]))) (p + of_nat (length (xs @ [z]) + length ws) - 1)"
      using lt True by (subst swap_loop.simps) (simp only: if_True end1 vals upd next1)
    then show ?thesis using IH by (simp add: ys)
  qed
qed

text \<open>The second loop reverses what stands between the backslashes.\<close>

definition segments :: "u8 list list \<Rightarrow> u8 list" where
  "segments ns = concat (map (\<lambda>n. splitter # n) ns)"

definition segment_ok :: "u8 list \<Rightarrow> bool" where
  "segment_ok n \<longleftrightarrow> splitter \<notin> set n \<and> 0 \<notin> set n"

lemma segments_simps [simp]: "segments [] = []" "segments (n # ns) = splitter # n @ segments ns"
  by (simp_all add: segments_def)

lemma length_segments_rev [simp]: "length (segments (map rev ns)) = length (segments ns)"
  by (induction ns) simp_all

lemma segments_no_nul: "list_all segment_ok ns \<Longrightarrow> 0 \<notin> set (segments (map rev ns))"
  by (induction ns) (auto simp: segment_ok_def splitter_def)

lemma is_splitter: "sint (x :: u8) = uint splitter \<longleftrightarrow> x = splitter"
proof -
  have "uint splitter = sint splitter" by (simp add: splitter_def)
  then show ?thesis by (simp only: sint_eq_iff_u8)
qed

lemma find_splitter:
  assumes "splitter \<notin> set n"
  shows "first_index (\<lambda>x. sint x = uint splitter) (rev n @ segments ns) = (if ns = [] then None else Some (length n))"
proof (cases ns)
  case Nil
  then show ?thesis using assms by (auto simp: first_index_None_iff is_splitter)
next
  case (Cons a as)
  have "first_index (\<lambda>x. sint x = uint splitter) (rev n @ splitter # a @ segments as) = Some (length n)"
    using assms by (auto simp: first_index_Some_iff is_splitter nth_append in_set_conv_nth rev_nth)
  then show ?thesis using Cons by simp
qed

lemma reverse_names_last:
  assumes bound: "unat p + length (xs @ n @ 0 # zs) < 2 ^ 32" "0 < unat p" and n: "segment_ok n"
  shows "reverse_names (store_bytes m p (xs @ rev n @ 0 # zs)) (p + of_nat (length xs)) (p + of_nat (length (xs @ n))) =
    Some (store_bytes m p (xs @ n @ 0 # zs))"
proof (cases "n = []")
  case True
  then show ?thesis by (subst reverse_names.simps) simp
next
  case False
  let ?m = "store_bytes m p (xs @ rev n @ 0 # zs)" and ?start = "p + of_nat (length xs)" and ?stop = "p + of_nat (length (xs @ n))"
  have at: "unat (p + of_nat k :: u32) = unat p + k" if "k \<le> length (xs @ n @ 0 # zs)" for k using bound(1) that by (intro offset_address) simp_all
  have lt: "?start < ?stop" unfolding word_less_nat_alt using at [of "length xs"] at [of "length (xs @ n)"] False by simp
  have s: "cstr ?m ?start (rev n)"
    using cstr_in_buffer [of ?m p "length (xs @ rev n @ 0 # zs)" xs "rev n" zs] load_store_bytes [of "xs @ rev n @ 0 # zs" m p] bound n
    by (simp add: segment_ok_def)
  have "strchr ?m ?start (uint splitter) = Some 0"
    using strchr_cstr [OF s, of "uint splitter"] find_splitter [of n "[]"] n by (simp add: segment_ok_def splitter_def)
  moreover have "swap_loop ?m ?start (?stop - 1) = Some (store_bytes m p (xs @ n @ 0 # zs))"
    using swap_loop_rev [of p xs "rev n" "0 # zs" m] bound by simp
  moreover have "\<not> ?stop + 1 < ?stop"
  proof -
    have "?stop + 1 = p + of_nat (length (xs @ n) + 1)" by (simp add: algebra_simps)
    then have "unat (?stop + 1) = unat p + (length (xs @ n) + 1)" by (simp only:) (rule at, simp)
    moreover have "unat ?stop = unat p + length (xs @ n)" by (rule at) simp
    ultimately show ?thesis unfolding word_less_nat_alt by linarith
  qed
  ultimately show ?thesis using lt by (subst reverse_names.simps) (simp, subst reverse_names.simps, simp)
qed

lemma reverse_names_run:
  assumes "unat p + length (xs @ n @ segments ns @ 0 # zs) < 2 ^ 32" and "0 < unat p" and "segment_ok n" and "list_all segment_ok ns"
  shows "reverse_names (store_bytes m p (xs @ rev n @ segments (map rev ns) @ 0 # zs)) (p + of_nat (length xs)) (p + of_nat (length (xs @ n @ segments ns))) =
    Some (store_bytes m p (xs @ n @ segments ns @ 0 # zs))"
  using assms(1,3,4)
proof (induction ns arbitrary: xs n)
  case Nil
  then show ?case using reverse_names_last [of p xs n zs m] assms(2) by simp
next
  case (Cons a as)
  let ?tail = "segments (map rev as) @ 0 # zs"
  let ?m = "store_bytes m p (xs @ rev n @ splitter # rev a @ ?tail)" and ?start = "p + of_nat (length xs)" and ?stop = "p + of_nat (length (xs @ n @ segments (a # as)))"
  let ?e = "p + of_nat (length xs + length n)"
  have at: "unat (p + of_nat k :: u32) = unat p + k" if "k \<le> length (xs @ n @ segments (a # as) @ 0 # zs)" for k using Cons.prems(1) that by (intro offset_address) simp_all
  have ok: "segment_ok n" "segment_ok a" "list_all segment_ok as" using Cons.prems by simp_all
  have lt: "?start < ?stop" unfolding word_less_nat_alt using at [of "length xs"] at [of "length (xs @ n @ segments (a # as))"] by simp
  have s: "cstr ?m ?start (rev n @ splitter # rev a @ segments (map rev as))"
    using cstr_in_buffer [of ?m p "length (xs @ rev n @ splitter # rev a @ ?tail)" xs "rev n @ splitter # rev a @ segments (map rev as)" zs]
      load_store_bytes [of "xs @ rev n @ splitter # rev a @ ?tail" m p] Cons.prems segments_no_nul [OF ok(3)]
    by (simp add: segment_ok_def splitter_def)
  have ne: "?e \<noteq> 0"
  proof -
    have "unat ?e = unat p + (length xs + length n)" by (rule at) simp
    then show ?thesis using assms(2) by (metis unat_0 add_gr_0 less_irrefl)
  qed
  have "first_index (\<lambda>x. sint x = uint splitter) (rev n @ splitter # rev a @ segments (map rev as)) = Some (length n)"
    using find_splitter [of n "map rev (a # as)"] ok(1) by (simp add: segment_ok_def)
  then have "strchr ?m ?start (uint splitter) = Some ?e"
    using strchr_cstr [OF s, of "uint splitter"] by (simp add: splitter_def add.assoc)
  moreover have "swap_loop ?m ?start (?e - 1) = Some (store_bytes m p (xs @ n @ splitter # rev a @ ?tail))"
    using swap_loop_rev [of p xs "rev n" "splitter # rev a @ ?tail" m] Cons.prems(1) assms(2) by simp
  moreover have "reverse_names (store_bytes m p ((xs @ n @ [splitter]) @ rev a @ ?tail)) (p + of_nat (length (xs @ n @ [splitter])))
      (p + of_nat (length ((xs @ n @ [splitter]) @ a @ segments as))) = Some (store_bytes m p ((xs @ n @ [splitter]) @ a @ segments as @ 0 # zs))"
    using Cons.prems(1) ok by (intro Cons.IH) simp_all
  moreover have "?e + 1 = p + of_nat (length (xs @ n @ [splitter]))" by (simp add: algebra_simps)
  ultimately show ?case using lt ne by (subst reverse_names.simps) (simp add: ac_simps)
qed

section \<open>The walk to the root\<close>

definition own_name :: "image \<Rightarrow> u32 \<Rightarrow> u8 list" where
  "own_name d c = takeWhile (\<lambda>x. x \<noteq> 0) (e_name (disk_dir d c ! 0))"

text \<open>The names on the way from directory \<open>c\<close> up to the root, without the root's.\<close>

fun climbs :: "image \<Rightarrow> u32 \<Rightarrow> u8 list list \<Rightarrow> bool" where
  "climbs d c [] \<longleftrightarrow> c = 2"
| "climbs d c (n # ns) \<longleftrightarrow> c \<noteq> 2 \<and> parent_of d c \<noteq> c \<and> own_name d c = n \<and> segment_ok n \<and> climbs d (parent_of d c) ns"

lemma store_self: "store_bytes m p (load_bytes m p n) = m"
  by (rule ext) (simp add: store_bytes_def)

lemma load_inside:
  assumes "load_bytes m p n = xs @ ys @ zs" and "length ys = length ys'" and "n < 2 ^ 32"
  shows "load_bytes (store_bytes m (p + of_nat (length xs)) ys') p n = xs @ ys' @ zs"
proof -
  have n: "length (xs @ ys @ zs) = n" using assms(1) by (metis length_load_bytes)
  have "store_bytes (store_bytes m p (xs @ ys @ zs)) (p + of_nat (length xs)) ys' = store_bytes m p (take (length xs) (xs @ ys @ zs) @ ys' @ drop (length xs + length ys') (xs @ ys @ zs))"
    using n assms(2,3) by (intro store_inside) simp_all
  also have "store_bytes m p (xs @ ys @ zs) = m" using store_self [of m p n] assms(1) by simp
  finally have "store_bytes m (p + of_nat (length xs)) ys' = store_bytes m p (xs @ ys' @ zs)" using assms(2) by simp
  then show ?thesis using load_store_bytes [of "xs @ ys' @ zs" m p] n assms(2,3) by simp
qed

lemma table_name_text:
  assumes "length t = 64" and "wf_entry (t ! 0)" and "e_ext (t ! 0) = replicate 3 0"
  shows "\<exists>post. table_bytes t = takeWhile (\<lambda>x. x \<noteq> 0) (e_name (t ! 0)) @ 0 # post"
proof -
  let ?n = "e_name (t ! 0)"
  obtain rest where rest: "table_bytes t = ?n @ 0 # rest"
    using assms by (cases t) (auto simp: table_bytes_def entry_bytes_def numeral_3_eq_3)
  have split: "?n = takeWhile (\<lambda>x. x \<noteq> 0) ?n @ dropWhile (\<lambda>x. x \<noteq> 0) ?n" by simp
  show ?thesis
  proof (cases "dropWhile (\<lambda>x. x \<noteq> 0) ?n")
    case Nil
    then have "takeWhile (\<lambda>x. x \<noteq> 0) ?n = ?n" using split by simp
    then show ?thesis using rest by metis
  next
    case (Cons x xs)
    then have "x = 0" using hd_dropWhile [of "\<lambda>x. x \<noteq> 0" ?n] by simp
    then have "table_bytes t = takeWhile (\<lambda>x. x \<noteq> 0) ?n @ 0 # (xs @ 0 # rest)" using rest split Cons by (metis append.assoc append_Cons)
    then show ?thesis by blast
  qed
qed

definition tree_areas :: "tree_locals \<Rightarrow> (u32 \<times> nat) list" where
  "tree_areas loc = [(t_temp loc, 128), (t_buff loc, 2048), (t_req loc, 23), (t_retcode loc, 1), (t_name loc, 9)]"

definition name_text :: "u32 \<Rightarrow> image \<Rightarrow> u32 \<Rightarrow> u8 list" where
  "name_text p d c = own_name d c @ (if p = c then [] else [splitter])"

lemma entry_cluster_eq: "entry_cluster e = entry_cluster e' \<longleftrightarrow> e_cluster_low e = e_cluster_low e' \<and> e_cluster_high e = e_cluster_high e'"
proof -
  have "ucast (entry_cluster e) = e_cluster_low e" "ucast (drop_bit 16 (entry_cluster e)) = e_cluster_high e" for e
    by (rule bit_word_eqI; auto simp: entry_cluster_def bit_simps dest: bit_imp_le_length)+
  then show ?thesis by (metis entry_cluster_def)
qed

text \<open>The system call of one turn reads the table of the directory.\<close>

lemma collect_read:
  assumes inv: "fs_inv (fsys (kern mach)) D" and c: "c \<in> D" and areas: "apart (tree_areas loc)"
  shows "\<exists>f m. shell_syscall bus 1 (t_req loc) (t_retcode loc) 0
      (with_mem (init_request (t_req loc) (t_buff loc) dot_name c (of_nat CLUSTER_SIZE) (mem_of mach)) mach) = Some (with_fs f m mach) \<and>
    fs_inv f D \<and> disk f = disk (fsys (kern mach)) \<and> m (t_retcode loc) = 0 \<and>
    load_bytes m (t_buff loc) 2048 = table_bytes (disk_dir (disk (fsys (kern mach))) c) \<and>
    kept_outside [(t_req loc, 23), (t_buff loc, 2048), (t_retcode loc, 1)] (mem_of mach) m"
proof -
  let ?t = "disk_dir (disk (fsys (kern mach))) c" and ?A = "[(t_req loc, 23), (t_buff loc, 2048), (t_retcode loc, 1)]"
  define m1 where "m1 = init_request (t_req loc) (t_buff loc) dot_name c (of_nat CLUSTER_SIZE) (mem_of mach)"
  define m3 where "m3 = store_bytes (store_bytes m1 (t_buff loc) (table_bytes ?t)) (t_retcode loc) [0]"
  have tl: "length (table_bytes ?t) = 2048" by (simp add: table_bytes_disk_dir)
  obtain f where call: "shell_syscall bus 1 (t_req loc) (t_retcode loc) 0 (with_fs (fsys (kern mach)) m1 mach) = Some (with_fs f m3 mach)"
    and f: "fs_inv f D" "disk f = disk (fsys (kern mach))"
    using own_directory_call [of "with_fs (fsys (kern mach)) m1 mach" D c "t_req loc" "t_buff loc" "of_nat CLUSTER_SIZE" "mem_of mach" bus "t_retcode loc"] inv c
    by (auto simp: m1_def m3_def)
  have "ranges_disjoint (t_buff loc) 2048 (t_retcode loc) 1" using areas by (simp add: apart_def tree_areas_def)
  then have l: "load_bytes m3 (t_buff loc) 2048 = table_bytes ?t" "m3 (t_retcode loc) = 0"
    unfolding m3_def using tl load_store_bytes [of "table_bytes ?t" m1 "t_buff loc"] by (simp_all add: load_store_bytes_disjoint) (simp add: store_one)
  have "kept_outside ?A (mem_of mach) m1" unfolding m1_def init_request_def by (rule kept_store) (simp add: request_bytes_def dot_name_def)
  also have "kept_outside ?A m1 m3" unfolding m3_def using tl by (intro kept_trans [OF kept_store kept_store]) simp_all
  finally show ?thesis using call f l unfolding m1_def by auto
qed

text \<open>The name is copied out of the table.\<close>

lemma collect_name:
  assumes s: "cstr m (t_buff loc) own" and len: "length own \<le> 8" and areas: "ranges_disjoint (t_buff loc) 2048 (t_name loc) 9"
  shows "\<exists>m'. (fst (strncpy m (t_name loc) (t_buff loc) 8))(t_name loc + 8 := 0) = m' \<and> cstr m' (t_name loc) own \<and>
    kept_outside [(t_name loc, 9)] m m'"
proof -
  let ?text = "own @ replicate (8 - length own) 0"
  have "\<forall>j < 8. \<forall>j' \<le> length own. t_name loc + of_nat 0 + of_nat j \<noteq> t_buff loc + of_nat 0 + of_nat j'"
    using ranges_disjoint_sym [OF areas] len unfolding ranges_disjoint_def by auto
  then have "strncpy_copy m (t_name loc) (t_buff loc) 0 8 = store_bytes m (t_name loc) ?text"
    using strncpy_copy_store [of m "t_buff loc" 0 own 8 "t_name loc"] s len by (simp add: take_append min_absorb1)
  then have copy: "(fst (strncpy m (t_name loc) (t_buff loc) 8))(t_name loc + 8 := 0) = store_bytes m (t_name loc) (?text @ [0])"
    using store_bytes_append [of ?text "[0]" m "t_name loc"] len by (simp add: strncpy_def store_one)
  have "takeWhile (\<lambda>c. c \<noteq> 0) ?text = own" using cstr_no_nul [OF s] by (subst takeWhile_append2) (auto simp: takeWhile_replicate)
  then have "cstr (store_bytes m (t_name loc) (?text @ [0])) (t_name loc) own" using cstr_store [of ?text m "t_name loc"] len by simp
  moreover have "kept_outside [(t_name loc, 9)] m (store_bytes m (t_name loc) (?text @ [0]))" using len by (intro kept_store) simp
  ultimately show ?thesis using copy by auto
qed

text \<open>Text is appended to \<open>temp\<close>.\<close>

lemma collect_append:
  assumes temp: "load_bytes m temp 128 = xs @ replicate (128 - length xs) 0" and room: "length (xs @ ys) < 128"
  shows "load_bytes (store_bytes m (temp + of_nat (length xs)) ys) temp 128 = (xs @ ys) @ replicate (128 - length (xs @ ys)) 0" and
    "kept_outside [(temp, 128)] m (store_bytes m (temp + of_nat (length xs)) ys)"
proof -
  have "xs @ replicate (128 - length xs) 0 = xs @ replicate (length ys) 0 @ replicate (128 - length (xs @ ys)) (0 :: u8)"
    using room by (simp add: replicate_add [symmetric])
  then have "load_bytes m temp 128 = xs @ replicate (length ys) 0 @ replicate (128 - length (xs @ ys)) 0" using temp by (simp only:)
  from load_inside [OF this, of ys] show "load_bytes (store_bytes m (temp + of_nat (length xs)) ys) temp 128 = (xs @ ys) @ replicate (128 - length (xs @ ys)) 0"
    by simp
  show "kept_outside [(temp, 128)] m (store_bytes m (temp + of_nat (length xs)) ys)" using room by (intro kept_store_at [of _ 128]) simp_all
qed

text \<open>The two together: the name goes over \<open>name\<close> to the end of \<open>temp\<close>, then the backslash, if any.\<close>

lemma collect_copy:
  assumes areas: "apart (tree_areas loc)" and s: "cstr m (t_buff loc) own" "length own \<le> 8"
    and temp: "load_bytes m (t_temp loc) 128 = xs @ replicate (128 - length xs) 0" and room: "length (xs @ own @ tail) < 128" and tail: "tail \<in> {[], [splitter]}"
  shows "\<exists>m1 m2 m3. (fst (strncpy m (t_name loc) (t_buff loc) 8))(t_name loc + 8 := 0) = m1 \<and> cstr m1 (t_name loc) own \<and>
    fst (memcpy m1 (t_temp loc + of_nat (length xs)) (t_name loc) (of_nat (length own))) = m2 \<and>
    m3 = (if tail = [] then m2 else m2(t_temp loc + (of_nat (length xs) + of_nat (length own)) := splitter)) \<and>
    load_bytes m2 (t_buff loc) 2048 = load_bytes m (t_buff loc) 2048 \<and> load_bytes m3 (t_buff loc) 2048 = load_bytes m (t_buff loc) 2048 \<and>
    load_bytes m3 (t_temp loc) 128 = (xs @ own @ tail) @ replicate (128 - length (xs @ own @ tail)) 0 \<and>
    kept_outside [(t_name loc, 9), (t_temp loc, 128)] m m3"
proof -
  let ?temp = "t_temp loc"
  have apart: "ranges_disjoint (t_buff loc) 2048 ?temp 128" "ranges_disjoint ?temp 128 (t_name loc) 9" "ranges_disjoint (t_buff loc) 2048 (t_name loc) 9"
    using areas by (auto simp: apart_def tree_areas_def intro: ranges_disjoint_sym)
  obtain m1 where m1: "(fst (strncpy m (t_name loc) (t_buff loc) 8))(t_name loc + 8 := 0) = m1" "cstr m1 (t_name loc) own"
    and k1: "kept_outside [(t_name loc, 9)] m m1" using collect_name [OF s apart(3)] by blast
  have l1: "load_bytes m1 ?temp 128 = xs @ replicate (128 - length xs) 0" using load_kept [OF k1, of ?temp 128] apart(2) temp by simp
  define m2 where "m2 = store_bytes m1 (?temp + of_nat (length xs)) own"
  define m3 where "m3 = store_bytes m2 (?temp + of_nat (length (xs @ own))) tail"
  have copy: "fst (memcpy m1 (?temp + of_nat (length xs)) (t_name loc) (of_nat (length own))) = m2"
    using memcpy_apart [of "?temp + of_nat (length xs)" "of_nat (length own)" "t_name loc" m1] m1(2) s(2) room
      ranges_disjoint_part [OF apart(2), of "length xs" "length own" 0 "length own"]
    by (simp add: m2_def cstr_iff_load)
  have k2: "kept_outside [(?temp, 128)] m1 m2" and l2: "load_bytes m2 ?temp 128 = (xs @ own) @ replicate (128 - length (xs @ own)) 0"
    using collect_append [OF l1, of own] room by (simp_all add: m2_def)
  have k3: "kept_outside [(?temp, 128)] m2 m3" and l3: "load_bytes m3 ?temp 128 = (xs @ own @ tail) @ replicate (128 - length (xs @ own @ tail)) 0"
    using collect_append [OF l2, of tail] room by (simp_all add: m3_def)
  have "m3 = (if tail = [] then m2 else m2(?temp + (of_nat (length xs) + of_nat (length own)) := splitter))"
    using tail by (auto simp: m3_def store_one)
  moreover have "load_bytes m2 (t_buff loc) 2048 = load_bytes m (t_buff loc) 2048" "load_bytes m3 (t_buff loc) 2048 = load_bytes m (t_buff loc) 2048"
    using load_kept [OF k1, of "t_buff loc" 2048] load_kept [OF k2, of "t_buff loc" 2048] load_kept [OF k3, of "t_buff loc" 2048] apart by simp_all
  moreover have "kept_outside [(t_name loc, 9), (?temp, 128)] m m3"
    by (rule kept_trans [OF kept_trans [OF kept_mono [OF k1] kept_mono [OF k2]] kept_mono [OF k3]]) simp_all
  ultimately show ?thesis using m1 copy l3 by blast
qed

text \<open>One turn of the loop: the name of the directory is appended to \<open>temp\<close>, with a backslash unless it is its own parent.\<close>

lemma collect_step:
  assumes inv: "fs_inv (fsys (kern mach)) D" and c: "c \<in> D" and areas: "apart (tree_areas loc)"
    and temp: "load_bytes (mem_of mach) (t_temp loc) 128 = xs @ replicate (128 - length xs) 0"
    and room: "length (xs @ name_text (parent_of (disk (fsys (kern mach))) c) (disk (fsys (kern mach))) c) < 128"
  shows "\<exists>f m. collect_names bus lit loc c (of_nat (length xs)) mach =
      (if parent_of (disk (fsys (kern mach))) c \<noteq> 2
       then collect_names bus lit loc (parent_of (disk (fsys (kern mach))) c)
         (of_nat (length (xs @ name_text (parent_of (disk (fsys (kern mach))) c) (disk (fsys (kern mach))) c))) (with_fs f m mach)
       else Some (True, of_nat (length (xs @ name_text (parent_of (disk (fsys (kern mach))) c) (disk (fsys (kern mach))) c)), with_fs f m mach)) \<and>
    fs_inv f D \<and> disk f = disk (fsys (kern mach)) \<and>
    load_bytes m (t_temp loc) 128 = (xs @ name_text (parent_of (disk (fsys (kern mach))) c) (disk (fsys (kern mach))) c) @
      replicate (128 - length (xs @ name_text (parent_of (disk (fsys (kern mach))) c) (disk (fsys (kern mach))) c)) 0 \<and>
    kept_outside (tree_areas loc) (mem_of mach) m"
proof -
  define d where "d = disk (fsys (kern mach))"
  define pc where "pc = parent_of d c"
  define own where "own = own_name d c"
  define tail where "tail = (if pc = c then [] else [splitter])"
  let ?t = "disk_dir d c" and ?temp = "t_temp loc"
  have ok: "table_ok c ?t" using fs_inv_dir [OF inv c] by (simp add: d_def)
  have t0: "length ?t = 64" "wf_entry (?t ! 0)" "e_ext (?t ! 0) = replicate 3 0" "entry_cluster (?t ! 0) = c"
    using ok table_ok_wf [OF ok, of 0] by (simp_all add: table_ok_def key_of_def)
  have lenown: "length own \<le> 8" using t0(2) length_takeWhile_le [of "\<lambda>x. x \<noteq> 0" "e_name (?t ! 0)"] by (simp add: own_def own_name_def wf_entry_def)
  have ownz: "0 \<notin> set own" unfolding own_def own_name_def by (auto dest: set_takeWhileD)
  have nt: "name_text pc d c = own @ tail" by (simp add: name_text_def own_def tail_def)
  obtain f m where call: "shell_syscall bus 1 (t_req loc) (t_retcode loc) 0
      (with_mem (init_request (t_req loc) (t_buff loc) dot_name c (of_nat CLUSTER_SIZE) (mem_of mach)) mach) = Some (with_fs f m mach)"
    and f: "fs_inv f D" "disk f = d" and m: "m (t_retcode loc) = 0" "load_bytes m (t_buff loc) 2048 = table_bytes ?t"
    and k: "kept_outside [(t_req loc, 23), (t_buff loc, 2048), (t_retcode loc, 1)] (mem_of mach) m"
    using collect_read [OF inv c areas, of bus] unfolding d_def by blast
  obtain post where "table_bytes ?t = own @ 0 # post" using table_name_text [OF t0(1-3)] by (auto simp: own_def own_name_def)
  then have s: "cstr m (t_buff loc) own" using cstr_in_buffer [of m "t_buff loc" 2048 "[]" own post] m(2) ownz by simp
  have l: "load_bytes m ?temp 128 = xs @ replicate (128 - length xs) 0"
    using load_kept [OF k, of ?temp 128] areas temp by (simp add: apart_def tree_areas_def)
  have "length (xs @ own @ tail) < 128" "tail \<in> {[], [splitter]}" using room nt by (simp_all add: tail_def flip: d_def pc_def)
  from collect_copy [OF areas s lenown l this] obtain m1 m2 m3 where
    m1: "(fst (strncpy m (t_name loc) (t_buff loc) 8))(t_name loc + 8 := 0) = m1" "cstr m1 (t_name loc) own"
    and m2: "fst (memcpy m1 (?temp + of_nat (length xs)) (t_name loc) (of_nat (length own))) = m2"
    and m3: "m3 = (if tail = [] then m2 else m2(?temp + (of_nat (length xs) + of_nat (length own)) := splitter))"
      "load_bytes m2 (t_buff loc) 2048 = table_bytes ?t" "load_bytes m3 (t_buff loc) 2048 = table_bytes ?t"
      "load_bytes m3 ?temp 128 = (xs @ own @ tail) @ replicate (128 - length (xs @ own @ tail)) 0"
    and k3: "kept_outside [(t_name loc, 9), (?temp, 128)] m m3" unfolding m(2) by blast
  have "e_cluster_low (?t ! 0) = e_cluster_low (?t ! 1) \<and> e_cluster_high (?t ! 0) = e_cluster_high (?t ! 1) \<longleftrightarrow> pc = c"
    using t0(4) entry_cluster_eq [of "?t ! 0" "?t ! 1"] unfolding pc_def parent_of_def by metis
  then have root: "(if \<not> (e_cluster_low (?t ! 0) = e_cluster_low (?t ! 1) \<and> e_cluster_high (?t ! 0) = e_cluster_high (?t ! 1))
      then (m2(?temp + (of_nat (length xs) + of_nat (length own)) := splitter), of_nat (length xs) + of_nat (length own) + 1)
      else (m2, of_nat (length xs) + of_nat (length own))) = (m3, of_nat (length (xs @ own @ tail)) :: u32)"
    using m3(1) by (simp add: tail_def add.assoc)
  have kept: "kept_outside (tree_areas loc) (mem_of mach) m3"
    by (rule kept_trans [OF kept_mono [OF k] kept_mono [OF k3]]) (auto simp: tree_areas_def)
  have table: "table_of_bytes (table_bytes ?t) = ?t" using ok by (intro table_of_table_bytes) (simp add: table_ok_def)
  have "collect_names bus lit loc c (of_nat (length xs)) mach =
      (if pc \<noteq> 2 then collect_names bus lit loc pc (of_nat (length (xs @ own @ tail))) (with_fs f m3 mach)
       else Some (True, of_nat (length (xs @ own @ tail)), with_fs f m3 mach))"
    using call m(1) m1(1) strlen_cstr [OF m1(2)] m2 m3(2,3) table root
    by (subst collect_names.simps) (simp add: CLUSTER_SIZE_eq pc_def parent_of_def split del: if_split cong del: if_weak_cong)
  then show ?thesis using f m3(4) kept unfolding d_def [symmetric] pc_def [symmetric] nt by blast
qed


text \<open>The whole climb: below the root every name is followed by a backslash; at the root its own name is collected.\<close>

definition collected :: "image \<Rightarrow> u8 list list \<Rightarrow> u8 list" where
  "collected d ns = (if ns = [] then own_name d 2 else concat (map (\<lambda>n. n @ [splitter]) ns))"

lemma collect_climb:
  assumes "fs_inv (fsys (kern mach)) D" and "c \<in> D" and areas: "apart (tree_areas loc)"
    and "load_bytes (mem_of mach) (t_temp loc) 128 = xs @ replicate (128 - length xs) 0"
    and "climbs (disk (fsys (kern mach))) c ns"
    and "length (xs @ collected (disk (fsys (kern mach))) ns) < 128"
  shows "\<exists>f m. collect_names bus lit loc c (of_nat (length xs)) mach =
      Some (True, of_nat (length (xs @ collected (disk (fsys (kern mach))) ns)), with_fs f m mach) \<and>
    fs_inv f D \<and> disk f = disk (fsys (kern mach)) \<and>
    load_bytes m (t_temp loc) 128 = (xs @ collected (disk (fsys (kern mach))) ns) @ replicate (128 - length (xs @ collected (disk (fsys (kern mach))) ns)) 0 \<and>
    kept_outside (tree_areas loc) (mem_of mach) m"
  using assms(1,2,4-6)
proof (induction ns arbitrary: c xs mach)
  case Nil
  define d where "d = disk (fsys (kern mach))"
  have c: "c = 2" using Nil.prems(4) by simp
  have p: "parent_of d c = 2" using tree_links(3) [of "disk (fsys (kern mach))" D] Nil.prems(1) c by (simp add: d_def fs_inv_def ROOT_CLUSTER_NUMBER_def)
  have "name_text (parent_of d c) d c = collected d []" using p c by (simp add: name_text_def collected_def)
  then show ?case
    using collect_step [OF Nil.prems(1,2) areas Nil.prems(3), of bus lit] Nil.prems(5) p unfolding d_def [symmetric] by auto
next
  case (Cons n ns)
  define d where "d = disk (fsys (kern mach))"
  define pc where "pc = parent_of d c"
  have n: "pc \<noteq> c" "own_name d c = n" "climbs d pc ns" using Cons.prems(4) by (simp_all add: d_def pc_def)
  have t: "name_text pc d c = n @ [splitter]" using n by (simp add: name_text_def)
  have pD: "pc \<in> D" using parent_in_tree Cons.prems(1,2) unfolding pc_def d_def fs_inv_def by blast
  have col: "collected d (n # ns) = n @ splitter # (if ns = [] then [] else collected d ns)" by (simp add: collected_def)
  obtain f m where step: "collect_names bus lit loc c (of_nat (length xs)) mach =
      (if pc \<noteq> 2 then collect_names bus lit loc pc (of_nat (length (xs @ n @ [splitter]))) (with_fs f m mach)
       else Some (True, of_nat (length (xs @ n @ [splitter])), with_fs f m mach))"
    and f: "fs_inv f D" "disk f = d" and l: "load_bytes m (t_temp loc) 128 = (xs @ n @ [splitter]) @ replicate (128 - length (xs @ n @ [splitter])) 0"
    and kept: "kept_outside (tree_areas loc) (mem_of mach) m"
  proof -
    have "length (xs @ n @ [splitter]) < 128" using Cons.prems(5) unfolding d_def [symmetric] col by simp
    then show ?thesis
      using that collect_step [OF Cons.prems(1,2) areas Cons.prems(3), of bus lit, folded d_def, folded pc_def, unfolded t] by blast
  qed
  show ?case
  proof (cases "ns = []")
    case True
    then have "pc = 2" using n(3) by simp
    then show ?thesis using step f l kept True unfolding d_def [symmetric] col by auto
  next
    case False
    then have "pc \<noteq> 2" using n(3) by (cases ns) simp_all
    moreover have "\<exists>g m'. collect_names bus lit loc pc (of_nat (length (xs @ n @ [splitter]))) (with_fs f m mach) =
        Some (True, of_nat (length ((xs @ n @ [splitter]) @ collected d ns)), with_fs g m' (with_fs f m mach)) \<and> fs_inv g D \<and> disk g = d \<and>
      load_bytes m' (t_temp loc) 128 = ((xs @ n @ [splitter]) @ collected d ns) @ replicate (128 - length ((xs @ n @ [splitter]) @ collected d ns)) 0 \<and>
      kept_outside (tree_areas loc) m m'"
      using Cons.IH [of "with_fs f m mach" pc "xs @ n @ [splitter]"] f l n(3) pD Cons.prems(5) False unfolding d_def [symmetric] col by simp
    ultimately show ?thesis using step False kept_trans [OF kept] unfolding d_def [symmetric] col by auto
  qed
qed


text \<open>What the prompt shows: a backslash before each name, and for the root its own name.\<close>

definition prompt_path :: "image \<Rightarrow> u8 list list \<Rightarrow> u8 list" where
  "prompt_path d ns = (if ns = [] then own_name d 2 else segments (rev ns))"

lemma segments_append: "segments (ms @ ns) = segments ms @ segments ns"
  by (simp add: segments_def)

lemma rev_names: "rev (concat (map (\<lambda>n. n @ [splitter]) ns)) = segments (map rev (rev ns))"
  by (induction ns) (simp_all add: segments_append)

lemma length_segments: "length (segments ns) = length (concat (map (\<lambda>n. n @ [splitter]) (rev ns)))"
  by (induction ns) simp_all

lemma climbs_ok: "climbs d c ns \<Longrightarrow> list_all segment_ok ns"
  by (induction ns arbitrary: c) auto

lemma reverse_path:
  assumes "climbs d c ns" and "ns = [] \<longrightarrow> segment_ok (own_name d 2)" and "unat p + length (collected d ns @ 0 # zs) < 2 ^ 32" and "0 < unat p"
  shows "reverse_names (store_bytes m p (rev (collected d ns) @ 0 # zs)) p (p + of_nat (length (collected d ns))) =
      Some (store_bytes m p (prompt_path d ns @ 0 # zs))" and "length (prompt_path d ns) = length (collected d ns)" and "0 \<notin> set (prompt_path d ns)"
proof -
  define n where "n = (if ns = [] then own_name d 2 else [])"
  have ok: "segment_ok n" "list_all segment_ok (rev ns)" using assms(2) climbs_ok [OF assms(1)] by (auto simp: n_def segment_ok_def list_all_iff)
  have p: "prompt_path d ns = n @ segments (rev ns)" and c: "rev (collected d ns) = rev n @ segments (map rev (rev ns))"
    by (simp_all add: prompt_path_def n_def collected_def rev_names del: rev_concat)
  show len: "length (prompt_path d ns) = length (collected d ns)" using c by (metis p length_append length_rev length_segments_rev)
  show "reverse_names (store_bytes m p (rev (collected d ns) @ 0 # zs)) p (p + of_nat (length (collected d ns))) =
      Some (store_bytes m p (prompt_path d ns @ 0 # zs))"
    using reverse_names_run [of p "[]" n "rev ns" zs m] ok assms(3,4) by (simp add: c p len [symmetric])
  show "0 \<notin> set (prompt_path d ns)" using ok segments_no_nul [of "map rev (rev ns)"] by (auto simp: p segment_ok_def segments_def list_all_iff splitter_def)
qed

lemma print_dir_tree_effect:
  assumes inv: "fs_inv (fsys (kern mach)) D" and c: "c \<in> D" and areas: "apart ((text_pointer, 128) # tree_areas loc)"
    and climb: "climbs (disk (fsys (kern mach))) c ns" and root: "ns = [] \<longrightarrow> segment_ok (own_name (disk (fsys (kern mach))) 2)"
    and room: "length (collected (disk (fsys (kern mach))) ns) < 128" and temp: "0 < unat (t_temp loc)" "unat (t_temp loc) + 128 < 2 ^ 32"
  shows "\<exists>f m. print_dir_tree bus lit loc c text_pointer mach = Some (with_fs f m mach) \<and>
    fs_inv f D \<and> disk f = disk (fsys (kern mach)) \<and> cstr m text_pointer (prompt_path (disk (fsys (kern mach))) ns) \<and>
    kept_outside ((text_pointer, 128) # tree_areas loc) (mem_of mach) m"
proof -
  define d where "d = disk (fsys (kern mach))"
  let ?T = "collected d ns" and ?p = "t_temp loc"
  let ?zs = "replicate (127 - length ?T) (0 :: u8)"
  have room': "length ?T < 128" using room by (simp add: d_def)
  have zs: "replicate (128 - length ?T) 0 = 0 # ?zs" using room' by (simp add: Suc_diff_le flip: replicate_Suc)
  have a: "apart (tree_areas loc)" "ranges_disjoint text_pointer 128 ?p 128" using areas by (simp_all add: apart_def tree_areas_def)
  define m0 where "m0 = store_bytes (mem_of mach) ?p (replicate 128 0)"
  have m0: "load_bytes m0 ?p 128 = [] @ replicate (128 - length []) 0" using load_store_bytes [of "replicate 128 (0 :: u8)" "mem_of mach" ?p] by (simp add: m0_def)
  obtain f m where names: "collect_names bus lit loc c 0 (with_fs (fsys (kern mach)) m0 mach) = Some (True, of_nat (length ?T), with_fs f m mach)"
    and f: "fs_inv f D" "disk f = d" and l: "load_bytes m ?p 128 = ?T @ 0 # ?zs"
    and kept: "kept_outside (tree_areas loc) m0 m"
    using collect_climb [of "with_fs (fsys (kern mach)) m0 mach" D c loc "[]" ns bus lit] inv c a(1) m0 climb room zs by (auto simp: d_def)
  have len: "unat ?p + length (?T @ 0 # ?zs) < 2 ^ 32" using temp room' by simp
  have turn: "swap_loop m ?p (?p + of_nat (length ?T) - 1) = Some (store_bytes m ?p (rev ?T @ 0 # ?zs))"
    using swap_loop_rev [of ?p "[]" ?T "0 # ?zs" m] len temp(1) store_self [of m ?p 128] by (simp add: l)
  note path = reverse_path [OF climb [folded d_def] root [folded d_def] len temp(1)]
  define m2 where "m2 = store_bytes m ?p (prompt_path d ns @ 0 # ?zs)"
  have "load_bytes m2 ?p 128 = prompt_path d ns @ 0 # ?zs"
    using load_store_bytes [of "prompt_path d ns @ 0 # ?zs" m ?p] path(2) room' by (simp add: m2_def)
  then have "load_bytes m2 ?p (length ?T) = prompt_path d ns"
    using cstr_in_buffer [of m2 ?p 128 "[]" "prompt_path d ns" ?zs] path(2,3) by (simp add: cstr_iff_load)
  moreover have "ranges_disjoint text_pointer (length ?T) ?p (length ?T)"
    using ranges_disjoint_part [OF a(2), of 0 "length ?T" 0 "length ?T"] room' by simp
  ultimately have copy: "fst (memcpy m2 text_pointer ?p (of_nat (length ?T))) = store_bytes m2 text_pointer (prompt_path d ns)"
    using memcpy_apart [of text_pointer "of_nat (length ?T)" ?p m2] room' by simp
  define m4 where "m4 = (store_bytes m2 text_pointer (prompt_path d ns))(text_pointer + of_nat (length ?T) := 0)"
  have m4: "m4 = store_bytes m2 text_pointer (prompt_path d ns @ [0])" using store_bytes_append [of "prompt_path d ns" "[0]" m2 text_pointer] path(2) room' by (simp add: m4_def store_one)
  have kept4: "kept_outside ((text_pointer, 128) # tree_areas loc) (mem_of mach) m4"
  proof -
    let ?A = "(text_pointer, 128) # tree_areas loc"
    have "kept_outside ?A (mem_of mach) m0" unfolding m0_def by (intro kept_store) (simp add: tree_areas_def)
    also have "kept_outside ?A m0 m" using kept by (rule kept_mono) auto
    also have "kept_outside ?A m m2" unfolding m2_def using path(2) room' by (intro kept_store) (simp add: tree_areas_def)
    also have "kept_outside ?A m2 m4" unfolding m4 using path(2) room' by (intro kept_store) simp
    finally show ?thesis .
  qed
  note m4
  moreover have small: "length (prompt_path d ns) < 2 ^ 32" using path(2) room' by simp
  moreover have "takeWhile (\<lambda>x. x \<noteq> 0) (prompt_path d ns) = prompt_path d ns" using path(3) by (auto simp: takeWhile_eq_all_conv)
  ultimately have "cstr m4 text_pointer (prompt_path d ns)" using cstr_store [OF small, of m2 text_pointer] by (simp only:)
  moreover have "print_dir_tree bus lit loc c text_pointer mach = Some (with_fs f m4 mach)"
    using names turn path(1) [of m] copy by (simp add: print_dir_tree_def m0_def m2_def m4_def)
  ultimately show ?thesis using f kept4 unfolding d_def [symmetric] by blast
qed

end
