(* ===== verification/Shell_Main.thy ===== *)
theory Shell_Main
  imports Shell_Commands Shell_Ps Shell_Prompt
begin

text \<open>
  The rest of the shell (\<open>src/src/user-shell.c\<close>): \<open>find\<close>, \<open>parseCommand\<close>, which takes the line apart and chooses the command, the input
  line read through system calls, and the main loop. The addresses of the local variables are parameters; a recursive function has them for each
  of its stack frames.
\<close>

section \<open>find\<close>

record find_locals =
  f_dirbuffer :: u32
  f_request :: u32
  f_retval :: u32
  f_trimmed :: u32
  f_output :: u32
  f_new_path :: u32
  f_tree :: tree_locals

text \<open>Trailing blanks become NUL, from the last character on.\<close>

partial_function (option) trim_end :: "mem \<Rightarrow> u32 \<Rightarrow> u32 \<Rightarrow> mem option" where
  "trim_end m start end1 = (if start < end1 \<and> m end1 = 32 then trim_end (m(end1 := 0)) start (end1 - 1) else Some m)"

text \<open>A found directory: \<open>output\<close>, which nothing has initialised, is printed for each entry.\<close>

fun find_output :: "'d bus \<Rightarrow> u32 \<Rightarrow> u32 \<Rightarrow> nat list \<Rightarrow> 'd machine \<Rightarrow> 'd machine option" where
  "find_output bus table output [] mach = Some mach"
| "find_output bus table output (j # js) mach =
     (if mem_of mach (name_at table j) \<noteq> 0 then Option.bind (shell_puts bus output 0xF mach) (find_output bus table output js)
      else find_output bus table output js mach)"

text \<open>The loop over the entries; \<open>rec\<close> is the recursive call, with the cluster and the path.\<close>

fun find_entries ::
  "'d bus \<Rightarrow> (string \<Rightarrow> u32) \<Rightarrow> find_locals \<Rightarrow> (u16 \<Rightarrow> u32 \<Rightarrow> 'd machine \<Rightarrow> (bool \<times> 'd machine) option) \<Rightarrow> u32 \<Rightarrow> u32 \<Rightarrow> u32 \<Rightarrow> nat list \<Rightarrow> 'd machine \<Rightarrow> (bool \<times> 'd machine) option" where
  "find_entries bus lit loc rec name found_path found_path_len [] mach = Some (False, mach)"
| "find_entries bus lit loc rec name found_path found_path_len (i # is) mach =
     do { m \<leftarrow> Some (fst (memcpy (mem_of mach) (f_trimmed loc) (name_at (f_dirbuffer loc) i) 11));
          m \<leftarrow> Some (m(f_trimmed loc + 11 := 0));
          n \<leftarrow> strlen m (f_trimmed loc);
          m \<leftarrow> trim_end m (f_trimmed loc) (f_trimmed loc + n - 1);
          mach \<leftarrow> Some (with_mem m mach);
          e \<leftarrow> Some (entry_at (mem_of mach) (f_dirbuffer loc) i);
          r \<leftarrow> strcmp (mem_of mach) (f_trimmed loc) name;
          if r = 0 then
            do { mach \<leftarrow> print_dir_tree bus lit (f_tree loc) (entry_cluster e) found_path mach;
                 if e_attribute (entry_at (mem_of mach) (f_dirbuffer loc) i) AND 0x10 \<noteq> 0 then
                   do { mach \<leftarrow> shell_puts bus (f_output loc) 0xF mach;
                        mach \<leftarrow> find_output bus (f_dirbuffer loc) (f_output loc) [2..<64] mach;
                        Some (True, mach) }
                 else Some (True, mach) }
          else if e_attribute e AND 0x10 \<noteq> 0 then
            do { n \<leftarrow> strlen (mem_of mach) found_path;
                 m \<leftarrow> Some (fst (memcpy (mem_of mach) (f_new_path loc) found_path n));
                 (m, found_path_len) \<leftarrow>
                   (if found_path_len > 0 \<and> m (found_path + (found_path_len - 1)) \<noteq> 47 then
                      do { (m, _) \<leftarrow> strcat m (f_new_path loc) (lit ''/''); Some (m, found_path_len + 1) }
                    else Some (m, found_path_len));
                 name_len \<leftarrow> strlen m (name_at (f_dirbuffer loc) i);
                 if found_path_len + name_len < 256 then
                   do { (m, _) \<leftarrow> strcat m (f_new_path loc) (name_at (f_dirbuffer loc) i);
                        (found, mach) \<leftarrow> rec (ucast (entry_cluster (entry_at m (f_dirbuffer loc) i))) (f_new_path loc) (with_mem m mach);
                        if found then
                          do { n \<leftarrow> strlen (mem_of mach) (f_new_path loc);
                               m \<leftarrow> Some (fst (memcpy (mem_of mach) found_path (f_new_path loc) (n + 1)));
                               Some (True, with_mem m mach) }
                        else find_entries bus lit loc rec name found_path found_path_len is mach }
                 else find_entries bus lit loc rec name found_path found_path_len is (with_mem m mach) }
          else find_entries bus lit loc rec name found_path found_path_len is mach }"

text \<open>
  \<open>find_in_directory\<close>; the first argument is the number of stack frames that are left, and \<open>loc\<close> the locals of each. Without one the stack
  overflows: \<^const>\<open>None\<close>.
\<close>

primrec find_in_directory ::
  "nat \<Rightarrow> 'd bus \<Rightarrow> (string \<Rightarrow> u32) \<Rightarrow> (nat \<Rightarrow> find_locals) \<Rightarrow> u16 \<Rightarrow> u32 \<Rightarrow> u32 \<Rightarrow> 'd machine \<Rightarrow> (bool \<times> 'd machine) option" where
  "find_in_directory 0 bus lit loc parent_cluster name found_path mach = None"
| "find_in_directory (Suc k) bus lit loc parent_cluster name found_path mach =
     do { root \<leftarrow> strcmp (mem_of mach) name (lit ''/'');
          empty \<leftarrow> strcmp (mem_of mach) name (lit '''');
          if root = 0 \<or> empty = 0 then
            do { (m, _) \<leftarrow> strcpy (mem_of mach) found_path (lit ''/''); Some (True, with_mem m mach) }
          else
            do { mach \<leftarrow> Some (with_mem (init_request (f_request (loc k)) (f_dirbuffer (loc k)) dot_name (ucast parent_cluster) 0 (mem_of mach)) mach);
                 mach \<leftarrow> shell_syscall bus 1 (f_request (loc k)) (f_retval (loc k)) 0 mach;
                 if mem_of mach (f_retval (loc k)) \<noteq> 0 then Some (False, mach)
                 else
                   do { n \<leftarrow> strlen (mem_of mach) found_path;
                        find_entries bus lit (loc k) (\<lambda>cluster path. find_in_directory k bus lit loc cluster name path) name found_path n [2..<64] mach } } }"

definition find_command ::
  "nat \<Rightarrow> 'd bus \<Rightarrow> (string \<Rightarrow> u32) \<Rightarrow> (nat \<Rightarrow> find_locals) \<Rightarrow> u32 \<Rightarrow> u32 \<Rightarrow> u32 \<Rightarrow> u16 \<Rightarrow> 'd machine \<Rightarrow> 'd machine option" where
  "find_command k bus lit loc name found_path buffer parent_cluster mach =
     do { m \<leftarrow> Some (fst (memcpy (mem_of mach) name (buffer + 5) 255));
          m \<leftarrow> Some (m(name + 255 := 0));
          m \<leftarrow> Some (store_bytes m found_path (replicate 256 0));
          (found, mach) \<leftarrow> find_in_directory k bus lit loc parent_cluster name found_path (with_mem m mach);
          if found then shell_puts bus found_path 0x2 mach else shell_puts bus (lit ''Not found'') 0x4 mach }"

section \<open>The choice of the command\<close>

text \<open>The addresses of the locals of each branch, in the order in which the definitions of the commands have them.\<close>

record shell_locals =
  l_cd :: "u32 \<times> u32 \<times> u32"
  l_ls :: "u32 \<times> u32 \<times> u32"
  l_mkdir :: "u32 \<times> u32 \<times> u32"
  l_cat :: "u32 \<times> u32 \<times> u32"
  l_cp :: "u32 \<times> u32 \<times> u32 \<times> u32 \<times> u32 \<times> u32"
  l_rm :: "(u32 \<times> u32 \<times> u32) \<times> u32 \<times> u32 \<times> u32"
  l_mv :: "u32 \<times> u32 \<times> u32 \<times> u32"
  l_find :: "u32 \<times> u32"
  l_frames :: "nat \<Rightarrow> find_locals"
  l_depth :: nat
  l_ps :: ps_locals

definition is_command :: "(string \<Rightarrow> u32) \<Rightarrow> mem \<Rightarrow> u32 \<Rightarrow> string \<Rightarrow> bool option" where
  "is_command lit m command s = map_option (\<lambda>r. r = 0) (strcmp m command (lit s))"

text \<open>
  The chain of \<open>else if\<close>. Some branches compare the first token, some the first characters of the buffer. The comparison with \<open>exec\<close> has no
  \<open>== 0\<close>: any other word does nothing, and \<open>exec\<close> is not found.
\<close>

definition dispatch ::
  "'d bus \<Rightarrow> (string \<Rightarrow> u32) \<Rightarrow> shell_locals \<Rightarrow> u32 \<Rightarrow> u32 \<Rightarrow> u32 \<Rightarrow> u16 \<Rightarrow> shell_globals \<Rightarrow> 'd machine \<Rightarrow> (u16 \<times> shell_globals \<times> 'd machine) option" where
  "dispatch bus lit loc buffer command argument parent_cluster g mach =
     (let same = is_command lit (mem_of mach) command;
          starts = (\<lambda>s n. memcmp (mem_of mach) buffer (lit s) n = 0);
          stay = map_option (\<lambda>mach. (parent_cluster, g, mach)) in
      do { cd \<leftarrow> same ''cd'';
           if cd then (case l_cd loc of (dirbuffer, req, ret) \<Rightarrow> cd_command bus lit dirbuffer req ret buffer argument parent_cluster g mach)
           else do { ls \<leftarrow> same ''ls'';
           if ls then (case l_ls loc of (dtable, request, retval) \<Rightarrow> stay (ls_command bus lit dtable request retval argument parent_cluster mach))
           else if starts ''mkdir'' 5 then
             (case l_mkdir loc of (folder_name, request, retcode) \<Rightarrow> stay (mkdir_command bus lit folder_name request retcode buffer parent_cluster mach))
           else do { cat \<leftarrow> same ''cat'';
           if cat then (case l_cat loc of (cl_b, request, retcode) \<Rightarrow> stay (cat_command bus lit cl_b request retcode argument parent_cluster mach))
           else if starts ''cp'' 2 then
             (case l_cp loc of (clusbuff, request, retcode, request2, retcode2, table) \<Rightarrow>
                stay (cp_command bus lit clusbuff request retcode request2 retcode2 table buffer parent_cluster mach))
           else do { rm \<leftarrow> same ''rm'';
           if rm then
             (case l_rm loc of (sub, found_path, req, retval) \<Rightarrow> stay (rm_command bus lit sub found_path req retval argument parent_cluster mach))
           else do { mv \<leftarrow> same ''mv'';
           if mv then
             (case l_mv loc of (clusbuff, request, retcode, request2) \<Rightarrow>
                stay (mv_command bus lit clusbuff request retcode request2 argument buffer parent_cluster mach))
           else if starts ''find'' 4 then
             (case l_find loc of (name, found_path) \<Rightarrow>
                stay (find_command (l_depth loc) bus lit (l_frames loc) name found_path buffer parent_cluster mach))
           else do { ps \<leftarrow> same ''ps'';
           if ps then stay (ps_command bus lit (l_ps loc) mach)
           else do { exec \<leftarrow> same ''exec'';
           if \<not> exec then Some (parent_cluster, g, mach)
           else stay (shell_puts bus (lit ''Command not found'') 0x4 mach) } } } } } } })"

text \<open>\<open>parseCommand\<close>: two calls of \<open>strtok\<close>, whose static variable is one of the globals, and the choice.\<close>

definition parse_command ::
  "'d bus \<Rightarrow> (string \<Rightarrow> u32) \<Rightarrow> shell_locals \<Rightarrow> u32 \<Rightarrow> u16 \<Rightarrow> shell_globals \<Rightarrow> 'd machine \<Rightarrow> (u16 \<times> shell_globals \<times> 'd machine) option" where
  "parse_command bus lit loc buffer parent_cluster g mach =
     do { (m, tok, command) \<leftarrow> strtok (mem_of mach) (next_token g) buffer (lit '' '');
          (m, tok, argument) \<leftarrow> strtok m tok 0 (lit '' '');
          dispatch bus lit loc buffer command argument parent_cluster (g\<lparr>next_token := tok\<rparr>) (with_mem m mach) }"

section \<open>The main loop\<close>

text \<open>
  \<open>handleInput\<close> with its system calls; \<open>evs\<close> is what the rest of the machine does before each poll, such as the interrupts of keyboard and
  timer. As in \<^const>\<open>handleInput\<close>, polls that run out without a newline leave it waiting.
\<close>

fun handle_input ::
  "'d bus \<Rightarrow> u32 \<Rightarrow> u32 \<Rightarrow> nat \<Rightarrow> ('d machine \<Rightarrow> 'd machine option) list \<Rightarrow> 'd machine \<Rightarrow> (nat \<times> 'd machine) option" where
  "handle_input bus inputBuffer charBuffer inputLength [] mach = None"
| "handle_input bus inputBuffer charBuffer inputLength (ev # evs) mach =
     do { mach \<leftarrow> ev mach;
          mach \<leftarrow> shell_syscall bus 4 charBuffer 0 0 mach;
          c \<leftarrow> Some (mem_of mach charBuffer);
          if c \<noteq> 0 then
            if c = 10 then do { mach \<leftarrow> shell_syscall bus 5 charBuffer 0xF 0 mach; Some (inputLength, mach) }
            else if c = 8 then
              if inputLength > 0 then
                do { mach \<leftarrow> Some (with_mem ((mem_of mach)(inputBuffer + of_nat inputLength := 0)) mach);
                     mach \<leftarrow> shell_syscall bus 5 charBuffer 0xF 0 mach;
                     handle_input bus inputBuffer charBuffer (inputLength - 1) evs mach }
              else handle_input bus inputBuffer charBuffer inputLength evs mach
            else if inputLength < SHELL_MAX_LENGTH - 1 then
              do { mach \<leftarrow> shell_syscall bus 5 charBuffer 0xF 0 mach;
                   mach \<leftarrow> Some (with_mem ((mem_of mach)(inputBuffer + of_nat inputLength := mem_of mach charBuffer)) mach);
                   handle_input bus inputBuffer charBuffer (inputLength + 1) evs mach }
            else handle_input bus inputBuffer charBuffer inputLength evs mach
          else handle_input bus inputBuffer charBuffer inputLength evs mach }"

text \<open>
  One turn of the loop of \<open>shell\<close>. \<open>clearBuffer\<close> fills an array with zeros (\<^theory_text>\<open>clearBuffer_all\<close>). \<open>bufs\<close> holds the addresses of
  \<open>inputBuffer\<close>, \<open>current_dir\<close> and of \<open>charBuffer\<close>.
\<close>

definition shell_turn ::
  "'d bus \<Rightarrow> (string \<Rightarrow> u32) \<Rightarrow> shell_locals \<Rightarrow> tree_locals \<Rightarrow> u32 \<times> u32 \<times> u32 \<Rightarrow> ('d machine \<Rightarrow> 'd machine option) list \<Rightarrow>
   u16 \<times> shell_globals \<times> 'd machine \<Rightarrow> (u16 \<times> shell_globals \<times> 'd machine) option" where
  "shell_turn bus lit loc tree bufs evs st =
     (case (bufs, st) of ((inputBuffer, current_dir, charBuffer), current_cluster_pos, g, mach) \<Rightarrow>
      do { mach \<leftarrow> Some (with_mem (store_bytes (mem_of mach) current_dir (replicate (SHELL_MAX_LENGTH div 2) 0)) mach);
           mach \<leftarrow> print_dir_tree bus lit tree (ucast current_cluster_pos) current_dir mach;
           mach \<leftarrow> shell_puts bus (lit ''BEBAS@OS-IF2230>'') 0x05 mach;
           mach \<leftarrow> shell_puts bus current_dir 0xF mach;
           mach \<leftarrow> shell_puts bus (lit ''$'') 0x2 mach;
           mach \<leftarrow> Some (with_mem (store_bytes (mem_of mach) inputBuffer (replicate SHELL_MAX_LENGTH 0)) mach);
           mach \<leftarrow> shell_syscall bus 7 0 0 0 mach;
           (_, mach) \<leftarrow> handle_input bus inputBuffer charBuffer 0 evs mach;
           mach \<leftarrow> shell_syscall bus 8 0 0 0 mach;
           (current_cluster_pos, g, mach) \<leftarrow> parse_command bus lit loc inputBuffer current_cluster_pos g mach;
           mach \<leftarrow> shell_puts bus (lit ''\<newline>'') 0x0 mach;
           Some (current_cluster_pos, g, mach) })"

text \<open>\<open>shell\<close> never returns; these are its first turns, with what happens before each poll of each turn.\<close>

fun shell_turns ::
  "'d bus \<Rightarrow> (string \<Rightarrow> u32) \<Rightarrow> shell_locals \<Rightarrow> tree_locals \<Rightarrow> u32 \<times> u32 \<times> u32 \<Rightarrow> ('d machine \<Rightarrow> 'd machine option) list list \<Rightarrow>
   u16 \<times> shell_globals \<times> 'd machine \<Rightarrow> (u16 \<times> shell_globals \<times> 'd machine) option" where
  "shell_turns bus lit loc tree bufs [] st = Some st"
| "shell_turns bus lit loc tree bufs (evs # rest) st =
     Option.bind (shell_turn bus lit loc tree bufs evs st) (shell_turns bus lit loc tree bufs rest)"

definition shell ::
  "'d bus \<Rightarrow> (string \<Rightarrow> u32) \<Rightarrow> shell_locals \<Rightarrow> tree_locals \<Rightarrow> u32 \<times> u32 \<times> u32 \<Rightarrow> ('d machine \<Rightarrow> 'd machine option) list list \<Rightarrow>
   shell_globals \<Rightarrow> 'd machine \<Rightarrow> (u16 \<times> shell_globals \<times> 'd machine) option" where
  "shell bus lit loc tree bufs turns g mach =
     shell_turns bus lit loc tree bufs turns (2, g\<lparr>clusters := (clusters g)[0 := ROOT_CLUSTER_NUMBER]\<rparr>, mach)"

end
