(* ===== verification/Shell_Theorems.thy ===== *)
theory Shell_Theorems
  imports Shell_Main
begin

text \<open>
  What a typed line does: the lemmas take \<open>parseCommand\<close> (\<open>src/src/user-shell.c\<close>) apart into the tokens of the line and the choice of the command,
  and the properties follow the line from the buffer through the system call to the disk and the screen. The witnesses run the shell on a concrete
  machine: a freshly formatted disk, the screen of the kernel, and a memory with the line and the literals.
\<close>

section \<open>The tokens of a line\<close>

definition command_words :: "string list" where
  "command_words = [''cd'', ''ls'', ''mkdir'', ''cat'', ''cp'', ''rm'', ''mv'', ''find'', ''ps'', ''exec'']"

lemma literals_subset: "literals lit m areas ss \<Longrightarrow> set ss' \<subseteq> set ss \<Longrightarrow> literals lit m areas ss'"
  by (auto simp: literals_def list_all_iff)

lemma literals_fewer_areas: "literals lit m areas ss \<Longrightarrow> set areas' \<subseteq> set areas \<Longrightarrow> literals lit m areas' ss"
  by (auto simp: literals_def list_all_iff)

text \<open>A line with one argument: the blank becomes a NUL, and the argument is the text behind it.\<close>

lemma parse_two_words:
  assumes line: "load_bytes (mem_of mach) buffer 256 = cmd @ 32 # arg @ 0 # post"
    and words: "{0, 32} \<inter> (set cmd \<union> set arg) = {}"
    and buffer: "buffer \<noteq> 0" "buffer + of_nat (Suc (length cmd)) \<noteq> 0"
    and lit: "cstr (mem_of mach) (lit '' '') [32]" "lit '' '' \<noteq> 0" "no_wrap (lit '' '') 1" "ranges_disjoint (lit '' '') 2 buffer 256"
  shows "\<exists>tok. parse_command bus lit loc buffer pc g mach =
    dispatch bus lit loc buffer buffer (buffer + of_nat (Suc (length cmd))) pc (g\<lparr>next_token := tok\<rparr>)
      (with_mem (store_bytes (mem_of mach) buffer (cmd @ 0 # arg @ 0 # post)) mach)"
proof -
  let ?m = "mem_of mach" and ?k = "length cmd"
  define m1 where "m1 = store_bytes ?m buffer (cmd @ 0 # arg @ 0 # post)"
  have len: "length (cmd @ 32 # arg @ 0 # post) = 256" using line by (metis length_load_bytes)
  have z: "0 \<notin> set cmd" "0 \<notin> set arg" "32 \<notin> set cmd" "32 \<notin> set arg" using words by auto
  have s: "cstr ?m buffer (cmd @ 32 # arg)" using cstr_in_buffer [of ?m buffer 256 "[]" "cmd @ 32 # arg" post] line z by simp
  have tw: "takeWhile (\<lambda>x. x \<noteq> 32) (cmd @ 32 # arg) = cmd" using z(3) by (simp add: takeWhile_append2 takeWhile_append)
  have m1': "?m(buffer + of_nat ?k := 0) = m1"
  proof -
    have "store_bytes ?m buffer ((cmd @ 32 # arg @ 0 # post)[?k := 0]) = (store_bytes ?m buffer (cmd @ 32 # arg @ 0 # post))(buffer + of_nat ?k := 0)"
      using len by (intro store_update [symmetric]) simp_all
    moreover have "store_bytes ?m buffer (cmd @ 32 # arg @ 0 # post) = ?m" using store_self [of ?m buffer 256] by (simp only: line)
    ultimately show ?thesis by (simp add: m1_def)
  qed
  have first: "strtok ?m (next_token g) buffer (lit '' '') = Some (m1, buffer + of_nat (Suc ?k), buffer)"
    using strtok_scan_cstr [OF s lit(1,2)] lit(3) buffer(1) m1' by (simp add: strtok_def Let_def tw ac_simps)
  have s1: "cstr m1 (buffer + of_nat (Suc ?k)) arg"
    using cstr_in_buffer [of m1 buffer 256 "cmd @ [0]" arg post] load_store_bytes [of "cmd @ 0 # arg @ 0 # post" ?m buffer] len z by (simp add: m1_def)
  have lit1: "cstr m1 (lit '' '') [32]" unfolding m1_def
    using lit(1) lit(4) len by (intro cstr_store_apart) (simp_all add: numeral_2_eq_2)
  have tw1: "takeWhile (\<lambda>x. x \<noteq> 32) arg = arg" using z by (auto simp: takeWhile_eq_all_conv)
  have second: "strtok m1 (buffer + of_nat (Suc ?k)) 0 (lit '' '') = Some (m1, buffer + of_nat (Suc ?k) + of_nat (length arg), buffer + of_nat (Suc ?k))"
    using strtok_scan_cstr [OF s1 lit1 lit(2)] lit(3) buffer(2) by (simp add: strtok_def Let_def tw1)
  show ?thesis using first second unfolding m1_def [symmetric] by (auto simp: parse_command_def simp del: with_fs_simps)
qed

text \<open>A line of one word: the argument is empty.\<close>

lemma parse_one_word:
  assumes s: "cstr (mem_of mach) buffer cmd" and words: "32 \<notin> set cmd"
    and buffer: "buffer \<noteq> 0" "buffer + of_nat (length cmd) \<noteq> 0"
    and lit: "cstr (mem_of mach) (lit '' '') [32]" "lit '' '' \<noteq> 0" "no_wrap (lit '' '') 1"
  shows "parse_command bus lit loc buffer pc g mach =
    dispatch bus lit loc buffer buffer (buffer + of_nat (length cmd)) pc (g\<lparr>next_token := buffer + of_nat (length cmd)\<rparr>) mach"
proof -
  have tw: "takeWhile (\<lambda>x. x \<noteq> 32) cmd = cmd" using words by (auto simp: takeWhile_eq_all_conv)
  have s1: "cstr (mem_of mach) (buffer + of_nat (length cmd)) []" using s by (simp add: cstr_iff_load)
  have "strtok (mem_of mach) (next_token g) buffer (lit '' '') = Some (mem_of mach, buffer + of_nat (length cmd), buffer)"
    using strtok_scan_cstr [OF s lit(1,2)] lit(3) buffer(1) by (simp add: strtok_def Let_def tw)
  moreover have "strtok (mem_of mach) (buffer + of_nat (length cmd)) 0 (lit '' '') = Some (mem_of mach, buffer + of_nat (length cmd), buffer + of_nat (length cmd))"
    using strtok_scan_cstr [OF s1 lit(1,2)] lit(3) buffer(2) by (simp add: strtok_def Let_def)
  ultimately show ?thesis by (simp add: parse_command_def with_fs_self)
qed

section \<open>The choice of the command\<close>

lemma is_command_word: "cstr m command cmd \<Longrightarrow> cstr m (lit s) (bytes_of s) \<Longrightarrow> is_command lit m command s = Some (cmd = bytes_of s)"
  using strcmp_cstr [of m command cmd "lit s" "bytes_of s"] by (auto simp: is_command_def)

lemma starts_with:
  assumes "cstr m buffer cmd" and "cstr m (lit s) (bytes_of s)" and "n = of_nat k" and "length s = k" and "k < 2 ^ 32"
  shows "memcmp m buffer (lit s) n = 0 \<longleftrightarrow> take k cmd = bytes_of s"
proof -
  have n: "unat n = k" using assms(3,5) by simp
  have l: "load_bytes m (lit s) k = bytes_of s" "length (bytes_of s) = k" "0 \<notin> set (bytes_of s)"
    using assms(2) using assms(4) by (simp_all add: cstr_iff_load bytes_of_def)
  have "load_bytes m buffer k = bytes_of s \<longleftrightarrow> take k cmd = bytes_of s"
  proof
    assume "load_bytes m buffer k = bytes_of s"
    moreover have "takeWhile (\<lambda>c. c \<noteq> 0) (bytes_of s) = bytes_of s" using l(3) unfolding takeWhile_eq_all_conv by auto
    ultimately show "take k cmd = bytes_of s" using takeWhile_load [OF assms(1), of "k"] by metis
  next
    assume t: "take k cmd = bytes_of s"
    then have "k \<le> length cmd" using l(2) by (metis length_take min.cobounded1 min.commute)
    then show "load_bytes m buffer k = bytes_of s"
      using assms(1) t by (simp add: cstr_iff_load) (metis take_load_bytes)
  qed
  then show ?thesis using l(1,2) by (simp add: memcmp_eq n memcmp_bytes_eq_0_iff)
qed

lemma dispatch_word:
  assumes s: "cstr (mem_of mach) buffer cmd" and lits: "literals lit (mem_of mach) areas command_words"
  shows "dispatch bus lit loc buffer buffer argument pc g mach =
    (let stay = map_option (\<lambda>mach. (pc, g, mach)) in
     if cmd = bytes_of ''cd'' then (case l_cd loc of (dirbuffer, req, ret) \<Rightarrow> cd_command bus lit dirbuffer req ret buffer argument pc g mach)
     else if cmd = bytes_of ''ls'' then (case l_ls loc of (dtable, request, retval) \<Rightarrow> stay (ls_command bus lit dtable request retval argument pc mach))
     else if take 5 cmd = bytes_of ''mkdir'' then
       (case l_mkdir loc of (folder_name, request, retcode) \<Rightarrow> stay (mkdir_command bus lit folder_name request retcode buffer pc mach))
     else if cmd = bytes_of ''cat'' then (case l_cat loc of (cl_b, request, retcode) \<Rightarrow> stay (cat_command bus lit cl_b request retcode argument pc mach))
     else if take 2 cmd = bytes_of ''cp'' then
       (case l_cp loc of (clusbuff, request, retcode, request2, retcode2, table) \<Rightarrow>
          stay (cp_command bus lit clusbuff request retcode request2 retcode2 table buffer pc mach))
     else if cmd = bytes_of ''rm'' then
       (case l_rm loc of (sub, found_path, req, retval) \<Rightarrow> stay (rm_command bus lit sub found_path req retval argument pc mach))
     else if cmd = bytes_of ''mv'' then
       (case l_mv loc of (clusbuff, request, retcode, request2) \<Rightarrow> stay (mv_command bus lit clusbuff request retcode request2 argument buffer pc mach))
     else if take 4 cmd = bytes_of ''find'' then
       (case l_find loc of (name, found_path) \<Rightarrow> stay (find_command (l_depth loc) bus lit (l_frames loc) name found_path buffer pc mach))
     else if cmd = bytes_of ''ps'' then stay (ps_command bus lit (l_ps loc) mach)
     else if cmd \<noteq> bytes_of ''exec'' then Some (pc, g, mach)
     else stay (shell_puts bus (lit ''Command not found'') 0x4 mach))"
proof -
  have word: "is_command lit (mem_of mach) buffer s = Some (cmd = bytes_of s)" if "s \<in> set command_words" for s
    using is_command_word [of "mem_of mach" buffer cmd lit s] assms(1) literal_at [OF assms(2) that] by blast
  have start: "memcmp (mem_of mach) buffer (lit ''mkdir'') 5 = 0 \<longleftrightarrow> take 5 cmd = bytes_of ''mkdir''"
    "memcmp (mem_of mach) buffer (lit ''cp'') 2 = 0 \<longleftrightarrow> take 2 cmd = bytes_of ''cp''"
    "memcmp (mem_of mach) buffer (lit ''find'') 4 = 0 \<longleftrightarrow> take 4 cmd = bytes_of ''find''"
    using starts_with [of "mem_of mach" buffer cmd lit "''mkdir''" 5 5] starts_with [of "mem_of mach" buffer cmd lit "''cp''" 2 2]
      starts_with [of "mem_of mach" buffer cmd lit "''find''" 4 4] s literal_at [OF lits] by (simp_all add: command_words_def)
  show ?thesis unfolding dispatch_def Let_def start by (simp add: word command_words_def)
qed


text \<open>The line \<open>cmd arg\<close> in the buffer, and the string of delimiters at a place that can be searched.\<close>

definition typed :: "(string \<Rightarrow> u32) \<Rightarrow> mem \<Rightarrow> u32 \<Rightarrow> u8 list \<Rightarrow> u8 list \<Rightarrow> u8 list \<Rightarrow> bool" where
  "typed lit m buffer cmd arg post \<longleftrightarrow> load_bytes m buffer 256 = cmd @ 32 # arg @ 0 # post \<and> {0, 32} \<inter> (set cmd \<union> set arg) = {} \<and>
     buffer \<noteq> 0 \<and> buffer + of_nat (Suc (length cmd)) \<noteq> 0 \<and> lit '' '' \<noteq> 0 \<and> no_wrap (lit '' '') 1"

lemma parse_typed:
  assumes line: "typed lit (mem_of mach) buffer cmd arg post"
    and lits: "literals lit (mem_of mach) ((buffer, 256) # areas) ('' '' # command_words @ msgs)"
  obtains tok m where "parse_command bus lit loc buffer pc g mach =
      dispatch bus lit loc buffer buffer (buffer + of_nat (Suc (length cmd))) pc (g\<lparr>next_token := tok\<rparr>) (with_fs (fsys (kern mach)) m mach)"
    and "cstr m buffer cmd" and "load_bytes m buffer 256 = cmd @ 0 # arg @ 0 # post" and "cstr m (buffer + of_nat (Suc (length cmd))) arg"
    and "literals lit m ((buffer, 256) # areas) command_words" and "literals lit m ((buffer, 256) # areas) msgs"
    and "kept_outside [(buffer, 256)] (mem_of mach) m"
proof -
  define m where "m = store_bytes (mem_of mach) buffer (cmd @ 0 # arg @ 0 # post)"
  have len: "length (cmd @ 0 # arg @ 0 # post) = 256" using line length_load_bytes [of "mem_of mach" buffer 256] by (simp add: typed_def)
  have z: "0 \<notin> set cmd" "0 \<notin> set arg" using line by (auto simp: typed_def)
  have blank: "bytes_of '' '' = [32]" by (simp add: bytes_of_def)
  have c: "cstr (mem_of mach) (lit '' '') [32]" using literal_at [OF lits, of "'' ''"] blank by simp
  have d: "ranges_disjoint (lit '' '') 2 buffer 256" using lits by (simp add: literals_def numeral_2_eq_2)
  obtain tok where p: "parse_command bus lit loc buffer pc g mach =
      dispatch bus lit loc buffer buffer (buffer + of_nat (Suc (length cmd))) pc (g\<lparr>next_token := tok\<rparr>) (with_fs (fsys (kern mach)) m mach)"
    using parse_two_words [of mach buffer cmd arg post lit bus loc pc g] line c d unfolding typed_def m_def by auto
  have l: "load_bytes m buffer 256 = cmd @ 0 # arg @ 0 # post"
    using load_store_bytes [of "cmd @ 0 # arg @ 0 # post" "mem_of mach" buffer] len by (simp add: m_def)
  have s: "cstr m buffer cmd" using cstr_in_buffer [of m buffer 256 "[]" cmd "arg @ 0 # post"] l z by simp
  have a: "cstr m (buffer + of_nat (Suc (length cmd))) arg" using cstr_in_buffer [of m buffer 256 "cmd @ [0]" arg post] l z by simp
  have "literals lit m ((buffer, 256) # areas) ('' '' # command_words @ msgs)" unfolding m_def using len by (intro literals_store [OF lits]) simp
  then have "literals lit m ((buffer, 256) # areas) command_words" "literals lit m ((buffer, 256) # areas) msgs" by (auto elim: literals_subset)
  moreover have "kept_outside [(buffer, 256)] (mem_of mach) m" unfolding m_def using len by (intro kept_store) simp
  ultimately show ?thesis using p s l a that by blast
qed

lemma command_result:
  assumes "x = map_option (\<lambda>mach. (pc, g\<lparr>next_token := tok\<rparr>, mach)) y" and "\<exists>mach'. y = Some mach' \<and> R mach'"
  shows "\<exists>mach' tok. x = Some (pc, g\<lparr>next_token := tok\<rparr>, mach') \<and> R mach'"
  using assms by auto

lemma apart_part: "apart ((p, n) # areas) \<Longrightarrow> i + k \<le> n \<Longrightarrow> apart ((p + of_nat i, k) # areas)"
  using ranges_disjoint_part [of p n _ _ i k 0] by (fastforce simp: apart_def)

text \<open>A line with \<open>cd\<close> and a path that can be followed, up to the push on the stack.\<close>

lemma cd_typed:
  assumes screen: "vga_crtc bus index reg" "shows_terminal reg (screen_of mach) t"
    and inv: "fs_inv (fsys (kern mach)) D" and p: "ucast pc \<in> D"
    and line: "typed lit (mem_of mach) buffer (bytes_of ''cd'') (path ns) (0 # post)"
    and walk: "walks (disk (fsys (kern mach))) (ucast pc) ns q"
    and ns: "list_all name_ok ns" "ns \<noteq> []" "length (last ns) < 8" "take 2 (path ns) \<noteq> [46, 46]" "\<not> list_all (\<lambda>c. c \<in> set (bytes_of blanks)) (path ns)"
    and loc: "l_cd loc = (dirbuffer, req, ret)"
    and areas: "apart ((buffer, 256) # cd_areas dirbuffer req ret)"
    and lits: "literals lit (mem_of mach) ((buffer, 256) # cd_areas dirbuffer req ret) ('' '' # command_words @ cd_literals)"
  shows "\<exists>tok c mach'. parse_command bus lit loc buffer pc g mach =
      do { cs \<leftarrow> put_at (clusters g) (unat (idx g + 1)) q; Some (c, g\<lparr>next_token := tok, idx := idx g + 1, clusters := cs\<rparr>, mach') } \<and>
    ucast c = q \<and> fs_inv (fsys (kern mach')) D \<and> disk (fsys (kern mach')) = disk (fsys (kern mach)) \<and>
    reports reg mach' ''Successfully changed directory.'' 0xF t"
proof (rule parse_typed [OF line lits, of bus loc pc g])
  fix tok m
  let ?mach = "with_fs (fsys (kern mach)) m mach" and ?arg = "buffer + of_nat (Suc (length (bytes_of ''cd'')))"
  assume run: "parse_command bus lit loc buffer pc g mach = dispatch bus lit loc buffer buffer ?arg pc (g\<lparr>next_token := tok\<rparr>) ?mach"
    and s: "cstr m buffer (bytes_of ''cd'')" and l: "load_bytes m buffer 256 = bytes_of ''cd'' @ 0 # path ns @ 0 # 0 # post"
    and words: "literals lit m ((buffer, 256) # cd_areas dirbuffer req ret) command_words"
    and msgs: "literals lit m ((buffer, 256) # cd_areas dirbuffer req ret) cd_literals"
  have b: "length (bytes_of ''cd'') = 2" by (simp add: bytes_of_def)
  have l': "load_bytes m buffer 256 = (bytes_of ''cd'' @ [0]) @ path ns @ 0 # 0 # post" using l by simp
  have ne: "buffer + 3 \<noteq> 0" using line b by (simp add: typed_def)
  have cd: "parse_command bus lit loc buffer pc g mach = cd_command bus lit dirbuffer req ret buffer (buffer + 3) pc (g\<lparr>next_token := tok\<rparr>) ?mach"
    unfolding run using dispatch_word [of ?mach buffer "bytes_of ''cd''" lit _ bus loc] s words b loc by (simp add: Let_def)
  obtain f m' c where reach: "cd_command bus lit dirbuffer req ret buffer (buffer + 3) pc (g\<lparr>next_token := tok\<rparr>) ?mach =
      do { cs \<leftarrow> put_at (clusters g) (unat (idx g + 1)) q;
           mach \<leftarrow> shell_puts bus (lit ''Successfully changed directory.'') 0xF (with_fs f m' mach);
           Some (c, g\<lparr>next_token := tok, idx := idx g + 1, clusters := cs\<rparr>, mach) }"
    and c: "ucast c = q" and f: "fs_inv f D" "disk f = disk (fsys (kern mach))" and lit': "literals lit m' (cd_areas dirbuffer req ret) cd_literals"
    using cd_reaches [where mach = ?mach and g = "g\<lparr>next_token := tok\<rparr>" and lit = lit, unfolded with_fs_simps,
        OF inv p walk ns l' _ ne areas literals_fewer_areas [OF msgs], of bus] b by auto
  obtain scr where say: "shell_puts bus (lit ''Successfully changed directory.'') 0xF (with_fs f m' mach) = Some (with_screen scr (with_fs f m' mach))"
    "reports reg (with_screen scr (with_fs f m' mach)) ''Successfully changed directory.'' (ucast (0xF :: u32)) t"
    using puts_literal [OF screen lit' _ changed_text, where f = f and color = "0xF"] by (auto simp: cd_literals_def)
  show ?thesis unfolding cd reach using say c f by (intro exI [of _ tok] exI [of _ c] exI [of _ "with_screen scr (with_fs f m' mach)"]) simp
qed

text \<open>A line with \<open>mkdir\<close> and a name, with what it leaves alone.\<close>

lemma mkdir_typed:
  assumes screen: "vga_crtc bus index reg" "shows_terminal reg (screen_of mach) t"
    and inv: "fs_inv (fsys (kern mach)) D" and p: "ucast pc \<in> D"
    and line: "typed lit (mem_of mach) buffer (bytes_of ''mkdir'') name post" "name \<noteq> []"
    and loc: "l_mkdir loc = (folder_name, request, retcode)"
    and areas: "apart ((buffer, 256) # mkdir_areas folder_name request retcode)"
    and lits: "literals lit (mem_of mach) ((buffer, 256) # mkdir_areas folder_name request retcode)
      ('' '' # command_words @ [''Folder created successfully'', ''Folder already exists''])"
    and free: "\<exists>i < 64. \<not> used (disk_dir (disk (fsys (kern mach))) (ucast pc) ! i)" "frees (disk_fat (disk (fsys (kern mach)))) 3 \<noteq> []"
    and key: "key = request_key (request_for 0 (take 8 name) 0)"
  shows "\<exists>mach' tok. parse_command bus lit loc buffer pc g mach = Some (pc, g\<lparr>next_token := tok\<rparr>, mach') \<and>
    mkdir_outcome reg t D (ucast pc) key (fsys (kern mach)) mach' \<and>
    kept_outside ((buffer, 256) # mkdir_areas folder_name request retcode) (mem_of mach) (mem_of mach')"
proof (rule parse_typed [OF line(1) lits, of bus loc pc g])
  fix tok m
  let ?mach = "with_fs (fsys (kern mach)) m mach"
  assume run: "parse_command bus lit loc buffer pc g mach = dispatch bus lit loc buffer buffer (buffer + of_nat (Suc (length (bytes_of ''mkdir'')))) pc (g\<lparr>next_token := tok\<rparr>) ?mach"
    and s: "cstr m buffer (bytes_of ''mkdir'')" and arg: "cstr m (buffer + of_nat (Suc (length (bytes_of ''mkdir'')))) name"
    and words: "literals lit m ((buffer, 256) # mkdir_areas folder_name request retcode) command_words"
    and msgs: "literals lit m ((buffer, 256) # mkdir_areas folder_name request retcode) [''Folder created successfully'', ''Folder already exists'']"
    and kept: "kept_outside [(buffer, 256)] (mem_of mach) m"
  have b: "bytes_of ''mkdir'' \<noteq> bytes_of ''cd''" "bytes_of ''mkdir'' \<noteq> bytes_of ''ls''" "take 5 (bytes_of ''mkdir'') = bytes_of ''mkdir''"
    "length (bytes_of ''mkdir'') = 5" by (simp_all add: bytes_of_def)
  have "parse_command bus lit loc buffer pc g mach =
      map_option (\<lambda>mach. (pc, g\<lparr>next_token := tok\<rparr>, mach)) (mkdir_command bus lit folder_name request retcode buffer pc ?mach)"
    unfolding run using dispatch_word [of ?mach buffer "bytes_of ''mkdir''" lit _ bus loc] s words b loc by (simp add: Let_def)
  then have "\<exists>mach' tok. parse_command bus lit loc buffer pc g mach = Some (pc, g\<lparr>next_token := tok\<rparr>, mach') \<and>
    mkdir_outcome reg t D (ucast pc) key (fsys (kern mach)) mach' \<and>
    kept_outside (mkdir_areas folder_name request retcode) m (mem_of mach')"
    by (rule command_result)
      (rule mkdir_effect [of bus index reg ?mach t D pc buffer name folder_name request retcode lit key, unfolded with_fs_simps,
        OF screen inv p _ line(2) areas literals_fewer_areas [OF msgs] free key], use arg b(4) in auto)
  moreover have "kept_outside ((buffer, 256) # mkdir_areas folder_name request retcode) (mem_of mach) m'" if "kept_outside (mkdir_areas folder_name request retcode) m m'" for m'
    by (rule kept_trans [OF kept_mono [OF kept] kept_mono [OF that]]) auto
  ultimately show ?thesis by blast
qed

section \<open>The prompt\<close>

text \<open>
  \<open>leads d p ns q\<close>: \<open>cd\<close> can follow the names \<open>ns\<close> from directory \<open>p\<close> to \<open>q\<close>, and each directory on the way calls itself by the name
  that its parent lists it under.
\<close>

fun leads :: "image \<Rightarrow> u32 \<Rightarrow> u8 list list \<Rightarrow> u32 \<Rightarrow> bool" where
  "leads d p [] q \<longleftrightarrow> q = p"
| "leads d p (n # ns) q \<longleftrightarrow> segment_ok n \<and> (\<exists>w. subdirectory d p n w \<and> own_name d w = n \<and> leads d w ns q)"

lemma subdirectory_parent:
  assumes "fs_ok d D" and "p \<in> D" and "subdirectory d p n w"
  shows "w \<in> D \<and> parent_of d w = p \<and> w \<noteq> p \<and> w \<noteq> 2"
proof -
  obtain x where x: "listing d p (pad8 n, x) = Some (Dir w)" "w \<noteq> p" "pad8 n \<noteq> fst dotdot_key" using assms(3) by (auto simp: subdirectory_def)
  have "(pad8 n, x) \<noteq> dotdot_key" using x(3) by (metis fst_conv)
  then obtain i where i: "i < 64" "is_subdir i (disk_dir d p ! i)" "entry_cluster (disk_dir d p ! i) = w"
    using listing_dir [OF assms(1,2) x(1)] x(2) by metis
  have w: "w \<in> D" "parent_of d w = p" using subdir_in_tree [OF assms(1,2) i(1,2)] i(3) by simp_all
  have "w \<noteq> 2" using tree_links(3) [OF assms(1)] w(2) x(2) by (auto simp: ROOT_CLUSTER_NUMBER_def)
  with w x(2) show ?thesis by simp
qed

lemma leads_climbs:
  assumes "fs_ok d D" and "p \<in> D" and "leads d p ns q" and "climbs d p ms"
  shows "climbs d q (rev ns @ ms) \<and> q \<in> D"
  using assms(2-4)
proof (induction ns arbitrary: p ms)
  case (Cons n ns)
  then obtain w where w: "subdirectory d p n w" "own_name d w = n" "leads d w ns q" "segment_ok n" by auto
  note sub = subdirectory_parent [OF assms(1) Cons.prems(1) w(1)]
  have "climbs d w (n # ms)" using sub w Cons.prems(3) by auto
  from Cons.IH [OF _ w(3) this] sub show ?case by simp
qed simp

section \<open>Properties\<close>

text \<open>
  Typing \<open>mkdir\<close> and a name makes a directory. The name is cut off at eight characters. If it is free in the current directory there is a
  new directory of that name, listed in its parent, with the entry for its parent and nothing else; nothing else in the tree changes, and
  success is printed. If the name is taken, the disk stays as it was and that is printed. The shell stays in its directory.
\<close>

theorem mkdir_line:
  assumes screen: "vga_crtc bus index reg" "shows_terminal reg (screen_of mach) t"
    and inv: "fs_inv (fsys (kern mach)) D" and p: "ucast pc \<in> D"
    and line: "typed lit (mem_of mach) buffer (bytes_of ''mkdir'') name post" "name \<noteq> []"
    and loc: "l_mkdir loc = (folder_name, request, retcode)"
    and areas: "apart ((buffer, 256) # mkdir_areas folder_name request retcode)"
    and lits: "literals lit (mem_of mach) ((buffer, 256) # mkdir_areas folder_name request retcode)
      ('' '' # command_words @ [''Folder created successfully'', ''Folder already exists''])"
    and free: "\<exists>i < 64. \<not> used (disk_dir (disk (fsys (kern mach))) (ucast pc) ! i)" "frees (disk_fat (disk (fsys (kern mach)))) 3 \<noteq> []"
    and key: "key = request_key (request_for 0 (take 8 name) 0)"
  shows "\<exists>mach' tok. parse_command bus lit loc buffer pc g mach = Some (pc, g\<lparr>next_token := tok\<rparr>, mach') \<and>
    (listing (disk (fsys (kern mach))) (ucast pc) key = None \<longrightarrow>
      (\<exists>w. w \<notin> D \<and> fs_inv (fsys (kern mach')) (insert w D) \<and>
        listing (disk (fsys (kern mach'))) w = [key \<mapsto> Dir w, dotdot_key \<mapsto> Dir (ucast pc)] \<and>
        (\<forall>q \<in> D. listing (disk (fsys (kern mach'))) q =
          (if q = ucast pc then (listing (disk (fsys (kern mach))) q)(key \<mapsto> Dir w) else listing (disk (fsys (kern mach))) q))) \<and>
      reports reg mach' ''Folder created successfully'' 0x2 t) \<and>
    (listing (disk (fsys (kern mach))) (ucast pc) key \<noteq> None \<longrightarrow>
      fs_inv (fsys (kern mach')) D \<and> disk (fsys (kern mach')) = disk (fsys (kern mach)) \<and> reports reg mach' ''Folder already exists'' 0x4 t)"
  using mkdir_typed [OF assms, of g] unfolding mkdir_outcome_def by (elim exE conjE, intro exI conjI) assumption+

text \<open>
  C7: Typing \<open>rm\<close> and a name of at most eight characters removes what has that name in the current directory: a file; a directory, if it is
  empty, which then is no part of the tree any more. Nothing else in the tree changes. A directory with entries and a name that is not there
  leave the disk as it was, with a message. The shell stays in its directory.
\<close>

theorem rm_line:
  assumes screen: "vga_crtc bus index reg" "shows_terminal reg (screen_of mach) t"
    and inv: "fs_inv (fsys (kern mach)) D" and p: "ucast pc \<in> D"
    and line: "typed lit (mem_of mach) buffer (bytes_of ''rm'') name post"
    and name: "length name \<le> 8" "name \<noteq> bytes_of ''/''" "\<not> list_all (\<lambda>c. c \<in> set (bytes_of blanks)) name"
    and loc: "l_rm loc = (sub, found_path, req, retval)"
    and areas: "apart ((buffer, 256) # rm_areas sub found_path req retval)"
    and lits: "literals lit (mem_of mach) ((buffer, 256) # rm_areas sub found_path req retval) ('' '' # command_words @ rm_literals)"
    and ordinary: "\<forall>w. listing d (ucast pc) key = Some (Dir w) \<longrightarrow> w \<noteq> ucast pc \<and> key \<noteq> dotdot_key"
    and key: "key = request_key (request_for 0 name 0)" and d: "d = disk (fsys (kern mach))"
  shows "\<exists>mach' tok. parse_command bus lit loc buffer pc g mach = Some (pc, g\<lparr>next_token := tok\<rparr>, mach') \<and>
    (\<forall>ys. listing d (ucast pc) key = Some (File ys) \<longrightarrow>
      fs_inv (fsys (kern mach')) D \<and> reports reg mach' ''File or directory removed successfully.'' 0x0F t \<and>
      (\<forall>q \<in> D. listing (disk (fsys (kern mach'))) q = (if q = ucast pc then (listing d q)(key := None) else listing d q))) \<and>
    (\<forall>w. listing d (ucast pc) key = Some (Dir w) \<longrightarrow>
      (if \<exists>j < 64. 2 \<le> j \<and> used (disk_dir d w ! j)
       then disk (fsys (kern mach')) = d \<and> fs_inv (fsys (kern mach')) D \<and> reports reg mach' ''Failed to remove file or directory.'' 0x4 t
       else fs_inv (fsys (kern mach')) (D - {w}) \<and> reports reg mach' ''File or directory removed successfully.'' 0x0F t \<and>
         (\<forall>q \<in> D - {w}. listing (disk (fsys (kern mach'))) q = (if q = ucast pc then (listing d q)(key := None) else listing d q)))) \<and>
    (listing d (ucast pc) key = None \<longrightarrow>
      disk (fsys (kern mach')) = d \<and> fs_inv (fsys (kern mach')) D \<and> reports reg mach' ''Failed to remove file or directory.'' 0x4 t)"
proof (rule parse_typed [OF line lits, of bus loc pc g])
  fix tok m
  let ?mach = "with_fs (fsys (kern mach)) m mach" and ?arg = "buffer + of_nat (Suc (length (bytes_of ''rm'')))"
  assume run: "parse_command bus lit loc buffer pc g mach = dispatch bus lit loc buffer buffer ?arg pc (g\<lparr>next_token := tok\<rparr>) ?mach"
    and s: "cstr m buffer (bytes_of ''rm'')" and arg: "cstr m ?arg name"
    and words: "literals lit m ((buffer, 256) # rm_areas sub found_path req retval) command_words"
    and msgs: "literals lit m ((buffer, 256) # rm_areas sub found_path req retval) rm_literals"
  have b: "bytes_of ''rm'' \<noteq> bytes_of s" if "s \<in> {''cd'', ''ls'', ''cat''}" for s using that by (auto simp: bytes_of_def)
  have b': "take 5 (bytes_of ''rm'') \<noteq> bytes_of ''mkdir''" "take 2 (bytes_of ''rm'') \<noteq> bytes_of ''cp''" "length (bytes_of ''rm'') = 2"
    by (simp_all add: bytes_of_def)
  have "parse_command bus lit loc buffer pc g mach =
      map_option (\<lambda>mach. (pc, g\<lparr>next_token := tok\<rparr>, mach)) (rm_command bus lit sub found_path req retval ?arg pc ?mach)"
    unfolding run using dispatch_word [of ?mach buffer "bytes_of ''rm''" lit _ bus loc] s words b b' loc by (simp add: Let_def)
  moreover have "apart ((?arg, 9) # rm_areas sub found_path req retval)" using apart_part [OF areas, of 3 9] b' by simp
  moreover have "?arg \<noteq> 0" using line by (simp add: typed_def)
  ultimately show ?thesis
    by (elim command_result)
      (rule rm_effect [where mach = ?mach, unfolded with_fs_simps, OF screen inv p arg _ name(1-3) _ literals_fewer_areas [OF msgs] ordinary key d], auto)
qed

text \<open>
  C8: Typing \<open>cd\<close> and a path of directory names, separated by backslashes, follows the path from the current directory, provided that the path is not blank, does
  not begin with two dots, its last name has fewer than eight characters, and the stack of 100 directories is not full. The shell is then in the directory at its end,
  which is pushed on the stack of the directories it was in; the disk stays as it was and success is printed. (A last name of exactly eight characters, which \<open>mkdir\<close>
  accepts, is refused as too long at its place in the path.)
\<close>

theorem cd_line:
  assumes screen: "vga_crtc bus index reg" "shows_terminal reg (screen_of mach) t"
    and inv: "fs_inv (fsys (kern mach)) D" and p: "ucast pc \<in> D"
    and line: "typed lit (mem_of mach) buffer (bytes_of ''cd'') (path ns) (0 # post)"
    and walk: "walks (disk (fsys (kern mach))) (ucast pc) ns q"
    and ns: "list_all name_ok ns" "ns \<noteq> []" "length (last ns) < 8" "take 2 (path ns) \<noteq> [46, 46]" "\<not> list_all (\<lambda>c. c \<in> set (bytes_of blanks)) (path ns)"
    and loc: "l_cd loc = (dirbuffer, req, ret)"
    and areas: "apart ((buffer, 256) # cd_areas dirbuffer req ret)"
    and lits: "literals lit (mem_of mach) ((buffer, 256) # cd_areas dirbuffer req ret) ('' '' # command_words @ cd_literals)"
    and g: "unat (idx g) + 1 < length (clusters g)" "length (clusters g) < 2 ^ 32"
  shows "\<exists>mach' tok c. parse_command bus lit loc buffer pc g mach =
      Some (c, g\<lparr>next_token := tok, idx := idx g + 1, clusters := (clusters g)[unat (idx g) + 1 := q]\<rparr>, mach') \<and> ucast c = q \<and>
    fs_inv (fsys (kern mach')) D \<and> disk (fsys (kern mach')) = disk (fsys (kern mach)) \<and>
    reports reg mach' ''Successfully changed directory.'' 0xF t"
proof -
  have "unat (idx g + 1) = unat (idx g) + 1" using g by (simp add: unat_word_ariths)
  then show ?thesis using cd_typed [OF screen inv p line walk ns loc areas lits, of g] g(1) by auto
qed

text \<open>
  Typing \<open>cd\<close> and an argument that starts with two dots goes back to the directory the shell was in before the last \<open>cd\<close>, the one below
  the top of its stack. That is the parent only if the last \<open>cd\<close> went down by one directory. In the directory in which the shell started there
  is nothing to go back to.
\<close>

theorem cd_back_line:
  assumes screen: "vga_crtc bus index reg" "shows_terminal reg (screen_of mach) t"
    and line: "typed lit (mem_of mach) buffer (bytes_of ''cd'') (46 # 46 # rest) post"
    and loc: "l_cd loc = (dirbuffer, req, ret)"
    and lits: "literals lit (mem_of mach) ((buffer, 256) # areas) ('' '' # command_words @ ''Already in root'' # cd_literals)"
    and g: "unat (idx g) \<le> length (clusters g)"
  shows "\<exists>mach' tok. parse_command bus lit loc buffer pc g mach =
      Some (if idx g = 0 then pc else ucast (clusters g ! (unat (idx g) - 1)), g\<lparr>next_token := tok, idx := if idx g = 0 then 0 else idx g - 1\<rparr>, mach') \<and>
    fsys (kern mach') = fsys (kern mach) \<and>
    reports reg mach' (if idx g = 0 then ''Already in root'' else ''Successfully changed directory.'') (if idx g = 0 then 0x4 else 0xF) t"
proof (rule parse_typed [OF line lits, of bus loc pc g])
  fix tok m
  let ?mach = "with_fs (fsys (kern mach)) m mach" and ?arg = "buffer + of_nat (Suc (length (bytes_of ''cd'')))" and ?g = "g\<lparr>next_token := tok\<rparr>"
  assume run: "parse_command bus lit loc buffer pc g mach = dispatch bus lit loc buffer buffer ?arg pc ?g ?mach"
    and s: "cstr m buffer (bytes_of ''cd'')" and arg: "cstr m ?arg (46 # 46 # rest)"
    and words: "literals lit m ((buffer, 256) # areas) command_words"
    and msgs: "literals lit m ((buffer, 256) # areas) (''Already in root'' # cd_literals)"
  have b: "length (bytes_of ''cd'') = 2" by (simp add: bytes_of_def)
  have dots: "load_bytes m (buffer + 3) 2 = [46, 46]" using arg b by (simp add: numeral_2_eq_2 load_bytes_Suc)
  have run': "parse_command bus lit loc buffer pc g mach = cd_command bus lit dirbuffer req ret buffer (buffer + 3) pc ?g ?mach"
    unfolding run using dispatch_word [of ?mach buffer "bytes_of ''cd''" lit _ bus loc] s words b loc by (simp add: Let_def)
  have cdl: "literals lit m ((buffer, 256) # areas) cd_literals" by (rule literals_subset [OF msgs]) auto
  have dotted: "memcmp m (buffer + 3) (lit ''..'') 2 = 0" using starts_with_dots [OF cdl dots] by simp
  show ?thesis
  proof (cases "idx g = 0")
    case True
    have no_bs: "8 \<notin> set (bytes_of ''Already in root'')" by (simp add: bytes_of_def)
    obtain scr where say: "shell_puts bus (lit ''Already in root'') 0x4 ?mach = Some (with_screen scr ?mach)"
      "reports reg (with_screen scr ?mach) ''Already in root'' (ucast (0x4 :: u32)) t"
      using puts_literal [OF screen msgs _ no_bs, where f = "fsys (kern mach)" and color = "0x4"] by auto
    have "parse_command bus lit loc buffer pc g mach = Some (pc, ?g, with_screen scr ?mach)"
      unfolding run' using dotted say(1) True by (simp add: cd_command_def)
    moreover have "?g = g\<lparr>next_token := tok, idx := 0\<rparr>" using True by (cases g) simp
    ultimately have "parse_command bus lit loc buffer pc g mach = Some (pc, g\<lparr>next_token := tok, idx := 0\<rparr>, with_screen scr ?mach)" by (simp only:)
    then show ?thesis using say(2) True by auto
  next
    case False
    then show ?thesis
      using cd_back_effect [where mach = ?mach and g = ?g and lit = lit and buffer = buffer, unfolded with_fs_simps,
          OF screen cdl dots, of dirbuffer req ret "buffer + 3" pc] run' g by (auto simp: word_gt_0)
  qed
qed

text \<open>
  A line that is no command. A word that is none of the commands, and does not begin like \<open>mkdir\<close>, \<open>cp\<close> or \<open>find\<close>, does nothing: nothing
  is printed and nothing but the memory of the line changes. The message that there is no such command is printed for the word \<open>exec\<close> alone.
\<close>

theorem unknown_line:
  assumes screen: "vga_crtc bus index reg" "shows_terminal reg (screen_of mach) t"
    and line: "typed lit (mem_of mach) buffer cmd arg post"
    and word: "cmd \<notin> bytes_of ` (set command_words - {''exec''})" "take 5 cmd \<noteq> bytes_of ''mkdir''" "take 2 cmd \<noteq> bytes_of ''cp''" "take 4 cmd \<noteq> bytes_of ''find''"
    and lits: "literals lit (mem_of mach) ((buffer, 256) # areas) ('' '' # command_words @ [''Command not found''])"
  shows "\<exists>mach' tok. parse_command bus lit loc buffer pc g mach = Some (pc, g\<lparr>next_token := tok\<rparr>, mach') \<and>
    fsys (kern mach') = fsys (kern mach) \<and>
    (if cmd = bytes_of ''exec'' then reports reg mach' ''Command not found'' 0x4 t else screen_of mach' = screen_of mach)"
proof (rule parse_typed [OF line lits, of bus loc pc g])
  fix tok m
  let ?mach = "with_fs (fsys (kern mach)) m mach" and ?arg = "buffer + of_nat (Suc (length cmd))" and ?g = "g\<lparr>next_token := tok\<rparr>"
  assume run: "parse_command bus lit loc buffer pc g mach = dispatch bus lit loc buffer buffer ?arg pc ?g ?mach"
    and s: "cstr m buffer cmd" and words: "literals lit m ((buffer, 256) # areas) command_words"
    and msgs: "literals lit m ((buffer, 256) # areas) [''Command not found'']"
  have no_bs: "8 \<notin> set (bytes_of ''Command not found'')" by (simp add: bytes_of_def)
  obtain scr where say: "shell_puts bus (lit ''Command not found'') 0x4 ?mach = Some (with_screen scr ?mach)"
    "reports reg (with_screen scr ?mach) ''Command not found'' (ucast (0x4 :: u32)) t"
    using puts_literal [OF screen msgs _ no_bs, where f = "fsys (kern mach)" and color = "0x4"] by auto
  have other: "cmd \<noteq> bytes_of s" if "s \<in> set command_words - {''exec''}" for s using word(1) that by blast
  have "parse_command bus lit loc buffer pc g mach =
      (if cmd = bytes_of ''exec'' then Some (pc, ?g, with_screen scr ?mach) else Some (pc, ?g, ?mach))"
    unfolding run using dispatch_word [of ?mach buffer cmd lit _ bus loc] s words word(2-) other say(1) by (simp add: Let_def command_words_def)
  then show ?thesis using say(2) by auto
qed

text \<open>
  C19: \<open>ps\<close> never ends, if a process exists, the upper three bytes of its uninitialised variable \<open>col\<close> are zero and the column of the keyboard driver
  is below 11 (\<open>ps_ready\<close>). It then waits for that column to reach the next field, by printing strings of length 0, which do not move it, and the line
  is never finished. With other bytes in \<open>col\<close>, or with the column at the field already, the wait ends at once.
\<close>

theorem ps_line:
  assumes line: "cstr (mem_of mach) buffer (bytes_of ''ps'')" "buffer \<noteq> 0" "buffer + 2 \<noteq> 0" "lit '' '' \<noteq> 0" "no_wrap (lit '' '') 1"
    and lits: "literals lit (mem_of mach) areas ('' '' # command_words)"
    and ready: "ps_ready (l_ps loc) mach" and i: "i < 16" "process_slot_occupied (kern mach) ! i" and areas: "apart (ps_areas (l_ps loc))"
  shows "parse_command bus lit loc buffer pc g mach = None"
proof -
  have "cstr (mem_of mach) (lit '' '') [32]" using literal_at [OF lits, of "'' ''"] by (simp add: bytes_of_def)
  moreover have "32 \<notin> set (bytes_of ''ps'')" "length (bytes_of ''ps'') = 2" by (simp_all add: bytes_of_def)
  ultimately have run: "parse_command bus lit loc buffer pc g mach = dispatch bus lit loc buffer buffer (buffer + 2) pc (g\<lparr>next_token := buffer + 2\<rparr>) mach"
    using parse_one_word [of mach buffer "bytes_of ''ps''" lit bus loc pc g] line by simp
  have words: "literals lit (mem_of mach) areas command_words" by (rule literals_subset [OF lits]) auto
  have b: "bytes_of ''ps'' \<noteq> bytes_of s" if "s \<in> {''cd'', ''ls'', ''cat'', ''rm'', ''mv''}" for s using that by (auto simp: bytes_of_def)
  have b': "take 5 (bytes_of ''ps'') \<noteq> bytes_of ''mkdir''" "take 2 (bytes_of ''ps'') \<noteq> bytes_of ''cp''" "take 4 (bytes_of ''ps'') \<noteq> bytes_of ''find''"
    by (simp_all add: bytes_of_def)
  show ?thesis unfolding run
    using dispatch_word [OF line(1) words, of bus loc] b b' ps_hangs [OF ready i areas] by (simp add: Let_def)
qed


text \<open>
  C10: The prompt shows the path. In a directory to which \<open>cd\<close> can follow the names \<open>ns\<close> from the root, \<open>print_dir_tree\<close> writes these names, each
  behind a backslash, as a string into the buffer of the caller; in the root it writes the name of the root. The disk stays as it was. The path has to
  fit into the 128 characters of the local buffer, which the code does not check.
\<close>

theorem prompt_shows_path:
  assumes inv: "fs_inv (fsys (kern mach)) D" and walk: "leads (disk (fsys (kern mach))) 2 ns q"
    and areas: "apart ((text_pointer, 128) # tree_areas loc)" and temp: "0 < unat (t_temp loc)" "unat (t_temp loc) + 128 < 2 ^ 32"
    and root: "ns = [] \<longrightarrow> segment_ok (own_name (disk (fsys (kern mach))) 2)"
    and room: "length (if ns = [] then own_name (disk (fsys (kern mach))) 2 else segments ns) < 128"
  shows "\<exists>mach'. print_dir_tree bus lit loc q text_pointer mach = Some mach' \<and>
    fs_inv (fsys (kern mach')) D \<and> disk (fsys (kern mach')) = disk (fsys (kern mach)) \<and>
    cstr (mem_of mach') text_pointer (if ns = [] then own_name (disk (fsys (kern mach))) 2 else segments ns)"
proof -
  let ?d = "disk (fsys (kern mach))"
  have ok: "fs_ok ?d D" using inv by (simp add: fs_inv_def)
  have "2 \<in> insert ROOT_CLUSTER_NUMBER {c. \<exists>p \<in> D. \<exists>i < 64. is_subdir i (disk_dir ?d p ! i) \<and> c = entry_cluster (disk_dir ?d p ! i)}"
    by (simp add: ROOT_CLUSTER_NUMBER_def)
  then have "2 \<in> D" by (subst tree_links(1) [OF ok])
  then have climb: "climbs ?d q (rev ns)" "q \<in> D" using leads_climbs [OF ok _ walk, of "[]"] by simp_all
  have room': "length (collected ?d (rev ns)) < 128"
    using room length_segments [of ns] by (simp add: collected_def split: if_splits)
  show ?thesis
    using print_dir_tree_effect [OF inv climb(2) areas climb(1) _ room' temp, of bus lit] root by (auto simp: prompt_path_def)
qed


text \<open>
  C18: The stack of directories is not bounded. It has 100 places, one taken by the root: when 99 directories have been entered, the next
  \<open>cd\<close> that succeeds stores behind the array \<open>clusters\<close>. With fewer, it stores inside, at the place above the top.
\<close>

theorem cd_stack_bound:
  assumes screen: "vga_crtc bus index reg" "shows_terminal reg (screen_of mach) t"
    and inv: "fs_inv (fsys (kern mach)) D" and p: "ucast pc \<in> D"
    and line: "typed lit (mem_of mach) buffer (bytes_of ''cd'') (path ns) (0 # post)"
    and walk: "walks (disk (fsys (kern mach))) (ucast pc) ns q"
    and ns: "list_all name_ok ns" "ns \<noteq> []" "length (last ns) < 8" "take 2 (path ns) \<noteq> [46, 46]" "\<not> list_all (\<lambda>c. c \<in> set (bytes_of blanks)) (path ns)"
    and loc: "l_cd loc = (dirbuffer, req, ret)"
    and areas: "apart ((buffer, 256) # cd_areas dirbuffer req ret)"
    and lits: "literals lit (mem_of mach) ((buffer, 256) # cd_areas dirbuffer req ret) ('' '' # command_words @ cd_literals)"
    and g: "length (clusters g) = 100" "unat (idx g) \<le> 99"
  shows "parse_command bus lit loc buffer pc g mach = None \<longleftrightarrow> unat (idx g) = 99"
proof -
  have "unat (idx g + 1) = unat (idx g) + 1" using g(2) by (simp add: unat_word_ariths)
  then show ?thesis using cd_typed [OF screen inv p line walk ns loc areas lits, of g] g by (auto simp: put_at_def split: if_splits)
qed

end
