(* ===== verification/Shell_Line.thy ===== *)
theory Shell_Line
  imports Shell_Main
begin

text \<open>
  From the keyboard to the line of the shell: the interrupt of a key, the two system calls of \<open>handleInput\<close> (\<open>src/src/user-shell.c\<close>), and the
  echo on the screen. The loop with its system calls does what \<^const>\<open>handleInput\<close> does on the characters that the keyboard driver delivers.
\<close>

section \<open>A keyboard\<close>

text \<open>
  Before a poll a key may have been pressed: \<open>press s\<close> is what the stroke with scancode \<open>s\<close> does to the devices, which then raise the interrupt.
\<close>

definition key_frame :: InterruptFrame where
  "key_frame = (call_frame 0 0 0 0)\<lparr>int_number := 0x21\<rparr>"

definition key_event :: "'d bus \<Rightarrow> (u8 \<Rightarrow> 'd \<Rightarrow> 'd) \<Rightarrow> u8 option \<Rightarrow> 'd machine \<Rightarrow> 'd machine option" where
  "key_event bus press key mach = (case key of None \<Rightarrow> Some mach
     | Some s \<Rightarrow> map_option snd (main_interrupt_handler bus (mach\<lparr>ports := (ports mach)\<lparr>dev := press s (dev (ports mach))\<rparr>\<rparr>) key_frame))"

text \<open>
  The controller of the keyboard has the scancode of the last stroke in its data port. Neither it nor the interrupt controller touches the
  registers of the display.
\<close>

definition keyboard_at :: "'d bus \<Rightarrow> ('d \<Rightarrow> u8 \<Rightarrow> u8) \<Rightarrow> (u8 \<Rightarrow> 'd \<Rightarrow> 'd) \<Rightarrow> bool" where
  "keyboard_at bus reg press \<longleftrightarrow> (\<forall>s d. fst (bus_in bus 0x60 (press s d)) = s \<and> reg (press s d) = reg d) \<and>
     (\<forall>d. reg (snd (bus_in bus 0x60 d)) = reg d) \<and> (\<forall>v d. reg (bus_out bus 0x20 v d) = reg d)"

definition key_char :: "u8 option \<Rightarrow> u8" where
  "key_char key = (case key of None \<Rightarrow> 0 | Some s \<Rightarrow> ascii_of s)"

definition listens :: "'d machine \<Rightarrow> bool" where
  "listens mach \<longleftrightarrow> keyboard_input_on (keyboard_status mach) \<and> keyboard_buffer (keyboard_status mach) = 0"

lemma key_event_effect:
  assumes "keyboard_at bus reg press" and "listens mach"
  shows "\<exists>mach'. key_event bus press key mach = Some mach' \<and> kern mach' = kern mach \<and> screen_mem mach' = screen_mem mach \<and>
    reg (dev (ports mach')) = reg (dev (ports mach)) \<and> keyboard_input_on (keyboard_status mach') \<and>
    keyboard_buffer (keyboard_status mach') = key_char key"
proof (cases key)
  case None
  then show ?thesis using assms(2) by (simp add: key_event_def key_char_def listens_def)
next
  case (Some s)
  define io where "io = (ports mach)\<lparr>dev := press s (dev (ports mach))\<rparr>"
  have code: "scancode_of bus io = s" using assms(1) by (simp add: scancode_of_def io_def keyboard_at_def)
  have "key_event bus press key mach =
      Some (mach\<lparr>ports := snd (keyboard_isr bus (keyboard_status mach) io), keyboard_status := fst (keyboard_isr bus (keyboard_status mach) io)\<rparr>)"
    by (simp add: key_event_def Some main_interrupt_handler_def vectors key_frame_def split_def Let_def io_def)
  moreover have "reg (dev (snd (keyboard_isr bus (keyboard_status mach) io))) = reg (dev (ports mach))"
    using assms(1) by (simp add: isr_acknowledges keyboard_at_def io_def)
  ultimately show ?thesis using assms(2) by (simp add: isr_status code key_char_def Some listens_def)
qed


section \<open>One turn of the loop\<close>

lemma poll_call:
  "shell_syscall bus 4 a 0 0 mach = Some (mach\<lparr>keyboard_status := (keyboard_status mach)\<lparr>keyboard_buffer := 0\<rparr>,
     kern := set_user_mem ((mem_of mach)(a := keyboard_buffer (keyboard_status mach))) (kern mach)\<rparr>)"
proof -
  note calls = calls_call_frame [of 4 a 0 0]
  show ?thesis using calls unfolding shell_syscall_def handler_syscall [OF calls] syscall_def calls_def Let_def
    by (simp add: get_keyboard_buffer_def)
qed

lemma echo_call:
  "shell_syscall bus 5 a color 0 mach = map_option (\<lambda>s. with_screen s mach) (putchar bus (screen_of mach) (mem_of mach a) color)"
proof -
  note calls = calls_call_frame [of 5 a color 0]
  show ?thesis using calls unfolding shell_syscall_def handler_syscall [OF calls] syscall_def calls_def Let_def
    by (cases "putchar bus (screen_of mach) (mem_of mach a) color") (auto simp: with_screen_def)
qed

text \<open>A poll delivers the character of the key to \<open>charBuffer\<close> and leaves the keyboard empty.\<close>

lemma poll_step:
  assumes "keyboard_at bus reg press" and "listens mach" and "shows_terminal reg (screen_of mach) t"
  obtains mach1 mach2 where "key_event bus press key mach = Some mach1" and "shell_syscall bus 4 charBuffer 0 0 mach1 = Some mach2"
    and "mem_of mach2 = (mem_of mach)(charBuffer := key_char key)" and "fsys (kern mach2) = fsys (kern mach)"
    and "listens mach2" and "shows_terminal reg (screen_of mach2) t"
proof -
  obtain mach1 where e: "key_event bus press key mach = Some mach1" "kern mach1 = kern mach" "screen_mem mach1 = screen_mem mach"
      "reg (dev (ports mach1)) = reg (dev (ports mach))" "keyboard_input_on (keyboard_status mach1)" "keyboard_buffer (keyboard_status mach1) = key_char key"
    using key_event_effect [OF assms(1,2), of key] by blast
  show ?thesis by (rule that [OF e(1) poll_call]) (use e assms(3) in \<open>simp_all add: listens_def shows_terminal_def\<close>)
qed

lemma echo_step:
  assumes "vga_crtc bus index reg" and "shows_terminal reg (screen_of mach) t" and "mem_of mach charBuffer = c"
    and "foldl (\<lambda>t c. Option.bind t (term_put c 0xF)) (Some t) (c # cs) = Some t'"
  shows "\<exists>s t1. shell_syscall bus 5 charBuffer 0xF 0 mach = Some (with_screen s mach) \<and> shows_terminal reg s t1 \<and>
    foldl (\<lambda>t c. Option.bind t (term_put c 0xF)) (Some t1) cs = Some t'"
proof -
  have none: "foldl (\<lambda>t c. Option.bind t (term_put c 0xF)) None cs = None" for cs by (induction cs) simp_all
  obtain t1 where t1: "term_put c (ucast (0xF :: u32)) t = Some t1" "foldl (\<lambda>t c. Option.bind t (term_put c 0xF)) (Some t1) cs = Some t'"
    using assms(4) none [of cs] by (cases "term_put c 0xF t") auto
  obtain m io where s: "screen_of mach = (m, io)" by simp
  obtain s1 where "putchar bus (screen_of mach) c 0xF = Some s1" "shows_terminal reg s1 t1"
    using putchar_refines [OF assms(1) assms(2) [unfolded s] t1(1)] unfolding s by blast
  then show ?thesis using t1(2) assms(3) by (intro exI [of _ s1] exI [of _ t1]) (simp add: echo_call)
qed

lemma load_update: "i < n \<Longrightarrow> n < 2 ^ 32 \<Longrightarrow> load_bytes (m(p + of_nat i := v)) p n = (load_bytes m p n)[i := v]"
proof -
  assume i: "i < n" "n < 2 ^ 32"
  have "(store_bytes m p (load_bytes m p n))(p + of_nat i := v) = store_bytes m p ((load_bytes m p n)[i := v])" using i by (intro store_update) simp_all
  then show ?thesis using load_store_bytes [of "(load_bytes m p n)[i := v]" m p] i(2) by (simp add: store_self)
qed

lemma load_other_byte: "ranges_disjoint p n a 1 \<Longrightarrow> load_bytes (m(a := v)) p n = load_bytes m p n"
  using load_store_bytes_disjoint [of p n a "[v]" m] by (simp add: store_one)

text \<open>The buffers of the loop.\<close>

definition line_areas :: "u32 \<Rightarrow> u32 \<Rightarrow> (u32 \<times> nat) list" where
  "line_areas inputBuffer charBuffer = [(inputBuffer, 256), (charBuffer, 1)]"

lemma kept_char: "kept_outside (line_areas b c) m (m(c := v))"
  using kept_store [of c "[v]" "line_areas b c" m] by (simp add: line_areas_def store_one)

lemma kept_cell: "i < 256 \<Longrightarrow> kept_outside (line_areas b c) m (m(b + of_nat i := v))"
  using kept_store_at [of b 256 "line_areas b c" i "[v]" m] by (simp add: line_areas_def store_one)

section \<open>The loop\<close>

text \<open>One poll of the loop, by the character it delivers.\<close>

lemma handle_input_step:
  assumes poll: "key_event bus press key mach = Some mach1" "shell_syscall bus 4 charBuffer 0 0 mach1 = Some mach2" and mc: "mem_of mach2 charBuffer = c"
  shows "handle_input bus inputBuffer charBuffer len (map (key_event bus press) (key # keys)) mach =
      (if c \<noteq> 0 then
         if c = 10 then do { mach \<leftarrow> shell_syscall bus 5 charBuffer 0xF 0 mach2; Some (len, mach) }
         else if c = 8 then
           if len > 0 then
             do { mach \<leftarrow> shell_syscall bus 5 charBuffer 0xF 0 (with_mem ((mem_of mach2)(inputBuffer + of_nat len := 0)) mach2);
                  handle_input bus inputBuffer charBuffer (len - 1) (map (key_event bus press) keys) mach }
           else handle_input bus inputBuffer charBuffer len (map (key_event bus press) keys) mach2
         else if len < SHELL_MAX_LENGTH - 1 then
           do { mach \<leftarrow> shell_syscall bus 5 charBuffer 0xF 0 mach2;
                handle_input bus inputBuffer charBuffer (len + 1) (map (key_event bus press) keys) (with_mem ((mem_of mach)(inputBuffer + of_nat len := mem_of mach charBuffer)) mach) }
         else handle_input bus inputBuffer charBuffer len (map (key_event bus press) keys) mach2
       else handle_input bus inputBuffer charBuffer len (map (key_event bus press) keys) mach2)"
  by (simp only: list.map handle_input.simps poll bind.bind_lunit mc)

text \<open>The same poll on the list: what \<^const>\<open>handleInput\<close> has left to do after the character.\<close>

lemma handleInput_skip:
  assumes "handleInput buf len (c # cs) = Some x" and "c = 0 \<or> c = 8 \<and> len = 0 \<or> c \<noteq> 10 \<and> c \<noteq> 8 \<and> \<not> len < 255"
  shows "handleInput buf len cs = Some x"
  using assms by (auto simp: SHELL_MAX_LENGTH_def split: if_splits)

lemma handleInput_edit:
  assumes "handleInput buf len (c # cs) = Some (buf', n, echo, rest)" and "length buf = 256"
  shows "c = 8 \<Longrightarrow> 0 < len \<Longrightarrow> len < 256 \<and> (\<exists>echo'. handleInput (buf[len := 0]) (len - 1) cs = Some (buf', n, echo', rest) \<and> echo = c # echo')"
    and "c \<notin> {0, 8, 10} \<Longrightarrow> len < 255 \<Longrightarrow> \<exists>echo'. handleInput (buf[len := c]) (len + 1) cs = Some (buf', n, echo', rest) \<and> echo = c # echo'"
  using assms by (auto simp: SHELL_MAX_LENGTH_def bind_eq_Some_conv put_at_eq_Some_iff)

text \<open>A cell of the input buffer written: the character read stays where it is.\<close>

lemma line_edited:
  assumes "ranges_disjoint inputBuffer 256 charBuffer 1" and "load_bytes m inputBuffer 256 = buf" and "i < 256"
  shows "(m(inputBuffer + of_nat i := x)) charBuffer = m charBuffer \<and> load_bytes (m(inputBuffer + of_nat i := x)) inputBuffer 256 = buf[i := x] \<and>
    kept_outside (line_areas inputBuffer charBuffer) m (m(inputBuffer + of_nat i := x))"
proof -
  have "inputBuffer + of_nat i \<noteq> charBuffer + of_nat 0" using assms(1,3) unfolding ranges_disjoint_def by blast
  then show ?thesis using assms(2,3) load_update [of i 256 m inputBuffer x] kept_cell [of i inputBuffer charBuffer m x] by simp
qed

lemma handle_input_refines:
  assumes crtc: "vga_crtc bus index reg" and kbd: "keyboard_at bus reg press" and areas: "ranges_disjoint inputBuffer 256 charBuffer 1"
    and "listens mach" and "shows_terminal reg (screen_of mach) t" and "load_bytes (mem_of mach) inputBuffer 256 = buf"
    and "handleInput buf len (map key_char keys) = Some (buf', n, echo, rest)"
    and "foldl (\<lambda>t c. Option.bind t (term_put c 0xF)) (Some t) echo = Some t'"
  shows "\<exists>mach'. handle_input bus inputBuffer charBuffer len (map (key_event bus press) keys) mach = Some (n, mach') \<and>
    load_bytes (mem_of mach') inputBuffer 256 = buf' \<and> shows_terminal reg (screen_of mach') t' \<and> fsys (kern mach') = fsys (kern mach) \<and>
    listens mach' \<and> kept_outside (line_areas inputBuffer charBuffer) (mem_of mach) (mem_of mach')"
  using assms(4-8)
proof (induction keys arbitrary: mach t buf len echo)
  case Nil
  then show ?case by simp
next
  case (Cons key keys)
  let ?b = inputBuffer and ?c = charBuffer and ?fold = "foldl (\<lambda>t c. Option.bind t (term_put c 0xF))"
  define c where "c = key_char key"
  obtain mach1 mach2 where poll: "key_event bus press key mach = Some mach1" "shell_syscall bus 4 ?c 0 0 mach1 = Some mach2"
    and m2: "mem_of mach2 = (mem_of mach)(?c := c)" and f2: "fsys (kern mach2) = fsys (kern mach)" and l2: "listens mach2" "shows_terminal reg (screen_of mach2) t"
    using poll_step [OF kbd Cons.prems(1,2), of key ?c] unfolding c_def by blast
  have mc: "mem_of mach2 ?c = c" by (simp add: m2)
  have b2: "load_bytes (mem_of mach2) ?b 256 = buf" using Cons.prems(3) areas by (simp add: m2 load_other_byte)
  have lenbuf: "length buf = 256" using Cons.prems(3) by (metis length_load_bytes)
  have o2: "kept_outside (line_areas ?b ?c) (mem_of mach) (mem_of mach2)" by (simp add: m2 kept_char)
  note step = handle_input_step [OF poll mc, of ?b len keys] and run = Cons.prems(4) [unfolded list.map, folded c_def]
  note edited = line_edited [OF areas b2, of len]
  consider (skip) "c = 0 \<or> c = 8 \<and> len = 0 \<or> c \<noteq> 10 \<and> c \<noteq> 8 \<and> \<not> len < 255" | (enter) "c = 10"
    | (erase) "c = 8" "0 < len" | (store) "c \<notin> {0, 8, 10}" "len < 255" by blast
  then show ?case
  proof cases
    case skip
    from Cons.IH [OF l2 b2 handleInput_skip [OF run skip] Cons.prems(5)] show ?thesis
      using skip kept_trans [OF o2] f2 unfolding step by (auto simp: SHELL_MAX_LENGTH_def)
  next
    case enter
    then have e: "echo = [c]" "buf' = buf" "n = len" using run by auto
    obtain s t1 where "shell_syscall bus 5 ?c 0xF 0 mach2 = Some (with_screen s mach2)" "shows_terminal reg s t1" "?fold (Some t1) [] = Some t'"
      using echo_step [OF crtc l2(2) mc, of "[]" t'] Cons.prems(5) [unfolded e(1)] by blast
    then show ?thesis using enter f2 b2 e o2 l2(1) unfolding step by (simp add: listens_def)
  next
    case erase
    define mach3 where "mach3 = with_mem ((mem_of mach2)(?b + of_nat len := 0)) mach2"
    obtain echo' where tail: "len < 256" "handleInput (buf[len := 0]) (len - 1) (map key_char keys) = Some (buf', n, echo', rest)" "echo = c # echo'"
      using handleInput_edit(1) [OF run lenbuf erase] by blast
    obtain s t1 where say: "shell_syscall bus 5 ?c 0xF 0 mach3 = Some (with_screen s mach3)" "shows_terminal reg s t1" "?fold (Some t1) echo' = Some t'"
      using echo_step [OF crtc _ _ Cons.prems(5) [unfolded tail(3)], of mach3 ?c] l2(2) edited [of 0] mc tail(1) by (auto simp: mach3_def)
    have at3: "listens (with_screen s mach3)" "load_bytes (mem_of mach3) ?b 256 = buf[len := 0]" "fsys (kern mach3) = fsys (kern mach)"
      "kept_outside (line_areas ?b ?c) (mem_of mach) (mem_of mach3)"
      using l2(1) kept_trans [OF o2] edited [of 0] tail(1) f2 by (simp_all add: mach3_def listens_def)
    from Cons.IH [OF at3(1) _ _ tail(2) say(3)] show ?thesis
      using say(1,2) at3(2,3) erase kept_trans [OF at3(4)] unfolding step mach3_def [symmetric] by auto
  next
    case store
    obtain echo' where tail: "handleInput (buf[len := c]) (len + 1) (map key_char keys) = Some (buf', n, echo', rest)" "echo = c # echo'"
      using handleInput_edit(2) [OF run lenbuf store] by blast
    obtain s t1 where say: "shell_syscall bus 5 ?c 0xF 0 mach2 = Some (with_screen s mach2)" "shows_terminal reg s t1" "?fold (Some t1) echo' = Some t'"
      using echo_step [OF crtc l2(2) mc Cons.prems(5) [unfolded tail(2)]] by blast
    define mach3 where "mach3 = with_mem ((mem_of mach2)(?b + of_nat len := c)) (with_screen s mach2)"
    have at3: "listens mach3" "load_bytes (mem_of mach3) ?b 256 = buf[len := c]" "fsys (kern mach3) = fsys (kern mach)" "screen_of mach3 = s"
      "kept_outside (line_areas ?b ?c) (mem_of mach) (mem_of mach3)"
      using l2(1) kept_trans [OF o2] edited [of c] store(2) f2 by (simp_all add: mach3_def listens_def)
    have stored: "with_mem ((mem_of (with_screen s mach2))(?b + of_nat len := mem_of (with_screen s mach2) ?c)) (with_screen s mach2) = mach3"
      using mc by (simp add: mach3_def)
    from Cons.IH [OF at3(1) _ _ tail(1) say(3)] show ?thesis
      using say(1,2) at3(2-4) store kept_trans [OF at3(5)] stored unfolding step by (auto simp: SHELL_MAX_LENGTH_def)
  qed
qed


section \<open>Properties\<close>

text \<open>
  C11: From the keyboard to the line. While the shell reads a line, each poll may be preceded by a key stroke: the interrupt stores its character,
  the system call hands it over, the shell edits the line and echoes. At the end of the line the buffer holds the edited line and the screen shows
  the echo of the keys that changed it; the strokes after it are not read, the disk stays as it was, and no other memory of the shell changes.
\<close>

theorem keys_become_line:
  assumes crtc: "vga_crtc bus index reg" and kbd: "keyboard_at bus reg press" and areas: "ranges_disjoint inputBuffer 256 charBuffer 1"
    and start: "listens mach" "shows_terminal reg (screen_of mach) t" "load_bytes (mem_of mach) inputBuffer 256 = replicate 256 0"
    and keys: "10 \<notin> set (map key_char keys)" "key_char enter = 10" and edited: "fold edit (map key_char keys) ([], []) = (xs, left)"
    and echo: "foldl (\<lambda>t c. Option.bind t (term_put c 0xF)) (Some t) (echo_of (map key_char keys) ([], []) @ [10]) = Some t'"
  shows "\<exists>mach'. handle_input bus inputBuffer charBuffer 0 (map (key_event bus press) (keys @ enter # later)) mach = Some (length xs, mach') \<and>
    load_bytes (mem_of mach') inputBuffer 256 = xs @ left @ replicate (256 - length xs - length left) 0 \<and>
    shows_terminal reg (screen_of mach') t' \<and> fsys (kern mach') = fsys (kern mach) \<and> kept_outside (line_areas inputBuffer charBuffer) (mem_of mach) (mem_of mach')"
proof -
  have ok: "line_ok ([], [])" "line_buffer ([], []) = replicate 256 0" by (simp_all add: line_ok_def line_buffer_def)
  have "handleInput (replicate 256 0) 0 (map key_char (keys @ enter # later)) =
      Some (line_buffer (xs, left), length xs, echo_of (map key_char keys) ([], []) @ [10], map key_char later)"
    using handle_input_edits [OF ok(1) keys(1), of "map key_char later"] by (simp add: keys(2) edited ok(2))
  from handle_input_refines [OF crtc kbd areas start this echo] show ?thesis by (auto simp: line_buffer_def)
qed

end
