(* ===== verification/Shell_Turn.thy ===== *)
theory Shell_Turn
  imports Shell_Theorems Shell_Line
begin

text \<open>
  A whole turn of the main loop of the shell (\<open>shell\<close> in \<open>src/src/user-shell.c\<close>): the prompt with the path of the directory, the key strokes
  that become a line, and the command.
\<close>

section \<open>The prompt and the line\<close>

lemma activate_call: "shell_syscall bus 7 b c d mach = Some (mach\<lparr>keyboard_status := keyboard_state_activate (keyboard_status mach)\<rparr>)"
proof -
  note calls = calls_call_frame [of 7 b c d]
  show ?thesis using calls unfolding shell_syscall_def handler_syscall [OF calls] syscall_def calls_def Let_def by simp
qed

lemma deactivate_call: "shell_syscall bus 8 b c d mach = Some (mach\<lparr>keyboard_status := keyboard_state_deactivate (keyboard_status mach)\<rparr>)"
proof -
  note calls = calls_call_frame [of 8 b c d]
  show ?thesis using calls unfolding shell_syscall_def handler_syscall [OF calls] syscall_def calls_def Let_def by simp
qed

text \<open>The path that the prompt shows in the directory to which the names \<open>ns\<close> lead, and the screen after the prompt.\<close>

definition path_text :: "image \<Rightarrow> u8 list list \<Rightarrow> u8 list" where
  "path_text d ns = (if ns = [] then own_name d 2 else segments ns)"

definition after_prompt :: "u8 list \<Rightarrow> terminal \<Rightarrow> terminal" where
  "after_prompt shown t =
     term_print (bytes_of ''$'') 0x2 (term_print shown 0xF (term_print (bytes_of ''BEBAS@OS-IF2230>'') 0x05 t))"

definition turn_areas :: "u32 \<times> u32 \<times> u32 \<Rightarrow> tree_locals \<Rightarrow> (u32 \<times> nat) list" where
  "turn_areas bufs tree = (case bufs of (inputBuffer, current_dir, charBuffer) \<Rightarrow>
     (inputBuffer, 256) # (charBuffer, 1) # (current_dir, 128) # tree_areas tree)"

definition turn_literals :: "string list" where
  "turn_literals = [''BEBAS@OS-IF2230>'', ''$'', ''\<newline>'']"

lemma prompt_effect:
  assumes crtc: "vga_crtc bus index reg" and screen: "shows_terminal reg (screen_of mach) t"
    and inv: "fs_inv (fsys (kern mach)) D" and walk: "leads (disk (fsys (kern mach))) 2 ns q"
    and areas: "apart ((current_dir, 128) # tree_areas tree)" and temp: "0 < unat (t_temp tree)" "unat (t_temp tree) + 128 < 2 ^ 32"
    and root: "ns = [] \<longrightarrow> segment_ok (own_name (disk (fsys (kern mach))) 2)"
    and shown: "shown = path_text (disk (fsys (kern mach))) ns" "length shown < 128" "8 \<notin> set shown"
    and lits: "literals lit (mem_of mach) ((current_dir, 128) # tree_areas tree) turn_literals"
  shows "\<exists>f m s. do { mach \<leftarrow> Some (with_mem (store_bytes (mem_of mach) current_dir (replicate 128 0)) mach);
      mach \<leftarrow> print_dir_tree bus lit tree q current_dir mach;
      mach \<leftarrow> shell_puts bus (lit ''BEBAS@OS-IF2230>'') 0x05 mach;
      mach \<leftarrow> shell_puts bus current_dir 0xF mach;
      shell_puts bus (lit ''$'') 0x2 mach } = Some (with_screen s (with_fs f m mach)) \<and>
    fs_inv f D \<and> disk f = disk (fsys (kern mach)) \<and> shows_terminal reg s (after_prompt shown t) \<and>
    kept_outside ((current_dir, 128) # tree_areas tree) (mem_of mach) m"
proof -
  let ?d = "disk (fsys (kern mach))" and ?A = "(current_dir, 128) # tree_areas tree"
  define m0 where "m0 = store_bytes (mem_of mach) current_dir (replicate 128 0)"
  have ok: "fs_ok ?d D" using inv by (simp add: fs_inv_def)
  have "2 \<in> D" using tree_dirs [OF ok [unfolded fs_ok_def], of ROOT_CLUSTER_NUMBER] by (simp add: ROOT_CLUSTER_NUMBER_def)
  then have climb: "climbs ?d q (rev ns)" "q \<in> D" using leads_climbs [OF ok _ walk, of "[]"] by simp_all
  have pp: "prompt_path ?d (rev ns) = shown" by (simp add: prompt_path_def shown(1) path_text_def)
  have room: "length (collected ?d (rev ns)) < 128"
    using shown(1,2) length_segments [of ns] by (simp add: collected_def path_text_def split: if_splits)
  obtain f m where tree: "print_dir_tree bus lit tree q current_dir (with_fs (fsys (kern mach)) m0 mach) = Some (with_fs f m mach)"
    and f: "fs_inv f D" "disk f = ?d" and s: "cstr m current_dir shown" and k: "kept_outside ?A m0 m"
    using print_dir_tree_effect [of "with_fs (fsys (kern mach)) m0 mach" D q current_dir tree "rev ns" bus lit, unfolded with_fs_simps,
        OF inv climb(2) areas climb(1) _ room temp] root by (auto simp: pp)
  have kept: "kept_outside ?A (mem_of mach) m"
    unfolding m0_def by (rule kept_trans [OF _ k [unfolded m0_def]]) (rule kept_store, simp)
  have lits': "literals lit m ?A turn_literals" by (rule literals_kept [OF lits kept]) simp
  have plain: "8 \<notin> set (bytes_of ''BEBAS@OS-IF2230>'')" "8 \<notin> set (bytes_of ''$'')" by (simp_all add: bytes_of_def)
  have l: "cstr m (lit ''BEBAS@OS-IF2230>'') (bytes_of ''BEBAS@OS-IF2230>'')" "cstr m (lit ''$'') (bytes_of ''$'')"
    using literal_at [OF lits'] by (simp_all add: turn_literals_def)
  let ?mach = "with_fs f m mach"
  have len: "length (bytes_of ''BEBAS@OS-IF2230>'') < 2 ^ 32" "length (bytes_of ''$'') < 2 ^ 32" by (simp_all add: bytes_of_def)
  have at0: "shows_terminal reg (screen_of ?mach) t" using screen by simp
  obtain s1 where s1: "shell_puts bus (lit ''BEBAS@OS-IF2230>'') 5 ?mach = Some (with_screen s1 ?mach)"
    "shows_terminal reg s1 (term_print (bytes_of ''BEBAS@OS-IF2230>'') 5 t)"
    using shell_puts_effect [OF crtc at0 _ plain(1) len(1), of "lit ''BEBAS@OS-IF2230>''" 5, unfolded with_fs_simps, OF l(1)] by auto
  have at1: "shows_terminal reg (screen_of (with_screen s1 ?mach)) (term_print (bytes_of ''BEBAS@OS-IF2230>'') 5 t)" using s1(2) by simp
  let ?t2 = "term_print shown 0xF (term_print (bytes_of ''BEBAS@OS-IF2230>'') 5 t)"
  obtain s2 where s2: "shell_puts bus current_dir 0xF (with_screen s1 ?mach) = Some (with_screen s2 (with_screen s1 ?mach))" "shows_terminal reg s2 ?t2"
    using shell_puts_effect [OF crtc at1, of current_dir shown "0xF"] s shown(2,3) by auto
  have at2: "shows_terminal reg (screen_of (with_screen s2 (with_screen s1 ?mach))) ?t2" using s2(2) by simp
  obtain s3 where s3: "shell_puts bus (lit ''$'') 2 (with_screen s2 (with_screen s1 ?mach)) = Some (with_screen s3 (with_screen s2 (with_screen s1 ?mach)))"
    "shows_terminal reg s3 (term_print (bytes_of ''$'') 2 ?t2)"
    using shell_puts_effect [OF crtc at2 _ plain(2) len(2), of "lit ''$''" 2, unfolded with_screen_simps with_fs_simps, OF l(2)] by auto
  have "with_screen s3 (with_screen s2 (with_screen s1 ?mach)) = with_screen s3 ?mach" by (simp add: with_screen_def)
  with tree s1(1) s2(1) s3 f kept show ?thesis
    by (intro exI [of _ f] exI [of _ m] exI [of _ s3]) (simp add: m0_def after_prompt_def)
qed

text \<open>The turn, once it is known what the prompt and the line leave behind.\<close>

lemma turn_steps:
  fixes mach1 inputBuffer
  defines "mach3 \<equiv> with_mem (store_bytes (mem_of mach1) inputBuffer (replicate 256 0)) mach1"
  assumes prompt: "do { mach \<leftarrow> Some (with_mem (store_bytes (mem_of mach) current_dir (replicate 128 0)) mach);
      mach \<leftarrow> print_dir_tree bus lit tree (ucast pc) current_dir mach;
      mach \<leftarrow> shell_puts bus (lit ''BEBAS@OS-IF2230>'') 0x05 mach;
      mach \<leftarrow> shell_puts bus current_dir 0xF mach;
      shell_puts bus (lit ''$'') 0x2 mach } = Some mach1"
    and read: "handle_input bus inputBuffer charBuffer 0 evs (mach3\<lparr>keyboard_status := keyboard_state_activate (keyboard_status mach3)\<rparr>) = Some (n, mach4)"
  shows "shell_turn bus lit loc tree (inputBuffer, current_dir, charBuffer) evs (pc, g, mach) =
      do { (pc, g, mach) \<leftarrow> parse_command bus lit loc inputBuffer pc g (mach4\<lparr>keyboard_status := keyboard_state_deactivate (keyboard_status mach4)\<rparr>);
           mach \<leftarrow> shell_puts bus (lit ''\<newline>'') 0 mach; Some (pc, g, mach) }"
proof -
  have "shell_turn bus lit loc tree (inputBuffer, current_dir, charBuffer) evs (pc, g, mach) =
      do { mach \<leftarrow> do { mach \<leftarrow> Some (with_mem (store_bytes (mem_of mach) current_dir (replicate 128 0)) mach);
             mach \<leftarrow> print_dir_tree bus lit tree (ucast pc) current_dir mach;
             mach \<leftarrow> shell_puts bus (lit ''BEBAS@OS-IF2230>'') 0x05 mach;
             mach \<leftarrow> shell_puts bus current_dir 0xF mach;
             shell_puts bus (lit ''$'') 0x2 mach };
           mach \<leftarrow> Some (with_mem (store_bytes (mem_of mach) inputBuffer (replicate 256 0)) mach);
           mach \<leftarrow> shell_syscall bus 7 0 0 0 mach;
           (_, mach) \<leftarrow> handle_input bus inputBuffer charBuffer 0 evs mach;
           mach \<leftarrow> shell_syscall bus 8 0 0 0 mach;
           (pc, g, mach) \<leftarrow> parse_command bus lit loc inputBuffer pc g mach;
           mach \<leftarrow> shell_puts bus (lit ''\<newline>'') 0 mach;
           Some (pc, g, mach) }"
    by (simp add: shell_turn_def SHELL_MAX_LENGTH_def Option.bind_assoc del: with_fs_simps)
  then show ?thesis using read unfolding prompt by (simp add: activate_call deactivate_call mach3_def del: with_fs_simps)
qed

text \<open>A turn up to the command.\<close>

lemma turn_reads:
  assumes crtc: "vga_crtc bus index reg" and kbd: "keyboard_at bus reg press"
    and screen: "shows_terminal reg (screen_of mach) t" and quiet: "keyboard_buffer (keyboard_status mach) = 0"
    and inv: "fs_inv (fsys (kern mach)) D" and walk: "leads (disk (fsys (kern mach))) 2 ns (ucast pc)"
    and areas: "apart ((current_dir, 128) # tree_areas tree)" "ranges_disjoint inputBuffer 256 charBuffer 1"
    and temp: "0 < unat (t_temp tree)" "unat (t_temp tree) + 128 < 2 ^ 32"
    and root: "ns = [] \<longrightarrow> segment_ok (own_name (disk (fsys (kern mach))) 2)"
    and shown: "shown = path_text (disk (fsys (kern mach))) ns" "length shown < 128" "8 \<notin> set shown"
    and lits: "literals lit (mem_of mach) (turn_areas (inputBuffer, current_dir, charBuffer) tree) turn_literals"
    and keys: "10 \<notin> set (map key_char keys)" "key_char enter = 10" and edited: "fold edit (map key_char keys) ([], []) = (xs, left)"
    and echo: "foldl (\<lambda>t c. Option.bind t (term_put c 0xF)) (Some (after_prompt shown t)) (echo_of (map key_char keys) ([], []) @ [10]) = Some t'"
  shows "\<exists>mach1. shell_turn bus lit loc tree (inputBuffer, current_dir, charBuffer) (map (key_event bus press) (keys @ enter # later)) (pc, g, mach) =
      do { (pc, g, mach) \<leftarrow> parse_command bus lit loc inputBuffer pc g mach1; mach \<leftarrow> shell_puts bus (lit ''\<newline>'') 0 mach; Some (pc, g, mach) } \<and>
    load_bytes (mem_of mach1) inputBuffer 256 = xs @ left @ replicate (256 - length xs - length left) 0 \<and>
    shows_terminal reg (screen_of mach1) t' \<and> fs_inv (fsys (kern mach1)) D \<and> disk (fsys (kern mach1)) = disk (fsys (kern mach)) \<and>
    kept_outside (turn_areas (inputBuffer, current_dir, charBuffer) tree) (mem_of mach) (mem_of mach1)"
proof -
  let ?A = "turn_areas (inputBuffer, current_dir, charBuffer) tree"
  have sub: "set ((current_dir, 128) # tree_areas tree) \<subseteq> set ?A" "set (line_areas inputBuffer charBuffer) \<subseteq> set ?A"
    by (auto simp: turn_areas_def line_areas_def)
  obtain f m s where prompt: "do { mach \<leftarrow> Some (with_mem (store_bytes (mem_of mach) current_dir (replicate 128 0)) mach);
      mach \<leftarrow> print_dir_tree bus lit tree (ucast pc) current_dir mach;
      mach \<leftarrow> shell_puts bus (lit ''BEBAS@OS-IF2230>'') 0x05 mach;
      mach \<leftarrow> shell_puts bus current_dir 0xF mach;
      shell_puts bus (lit ''$'') 0x2 mach } = Some (with_screen s (with_fs f m mach))"
    and f: "fs_inv f D" "disk f = disk (fsys (kern mach))" and s: "shows_terminal reg s (after_prompt shown t)"
    and k1: "kept_outside ((current_dir, 128) # tree_areas tree) (mem_of mach) m"
    using prompt_effect [OF crtc screen inv walk areas(1) temp root shown literals_fewer_areas [OF lits sub(1)]] by blast
  let ?mach1 = "with_screen s (with_fs f m mach)"
  define mach2 where "mach2 = with_mem (store_bytes (mem_of ?mach1) inputBuffer (replicate 256 0)) ?mach1"
  define mach3 where "mach3 = mach2\<lparr>keyboard_status := keyboard_state_activate (keyboard_status mach2)\<rparr>"
  have "listens mach3" using quiet by (simp add: listens_def mach3_def mach2_def keyboard_state_activate_def)
  moreover have "load_bytes (mem_of mach3) inputBuffer 256 = replicate 256 0"
    using load_store_bytes [of "replicate 256 (0 :: u8)" m inputBuffer] by (simp add: mach3_def mach2_def)
  moreover have at: "shows_terminal reg (screen_of mach3) (after_prompt shown t)" using s by (simp add: mach3_def mach2_def)
  moreover have "handleInput (replicate 256 0) 0 (map key_char (keys @ enter # later)) =
      Some (line_buffer (xs, left), length xs, echo_of (map key_char keys) ([], []) @ [10], map key_char later)"
    using handle_input_edits [of "([], [])" "map key_char keys" "map key_char later"] keys edited by (simp add: line_ok_def line_buffer_def)
  ultimately obtain mach4 where read: "handle_input bus inputBuffer charBuffer 0 (map (key_event bus press) (keys @ enter # later)) mach3 = Some (length xs, mach4)"
    "load_bytes (mem_of mach4) inputBuffer 256 = line_buffer (xs, left)" "shows_terminal reg (screen_of mach4) t'" "fsys (kern mach4) = fsys (kern mach3)"
    and k2: "kept_outside (line_areas inputBuffer charBuffer) (mem_of mach3) (mem_of mach4)"
    using handle_input_refines [OF crtc kbd areas(2) _ _ _ _ echo] by blast
  let ?mach5 = "mach4\<lparr>keyboard_status := keyboard_state_deactivate (keyboard_status mach4)\<rparr>"
  have "kept_outside ?A (mem_of mach) m" using k1 sub(1) by (rule kept_mono)
  also have "kept_outside ?A m (mem_of mach3)"
    unfolding mach3_def mach2_def by (simp, rule kept_store) (simp add: turn_areas_def)
  also have "kept_outside ?A (mem_of mach3) (mem_of ?mach5)" using kept_mono [OF k2 sub(2)] by simp
  finally have kept: "kept_outside ?A (mem_of mach) (mem_of ?mach5)" .
  note run = turn_steps [OF prompt read(1) [unfolded mach3_def mach2_def], of loc g]
  show ?thesis
    using run kept read(2-4) f by (intro exI [of _ ?mach5]) (simp add: line_buffer_def mach3_def mach2_def)
qed

section \<open>The property\<close>

lemma fold_edit_ok: "line_ok l \<Longrightarrow> line_ok (fold edit cs l)"
  using edit_ok by (induction cs arbitrary: l) auto

text \<open>
  C6: A turn of the shell, from the keys to the disk. In the directory to which the names \<open>ns\<close> lead from the root, the shell shows its prompt with
  the path, the user types \<open>mkdir\<close> and a name, with corrections and pauses as long as the last key before the end of the line is no correction, and presses enter. If the
  name is free there is afterwards a new directory of that name in that directory, with the entry for its parent and nothing else, and nothing else in the tree has changed;
  if it is taken, the disk is as it was. The screen shows the prompt, the echo of the keys and the message, and the shell is ready for its next turn
  in the same directory.
\<close>

theorem mkdir_turn:
  assumes crtc: "vga_crtc bus index reg" and kbd: "keyboard_at bus reg press"
    and screen: "shows_terminal reg (screen_of mach) t" and quiet: "keyboard_buffer (keyboard_status mach) = 0"
    and inv: "fs_inv (fsys (kern mach)) D" and d: "d = disk (fsys (kern mach))" and walk: "leads d 2 ns p" and p: "p = ucast pc"
    and areas: "apart ((current_dir, 128) # tree_areas tree)" "ranges_disjoint inputBuffer 256 charBuffer 1"
      "apart ((inputBuffer, 256) # mkdir_areas folder_name request retcode)"
    and loc: "l_mkdir loc = (folder_name, request, retcode)"
    and places: "0 < unat (t_temp tree)" "unat (t_temp tree) + 128 < 2 ^ 32" "inputBuffer \<noteq> 0" "inputBuffer + 6 \<noteq> 0" "lit '' '' \<noteq> 0" "no_wrap (lit '' '') 1"
    and root: "ns = [] \<longrightarrow> segment_ok (own_name d 2)"
    and shown: "shown = path_text d ns" "length shown < 128" "8 \<notin> set shown"
    and lits: "literals lit (mem_of mach) (turn_areas (inputBuffer, current_dir, charBuffer) tree @ mkdir_areas folder_name request retcode)
      (turn_literals @ '' '' # command_words @ [''Folder created successfully'', ''Folder already exists''])"
    and keys: "10 \<notin> set (map key_char keys)" "key_char enter = 10"
      "fold edit (map key_char keys) ([], []) = (bytes_of ''mkdir'' @ 32 # name, [])" "name \<noteq> []" "32 \<notin> set name"
    and echo: "foldl (\<lambda>t c. Option.bind t (term_put c 0xF)) (Some (after_prompt shown t)) (echo_of (map key_char keys) ([], []) @ [10]) = Some t'"
    and free: "\<exists>i < 64. \<not> used (disk_dir d p ! i)" "frees (disk_fat d) 3 \<noteq> []"
    and key: "key = request_key (request_for 0 (take 8 name) 0)"
  shows "\<exists>mach' tok. shell_turn bus lit loc tree (inputBuffer, current_dir, charBuffer) (map (key_event bus press) (keys @ enter # later)) (pc, g, mach) =
      Some (pc, g\<lparr>next_token := tok\<rparr>, mach') \<and>
    (listing d p key = None \<longrightarrow>
      (\<exists>w. w \<notin> D \<and> fs_inv (fsys (kern mach')) (insert w D) \<and>
        listing (disk (fsys (kern mach'))) w = [key \<mapsto> Dir w, dotdot_key \<mapsto> Dir p] \<and>
        (\<forall>q \<in> D. listing (disk (fsys (kern mach'))) q = (if q = p then (listing d q)(key \<mapsto> Dir w) else listing d q))) \<and>
      reports reg mach' ''\<newline>'' 0 (term_print (bytes_of ''Folder created successfully'') 0x2 t')) \<and>
    (listing d p key \<noteq> None \<longrightarrow>
      fs_inv (fsys (kern mach')) D \<and> disk (fsys (kern mach')) = d \<and>
      reports reg mach' ''\<newline>'' 0 (term_print (bytes_of ''Folder already exists'') 0x4 t'))"
proof -
  let ?A = "turn_areas (inputBuffer, current_dir, charBuffer) tree" and ?B = "mkdir_areas folder_name request retcode"
  let ?msgs = "[''Folder created successfully'', ''Folder already exists'']"
  have lits1: "literals lit (mem_of mach) ?A turn_literals" by (rule literals_fewer_areas [OF literals_subset [OF lits]]) auto
  obtain mach1 where turn: "shell_turn bus lit loc tree (inputBuffer, current_dir, charBuffer) (map (key_event bus press) (keys @ enter # later)) (pc, g, mach) =
      do { (pc, g, mach) \<leftarrow> parse_command bus lit loc inputBuffer pc g mach1; mach \<leftarrow> shell_puts bus (lit ''\<newline>'') 0 mach; Some (pc, g, mach) }"
    and l: "load_bytes (mem_of mach1) inputBuffer 256 = (bytes_of ''mkdir'' @ 32 # name) @ [] @ replicate (256 - length (bytes_of ''mkdir'' @ 32 # name) - length ([] :: u8 list)) 0"
    and screen1: "shows_terminal reg (screen_of mach1) t'" and inv1: "fs_inv (fsys (kern mach1)) D" and d1: "disk (fsys (kern mach1)) = d"
    and k1: "kept_outside ?A (mem_of mach) (mem_of mach1)"
    using turn_reads [where loc = loc and later = later and g = g, OF crtc kbd screen quiet inv walk [unfolded d p] areas(1,2) places(1,2) root [unfolded d] shown [unfolded d] lits1 keys(1-3) echo, folded d]
    by blast
  have "line_ok (bytes_of ''mkdir'' @ 32 # name, [])" using fold_edit_ok [of "([], [])" "map key_char keys"] keys(3) by (simp add: line_ok_def)
  then have n: "length name \<le> 249" "0 \<notin> set name" by (simp_all add: line_ok_def bytes_of_def)
  have line: "typed lit (mem_of mach1) inputBuffer (bytes_of ''mkdir'') name (replicate (249 - length name) 0)"
    using l n keys(5) places(3-6) by (simp add: typed_def bytes_of_def Suc_diff_le flip: replicate_Suc)
  have lits2: "literals lit (mem_of mach1) ((inputBuffer, 256) # ?B) ('' '' # command_words @ ?msgs)"
    by (rule literals_fewer_areas [OF literals_subset [OF literals_kept [OF lits k1]]]) (auto simp: turn_areas_def)
  have ok: "fs_ok d D" using inv by (simp add: fs_inv_def d)
  have "2 \<in> D" using tree_dirs [OF ok [unfolded fs_ok_def], of ROOT_CLUSTER_NUMBER] by (simp add: ROOT_CLUSTER_NUMBER_def)
  then have pD: "p \<in> D" using leads_climbs [OF ok _ walk, of "[]"] by simp
  obtain mach2 tok where run: "parse_command bus lit loc inputBuffer pc g mach1 = Some (pc, g\<lparr>next_token := tok\<rparr>, mach2)"
    and out: "mkdir_outcome reg t' D p key (fsys (kern mach1)) mach2"
    and k2: "kept_outside ((inputBuffer, 256) # ?B) (mem_of mach1) (mem_of mach2)"
    using mkdir_typed [OF crtc screen1 inv1 pD [unfolded p] line keys(4) loc areas(3) lits2 free [folded d1, unfolded p] key, of g] unfolding p by blast
  let ?text = "if listing d p key = None then term_print (bytes_of ''Folder created successfully'') 0x2 t' else term_print (bytes_of ''Folder already exists'') 0x4 t'"
  have screen2: "shows_terminal reg (screen_of mach2) ?text" using out by (auto simp: mkdir_outcome_def reports_def d1)
  have "kept_outside (?A @ ?B) (mem_of mach) (mem_of mach2)"
    by (rule kept_trans [OF kept_mono [OF k1] kept_mono [OF k2]]) (auto simp: turn_areas_def)
  from literals_kept [OF lits this] have "cstr (mem_of mach2) (lit ''\<newline>'') (bytes_of ''\<newline>'')"
    by (intro literal_at [of lit "mem_of mach2" "?A @ ?B"]) (auto simp: turn_literals_def)
  then obtain s where say: "shell_puts bus (lit ''\<newline>'') 0 mach2 = Some (with_screen s mach2)"
    and s: "shows_terminal reg s (term_print (bytes_of ''\<newline>'') 0 ?text)"
    using shell_puts_effect [OF crtc screen2, of "lit ''\<newline>''" "bytes_of ''\<newline>''" 0] by (auto simp: bytes_of_def)
  have "shell_turn bus lit loc tree (inputBuffer, current_dir, charBuffer) (map (key_event bus press) (keys @ enter # later)) (pc, g, mach) =
      Some (pc, g\<lparr>next_token := tok\<rparr>, with_screen s mach2)"
    using turn run say by simp
  then show ?thesis
    using out s unfolding mkdir_outcome_def d1
    by (intro exI [of _ "with_screen s mach2"] exI [of _ tok]) (cases "listing d p key"; simp add: reports_def)
qed

end
