(* ===== verification/Shell_Cat.thy ===== *)
theory Shell_Cat
  imports Shell_Theorems Shell_Line
begin

text \<open>
  What \<open>cat\<close> shows (\<open>src/src/user-shell.c\<close>): the argument is taken apart at the dot, the file is read into a buffer of four clusters, and two of
  them are printed.
\<close>

section \<open>The request\<close>

lemma of_nat_less_small: "j < n \<Longrightarrow> n < 2 ^ 32 \<Longrightarrow> (of_nat j :: u32) < of_nat n"
  by (simp add: word_less_nat_alt unat_of_nat)

text \<open>The loop that takes the argument apart: a name, and behind a dot an extension of three characters.\<close>

lemma split_name_scan:
  assumes s: "cstr m itr (name @ suf)" and dot: "46 \<notin> set name" and len: "length (name @ suf) < 2 ^ 32" and k: "k \<le> length name"
  shows "split_name m request itr (of_nat k) (of_nat k) = split_name m request itr (of_nat (length name)) (of_nat (length name))"
  using k
proof (induction "length name - k" arbitrary: k)
  case (Suc j)
  have lt: "(of_nat k :: u32) < of_nat (length (name @ suf))"
    using Suc.hyps(2) len by (intro of_nat_less_small) simp_all
  have "m (itr + of_nat k) = name ! k"
  proof -
    have "load_bytes m itr (length (name @ suf)) ! k = (name @ suf) ! k" using s by (simp add: cstr_iff_load)
    moreover have "k < length name" using Suc.hyps(2) by simp
    ultimately show ?thesis by (simp add: nth_append)
  qed
  then have "m (itr + of_nat k) \<noteq> 46" using dot Suc by (metis nth_mem diff_is_0_eq nat.distinct(1) not_le)
  then have "split_name m request itr (of_nat k) (of_nat k) = split_name m request itr (of_nat (Suc k)) (of_nat (Suc k))"
    using lt strlen_cstr [OF s] by (subst split_name.simps) (simp add: ac_simps)
  then show ?case using Suc.hyps(1) [of "Suc k"] Suc.hyps(2) by simp
qed simp

lemma split_name_plain:
  assumes "cstr m itr name" and "46 \<notin> set name" and "length name < 2 ^ 32"
  shows "split_name m request itr 0 0 = Some (m, of_nat (length name))"
  using split_name_scan [of m itr name "[]" 0 request] assms strlen_cstr [OF assms(1)]
  by simp (subst split_name.simps, simp)

lemma split_name_dot:
  assumes s: "cstr m itr (name @ 46 # ext)" and dot: "46 \<notin> set name" and ext: "length ext = 3" and len: "length name \<le> 8"
    and areas: "ranges_disjoint itr 12 request 23"
  shows "split_name m request itr 0 0 = Some (store_bytes m (request + of_nat 12) ext, of_nat (length name))"
proof -
  let ?i = "of_nat (length name) :: u32"
  have len': "length (name @ 46 # ext) < 2 ^ 32" using len ext by simp
  obtain a b c where e: "ext = [a, b, c]" using ext by (auto simp: length_Suc_conv numeral_3_eq_3)
  have at: "m (itr + of_nat k) = (name @ 46 # ext) ! k" if "k < length name + 4" for k
  proof -
    have "load_bytes m itr (length (name @ 46 # ext)) ! k = (name @ 46 # ext) ! k" using s by (simp add: cstr_iff_load)
    then show ?thesis using that ext by simp
  qed
  have chars: "m (itr + ?i) = 46" "m (itr + (?i + 1)) = a" "m (itr + (?i + 2)) = b" "m (itr + (?i + 3)) = c"
    using at [of "length name"] at [of "length name + 1"] at [of "length name + 2"] at [of "length name + 3"] by (simp_all add: e nth_append ac_simps)
  have other: "itr + (?i + of_nat j) \<noteq> request + of_nat k" if "j < 4" "k < 23" for j k
  proof -
    have "length name + j < 12" using len that by simp
    then have "itr + of_nat (length name + j) \<noteq> request + of_nat k" using areas that(2) unfolding ranges_disjoint_def by blast
    then show ?thesis by simp
  qed
  have far: "itr + (?i + 2) \<noteq> request + 12" "itr + (?i + 3) \<noteq> request + 12" "itr + (?i + 3) \<noteq> request + 13"
    using other [of 2 12] other [of 3 12] other [of 3 13] by simp_all
  have lt: "?i < of_nat (length (name @ 46 # ext))" using len' by (intro of_nat_less_small) simp_all
  have "store_bytes m (request + 12) ext = m(request + 12 := a, request + 13 := b, request + 14 := c)"
    by (simp add: e store_bytes_Cons add.assoc)
  moreover have "split_name m request itr 0 0 = split_name m request itr ?i ?i"
    using split_name_scan [OF s dot len', of 0 request] by simp
  ultimately show ?thesis
    using lt strlen_cstr [OF s] chars far by (subst (asm) (2) split_name.simps) simp
qed

text \<open>The argument for a file: its name, and its extension, if it has one, behind a dot.\<close>

definition dotted :: "u8 list \<Rightarrow> u8 list \<Rightarrow> u8 list" where
  "dotted name ext = (if ext = replicate 3 0 then name else name @ 46 # ext)"

definition named :: "u32 \<Rightarrow> u8 list \<Rightarrow> u8 list \<Rightarrow> u32 \<Rightarrow> u32 \<Rightarrow> FAT32DriverRequest" where
  "named buf name ext cluster count = \<lparr>r_buf = buf, r_name = name @ replicate (8 - length name) 0, r_ext = ext,
     r_parent_cluster_number = cluster, r_buffer_size = count\<rparr>"

text \<open>The request that \<open>cat\<close> puts together: initialised without a name, then the extension, then the name.\<close>

lemma split_request:
  assumes req: "load_bytes m request 23 = le32 buf @ replicate 8 0 @ replicate 3 0 @ le32 cluster @ le32 count"
    and s: "cstr m argument (dotted name ext)" and name: "length name \<le> 8" "46 \<notin> set name" and ext: "length ext = 3"
    and areas: "ranges_disjoint argument 12 request 23"
  shows "\<exists>m'. split_name m request argument 0 0 = Some (m', of_nat (length name)) \<and>
    load_bytes (fst (memcpy m' (request + 4) argument (of_nat (length name)))) request 23 = request_bytes (named buf name ext cluster count) \<and>
    kept_outside [(request, 23)] m (fst (memcpy m' (request + 4) argument (of_nat (length name))))"
proof -
  obtain m' where split: "split_name m request argument 0 0 = Some (m', of_nat (length name))"
    and l: "load_bytes m' request 23 = le32 buf @ replicate 8 0 @ ext @ le32 cluster @ le32 count" and k: "kept_outside [(request, 23)] m m'"
  proof (cases "ext = replicate 3 0")
    case True
    then have "cstr m argument name" using s by (simp add: dotted_def)
    from split_name_plain [OF this name(2), of request] show ?thesis using that [of m] name(1) req True by simp
  next
    case False
    then have s': "cstr m argument (name @ 46 # ext)" using s by (simp add: dotted_def)
    have 12: "length (le32 buf @ replicate 8 0) = 12" by simp
    have "load_bytes m request 23 = (le32 buf @ replicate 8 0) @ replicate 3 0 @ (le32 cluster @ le32 count)" using req by simp
    from load_inside [OF this, of ext, unfolded 12] ext
    have "load_bytes (store_bytes m (request + of_nat 12) ext) request 23 = (le32 buf @ replicate 8 0) @ ext @ (le32 cluster @ le32 count)" by simp
    moreover have "kept_outside [(request, 23)] m (store_bytes m (request + of_nat 12) ext)" using ext by (intro kept_store_at [of _ 23]) simp_all
    ultimately show ?thesis using that [OF split_name_dot [OF s' name(2) ext name(1) areas]] by simp
  qed
  have s': "load_bytes m' argument (length name) = name"
  proof -
    have "length name \<le> 12" using name(1) by simp
    then have "ranges_disjoint argument (length name) request 23" using ranges_disjoint_part [OF areas, of 0 "length name" 0 23] by simp
    then have "load_bytes m' argument (length name) = load_bytes m argument (length name)" by (intro load_kept [OF k]) simp
    also have "\<dots> = name"
    proof -
      have "load_bytes m argument (length (dotted name ext)) = dotted name ext" using s by (simp add: cstr_iff_load)
      from arg_cong [OF this, of "take (length name)"] show ?thesis by (simp add: take_load_bytes dotted_def split: if_splits)
    qed
    finally show ?thesis .
  qed
  have d: "ranges_disjoint (request + of_nat 4) (length name) argument (length name)"
    using ranges_disjoint_sym [OF ranges_disjoint_part [OF areas, of 0 "length name" 4 "length name"]] name(1) by simp
  have copy: "fst (memcpy m' (request + 4) argument (of_nat (length name))) = store_bytes m' (request + of_nat 4) name"
    using memcpy_apart [of "request + 4" "of_nat (length name)" argument m'] d name(1) s' by simp
  have "load_bytes m' request 23 = le32 buf @ replicate (length name) 0 @ (replicate (8 - length name) 0 @ ext @ le32 cluster @ le32 count)"
  proof -
    have "replicate (length name + (8 - length name)) (0 :: u8) = replicate (length name) 0 @ replicate (8 - length name) 0" by (rule replicate_add)
    moreover have "length name + (8 - length name) = 8" using name(1) by (rule le_add_diff_inverse)
    ultimately have r: "replicate 8 (0 :: u8) = replicate (length name) 0 @ replicate (8 - length name) 0" by metis
    show ?thesis unfolding l unfolding r append_assoc by (rule refl)
  qed
  from load_inside [OF this, of name]
  have "load_bytes (store_bytes m' (request + of_nat 4) name) request 23 = request_bytes (named buf name ext cluster count)"
    by (simp add: request_bytes_def named_def)
  moreover have "kept_outside [(request, 23)] m (store_bytes m' (request + of_nat 4) name)"
    by (rule kept_trans [OF k kept_store_at [of _ 23]]) (use name(1) in simp_all)
  ultimately show ?thesis using split by (intro exI [of _ m']) (simp only: copy simp_thms)
qed

section \<open>Printing a buffer\<close>

lemma term_print_append: "term_print (xs @ ys) color t = term_print ys color (term_print xs color t)"
  by (simp add: term_print_def)

lemma puts_bytes:
  assumes "vga_crtc bus index reg" and "shows_terminal reg (screen_of mach) t" and "unat n = k"
    and "8 \<notin> set (load_bytes (mem_of mach) p k)"
  shows "\<exists>s. shell_syscall bus 6 p n color mach = Some (with_screen s mach) \<and>
    shows_terminal reg s (term_print (load_bytes (mem_of mach) p k) (ucast color) t)"
proof -
  obtain s where "puts bus (screen_of mach) (load_bytes (mem_of mach) p k) color = Some s"
    "shows_terminal reg s (term_print (load_bytes (mem_of mach) p k) (ucast color) t)"
    using puts_refines [OF assms(1,2) term_print_foldl [OF assms(4)]] by blast
  then show ?thesis using assms(3) by (intro exI [of _ s]) (simp add: puts_call)
qed

text \<open>The end of \<open>cat\<close>: two clusters and a newline.\<close>

definition newline_term :: "terminal \<Rightarrow> terminal" where
  "newline_term t = term_print [10] 0xF t"

lemma cat_prints:
  assumes crtc: "vga_crtc bus index reg" and screen: "shows_terminal reg (screen_of mach) t"
    and buf: "load_bytes (mem_of mach) cl_b 4096 = bytes" "8 \<notin> set bytes" and newline: "mem_of mach newline = 10"
  shows "\<exists>s. do { mach \<leftarrow> shell_syscall bus 6 cl_b (of_nat CLUSTER_SIZE) 0xf mach;
      mach \<leftarrow> shell_syscall bus 6 (cl_b + of_nat CLUSTER_SIZE) (of_nat CLUSTER_SIZE) 0xf mach;
      shell_syscall bus 5 newline 0xf 0 mach } = Some (with_screen s mach) \<and> shows_terminal reg s (newline_term (term_print bytes 0xF t))"
proof -
  let ?a = "load_bytes (mem_of mach) cl_b 2048" and ?b = "load_bytes (mem_of mach) (cl_b + 2048) 2048"
  have ab: "bytes = ?a @ ?b" using load_bytes_add [of "mem_of mach" cl_b 2048 2048] buf(1) by simp
  then have plain: "8 \<notin> set ?a" "8 \<notin> set ?b" using buf(2) by auto
  obtain s1 where s1: "shell_syscall bus 6 cl_b 2048 0xF mach = Some (with_screen s1 mach)" "shows_terminal reg s1 (term_print ?a 0xF t)"
    using puts_bytes [OF crtc screen _ plain(1), of 2048 "0xF"] by auto
  let ?m1 = "with_screen s1 mach"
  have at1: "shows_terminal reg (screen_of ?m1) (term_print ?a 0xF t)" and mem1: "mem_of ?m1 = mem_of mach" using s1(2) by simp_all
  obtain s2 where s2: "shell_syscall bus 6 (cl_b + 2048) 2048 0xF ?m1 = Some (with_screen s2 ?m1)"
    "shows_terminal reg s2 (term_print ?b 0xF (term_print ?a 0xF t))"
    using puts_bytes [OF crtc at1, of 2048 2048 "cl_b + 2048" "0xF"] plain(2) by auto
  let ?m2 = "with_screen s2 ?m1"
  have at2: "shows_terminal reg (screen_of ?m2) (term_print bytes 0xF t)" using s2(2) by (simp add: ab term_print_append)
  have "foldl (\<lambda>t c. Option.bind t (term_put c 0xF)) (Some (term_print bytes 0xF t)) [10] = Some (newline_term (term_print bytes 0xF t))"
    unfolding newline_term_def by (rule term_print_foldl) simp
  from echo_step [OF crtc at2 _ this, of newline] newline obtain s3 where s3: "shell_syscall bus 5 newline 0xF 0 ?m2 = Some (with_screen s3 ?m2)"
    "shows_terminal reg s3 (newline_term (term_print bytes 0xF t))" by auto
  have "with_screen s3 ?m2 = with_screen s3 mach" by (simp add: with_screen_def)
  then show ?thesis using s1(1) s2(1) s3 by (intro exI [of _ s3]) (simp add: CLUSTER_SIZE_eq)
qed

section \<open>The command\<close>

definition cat_areas :: "u32 \<Rightarrow> u32 \<Rightarrow> u32 \<Rightarrow> (u32 \<times> nat) list" where
  "cat_areas cl_b request retcode = [(cl_b, 8192), (request, 23), (retcode, 4)]"

text \<open>The memory before the system call: the request is complete, the buffer zero, and so is the variable for the result.\<close>

lemma cat_request:
  assumes s: "cstr m argument (dotted name ext)" and name: "length name \<le> 8" "46 \<notin> set name" and ext: "length ext = 3"
    and areas: "apart ((argument, 13) # cat_areas cl_b request retcode)"
    and m3_def: "m3 = store_bytes (init_request request cl_b (replicate 8 0) cluster 8192 (store_bytes m cl_b (replicate 8192 0))) retcode (le32 0)"
  shows "\<exists>m4 m5. split_name m3 request argument 0 0 = Some (m4, of_nat (length name)) \<and>
    m5 = fst (memcpy m4 (request + 4) argument (of_nat (length name))) \<and>
    load_bytes m5 request 23 = request_bytes (named cl_b name ext cluster 8192) \<and> load_bytes m5 retcode 4 = le32 0 \<and>
    load_bytes m5 cl_b 8192 = replicate 8192 0 \<and> kept_outside (cat_areas cl_b request retcode) m m5"
proof -
  have d: "ranges_disjoint argument 13 cl_b 8192" "ranges_disjoint argument 13 request 23" "ranges_disjoint argument 13 retcode 4"
    "ranges_disjoint cl_b 8192 request 23" "ranges_disjoint cl_b 8192 retcode 4" "ranges_disjoint request 23 retcode 4"
    using areas by (simp_all add: apart_def cat_areas_def)
  let ?r0 = "le32 cl_b @ replicate 8 0 @ replicate 3 0 @ le32 cluster @ le32 8192"
  define m1 where "m1 = store_bytes m cl_b (replicate 8192 0)"
  define m2 where "m2 = store_bytes m1 request ?r0"
  have m3: "m3 = store_bytes m2 retcode (le32 0)" by (simp add: m3_def m2_def m1_def init_request_def request_bytes_def)
  have k3: "kept_outside (cat_areas cl_b request retcode) m m3"
    unfolding m3 m2_def m1_def by (intro kept_trans [OF kept_trans [OF kept_store kept_store] kept_store]) (simp_all add: cat_areas_def)
  have len: "length (dotted name ext) < 13" using name(1) ext by (simp add: dotted_def)
  have s3: "cstr m3 argument (dotted name ext)"
  proof (rule cstr_kept [OF s k3])
    have n: "0 + Suc (length (dotted name ext)) \<le> 13" using len by simp
    show "list_all (\<lambda>a. ranges_disjoint argument (Suc (length (dotted name ext))) (fst a) (snd a)) (cat_areas cl_b request retcode)"
      using ranges_disjoint_part [OF d(1) n, of 0 8192] ranges_disjoint_part [OF d(2) n, of 0 23] ranges_disjoint_part [OF d(3) n, of 0 4]
      by (simp add: cat_areas_def)
  qed
  have r3: "load_bytes m3 request 23 = ?r0"
    using load_store_bytes [of ?r0 m1 request] d(6) by (simp add: m3 m2_def load_store_bytes_disjoint)
  have d12: "ranges_disjoint argument 12 request 23" using ranges_disjoint_part [OF d(2), of 0 12 0 23] by simp
  obtain m4 where m4: "split_name m3 request argument 0 0 = Some (m4, of_nat (length name))"
    "load_bytes (fst (memcpy m4 (request + 4) argument (of_nat (length name)))) request 23 = request_bytes (named cl_b name ext cluster 8192)"
    and k5: "kept_outside [(request, 23)] m3 (fst (memcpy m4 (request + 4) argument (of_nat (length name))))"
    using split_request [OF r3 s3 name ext d12] by blast
  let ?m5 = "fst (memcpy m4 (request + 4) argument (of_nat (length name)))"
  have "load_bytes m3 retcode 4 = le32 0" using load_store_bytes [of "le32 0" m2 retcode] by (simp add: m3)
  then have "load_bytes ?m5 retcode 4 = le32 0" using load_kept [OF k5, of retcode 4] ranges_disjoint_sym [OF d(6)] by simp
  moreover have "load_bytes m3 cl_b 8192 = replicate 8192 0"
    using load_store_bytes [of "replicate 8192 0" m cl_b] d(4,5) by (simp add: m3 m2_def m1_def load_store_bytes_disjoint)
  then have "load_bytes ?m5 cl_b 8192 = replicate 8192 0" using load_kept [OF k5, of cl_b 8192] d(4) by simp
  moreover have "kept_outside (cat_areas cl_b request retcode) m ?m5"
    by (rule kept_trans [OF k3 kept_mono [OF k5]]) (simp add: cat_areas_def)
  ultimately show ?thesis using m4 by blast
qed

definition cat_literals :: "string list" where
  "cat_literals = [''\<newline>'', ''Can't find the file!'']"

text \<open>
  What is printed: the first 4096 bytes of the clusters of the file, which are the file and what follows it in its last cluster, and zeros if
  there are fewer.
\<close>

definition cat_text :: "image \<Rightarrow> u32 \<Rightarrow> file_key \<Rightarrow> u8 list" where
  "cat_text d p k = take 4096 (stored_clusters d p k @ replicate 4096 0)"

lemma cat_text_file:
  assumes "listing d p k = Some (File xs)"
  shows "take (length xs) (cat_text d p k) = take 4096 xs"
proof -
  have "length xs \<le> length (stored_clusters d p k)" using stored_clusters(1) [OF assms] cluster_need_bounds(1) [of "length xs"] by simp
  then have "take (length xs) (cat_text d p k) = take 4096 (take (length xs) (stored_clusters d p k))" by (simp add: cat_text_def take_take min.commute)
  then show ?thesis using stored_clusters(2) [OF assms] by simp
qed

lemma cat_read_text:
  assumes "load_bytes m cl_b (2048 * n) = stored_clusters d p k" and "load_bytes m0 cl_b 8192 = replicate 8192 0"
    and "\<forall>a. 2048 * n \<le> unat (a - cl_b) \<longrightarrow> m a = m0 a"
  shows "load_bytes m cl_b 4096 = cat_text d p k"
proof (rule nth_equalityI)
  have len: "length (stored_clusters d p k) = 2048 * n" using assms(1) length_load_bytes by metis
  then show "length (load_bytes m cl_b 4096) = length (cat_text d p k)" by (simp add: cat_text_def)
  fix i assume "i < length (load_bytes m cl_b 4096)"
  then have i: "i < 4096" by simp
  show "load_bytes m cl_b 4096 ! i = cat_text d p k ! i"
  proof (cases "i < 2048 * n")
    case True
    then have "stored_clusters d p k ! i = m (cl_b + of_nat i)" using arg_cong [OF assms(1), of "\<lambda>l. l ! i"] by simp
    then show ?thesis using i True len by (simp add: cat_text_def nth_append)
  next
    case False
    have "unat (cl_b + of_nat i - cl_b) = i" using i by (simp add: unat_of_nat)
    then have "m (cl_b + of_nat i) = m0 (cl_b + of_nat i)" using assms(3) False by (metis not_le)
    moreover have "m0 (cl_b + of_nat i) = 0" using arg_cong [OF assms(2), of "\<lambda>l. l ! i"] i by simp
    ultimately show ?thesis using i False len by (simp add: cat_text_def nth_append)
  qed
qed

text \<open>What follows the system call.\<close>

definition cat_answer :: "'d bus \<Rightarrow> (string \<Rightarrow> u32) \<Rightarrow> u32 \<Rightarrow> u32 \<Rightarrow> 'd machine \<Rightarrow> 'd machine option" where
  "cat_answer bus lit cl_b rc mach =
     (if rc = 3 then shell_puts bus (lit ''The file size is too big to read!'') 0x4 mach
      else if rc = 2 then shell_puts bus (lit ''Can't find the file!'') 0x4 mach
      else if rc = 1 then shell_puts bus (lit ''Not a file!'') 0x4 mach
      else if rc = - 1 then shell_puts bus (lit ''An error occured!'') 0x4 mach
      else
        do { mach \<leftarrow> shell_syscall bus 6 cl_b (of_nat CLUSTER_SIZE) 0xf mach;
             mach \<leftarrow> shell_syscall bus 6 (cl_b + of_nat CLUSTER_SIZE) (of_nat CLUSTER_SIZE) 0xf mach;
             shell_syscall bus 5 (lit ''\<newline>'') 0xf 0 mach })"

lemma cat_run:
  assumes s: "cstr (mem_of mach) argument (dotted name ext)" and name: "name \<noteq> []" "length name \<le> 8" "46 \<notin> set name" and ext: "length ext = 3"
    and areas: "apart ((argument, 13) # cat_areas cl_b request retcode)"
  obtains m r where "wf_request r" and "request_key r = (name @ replicate (8 - length name) 0, ext)" and "request_key r \<noteq> zero_key"
    and "r_parent_cluster_number r = ucast pc" and "r_buf r = cl_b" and "r_buffer_size r \<noteq> 0"
    and "load_bytes m retcode 4 = le32 0" and "load_bytes m cl_b 8192 = replicate 8192 0"
    and "kept_outside (cat_areas cl_b request retcode) (mem_of mach) m"
    and "\<And>rc f. read ((fsys (kern mach))\<lparr>ram := m\<rparr>) r = Some (rc, f) \<Longrightarrow> cat_command bus lit cl_b request retcode argument pc mach =
      cat_answer bus lit cl_b (of_le32 (load_bytes (store_bytes (ram f) retcode [word_of_int rc]) retcode 4))
        (with_fs f (store_bytes (ram f) retcode [word_of_int rc]) mach)"
proof -
  let ?r = "named cl_b name ext (ucast pc) 8192"
  obtain m4 m5 where split: "split_name (store_bytes (init_request request cl_b (replicate 8 0) (ucast pc) 8192 (store_bytes (mem_of mach) cl_b (replicate 8192 0)))
      retcode (le32 0)) request argument 0 0 = Some (m4, of_nat (length name))"
    and m5: "m5 = fst (memcpy m4 (request + 4) argument (of_nat (length name)))" "load_bytes m5 request 23 = request_bytes ?r"
      "load_bytes m5 retcode 4 = le32 0" "load_bytes m5 cl_b 8192 = replicate 8192 0"
    and k5: "kept_outside (cat_areas cl_b request retcode) (mem_of mach) m5"
    using cat_request [OF s name(2,3) ext areas refl, of "ucast pc"] by blast
  have r: "wf_request ?r" "request_key ?r = (name @ replicate (8 - length name) 0, ext)" "r_parent_cluster_number ?r = ucast pc" "r_buf ?r = cl_b"
    "r_buffer_size ?r \<noteq> 0"
    using name(2) ext by (simp_all add: named_def wf_request_def request_key_def)
  have "hd (name @ replicate (8 - length name) 0) \<noteq> 0" using cstr_no_nul [OF s] name(1) by (cases name) (auto simp: dotted_def split: if_splits)
  then have nz: "request_key ?r \<noteq> zero_key" unfolding r(2) zero_key_def by (auto simp: replicate_8)
  have run: "cat_command bus lit cl_b request retcode argument pc mach =
      do { mach \<leftarrow> shell_syscall bus 0 request retcode 0 (with_fs (fsys (kern mach)) m5 mach);
           cat_answer bus lit cl_b (of_le32 (load_bytes (mem_of mach) retcode 4)) mach }"
    unfolding cat_command_def cat_answer_def using split by (simp add: CLUSTER_SIZE_eq m5(1) del: if_split cong: if_cong)
  have "cat_command bus lit cl_b request retcode argument pc mach =
      cat_answer bus lit cl_b (of_le32 (load_bytes (store_bytes (ram f) retcode [word_of_int rc]) retcode 4))
        (with_fs f (store_bytes (ram f) retcode [word_of_int rc]) mach)"
    if "read ((fsys (kern mach))\<lparr>ram := m5\<rparr>) ?r = Some (rc, f)" for rc f
    unfolding run using file_call [of "with_fs (fsys (kern mach)) m5 mach" request ?r 0 read rc f bus retcode 0] m5(2) r(1) that by simp
  then show ?thesis by (rule that [OF r(1,2) nz r(3-5) m5(3,4) k5])
qed

text \<open>The low byte of the result is stored into a variable that was zero.\<close>

lemma cat_result: "load_bytes m retcode 4 = le32 0 \<Longrightarrow> of_le32 (load_bytes (store_bytes m retcode [v]) retcode 4) = ucast v"
  using load_inside [of m retcode 4 "[]" "[0]" "[0, 0, 0]" "[v]"] by (simp add: le32_def of_le32_def)

lemma cat_missing:
  assumes crtc: "vga_crtc bus index reg" and screen: "shows_terminal reg (screen_of mach) t"
    and inv: "fs_inv (fsys (kern mach)) D" and p: "ucast pc \<in> D"
    and s: "cstr (mem_of mach) argument (dotted name ext)" and name: "name \<noteq> []" "length name \<le> 8" "46 \<notin> set name" and ext: "length ext = 3"
    and areas: "apart ((argument, 13) # cat_areas cl_b request retcode)"
    and lits: "literals lit (mem_of mach) (cat_areas cl_b request retcode) cat_literals"
    and none: "listing (disk (fsys (kern mach))) (ucast pc) (name @ replicate (8 - length name) 0, ext) = None"
  shows "\<exists>f m s. cat_command bus lit cl_b request retcode argument pc mach = Some (with_screen s (with_fs f m mach)) \<and>
    fs_inv f D \<and> disk f = disk (fsys (kern mach)) \<and> shows_terminal reg s (term_print (bytes_of ''Can't find the file!'') 0x4 t)"
proof -
  obtain m r where r: "wf_request r" "request_key r = (name @ replicate (8 - length name) 0, ext)" "request_key r \<noteq> zero_key" "r_parent_cluster_number r = ucast pc"
    and m: "load_bytes m retcode 4 = le32 0" and k: "kept_outside (cat_areas cl_b request retcode) (mem_of mach) m"
    and run: "\<And>rc f. read ((fsys (kern mach))\<lparr>ram := m\<rparr>) r = Some (rc, f) \<Longrightarrow> cat_command bus lit cl_b request retcode argument pc mach =
      cat_answer bus lit cl_b (of_le32 (load_bytes (store_bytes (ram f) retcode [word_of_int rc]) retcode 4))
        (with_fs f (store_bytes (ram f) retcode [word_of_int rc]) mach)"
    using cat_run [OF s name ext areas, of pc bus lit] by metis
  have inv': "fs_inv ((fsys (kern mach))\<lparr>ram := m\<rparr>) D" using inv by simp
  obtain f where f: "read ((fsys (kern mach))\<lparr>ram := m\<rparr>) r = Some (2, f)" "disk f = disk (fsys (kern mach))" "ram f = m" "fs_inv f D"
    using refusal_effects [OF inv' _ r(1,3)] p none by (auto simp: r(2,4))
  have "kept_outside (cat_areas cl_b request retcode) (mem_of mach) (store_bytes m retcode [2])"
    by (rule kept_trans [OF k kept_store]) (simp add: cat_areas_def)
  then have lits': "literals lit (store_bytes m retcode [2]) (cat_areas cl_b request retcode) cat_literals" by (rule literals_kept [OF lits]) simp
  have plain: "8 \<notin> set (bytes_of ''Can't find the file!'')" by (simp add: bytes_of_def)
  obtain scr where "shell_puts bus (lit ''Can't find the file!'') 4 (with_fs f (store_bytes m retcode [2]) mach) = Some (with_screen scr (with_fs f (store_bytes m retcode [2]) mach))"
    "reports reg (with_screen scr (with_fs f (store_bytes m retcode [2]) mach)) ''Can't find the file!'' (ucast (4 :: u32)) t"
    using puts_literal [OF crtc screen lits' _ plain, where f = f and color = 4] by (auto simp: cat_literals_def)
  then show ?thesis
    using run [OF f(1)] cat_result [OF m, of 2] f by (intro exI [of _ f] exI [of _ "store_bytes m retcode [2]"] exI [of _ scr]) (simp add: cat_answer_def reports_def)
qed

lemma cat_file:
  assumes crtc: "vga_crtc bus index reg" and screen: "shows_terminal reg (screen_of mach) t"
    and inv: "fs_inv (fsys (kern mach)) D" and p: "ucast pc \<in> D"
    and s: "cstr (mem_of mach) argument (dotted name ext)" and name: "name \<noteq> []" "length name \<le> 8" "46 \<notin> set name" and ext: "length ext = 3"
    and areas: "apart ((argument, 13) # cat_areas cl_b request retcode)"
    and lits: "literals lit (mem_of mach) (cat_areas cl_b request retcode) cat_literals"
    and stored: "listing (disk (fsys (kern mach))) (ucast pc) (name @ replicate (8 - length name) 0, ext) = Some (File xs)"
    and len: "length xs mod 2048 \<noteq> 0" "length xs \<le> 8192"
    and bytes: "bytes = cat_text (disk (fsys (kern mach))) (ucast pc) (name @ replicate (8 - length name) 0, ext)" "8 \<notin> set bytes"
  shows "\<exists>f m s. cat_command bus lit cl_b request retcode argument pc mach = Some (with_screen s (with_fs f m mach)) \<and>
    fs_inv f D \<and> disk f = disk (fsys (kern mach)) \<and> shows_terminal reg s (newline_term (term_print bytes 0xF t))"
proof -
  obtain m r where r: "wf_request r" "request_key r = (name @ replicate (8 - length name) 0, ext)" "request_key r \<noteq> zero_key"
      "r_parent_cluster_number r = ucast pc" "r_buf r = cl_b" "r_buffer_size r \<noteq> 0"
    and m: "load_bytes m retcode 4 = le32 0" "load_bytes m cl_b 8192 = replicate 8192 0" and k: "kept_outside (cat_areas cl_b request retcode) (mem_of mach) m"
    and run: "\<And>rc f. read ((fsys (kern mach))\<lparr>ram := m\<rparr>) r = Some (rc, f) \<Longrightarrow> cat_command bus lit cl_b request retcode argument pc mach =
      cat_answer bus lit cl_b (of_le32 (load_bytes (store_bytes (ram f) retcode [word_of_int rc]) retcode 4))
        (with_fs f (store_bytes (ram f) retcode [word_of_int rc]) mach)"
    using cat_run [OF s name ext areas, of pc bus lit] by metis
  have d: "ranges_disjoint cl_b 8192 retcode 4" using areas by (simp add: apart_def cat_areas_def)
  have inv': "fs_inv ((fsys (kern mach))\<lparr>ram := m\<rparr>) D" using inv by simp
  obtain f where f: "read ((fsys (kern mach))\<lparr>ram := m\<rparr>) r = Some (0, f)" "load_bytes (ram f) cl_b (2048 * cluster_need (length xs)) = stored_clusters (disk (fsys (kern mach))) (ucast pc) (name @ replicate (8 - length name) 0, ext)"
      "disk f = disk (fsys (kern mach))" "fs_inv f D"
    and same: "\<forall>a. 2048 * cluster_need (length xs) \<le> unat (a - cl_b) \<longrightarrow> ram f a = m a"
    using read_effect [OF inv' _ r(1,3,6), of xs] p stored len(1) by (auto simp: r(2,4,5))
  have "cluster_need (length xs) \<le> 4" using len(2) by (simp add: cluster_need_def)
  then have "kept_outside [(cl_b, 8192)] m (ram f)" using same by (simp add: kept_outside_def)
  then have kf: "load_bytes (ram f) retcode 4 = le32 0" "kept_outside (cat_areas cl_b request retcode) m (ram f)"
    using load_kept [of "[(cl_b, 8192)]" m "ram f" retcode 4] m(1) ranges_disjoint_sym [OF d]
    by (simp_all add: kept_mono [of "[(cl_b, 8192)]"] cat_areas_def)
  let ?m = "store_bytes (ram f) retcode [0]"
  have "kept_outside (cat_areas cl_b request retcode) (mem_of mach) ?m"
    by (rule kept_trans [OF kept_trans [OF k kf(2)] kept_store]) (simp add: cat_areas_def)
  from literals_kept [OF lits this] have "cstr ?m (lit ''\<newline>'') (bytes_of ''\<newline>'')"
    by (intro literal_at [of lit ?m "cat_areas cl_b request retcode"]) (auto simp: cat_literals_def)
  then have newline: "mem_of (with_fs f ?m mach) (lit ''\<newline>'') = 10" by (simp add: bytes_of_def)
  have "ranges_disjoint cl_b 4096 retcode 1" using ranges_disjoint_part [OF d, of 0 4096 0 1] by simp
  moreover have "load_bytes (ram f) cl_b 4096 = bytes" unfolding bytes(1) by (rule cat_read_text [OF f(2) m(2) same])
  ultimately have shown: "load_bytes (mem_of (with_fs f ?m mach)) cl_b 4096 = bytes" by (simp add: load_store_bytes_disjoint)
  have at: "shows_terminal reg (screen_of (with_fs f ?m mach)) t" using screen by simp
  have cat: "cat_command bus lit cl_b request retcode argument pc mach =
      do { mach \<leftarrow> shell_syscall bus 6 cl_b (of_nat CLUSTER_SIZE) 0xf (with_fs f ?m mach);
           mach \<leftarrow> shell_syscall bus 6 (cl_b + of_nat CLUSTER_SIZE) (of_nat CLUSTER_SIZE) 0xf mach;
           shell_syscall bus 5 (lit ''\<newline>'') 0xf 0 mach }"
    using run [OF f(1)] cat_result [OF kf(1), of 0] by (simp add: cat_answer_def)
  show ?thesis using cat_prints [OF crtc at shown bytes(2) newline] f(3,4) unfolding cat by blast
qed

section \<open>Properties\<close>

text \<open>
  C9: Typing \<open>cat\<close> and the name of a file, with a dot before the extension if it has one, shows the file. For a file of at most 8192 bytes whose size is not a
  multiple of 2048, the shell prints 4096 bytes and a newline: the first 4096 bytes of the file, and if it is shorter, what follows it on the disk in its last
  cluster, and then zeros. (If a backspace is among these bytes, which takes a character from the screen, nothing is claimed.) For a name that is not there it prints
  so. In both cases the disk, the invariant of the file system, the current directory and the stack of directories stay as they were; the buffers of the driver and the
  local variables of the shell change.
\<close>

theorem cat_line:
  assumes screen: "vga_crtc bus index reg" "shows_terminal reg (screen_of mach) t"
    and inv: "fs_inv (fsys (kern mach)) D" and p: "ucast pc \<in> D"
    and line: "typed lit (mem_of mach) buffer (bytes_of ''cat'') (dotted name ext) post"
    and name: "name \<noteq> []" "length name \<le> 8" "46 \<notin> set name" and ext: "length ext = 3"
    and loc: "l_cat loc = (cl_b, request, retcode)"
    and areas: "apart ((buffer, 256) # cat_areas cl_b request retcode)"
    and lits: "literals lit (mem_of mach) ((buffer, 256) # cat_areas cl_b request retcode) ('' '' # command_words @ cat_literals)"
    and d: "d = disk (fsys (kern mach))" and key: "key = (name @ replicate (8 - length name) 0, ext)"
  shows "(\<forall>xs. listing d (ucast pc) key = Some (File xs) \<and> length xs mod 2048 \<noteq> 0 \<and> length xs \<le> 8192 \<and> 8 \<notin> set (cat_text d (ucast pc) key) \<longrightarrow>
      take (length xs) (cat_text d (ucast pc) key) = take 4096 xs \<and>
      (\<exists>mach' tok. parse_command bus lit loc buffer pc g mach = Some (pc, g\<lparr>next_token := tok\<rparr>, mach') \<and>
        fs_inv (fsys (kern mach')) D \<and> disk (fsys (kern mach')) = d \<and>
        shows_terminal reg (screen_of mach') (newline_term (term_print (cat_text d (ucast pc) key) 0xF t)))) \<and>
    (listing d (ucast pc) key = None \<longrightarrow>
      (\<exists>mach' tok. parse_command bus lit loc buffer pc g mach = Some (pc, g\<lparr>next_token := tok\<rparr>, mach') \<and>
        fs_inv (fsys (kern mach')) D \<and> disk (fsys (kern mach')) = d \<and> reports reg mach' ''Can't find the file!'' 0x4 t))"
proof (rule parse_typed [OF line lits, of bus loc pc g])
  fix tok m
  let ?mach = "with_fs (fsys (kern mach)) m mach" and ?arg = "buffer + of_nat (Suc (length (bytes_of ''cat'')))"
  assume run: "parse_command bus lit loc buffer pc g mach = dispatch bus lit loc buffer buffer ?arg pc (g\<lparr>next_token := tok\<rparr>) ?mach"
    and s: "cstr m buffer (bytes_of ''cat'')" and arg: "cstr m ?arg (dotted name ext)"
    and words: "literals lit m ((buffer, 256) # cat_areas cl_b request retcode) command_words"
    and msgs: "literals lit m ((buffer, 256) # cat_areas cl_b request retcode) cat_literals"
  have b: "length (bytes_of ''cat'') = 3" "bytes_of ''cat'' \<noteq> bytes_of ''cd''" "bytes_of ''cat'' \<noteq> bytes_of ''ls''" "take 5 (bytes_of ''cat'') \<noteq> bytes_of ''mkdir''"
    by (simp_all add: bytes_of_def)
  have cat: "parse_command bus lit loc buffer pc g mach =
      map_option (\<lambda>mach. (pc, g\<lparr>next_token := tok\<rparr>, mach)) (cat_command bus lit cl_b request retcode ?arg pc ?mach)"
    unfolding run using dispatch_word [of ?mach buffer "bytes_of ''cat''" lit _ bus loc] s words b loc by (simp add: Let_def)
  have a: "apart ((?arg, 13) # cat_areas cl_b request retcode)" using apart_part [OF areas, of 4 13] by (simp add: b(1))
  have l: "literals lit m (cat_areas cl_b request retcode) cat_literals" using literals_fewer_areas [OF msgs] by auto
  note found = cat_file [of bus index reg ?mach t D pc ?arg name ext cl_b request retcode lit, unfolded with_fs_simps, OF screen inv p arg name ext a l, folded d key]
  note missing = cat_missing [of bus index reg ?mach t D pc ?arg name ext cl_b request retcode lit, unfolded with_fs_simps, OF screen inv p arg name ext a l, folded d key]
  show ?thesis
  proof (intro conjI allI impI)
    fix xs assume xs: "listing d (ucast pc) key = Some (File xs) \<and> length xs mod 2048 \<noteq> 0 \<and> length xs \<le> 8192 \<and> 8 \<notin> set (cat_text d (ucast pc) key)"
    show "take (length xs) (cat_text d (ucast pc) key) = take 4096 xs" using cat_text_file xs by blast
    obtain f m' s where "cat_command bus lit cl_b request retcode ?arg pc ?mach = Some (with_screen s (with_fs f m' mach))" "fs_inv f D" "disk f = d"
      "shows_terminal reg s (newline_term (term_print (cat_text d (ucast pc) key) 0xF t))"
      using found [of xs] xs by blast
    then show "\<exists>mach' tok. parse_command bus lit loc buffer pc g mach = Some (pc, g\<lparr>next_token := tok\<rparr>, mach') \<and>
        fs_inv (fsys (kern mach')) D \<and> disk (fsys (kern mach')) = d \<and>
        shows_terminal reg (screen_of mach') (newline_term (term_print (cat_text d (ucast pc) key) 0xF t))"
      unfolding cat by (intro exI [of _ "with_screen s (with_fs f m' mach)"] exI [of _ tok]) simp
  next
    assume "listing d (ucast pc) key = None"
    with missing obtain f m' s where "cat_command bus lit cl_b request retcode ?arg pc ?mach = Some (with_screen s (with_fs f m' mach))"
      "fs_inv f D" "disk f = d" "shows_terminal reg s (term_print (bytes_of ''Can't find the file!'') 0x4 t)" by blast
    then show "\<exists>mach' tok. parse_command bus lit loc buffer pc g mach = Some (pc, g\<lparr>next_token := tok\<rparr>, mach') \<and>
        fs_inv (fsys (kern mach')) D \<and> disk (fsys (kern mach')) = d \<and> reports reg mach' ''Can't find the file!'' 0x4 t"
      unfolding cat by (intro exI [of _ "with_screen s (with_fs f m' mach)"] exI [of _ tok]) (simp add: reports_def)
  qed
qed

end
