(* ===== verification/Shell_Example.thy ===== *)
theory Shell_Example
  imports Shell_Turn Shell_Cat
begin

text \<open>
  A concrete machine for the shell: display controller and keyboard on one bus, the text screen empty, a memory with the string literals from
  0x10000 on and the line at 0x2000, and a disk with one directory.
\<close>

section \<open>The literals\<close>

definition shell_literals :: "string list" where
  "shell_literals = '' '' # command_words @ ''Folder created successfully'' # ''Folder already exists'' # ''Already in root'' # ''Command not found'' #
     cd_literals @ rm_literals @ turn_literals @ cat_literals"

text \<open>One cell of 64 bytes for each literal.\<close>

definition example_lit :: "string \<Rightarrow> u32" where
  "example_lit s = 0x10000 + of_nat (64 * length (takeWhile (\<lambda>x. x \<noteq> s) shell_literals))"

definition literal_mem :: mem where
  "literal_mem = (\<lambda>a. let n = unat (a - 0x10000) in
     if n < 64 * length shell_literals then (bytes_of (shell_literals ! (n div 64)) @ replicate 64 0) ! (n mod 64) else 0)"

lemma shell_literals_ok: "length shell_literals = 28" "list_all (\<lambda>s. length s < 64 \<and> 0 \<notin> set (bytes_of s)) shell_literals"
  by (simp_all add: shell_literals_def command_words_def cd_literals_def rm_literals_def turn_literals_def cat_literals_def blanks_def bytes_of_def)

lemma literal_cell:
  assumes "s \<in> set shell_literals"
  obtains k where "k < 28" "shell_literals ! k = s" "example_lit s = 0x10000 + of_nat (64 * k)"
proof -
  let ?k = "length (takeWhile (\<lambda>x. x \<noteq> s) shell_literals)"
  have "?k < length shell_literals" 
  proof -
    have "takeWhile (\<lambda>x. x \<noteq> s) shell_literals \<noteq> shell_literals" using assms by (auto simp: takeWhile_eq_all_conv)
    then show ?thesis by (metis length_takeWhile_le nat_less_le takeWhile_eq_take take_all_iff)
  qed
  moreover have "shell_literals ! ?k = s" using nth_length_takeWhile [OF calculation] by simp
  ultimately show ?thesis using that [of ?k] by (simp add: shell_literals_ok(1) example_lit_def)
qed

lemma literal_mem_cstr:
  assumes "s \<in> set shell_literals"
  shows "cstr literal_mem (example_lit s) (bytes_of s)" and "unat (example_lit s) + Suc (length s) \<le> 0x10000 + 64 * 28" and "0x10000 \<le> unat (example_lit s)"
proof -
  obtain k where k: "k < 28" "shell_literals ! k = s" "example_lit s = 0x10000 + of_nat (64 * k)" using literal_cell [OF assms] .
  have ok: "length s < 64" "0 \<notin> set (bytes_of s)" "length (bytes_of s) = length s"
    using shell_literals_ok(2) assms by (simp_all add: list_all_iff bytes_of_def)
  have at: "literal_mem (example_lit s + of_nat j) = (bytes_of s @ replicate 64 0) ! j" if "j < 64" for j
  proof -
    have "example_lit s + of_nat j - 0x10000 = of_nat (64 * k + j)" by (simp add: k(3))
    moreover have "unat (of_nat (64 * k + j) :: u32) = 64 * k + j" using offset_address [of 0 "64 * k + j" "64 * k + j"] k(1) that by simp
    moreover have "64 * k + j < 64 * 28" using k(1) that by simp
    moreover have "(64 * k + j) div 64 = k" "(64 * k + j) mod 64 = j" using that by simp_all
    ultimately show ?thesis by (simp only: literal_mem_def Let_def shell_literals_ok(1) k(2) if_True)
  qed
  have "load_bytes literal_mem (example_lit s) (length s) = bytes_of s"
    using ok(1,3) by (intro nth_equalityI) (simp_all add: at nth_append)
  moreover have "literal_mem (example_lit s + of_nat (length s)) = 0" using ok(1,3) by (simp add: at nth_append)
  ultimately show "cstr literal_mem (example_lit s) (bytes_of s)" using ok(2,3) by (simp add: cstr_iff_load)
  have "unat (example_lit s) = 0x10000 + 64 * k" using offset_address [of "0x10000" "64 * 28" "64 * k"] k(1) by (simp add: k(3))
  then show "unat (example_lit s) + Suc (length s) \<le> 0x10000 + 64 * 28" "0x10000 \<le> unat (example_lit s)" using k(1) ok(1) by simp_all
qed

text \<open>Areas below the literals.\<close>

definition low :: "u32 \<times> nat \<Rightarrow> bool" where
  "low a \<longleftrightarrow> unat (fst a) + snd a \<le> 0x10000"

lemma example_literals:
  assumes "set ss \<subseteq> set shell_literals" and "list_all low areas" and "length line = 256"
  shows "literals example_lit (store_bytes literal_mem 0x2000 line) areas ss"
proof -
  have apart: "ranges_disjoint (example_lit s) (Suc (length s)) p n" if "s \<in> set ss" "unat p + n \<le> 0x10000" for s p n
    using literal_mem_cstr(2,3) [of s] that assms(1) by (intro ranges_disjointI) (auto simp: no_wrap_def)
  have "cstr (store_bytes literal_mem 0x2000 line) (example_lit s) (bytes_of s)" if "s \<in> set ss" for s
    using literal_mem_cstr(1) [of s] apart [OF that, of "0x2000" 256] that assms(1,3) by (intro cstr_store_apart) (auto simp: bytes_of_def)
  then show ?thesis using apart assms(2) by (auto simp: literals_def list_all_iff low_def)
qed

text \<open>The memory below the literals is zero, except for the line.\<close>

lemma low_zero:
  assumes "length line = 256" and "unat p + n \<le> 0x10000" and "0x2100 \<le> unat p"
  shows "load_bytes (store_bytes literal_mem 0x2000 line) p n = replicate n 0"
proof -
  have zero: "literal_mem a = 0" if "unat a < 0x10000" for a
    using that by (simp add: literal_mem_def shell_literals_ok(1) unat_sub_if_size word_size)
  have "ranges_disjoint p n 0x2000 256" using assms(2,3) by (intro ranges_disjointI) (simp_all add: no_wrap_def)
  then have "load_bytes (store_bytes literal_mem 0x2000 line) p n = load_bytes literal_mem p n" using assms(1) by (simp add: load_store_bytes_disjoint)
  also have "\<dots> = replicate n 0"
  proof (rule nth_equalityI)
    fix i
    assume "i < length (load_bytes literal_mem p n)"
    then have i: "i < n" by simp
    then have "unat (p + of_nat i) = unat p + i" using assms(2) offset_address [of p n i] by simp
    then show "load_bytes literal_mem p n ! i = replicate n 0 ! i" using i assms(2) zero by simp
  qed simp
  finally show ?thesis .
qed

lemma replicate_4: "replicate 4 x = [x, x, x, x]"
  by (simp add: numeral_eq_Suc)

section \<open>The machine\<close>

definition pc_bus :: "(u8 \<times> u8 \<times> (u8 \<Rightarrow> u8)) bus" where
  "pc_bus = \<lparr>bus_in = (\<lambda>port d. if port = 0x60 then (fst d, d) else (fst (bus_in crtc port (snd d)), (fst d, snd (bus_in crtc port (snd d))))),
     bus_out = (\<lambda>port v d. (fst d, bus_out crtc port v (snd d))), bus_in16 = (\<lambda>port d. (0, d)), bus_out16 = (\<lambda>port v d. d)\<rparr>"

abbreviation pc_reg :: "u8 \<times> u8 \<times> (u8 \<Rightarrow> u8) \<Rightarrow> u8 \<Rightarrow> u8" where
  "pc_reg d \<equiv> snd (snd d)"

lemma pc_crtc: "vga_crtc pc_bus (\<lambda>d. fst (snd d)) pc_reg"
  by (simp add: vga_crtc_def pc_bus_def crtc_def)

definition shell_machine :: "fs_state \<Rightarrow> u8 list \<Rightarrow> (u8 \<times> u8 \<times> (u8 \<Rightarrow> u8)) machine" where
  "shell_machine f line = \<lparr>kern = (kern two_programs)\<lparr>fsys := f, memory := (\<lambda>_. store_bytes literal_mem 0x2000 line)\<rparr>, keyboard_status = listening,
     screen_mem = (\<lambda>_. 0), ports = \<lparr>dev = (0, 0, \<lambda>_. 0), interrupt_flag = True\<rparr>,
     gdt = global_descriptor_table, idt = interrupt_descriptor_table, tss = interrupt_tss_entry\<rparr>"

lemma shell_machine:
  "fsys (kern (shell_machine f line)) = f" "mem_of (shell_machine f line) = store_bytes literal_mem 0x2000 line"
  "shows_terminal pc_reg (screen_of (shell_machine f line)) (replicate 2000 (0, 0), 0)"
  by (simp_all add: shell_machine_def user_mem_def shows_terminal_def cursor_of_def screen_def map_replicate_const)

definition example_line :: "u8 list \<Rightarrow> u8 list \<Rightarrow> u8 list" where
  "example_line cmd arg = cmd @ 32 # arg @ replicate (255 - length cmd - length arg) 0"

lemma example_typed:
  assumes "{0, 32} \<inter> (set cmd \<union> set arg) = {}" and "length cmd + length arg < 200"
  shows "typed example_lit (mem_of (shell_machine f (example_line cmd arg))) 0x2000 cmd arg (replicate (254 - length cmd - length arg) 0)"
    and "length (example_line cmd arg) = 256"
proof -
  have z: "replicate (255 - length cmd - length arg) (0 :: u8) = 0 # replicate (254 - length cmd - length arg) 0"
  proof -
    have "255 - length cmd - length arg = Suc (254 - length cmd - length arg)" using assms(2) by arith
    then show ?thesis by simp
  qed
  show len: "length (example_line cmd arg) = 256" using assms(2) by (simp add: example_line_def)
  have "load_bytes (store_bytes literal_mem 0x2000 (example_line cmd arg)) 0x2000 256 = example_line cmd arg"
    using load_store_bytes [of "example_line cmd arg" literal_mem "0x2000"] len by simp
  moreover have "0x2000 + of_nat (Suc (length cmd)) \<noteq> (0 :: u32)"
  proof -
    have "unat (0x2000 + of_nat (Suc (length cmd)) :: u32) = 0x2000 + Suc (length cmd)" using assms(2) by (subst unat_add_small) simp_all
    then show ?thesis by (metis add_is_0 nat.simps(3) unat_0)
  qed
  moreover have "example_lit '' '' = 0x10000" by (simp add: example_lit_def shell_literals_def)
  ultimately show "typed example_lit (mem_of (shell_machine f (example_line cmd arg))) 0x2000 cmd arg (replicate (254 - length cmd - length arg) 0)"
    using assms(1) z by (simp add: typed_def shell_machine(2) example_line_def no_wrap_def)
qed


section \<open>Areas and locals\<close>

lemma low_apart:
  assumes "list_all low areas" and "sorted_wrt (\<lambda>a b. unat (fst a) + snd a \<le> unat (fst b) \<or> unat (fst b) + snd b \<le> unat (fst a)) areas"
  shows "apart areas"
  unfolding apart_def
proof (rule sorted_wrt_mono_rel [OF _ assms(2)])
  fix a b
  assume "a \<in> set areas" "b \<in> set areas" "unat (fst a) + snd a \<le> unat (fst b) \<or> unat (fst b) + snd b \<le> unat (fst a)"
  then show "ranges_disjoint (fst a) (snd a) (fst b) (snd b)"
    using assms(1) by (intro ranges_disjointI) (auto simp: list_all_iff low_def no_wrap_def)
qed

definition example_frame :: find_locals where
  "example_frame = \<lparr>f_dirbuffer = 0x4000, f_request = 0x3100, f_retval = 0x3200, f_trimmed = 0x3300, f_output = 0x5000, f_new_path = 0x5200,
     f_tree = \<lparr>t_temp = 0x6000, t_buff = 0x7000, t_req = 0x3400, t_retcode = 0x3500, t_name = 0x3600\<rparr>\<rparr>"

definition example_ps :: ps_locals where
  "example_ps = \<lparr>a_max_process_count = 0x3000, a_newline = 0x3100, a_whitespace = 0x3200, a_header = 0x3300, a_process_info = 0x3400,
     a_col = 0x3500, a_pid = 0x3600, a_name = 0x3700, a_state = 0x3800, a_frame_count = 0x3900, a_itoa = 0x3A00\<rparr>"

definition example_locals :: shell_locals where
  "example_locals = \<lparr>l_cd = (0x4000, 0x3100, 0x3200), l_ls = (0x4000, 0x3100, 0x3200), l_mkdir = (0x3000, 0x3100, 0x3200),
     l_cat = (0x4000, 0x3100, 0x3200), l_cp = (0x4000, 0x3100, 0x3200, 0x3300, 0x3400, 0x5000), l_rm = ((0x4000, 0x3100, 0x3200), 0x5000, 0x5200, 0x5300),
     l_mv = (0x4000, 0x3100, 0x3200, 0x3300), l_find = (0x5000, 0x5200), l_frames = (\<lambda>_. example_frame), l_depth = 1, l_ps = example_ps\<rparr>"

definition start_globals :: shell_globals where
  "start_globals = \<lparr>next_token = 0, idx = 0, clusters = 2 # replicate 99 0\<rparr>"

section \<open>Witnesses\<close>

theorem mkdir_line_witness:
  "\<exists>mach' tok w. parse_command pc_bus example_lit example_locals 0x2000 2 start_globals
      (shell_machine formatted (example_line (bytes_of ''mkdir'') (bytes_of ''sub''))) = Some (2, start_globals\<lparr>next_token := tok\<rparr>, mach') \<and>
    listing (disk (fsys (kern mach'))) 2 (bytes_of ''sub'' @ replicate 5 0, replicate 3 0) = Some (Dir w) \<and> w \<noteq> 2"
proof -
  let ?line = "example_line (bytes_of ''mkdir'') (bytes_of ''sub'')" and ?key = "(bytes_of ''sub'' @ replicate 5 0, replicate 3 0)"
  let ?mach = "shell_machine formatted ?line" and ?areas = "(0x2000, 256) # mkdir_areas 0x3000 0x3100 0x3200"
  have typed: "typed example_lit (mem_of ?mach) 0x2000 (bytes_of ''mkdir'') (bytes_of ''sub'') (replicate 246 0)" "length ?line = 256"
    using example_typed(1) [of "bytes_of ''mkdir''" "bytes_of ''sub''" formatted] example_typed(2) [of "bytes_of ''mkdir''" "bytes_of ''sub''"] by (simp_all add: bytes_of_def)
  have low: "list_all low ?areas" by (simp add: low_def mkdir_areas_def)
  have apart: "apart ?areas" by (rule low_apart [OF low]) (simp add: mkdir_areas_def)
  have lits: "literals example_lit (mem_of ?mach) ?areas ('' '' # command_words @ [''Folder created successfully'', ''Folder already exists''])"
    unfolding shell_machine(2) by (rule example_literals [OF _ low typed(2)]) (auto simp: shell_literals_def)
  have free: "\<exists>i < 64. \<not> used (disk_dir (disk (fsys (kern ?mach))) (ucast (2 :: u16)) ! i)" "frees (disk_fat (disk (fsys (kern ?mach)))) 3 \<noteq> []"
    using formatted_slot by (auto simp: shell_machine(1) formatted(5) intro!: exI [of _ 5])
  have key: "?key = request_key (request_for 0 (take 8 (bytes_of ''sub'')) 0)" by (simp add: bytes_of_def request_key_def)
  have none: "listing (disk formatted) 2 ?key = None" by (simp add: formatted(4)) (simp add: bytes_of_def dotdot_key_def)
  have name: "bytes_of ''sub'' \<noteq> []" by (simp add: bytes_of_def)
  have loc: "l_mkdir example_locals = (0x3000, 0x3100, 0x3200)" by (simp add: example_locals_def)
  have inv: "fs_inv (fsys (kern ?mach)) {2}" "ucast (2 :: u16) \<in> {2 :: u32}" using formatted(2) by (simp_all add: shell_machine(1))
  from mkdir_line [OF pc_crtc shell_machine(3) inv typed(1) name loc apart lits free key, of start_globals] show ?thesis
    using none by (auto simp: shell_machine(1))
qed


lemma replicate_5: "replicate 5 x = [x, x, x, x, x]"
  by (simp add: numeral_eq_Suc)

text \<open>A disk with one directory, \<open>dir\<close>, in the root.\<close>

lemma one_directory:
  obtains s w where "write' formatted dir_request = Some (0, s)" "w \<noteq> 2" "fs_inv s {w, 2}"
    "listing (disk s) 2 (bytes_of ''dir'' @ replicate 5 0, replicate 3 0) = Some (Dir w)"
    "\<not> (\<exists>j < 64. 2 \<le> j \<and> used (disk_dir (disk s) w ! j))" "subdirectory (disk s) 2 (bytes_of ''dir'') w" "own_name (disk s) w = bytes_of ''dir''"
proof -
  obtain s w where s: "write' formatted dir_request = Some (0, s)" "w \<noteq> 2" "fs_inv s {w, 2}"
    and l: "listing (disk s) w = [request_key dir_request \<mapsto> Dir w, dotdot_key \<mapsto> Dir 2]"
      "listing (disk s) 2 = (listing (disk formatted) 2)(request_key dir_request \<mapsto> Dir w)"
    using formatted_mkdir by blast
  have key: "request_key dir_request = (bytes_of ''dir'' @ replicate 5 0, replicate 3 0)"
    by (simp add: dir_request_def request_key_def bytes_of_def replicate_5 replicate_3 replicate_8)
  have ok: "fs_ok (disk s) {w, 2}" using s(3) by (simp add: fs_inv_def)
  have "key_of (disk_dir (disk s) w ! 0) \<in> dom (listing (disk s) w)" using self_listed(1) [OF ok insertI1] by (simp only: domIff not_False_eq_True)
  then have own: "key_of (disk_dir (disk s) w ! 0) = request_key dir_request" using self_listed(2) [OF ok insertI1] unfolding l(1) by simp
  then have name: "e_name (disk_dir (disk s) w ! 0) = bytes_of ''dir'' @ replicate 5 0" by (simp add: key_of_def key)
  have empty: "\<not> (\<exists>j < 64. 2 \<le> j \<and> used (disk_dir (disk s) w ! j))"
    unfolding dir_nonempty_iff [OF ok insertI1] by (auto simp: l(1) own)
  have pad: "pad8 (bytes_of ''dir'') = bytes_of ''dir'' @ replicate 5 0" by (simp add: pad8_def bytes_of_def)
  have special: "bytes_of ''dir'' @ replicate 5 0 \<notin> {dot_name, fst dotdot_key, fst zero_key}"
    by (simp add: bytes_of_def dot_name_def dotdot_key_def zero_key_def replicate_5 replicate_3 replicate_8)
  have "listing (disk s) 2 (pad8 (bytes_of ''dir''), y) = (if y = replicate 3 0 then Some (Dir w) else None)" for y
    by (simp add: l(2) formatted(4) key pad) (simp add: bytes_of_def dotdot_key_def replicate_5 replicate_3 replicate_8)
  then have "subdirectory (disk s) 2 (bytes_of ''dir'') w" using s(2) special by (simp add: subdirectory_def pad name) (simp add: bytes_of_def)
  moreover have "own_name (disk s) w = bytes_of ''dir''" by (simp add: own_name_def name) (simp add: bytes_of_def takeWhile_replicate)
  moreover have "listing (disk s) 2 (bytes_of ''dir'' @ replicate 5 0, replicate 3 0) = Some (Dir w)" by (simp add: l(2) key)
  ultimately show ?thesis using that [OF s(1-3) _ empty] by blast
qed

theorem rm_line_witness:
  "\<exists>s mach' tok. write' formatted dir_request = Some (0, s) \<and> listing (disk s) 2 (bytes_of ''dir'' @ replicate 5 0, replicate 3 0) \<noteq> None \<and>
    parse_command pc_bus example_lit example_locals 0x2000 2 start_globals (shell_machine s (example_line (bytes_of ''rm'') (bytes_of ''dir''))) =
      Some (2, start_globals\<lparr>next_token := tok\<rparr>, mach') \<and>
    listing (disk (fsys (kern mach'))) 2 (bytes_of ''dir'' @ replicate 5 0, replicate 3 0) = None"
proof -
  obtain s w where s: "write' formatted dir_request = Some (0, s)" "w \<noteq> 2" "fs_inv s {w, 2}"
    and l: "listing (disk s) 2 (bytes_of ''dir'' @ replicate 5 0, replicate 3 0) = Some (Dir w)"
    and empty: "\<not> (\<exists>j < 64. 2 \<le> j \<and> used (disk_dir (disk s) w ! j))" by (rule one_directory)
  let ?line = "example_line (bytes_of ''rm'') (bytes_of ''dir'')" and ?key = "(bytes_of ''dir'' @ replicate 5 0, replicate 3 0)"
  let ?mach = "shell_machine s ?line" and ?areas = "(0x2000, 256) # rm_areas (0x4000, 0x3100, 0x3200) 0x5000 0x5200 0x5300"
  have typed: "typed example_lit (mem_of ?mach) 0x2000 (bytes_of ''rm'') (bytes_of ''dir'') (replicate 249 0)" "length ?line = 256"
    using example_typed(1) [of "bytes_of ''rm''" "bytes_of ''dir''" s] example_typed(2) [of "bytes_of ''rm''" "bytes_of ''dir''"] by (simp_all add: bytes_of_def)
  have low: "list_all low ?areas" by (simp add: low_def rm_areas_def)
  have apart: "apart ?areas" by (rule low_apart [OF low]) (simp add: rm_areas_def)
  have lits: "literals example_lit (mem_of ?mach) ?areas ('' '' # command_words @ rm_literals)"
    unfolding shell_machine(2) by (rule example_literals [OF _ low typed(2)]) (auto simp: shell_literals_def)
  have name: "length (bytes_of ''dir'') \<le> 8" "bytes_of ''dir'' \<noteq> bytes_of ''/''" "\<not> list_all (\<lambda>c. c \<in> set (bytes_of blanks)) (bytes_of ''dir'')"
    by (simp_all add: bytes_of_def blanks_def)
  have key: "?key = request_key (request_for 0 (bytes_of ''dir'') 0)" by (simp add: bytes_of_def request_key_def)
  have loc: "l_rm example_locals = ((0x4000, 0x3100, 0x3200), 0x5000, 0x5200, 0x5300)" by (simp add: example_locals_def)
  have inv: "fs_inv (fsys (kern ?mach)) {w, 2}" "ucast (2 :: u16) \<in> {w, 2 :: u32}" using s(3) by (simp_all add: shell_machine(1))
  have "?key \<noteq> dotdot_key" by (simp add: bytes_of_def dotdot_key_def)
  then have ordinary: "\<forall>v. listing (disk s) (ucast (2 :: u16)) ?key = Some (Dir v) \<longrightarrow> v \<noteq> ucast (2 :: u16) \<and> ?key \<noteq> dotdot_key" using l s(2) by simp
  have d: "disk s = disk (fsys (kern ?mach))" by (simp add: shell_machine(1))
  from rm_line [OF pc_crtc shell_machine(3) inv typed(1) name loc apart lits ordinary key d, of start_globals] show ?thesis
    using s(1,2) l empty by auto
qed


text \<open>The line \<open>cd dir\<close> in the root of that disk.\<close>

lemma cd_dir_ok:
  assumes inv: "fs_inv s {w, 2}" and sub: "subdirectory (disk s) 2 (bytes_of ''dir'') w"
  defines "mach \<equiv> shell_machine s (example_line (bytes_of ''cd'') (bytes_of ''dir''))"
  shows "fs_inv (fsys (kern mach)) {w, 2}" and "ucast (2 :: u16) \<in> {w, 2 :: u32}"
    and "typed example_lit (mem_of mach) 0x2000 (bytes_of ''cd'') (path [bytes_of ''dir'']) (0 # replicate 248 0)"
    and "walks (disk (fsys (kern mach))) (ucast (2 :: u16)) [bytes_of ''dir''] w"
    and "list_all name_ok [bytes_of ''dir'']" and "[bytes_of ''dir''] \<noteq> []" and "length (last [bytes_of ''dir'']) < 8"
    and "take 2 (path [bytes_of ''dir'']) \<noteq> [46, 46]" and "\<not> list_all (\<lambda>c. c \<in> set (bytes_of blanks)) (path [bytes_of ''dir''])"
    and "l_cd example_locals = (0x4000, 0x3100, 0x3200)" and "apart ((0x2000, 256) # cd_areas 0x4000 0x3100 0x3200)"
    and "literals example_lit (mem_of mach) ((0x2000, 256) # cd_areas 0x4000 0x3100 0x3200) ('' '' # command_words @ cd_literals)"
proof -
  let ?line = "example_line (bytes_of ''cd'') (bytes_of ''dir'')" and ?areas = "(0x2000, 256) # cd_areas 0x4000 0x3100 0x3200"
  have post: "replicate 249 (0 :: u8) = 0 # replicate 248 0" by (simp flip: replicate_Suc)
  show "typed example_lit (mem_of mach) 0x2000 (bytes_of ''cd'') (path [bytes_of ''dir'']) (0 # replicate 248 0)"
    using example_typed(1) [of "bytes_of ''cd''" "bytes_of ''dir''" s] post by (simp add: mach_def bytes_of_def)
  have low: "list_all low ?areas" by (simp add: low_def cd_areas_def)
  show "apart ?areas" by (rule low_apart [OF low]) (simp add: cd_areas_def)
  have "length ?line = 256" using example_typed(2) [of "bytes_of ''cd''" "bytes_of ''dir''"] by (simp add: bytes_of_def)
  then show "literals example_lit (mem_of mach) ?areas ('' '' # command_words @ cd_literals)"
    unfolding mach_def shell_machine(2) by (intro example_literals [OF _ low]) (auto simp: shell_literals_def)
qed (use assms in \<open>simp_all add: mach_def shell_machine(1) example_locals_def bytes_of_def blanks_def name_ok_def splitter_def\<close>)

theorem cd_line_witness:
  "\<exists>s w mach' tok c. write' formatted dir_request = Some (0, s) \<and> w \<noteq> 2 \<and> ucast c = w \<and>
    parse_command pc_bus example_lit example_locals 0x2000 2 start_globals (shell_machine s (example_line (bytes_of ''cd'') (bytes_of ''dir''))) =
      Some (c, start_globals\<lparr>next_token := tok, idx := 1, clusters := 2 # w # replicate 98 0\<rparr>, mach')"
proof -
  obtain s w where s: "write' formatted dir_request = Some (0, s)" "w \<noteq> 2" "fs_inv s {w, 2}"
    and sub: "subdirectory (disk s) 2 (bytes_of ''dir'') w" by (rule one_directory)
  note ok = cd_dir_ok [OF s(3) sub]
  have g: "unat (idx start_globals) + 1 < length (clusters start_globals)" "length (clusters start_globals) < 2 ^ 32" by (simp_all add: start_globals_def)
  have cl: "(clusters start_globals)[unat (idx start_globals) + 1 := w] = 2 # w # replicate 98 0" "idx start_globals + 1 = 1"
    by (simp_all add: start_globals_def flip: replicate_Suc) (simp add: numeral_eq_Suc)
  from cd_line [OF pc_crtc shell_machine(3) ok g] show ?thesis
    using s(1,2) unfolding cl by blast
qed

theorem cd_back_line_witness:
  "\<exists>mach' tok. parse_command pc_bus example_lit example_locals 0x2000 7 (start_globals\<lparr>idx := 1\<rparr>)
      (shell_machine formatted (example_line (bytes_of ''cd'') (46 # 46 # []))) = Some (2, start_globals\<lparr>next_token := tok, idx := 0\<rparr>, mach')"
proof -
  let ?line = "example_line (bytes_of ''cd'') (46 # 46 # [])" and ?g = "start_globals\<lparr>idx := 1\<rparr>"
  let ?mach = "shell_machine formatted ?line" and ?areas = "(0x2000, 256) # []"
  have typed: "typed example_lit (mem_of ?mach) 0x2000 (bytes_of ''cd'') (46 # 46 # []) (replicate 250 0)" "length ?line = 256"
    using example_typed(1) [of "bytes_of ''cd''" "46 # 46 # []" formatted] example_typed(2) [of "bytes_of ''cd''" "46 # 46 # []"]
    by (simp_all add: bytes_of_def)
  have low: "list_all low ?areas" by (simp add: low_def)
  have lits: "literals example_lit (mem_of ?mach) ?areas ('' '' # command_words @ ''Already in root'' # cd_literals)"
    unfolding shell_machine(2) by (rule example_literals [OF _ low typed(2)]) (auto simp: shell_literals_def)
  have loc: "l_cd example_locals = (0x4000, 0x3100, 0x3200)" by (simp add: example_locals_def)
  have g: "unat (idx ?g) \<le> length (clusters ?g)" by (simp add: start_globals_def)
  have "\<exists>mach' tok. parse_command pc_bus example_lit example_locals 0x2000 7 ?g ?mach = Some (2, ?g\<lparr>next_token := tok, idx := 0\<rparr>, mach')"
    using cd_back_line [OF pc_crtc shell_machine(3) typed(1) loc lits g, of 7] by (auto simp: start_globals_def)
  moreover have "?g\<lparr>next_token := tok, idx := 0\<rparr> = start_globals\<lparr>next_token := tok, idx := 0\<rparr>" for tok by simp
  ultimately show ?thesis by (simp only:)
qed

theorem unknown_line_witness:
  "\<exists>mach' tok. parse_command pc_bus example_lit example_locals 0x2000 2 start_globals
      (shell_machine formatted (example_line (bytes_of ''exec'') (bytes_of ''clock''))) = Some (2, start_globals\<lparr>next_token := tok\<rparr>, mach') \<and>
    reports pc_reg mach' ''Command not found'' 0x4 (replicate 2000 (0, 0), 0)"
proof -
  let ?line = "example_line (bytes_of ''exec'') (bytes_of ''clock'')"
  let ?mach = "shell_machine formatted ?line" and ?areas = "(0x2000, 256) # []"
  have typed: "typed example_lit (mem_of ?mach) 0x2000 (bytes_of ''exec'') (bytes_of ''clock'') (replicate 245 0)" "length ?line = 256"
    using example_typed(1) [of "bytes_of ''exec''" "bytes_of ''clock''" formatted] example_typed(2) [of "bytes_of ''exec''" "bytes_of ''clock''"]
    by (simp_all add: bytes_of_def)
  have low: "list_all low ?areas" by (simp add: low_def)
  have lits: "literals example_lit (mem_of ?mach) ?areas ('' '' # command_words @ [''Command not found''])"
    unfolding shell_machine(2) by (rule example_literals [OF _ low typed(2)]) (auto simp: shell_literals_def)
  have word: "bytes_of ''exec'' \<notin> bytes_of ` (set command_words - {''exec''})" "take 5 (bytes_of ''exec'') \<noteq> bytes_of ''mkdir''"
    "take 2 (bytes_of ''exec'') \<noteq> bytes_of ''cp''" "take 4 (bytes_of ''exec'') \<noteq> bytes_of ''find''"
    by (auto simp: bytes_of_def command_words_def)
  from unknown_line [OF pc_crtc shell_machine(3) typed(1) word lits, of example_locals 2 start_globals] show ?thesis by auto
qed


theorem ps_line_witness:
  "\<exists>mach. process_slot_occupied (kern mach) ! 0 \<and> mem_of mach = store_bytes literal_mem 0x2000 (bytes_of ''ps'' @ replicate 254 0) \<and>
    parse_command pc_bus example_lit example_locals 0x2000 2 start_globals mach = None"
proof -
  let ?line = "bytes_of ''ps'' @ replicate 254 0" and ?m = "shell_machine formatted (bytes_of ''ps'' @ replicate 254 0)"
  define mach where "mach = ?m\<lparr>kern := (kern ?m)\<lparr>process_slot_occupied := (replicate 16 False)[0 := True]\<rparr>\<rparr>"
  have mem: "mem_of mach = store_bytes literal_mem 0x2000 ?line" by (simp add: mach_def shell_machine_def user_mem_def)
  have line: "cstr (mem_of mach) 0x2000 (bytes_of ''ps'')"
    using cstr_in_buffer [of "mem_of mach" "0x2000" 256 "[]" "bytes_of ''ps''" "replicate 253 0"] load_store_bytes [of ?line literal_mem "0x2000"]
    by (simp add: mem bytes_of_def flip: replicate_Suc)
  have lit: "example_lit '' '' \<noteq> 0" "no_wrap (example_lit '' '') 1" by (simp_all add: example_lit_def shell_literals_def no_wrap_def)
  have lits: "literals example_lit (mem_of mach) [] ('' '' # command_words)"
    unfolding mem by (rule example_literals) (auto simp: shell_literals_def bytes_of_def)
  have ps: "l_ps example_locals = example_ps" by (simp add: example_locals_def)
  have low: "list_all low (ps_areas example_ps)" by (simp add: low_def ps_areas_def example_ps_def)
  have apart: "apart (ps_areas (l_ps example_locals))" unfolding ps by (rule low_apart [OF low]) (simp add: ps_areas_def example_ps_def)
  have col: "load_bytes (mem_of mach) 0x3500 4 = [0, 0, 0, 0]"
    using low_zero [of ?line "0x3500" 4] by (simp add: mem bytes_of_def replicate_4)
  have ready: "ps_ready (l_ps example_locals) mach"
    unfolding ps_ready_def ps using col two_programs(2) two_programs_names
    by (simp add: example_ps_def mach_def shell_machine_def listening_def sched_ok_def sched_wf_def)
  have "parse_command pc_bus example_lit example_locals 0x2000 2 start_globals mach = None"
    using ps_line [OF line _ _ lit lits ready _ _ apart, of 0] by (simp add: mach_def)
  then show ?thesis using mem by (intro exI [of _ mach]) (simp add: mach_def)
qed

theorem prompt_shows_path_witness:
  "\<exists>s w mach'. write' formatted dir_request = Some (0, s) \<and> w \<noteq> 2 \<and>
    print_dir_tree pc_bus example_lit (f_tree example_frame) w 0x2000 (shell_machine s (replicate 256 0)) = Some mach' \<and>
    cstr (mem_of mach') 0x2000 (splitter # bytes_of ''dir'')"
proof -
  obtain s w where s: "write' formatted dir_request = Some (0, s)" "w \<noteq> 2" "fs_inv s {w, 2}"
    and sub: "subdirectory (disk s) 2 (bytes_of ''dir'') w" "own_name (disk s) w = bytes_of ''dir''" by (rule one_directory)
  let ?mach = "shell_machine s (replicate 256 0)" and ?areas = "(0x2000, 128) # tree_areas (f_tree example_frame)" and ?ns = "[bytes_of ''dir'']"
  have walk: "leads (disk (fsys (kern ?mach))) 2 ?ns w"
    using sub by (simp add: shell_machine(1) segment_ok_def) (simp add: bytes_of_def splitter_def)
  have low: "list_all low ?areas" by (simp add: low_def tree_areas_def example_frame_def)
  have apart: "apart ?areas" by (rule low_apart [OF low]) (simp add: tree_areas_def example_frame_def)
  have temp: "0 < unat (t_temp (f_tree example_frame))" "unat (t_temp (f_tree example_frame)) + 128 < 2 ^ 32" by (simp_all add: example_frame_def)
  have room: "?ns = [] \<longrightarrow> segment_ok (own_name (disk (fsys (kern ?mach))) 2)"
    "length (if ?ns = [] then own_name (disk (fsys (kern ?mach))) 2 else segments ?ns) < 128" by (simp_all add: bytes_of_def)
  have inv: "fs_inv (fsys (kern ?mach)) {w, 2}" using s(3) by (simp add: shell_machine(1))
  show ?thesis using prompt_shows_path [OF inv walk apart temp room, of pc_bus example_lit] s(1,2) by auto
qed

text \<open>The keys A and B, a turn without a key, backspace, and enter.\<close>

theorem keys_become_line_witness:
  "\<exists>mach'. handle_input pc_bus 0x2000 0x3000 0 (map (key_event pc_bus (\<lambda>s d. (s, snd d))) ([Some 0x1E, Some 0x30, None, Some 0x0E] @ Some 0x1C # []))
      (shell_machine formatted (replicate 256 0)) = Some (1, mach') \<and> load_bytes (mem_of mach') 0x2000 256 = [97, 98] @ replicate 254 0"
proof -
  let ?mach = "shell_machine formatted (replicate 256 0)" and ?keys = "[Some 0x1E, Some 0x30, None, Some 0x0E] :: u8 option list"
  let ?fold = "foldl (\<lambda>t c. Option.bind t (term_put c 0xF))"
  have table: "scancode_make ! 30 = 97" "scancode_make ! 48 = 98" "scancode_make ! 14 = 8" "scancode_make ! 28 = 10" by (simp_all add: scancode_make_def)
  have chars: "map key_char ?keys = [97, 98, 0, 8]" "key_char (Some 0x1C) = 10"
    using table scancode_press [of 30] scancode_press [of 48] scancode_press [of 14] scancode_press [of 28] by (simp_all add: key_char_def ascii_of_def)
  have no_newline: "10 \<notin> set (map key_char ?keys)" unfolding chars(1) by simp
  have kbd: "keyboard_at pc_bus pc_reg (\<lambda>s d. (s, snd d))" by (simp add: keyboard_at_def pc_bus_def crtc_def)
  have areas: "ranges_disjoint 0x2000 256 0x3000 1" by (rule ranges_disjointI) (simp_all add: no_wrap_def)
  have start: "listens ?mach" "load_bytes (mem_of ?mach) 0x2000 256 = replicate 256 0"
    using load_store_bytes [of "replicate 256 0" literal_mem "0x2000"] by (simp_all add: listens_def shell_machine_def listening_def user_mem_def)
  have edited: "fold edit (map key_char ?keys) ([], []) = ([97], [98])" "echo_of (map key_char ?keys) ([], []) @ [10] = [97, 98, 8, 10]"
    unfolding chars(1) by (simp_all add: edit_def echoes_def)
  have echo: "?fold (Some (replicate 2000 (0, 0), 0)) (echo_of (map key_char ?keys) ([], []) @ [10]) =
      Some ((replicate 2000 (0, 0))[0 := (97, 15), 1 := blank_cell, 1 := (10, 0)], 80)"
    unfolding edited(2) by (simp add: term_put_def term_advance_def)
  from keys_become_line [OF pc_crtc kbd areas start(1) shell_machine(3) start(2) no_newline chars(2) edited(1) echo, of "[]"] show ?thesis by auto
qed


theorem cd_stack_bound_witness:
  "\<exists>s. write' formatted dir_request = Some (0, s) \<and>
    parse_command pc_bus example_lit example_locals 0x2000 2 (start_globals\<lparr>idx := 99\<rparr>)
      (shell_machine s (example_line (bytes_of ''cd'') (bytes_of ''dir''))) = None"
proof -
  obtain s w where s: "write' formatted dir_request = Some (0, s)" "w \<noteq> 2" "fs_inv s {w, 2}"
    and sub: "subdirectory (disk s) 2 (bytes_of ''dir'') w" by (rule one_directory)
  note ok = cd_dir_ok [OF s(3) sub]
  have g: "length (clusters (start_globals\<lparr>idx := 99\<rparr>)) = 100" "unat (idx (start_globals\<lparr>idx := 99\<rparr>)) \<le> 99" by (simp_all add: start_globals_def)
  have "parse_command pc_bus example_lit example_locals 0x2000 2 (start_globals\<lparr>idx := 99\<rparr>)
      (shell_machine s (example_line (bytes_of ''cd'') (bytes_of ''dir''))) = None"
    using cd_stack_bound [OF pc_crtc shell_machine(3) ok g] by (simp add: start_globals_def)
  then show ?thesis using s(1) by blast
qed


text \<open>The keys of \<open>mkdir sub\<close>, in the root of the freshly formatted disk.\<close>

definition mkdir_keys :: "u8 option list" where
  "mkdir_keys = map Some [0x32, 0x25, 0x20, 0x17, 0x13, 0x39, 0x1F, 0x16, 0x30]"

lemma mkdir_keys:
  "map key_char mkdir_keys = bytes_of ''mkdir sub''" "key_char (Some 0x1C) = 10"
  using scancode_press [of "0x32"] scancode_press [of "0x25"] scancode_press [of "0x20"] scancode_press [of "0x17"] scancode_press [of "0x13"]
    scancode_press [of "0x39"] scancode_press [of "0x1F"] scancode_press [of "0x16"] scancode_press [of "0x30"] scancode_press [of "0x1C"]
  by (simp_all add: mkdir_keys_def key_char_def ascii_of_def bytes_of_def) (simp_all add: scancode_make_def)

lemma root_name: "own_name (disk formatted) 2 = bytes_of ''root''"
proof -
  have "disk_dir (disk formatted) 2 = root_table (bytes_of ''root'' @ [0] @ [0, 0, 0])"
    using create_fat32_run [OF blank_hyps] formatted(1) by auto
  moreover have "e_name (self_entry name c) = name" for name c using self_entry_fields(3) [of name c] by (simp add: key_of_def)
  ultimately have "own_name (disk formatted) 2 = takeWhile (\<lambda>x. x \<noteq> 0) (bytes_of ''root'' @ [0] @ [0, 0, 0])"
    by (simp add: own_name_def root_table_def new_table_nth)
  then show ?thesis by (simp add: bytes_of_def)
qed

theorem mkdir_turn_witness:
  "\<exists>mach' tok w. shell_turn pc_bus example_lit example_locals (f_tree example_frame) (0x2000, 0x3700, 0x3300)
      (map (key_event pc_bus (\<lambda>s d. (s, snd d))) (mkdir_keys @ Some 0x1C # [])) (2, start_globals, shell_machine formatted (replicate 256 0)) =
        Some (2, start_globals\<lparr>next_token := tok\<rparr>, mach') \<and>
    listing (disk (fsys (kern mach'))) 2 (bytes_of ''sub'' @ replicate 5 0, replicate 3 0) = Some (Dir w) \<and> w \<noteq> 2"
proof -
  let ?mach = "shell_machine formatted (replicate 256 0)" and ?tree = "f_tree example_frame" and ?key = "(bytes_of ''sub'' @ replicate 5 0, replicate 3 0)"
  let ?B = "mkdir_areas 0x3000 0x3100 0x3200" and ?A = "turn_areas (0x2000, 0x3700, 0x3300) (f_tree example_frame)"
  have kbd: "keyboard_at pc_bus pc_reg (\<lambda>s d. (s, snd d))" by (simp add: keyboard_at_def pc_bus_def crtc_def)
  have quiet: "keyboard_buffer (keyboard_status ?mach) = 0" by (simp add: shell_machine_def listening_def)
  have inv: "fs_inv (fsys (kern ?mach)) {2}" using formatted(2) by (simp add: shell_machine(1))
  have walk: "leads (disk formatted) 2 [] 2" "2 = ucast (2 :: u16)" "disk formatted = disk (fsys (kern ?mach))" by (simp_all add: shell_machine(1))
  have low: "list_all low ?A" "list_all low ?B" "list_all low ((0x3700, 128) # tree_areas ?tree)" "list_all low ((0x2000, 256) # ?B)"
    by (simp_all add: low_def turn_areas_def tree_areas_def mkdir_areas_def example_frame_def)
  have apart1: "apart ((0x3700, 128) # tree_areas ?tree)" by (rule low_apart [OF low(3)]) (simp add: tree_areas_def example_frame_def)
  have apart2: "apart ((0x2000, 256) # ?B)" by (rule low_apart [OF low(4)]) (simp add: mkdir_areas_def)
  have apart3: "ranges_disjoint 0x2000 256 0x3300 1" by (rule ranges_disjointI) (simp_all add: no_wrap_def)
  have loc: "l_mkdir example_locals = (0x3000, 0x3100, 0x3200)" by (simp add: example_locals_def)
  have "example_lit '' '' = 0x10000" by (simp add: example_lit_def shell_literals_def)
  then have places: "0 < unat (t_temp ?tree)" "unat (t_temp ?tree) + 128 < 2 ^ 32" "0x2000 \<noteq> (0 :: u32)" "0x2000 + 6 \<noteq> (0 :: u32)"
    "example_lit '' '' \<noteq> 0" "no_wrap (example_lit '' '') 1" by (simp_all add: example_frame_def no_wrap_def)
  have root: "[] = [] \<longrightarrow> segment_ok (own_name (disk formatted) 2)" by (simp add: root_name segment_ok_def bytes_of_def splitter_def)
  have shown: "bytes_of ''root'' = path_text (disk formatted) []" "length (bytes_of ''root'') < 128" "8 \<notin> set (bytes_of ''root'')"
    by (simp_all add: path_text_def root_name) (simp_all add: bytes_of_def)
  have lits: "literals example_lit (mem_of ?mach) (?A @ ?B) (turn_literals @ '' '' # command_words @ [''Folder created successfully'', ''Folder already exists''])"
    unfolding shell_machine(2) by (rule example_literals) (use low(1,2) in \<open>auto simp: shell_literals_def\<close>)
  have keys: "10 \<notin> set (map key_char mkdir_keys)" "fold edit (map key_char mkdir_keys) ([], []) = (bytes_of ''mkdir'' @ 32 # bytes_of ''sub'', [])"
    "8 \<notin> set (echo_of (map key_char mkdir_keys) ([], []) @ [10])" "bytes_of ''sub'' \<noteq> []" "32 \<notin> set (bytes_of ''sub'')"
    unfolding mkdir_keys(1) by (simp_all add: bytes_of_def edit_def echoes_def)
  have free: "\<exists>i < 64. \<not> used (disk_dir (disk formatted) 2 ! i)" "frees (disk_fat (disk formatted)) 3 \<noteq> []"
    using formatted_slot by (auto simp: formatted(5) intro!: exI [of _ 5])
  have key: "?key = request_key (request_for 0 (take 8 (bytes_of ''sub'')) 0)" by (simp add: bytes_of_def request_key_def)
  have none: "listing (disk formatted) 2 ?key = None" by (simp add: formatted(4)) (simp add: bytes_of_def dotdot_key_def)
  from mkdir_turn [OF pc_crtc kbd shell_machine(3) quiet inv walk(3,1,2) apart1 apart3 apart2 loc places root shown lits keys(1) mkdir_keys(2) keys(2,4,5)
      term_print_foldl [OF keys(3)] free key, of "[]" start_globals]
  show ?thesis using none by auto
qed

text \<open>A file of 5000 bytes, \<open>kaya.txt\<close>, and the line \<open>cat kaya.txt\<close>.\<close>

theorem cat_line_witness:
  "\<exists>mach' tok. parse_command pc_bus example_lit example_locals 0x2000 2 start_globals
      (shell_machine (with_file 5000) (example_line (bytes_of ''cat'') (bytes_of ''kaya.txt''))) = Some (2, start_globals\<lparr>next_token := tok\<rparr>, mach') \<and>
    shows_terminal pc_reg (screen_of mach') (newline_term (term_print (replicate 4096 7) 0xF (replicate 2000 (0, 0), 0)))"
proof -
  let ?line = "example_line (bytes_of ''cat'') (bytes_of ''kaya.txt'')" and ?areas = "(0x2000, 256) # cat_areas 0x4000 0x3100 0x3200"
  let ?mach = "shell_machine (with_file 5000) ?line" and ?name = "bytes_of ''kaya''" and ?ext = "bytes_of ''txt''"
  have dot: "dotted ?name ?ext = bytes_of ''kaya.txt''" by (simp add: dotted_def bytes_of_def replicate_3)
  have typed: "typed example_lit (mem_of ?mach) 0x2000 (bytes_of ''cat'') (dotted ?name ?ext) (replicate 243 0)" "length ?line = 256"
    using example_typed(1) [of "bytes_of ''cat''" "bytes_of ''kaya.txt''" "with_file 5000"] example_typed(2) [of "bytes_of ''cat''" "bytes_of ''kaya.txt''"]
    unfolding dot by (simp_all add: bytes_of_def)
  have low: "list_all low ?areas" by (simp add: low_def cat_areas_def)
  have apart: "apart ?areas" by (rule low_apart [OF low]) (simp add: cat_areas_def)
  have lits: "literals example_lit (mem_of ?mach) ?areas ('' '' # command_words @ cat_literals)"
    unfolding shell_machine(2) by (rule example_literals [OF _ low typed(2)]) (auto simp: shell_literals_def)
  have name: "?name \<noteq> []" "length ?name \<le> 8" "46 \<notin> set ?name" "length ?ext = 3" by (simp_all add: bytes_of_def)
  have key: "request_key (file_request 5000) = (?name @ replicate (8 - length ?name) 0, ?ext)"
    by (simp add: file_request_def request_key_def bytes_of_def replicate_4)
  have loc: "l_cat example_locals = (0x4000, 0x3100, 0x3200)" by (simp add: example_locals_def)
  have inv: "fs_inv (fsys (kern ?mach)) {2}" "ucast (2 :: u16) \<in> {2 :: u32}" using with_file(2) [of 5000] by (simp_all add: shell_machine(1))
  have d: "disk (with_file 5000) = disk (fsys (kern ?mach))" by (simp add: shell_machine(1))
  have stored: "listing (disk (with_file 5000)) (ucast (2 :: u16)) (request_key (file_request 5000)) = Some (File (replicate 5000 7))"
    using with_file(3) [of 5000] by simp
  have "length (cat_text (disk (with_file 5000)) (ucast (2 :: u16)) (request_key (file_request 5000))) = 4096" by (simp add: cat_text_def)
  then have "cat_text (disk (with_file 5000)) (ucast (2 :: u16)) (request_key (file_request 5000)) = replicate 4096 7"
    using cat_text_file [OF stored] by simp
  then show ?thesis
    using cat_line [OF pc_crtc shell_machine(3) inv typed(1) name loc apart lits d key, of start_globals] stored by fastforce
qed

end
