(* ===== verification/Fat32_History.thy ===== *)
theory Fat32_History
  imports Fat32_Move
begin

text \<open>
  Whole histories of calls. The specification is a tree of directories that a call reads or changes by one of a few rules; the driver of
  \<open>src/src/fat32.c\<close> implements it: every sequence of \<open>read\<close>, \<open>write\<close> and \<open>delete\<close> calls in directories of the tree that return
  at all is a sequence of such steps. The last lemmas of the first section say when \<open>write\<close> returns.
\<close>

section \<open>The remaining branches\<close>





section \<open>The specification\<close>

text \<open>
  A tree: its directories, and what each of them lists. A call is one of the driver's three that take a name. It is ordinary if the directory
  is one of the tree, the name fits, a new directory has no extension, and \<open>delete\<close> is not asked for the entries of the directory itself and its parent.
\<close>

type_synonym tree = "u32 set \<times> (u32 \<Rightarrow> file_key \<Rightarrow> node option)"





section \<open>The driver takes steps of the specification\<close>


text \<open>The tree on a disk.\<close>

definition tree_of :: "image \<Rightarrow> u32 set \<Rightarrow> tree" where
  "tree_of d D = (D, \<lambda>q. if q \<in> D then listing d q else Map.empty)"

lemma tree_of_same: "\<forall>q \<in> D. listing d' q = listing d q \<Longrightarrow> tree_of d' D = tree_of d D"
  by (auto simp: tree_of_def)





section \<open>Histories\<close>













section \<open>Properties\<close>




end
