(* ===== verification/Boot.thy ===== *)
theory Boot
  imports Interrupt_Theorems Pic
begin

text \<open>
  The kernel entry (\<open>src/src/kernel.c\<close>): the composition of all components, up to the point where the first program, the
  shell, runs. The assembly routines that load the descriptor table registers have no effect on the state
  that is modelled.
\<close>

section \<open>Definitions\<close>

definition shell_request :: FAT32DriverRequest where
  "shell_request = \<lparr>r_buf = 0, r_name = bytes_of ''shell'' @ [0, 0, 0], r_ext = [0, 0, 0],
     r_parent_cluster_number = ROOT_CLUSTER_NUMBER, r_buffer_size = 0x100000\<rparr>"

text \<open>
  \<open>kernel_setup\<close>. The arguments are the addresses that the linker chooses (the interrupt stubs, the task state segment, the
  page directories), the base pointer of the kernel stack, and the bytes that are read beyond a string or without
  initialisation (\<open>pad\<close>, \<open>junkE\<close>, \<open>junkF\<close>). The result of the creation is ignored. The function does not return: the result is the
  context that the CPU loads.
\<close>

definition kernel_setup :: "'d bus \<Rightarrow> (nat \<Rightarrow> u32) \<Rightarrow> u32 \<Rightarrow> u32 \<Rightarrow> u32 \<Rightarrow> u8 list \<Rightarrow> PageDirectoryEntry \<Rightarrow> PageDirectoryEntryFlag \<Rightarrow>
    'd machine \<Rightarrow> (Context \<times> 'd machine) option" where
  "kernel_setup bus isr_stub_table tss_addr pdl stack_ptr pad junkE junkF mach =
     do { io \<leftarrow> Some (pic_remap bus (ports mach));
          (table, io) \<leftarrow> Some (initialize_idt isr_stub_table (idt mach) io);
          io \<leftarrow> Some (activate_keyboard_interrupt bus io);
          (scr, io) \<leftarrow> Some (framebuffer_clear bus (screen_mem mach) io);
          io \<leftarrow> Some (framebuffer_set_cursor bus 0 0 io);
          f \<leftarrow> initialize_filesystem_fat32 pad (fsys (kern mach));
          k \<leftarrow> Some ((kern mach)\<lparr>fsys := f\<rparr>);
          segs \<leftarrow> Some (gdt_install_tss tss_addr (gdt mach));
          t \<leftarrow> Some (set_tss_kernel_current_stack stack_ptr (tss mach));
          (_, k) \<leftarrow> process_create_user_process junkE junkF pdl k shell_request;
          io \<leftarrow> Some (scheduler_init bus io);
          (c, k) \<leftarrow> scheduler_switch_to_next_process k;
          Some (c, mach\<lparr>kern := k, screen_mem := scr, ports := io, gdt := segs, idt := table, tss := t\<rparr>) }"

section \<open>Starting the shell\<close>

definition fresh_kernel :: "fs_state \<Rightarrow> (nat option \<Rightarrow> mem) \<Rightarrow> kernel" where
  "fresh_kernel f sp = \<lparr>process_list = replicate 16 zero_pcb, process_slot_occupied = replicate 16 False, active_process_count = 0,
     current_running_pid = 0, pages = boot_pages, fsys = f, memory = sp\<rparr>"

lemma shell_request:
  "wf_request shell_request" "request_key shell_request \<noteq> zero_key" "r_parent_cluster_number shell_request = 2"
  "r_buffer_size shell_request \<noteq> 0" "r_buf shell_request = 0"
  by (simp_all add: shell_request_def wf_request_def request_key_def zero_key_def bytes_of_def ROOT_CLUSTER_NUMBER_def replicate_8 replicate_3)

lemma shell_name: "strncpy_array 31 (request_name_bytes shell_request) = Some (bytes_of ''shell'' @ replicate 26 0)"
  by (simp add: request_name_bytes_def shell_request_def strncpy_array_step bytes_of_def)

lemma shell_ready:
  assumes "pdl > KERNEL_VIRTUAL_ADDRESS_BASE"
  shows "create_ready (fresh_kernel f sp) pdl shell_request 0 0 (bytes_of ''shell'' @ replicate 26 0)"
  using boot_pages_ok(1) shell_name boot_flags_first assms
  by (simp add: create_ready_def fresh_kernel_def shell_request_def KERNEL_VIRTUAL_ADDRESS_BASE_def ceil_div_def frame_size
      boot_pages_def PAGE_FRAME_MAX_COUNT_def page_directory_addr_def paging_get_current_page_directory_addr_def)

text \<open>The shell fits into its page: a file has at most as many clusters as the allocation table.\<close>

lemma file_fits:
  assumes "fs_ok d D" and "p \<in> D" and "listing d p key = Some (File xs)"
  shows "2048 * cluster_need (length xs) \<le> 2 ^ 22"
proof -
  obtain i where i: "i < 64" "file_data d (disk_fat d) (disk_dir d p ! i) = xs" using listing_file [OF assms] .
  then have "length xs \<le> 2 ^ 20" using file_size_bound [OF assms(1) [unfolded fs_ok_def] assms(2) i(1)] length_file_data by metis
  then show ?thesis by (simp add: cluster_need_def)
qed

lemma start_shell:
  assumes inv: "fs_inv f D" and root: "2 \<in> D" and shell: "listing (disk f) 2 (request_key shell_request) = Some (File xs)" "length xs mod 2048 \<noteq> 0"
    and pdl: "pdl > KERNEL_VIRTUAL_ADDRESS_BASE" and junk: "benign_entry junkE"
  shows "\<exists>k b frame. process_create_user_process junkE junkF pdl (fresh_kernel f sp) shell_request = Some (0, k) \<and>
     process_list k = (replicate 16 zero_pcb)[0 := b] \<and> process_slot_occupied k = (replicate 16 False)[0 := True] \<and>
     pid b = 0 \<and> eip (pcb_context b) = 0 \<and> esp (cpu (pcb_context b)) = 0x3FFFFC \<and> eflags (pcb_context b) = 0x202 \<and>
     page_directory_virtual_addr (pcb_context b) = pdl \<and> current_running_pid k = 1 \<and> active_process_count k = 1 \<and>
     pg_ok (pages k) \<and> (\<forall>n fr. user_mapping (pages k) pdl n fr \<longleftrightarrow> n = 0 \<and> fr = frame) \<and> maps_kernel (pages k) pdl \<and>
     fs_inv (fsys k) D \<and> disk (fsys k) = disk f \<and> load_bytes (memory k (Some frame)) 0 (length xs) = xs"
proof -
  let ?k = "fresh_kernel f sp" and ?name = "bytes_of ''shell'' @ replicate 26 0 :: u8 list"
  have a: "page_directory_addr pdl 0 = pdl" by (simp add: page_directory_addr_def)
  have p0: "page_index 0 = 0" by (simp add: page_index_div)
  have exe: "executable (fsys ?k) D shell_request xs"
    using inv root shell shell_request(1-4) by (simp add: executable_def fresh_kernel_def)
  have fits: "unat (r_buf shell_request) mod 2 ^ 22 + 2048 * cluster_need (length xs) \<le> 2 ^ 22"
    using file_fits [OF _ root shell(1)] inv by (simp add: fs_inv_def shell_request(5))
  have fresh: "fsys ?k = f" "process_list ?k = replicate 16 zero_pcb" "process_slot_occupied ?k = replicate 16 False"
    "current_running_pid ?k = 0" "active_process_count ?k = 0" by (simp_all add: fresh_kernel_def)
  note c = creation_effect [OF shell_ready [OF pdl, of f sp] junk exe fits, of junkF, unfolded a shell_request(5) p0 fresh PROCESS_CREATE_SUCCESS_def]
  then obtain k b frame where c: "process_create_user_process junkE junkF pdl (fresh_kernel f sp) shell_request = Some (0, k)"
    "process_list k = (replicate 16 zero_pcb)[0 := b]" "process_slot_occupied k = (replicate 16 False)[0 := True]"
    "pid b = 0" "eip (pcb_context b) = 0" "esp (cpu (pcb_context b)) = 0x3FFFFC" "eflags (pcb_context b) = 0x202"
    "page_directory_virtual_addr (pcb_context b) = pdl" "current_running_pid k = 0 + 1" "active_process_count k = 0 + 1" "pg_ok (pages k)"
    "\<forall>a n fr. user_mapping (pages k) a n fr \<longleftrightarrow> (if a = pdl then n = 0 \<and> fr = frame else user_mapping (pages ?k) a n fr)"
    "\<forall>a. maps_kernel (pages k) a \<longleftrightarrow> a = pdl \<or> maps_kernel (pages ?k) a"
    "load_bytes (memory k (Some frame)) 0 (length xs) = xs" "fs_inv (fsys k) D" "disk (fsys k) = disk f"
    by (elim exE conjE)
  show ?thesis by (intro exI conjI) (use c in auto)
qed

lemma only_first: "q < 16 \<Longrightarrow> (replicate 16 False)[0 := True] ! q \<longleftrightarrow> q = 0"
  by (auto simp: nth_upd)

lemma switch_to_first:
  assumes "process_list k = (replicate 16 zero_pcb)[0 := b]" and "process_slot_occupied k = (replicate 16 False)[0 := True]"
  shows "scheduler_switch_to_next_process k = Some (pcb_context b,
    k\<lparr>process_list := (replicate 16 zero_pcb)[0 := b\<lparr>proc_state := PROCESS_STATE_RUNNING\<rparr>], current_running_pid := 0,
      pages := paging_use_page_directory (pages k) (page_directory_virtual_addr (pcb_context b))\<rparr>)"
proof -
  have wf: "sched_wf k" using assms by (simp add: sched_wf_def)
  have "process_slot_occupied k ! 0" using assms(2) by simp
  from switch_effect [OF wf _ this] obtain q where q: "q < 16" "process_slot_occupied k ! q"
    "scheduler_switch_to_next_process k = Some (pcb_context (process_list k ! q),
      k\<lparr>process_list := (process_list k)[q := (process_list k ! q)\<lparr>proc_state := PROCESS_STATE_RUNNING\<rparr>], current_running_pid := of_nat q,
        pages := paging_use_page_directory (pages k) (page_directory_virtual_addr (pcb_context (process_list k ! q)))\<rparr>)"
    by auto
  then have "q = 0" using only_first [OF q(1)] assms(2) by simp
  then show ?thesis using q(3) assms(1) by simp
qed

text \<open>The whole of \<open>kernel_setup\<close>.\<close>

lemma boot_effect:
  assumes "boot_ok (disk f)" and "fs_ok (disk f) D" and "2 \<in> D" and "kern mach = fresh_kernel f sp"
    and "listing (disk f) 2 (request_key shell_request) = Some (File xs)" and "length xs mod 2048 \<noteq> 0"
    and "pdl > KERNEL_VIRTUAL_ADDRESS_BASE" and "benign_entry junkE"
    and "gdt mach = global_descriptor_table" and "idt mach = interrupt_descriptor_table"
  shows "\<exists>c mach'. kernel_setup bus isr_stub_table tss_addr pdl stack_ptr pad junkE junkF mach = Some (c, mach') \<and>
    eip c = 0 \<and> esp (cpu c) = 0x3FFFFC \<and> eflags c = 0x202 \<and> c = slot_context (kern mach') 0 \<and>
    proc_state (process_list (kern mach') ! 0) = PROCESS_STATE_RUNNING \<and> active_process_count (kern mach') = 1 \<and>
    process_slot_occupied (kern mach') = (replicate 16 False)[0 := True] \<and> sched_ok (kern mach') \<and> spaces_ok (kern mach') \<and>
    accessible (kern mach') 0 (2 ^ 22) \<and> load_bytes (user_mem (kern mach')) 0 (length xs) = xs \<and>
    fs_inv (fsys (kern mach')) D \<and> disk (fsys (kern mach')) = disk f \<and>
    screen (screen_mem mach') = replicate 2000 blank_cell \<and> esp0 (tss mach') = stack_ptr + 8 \<and>
    segment_base (selected (gdt mach') GDT_TSS_SELECTOR) = tss_addr \<and>
    (\<forall>i < 64. gate_bytes (idt mach' ! i) = take 2 (le32 (isr_stub_table i)) @ [0x08, 0x00, 0x00, if 0x30 \<le> i \<and> i \<le> 0x3F then 0xEE else 0x8E] @
       drop 2 (le32 (isr_stub_table i)))"
proof -
  obtain f' where f': "initialize_filesystem_fat32 pad f = Some f'" "fs_inv f' D" "disk f' = disk f"
    using initialize_effect [of f pad D] assms(1,2) by blast
  obtain k b frame where k: "process_create_user_process junkE junkF pdl (fresh_kernel f' sp) shell_request = Some (0, k)"
    and tab: "process_list k = (replicate 16 zero_pcb)[0 := b]" "process_slot_occupied k = (replicate 16 False)[0 := True]"
    and b: "pid b = 0" "eip (pcb_context b) = 0" "esp (cpu (pcb_context b)) = 0x3FFFFC" "eflags (pcb_context b) = 0x202"
      "page_directory_virtual_addr (pcb_context b) = pdl"
    and rest: "active_process_count k = 1" "fs_inv (fsys k) D" "disk (fsys k) = disk f" "load_bytes (memory k (Some frame)) 0 (length xs) = xs"
    and pg: "pg_ok (pages k)" "\<forall>n fr. user_mapping (pages k) pdl n fr \<longleftrightarrow> n = 0 \<and> fr = frame" "maps_kernel (pages k) pdl"
    using start_shell [OF f'(2) assms(3) _ assms(6-8), of junkF sp] assms(5) f'(3) by auto
  define k' where "k' = k\<lparr>process_list := (replicate 16 zero_pcb)[0 := b\<lparr>proc_state := PROCESS_STATE_RUNNING\<rparr>], current_running_pid := 0,
      pages := paging_use_page_directory (pages k) pdl\<rparr>"
  note switch = switch_to_first [OF tab, unfolded b(5), folded k'_def]
  have k'0: "current_running_pid k' = 0" "process_list k' ! 0 = b\<lparr>proc_state := PROCESS_STATE_RUNNING\<rparr>" "fsys k' = fsys k" "memory k' = memory k"
    "process_slot_occupied k' = (replicate 16 False)[0 := True]" "active_process_count k' = 1" "length (process_list k') = 16"
    using tab(2) rest(1) by (simp_all add: k'_def)
  have pages: "pages k' = (pages k)\<lparr>cr3 := pdl - KERNEL_VIRTUAL_ADDRESS_BASE\<rparr>" using assms(7) by (simp add: k'_def paging_use_page_directory_def)
  have page: "user_frame (pages k') (paging_get_current_page_directory_addr (pages k')) (page_index 0) = Some frame"
    using pg(2) by (simp add: pages paging_get_current_page_directory_addr_def page_index_div flip: user_mapping_iff)
  have acc: "accessible k' 0 (2 ^ 22)" and behind: "\<And>v. unat v < 2 ^ 22 \<Longrightarrow> backing k' v = Some frame"
    using accessible_page [of 0 "2 ^ 22" k' frame] page by simp_all
  have "(fresh_kernel f sp)\<lparr>fsys := f'\<rparr> = fresh_kernel f' sp" by (simp add: fresh_kernel_def)
  then have run: "\<exists>io. kernel_setup bus isr_stub_table tss_addr pdl stack_ptr pad junkE junkF mach = Some (pcb_context b,
      mach\<lparr>kern := k', screen_mem := fst (framebuffer_clear bus (screen_mem mach) (ports mach)), ports := io,
        gdt := gdt_install_tss tss_addr (gdt mach), idt := fst (initialize_idt isr_stub_table (idt mach) (ports mach)),
        tss := set_tss_kernel_current_stack stack_ptr (tss mach)\<rparr>)"
    using f'(1) k switch assms(4)
    by (simp add: kernel_setup_def split_def initialize_idt_def framebuffer_clear_def fresh_kernel_def) (rule exI, rule refl)
  have occ: "process_slot_occupied k' ! i \<longleftrightarrow> i = 0" if "i < 16" for i using only_first [OF that] k'0(5) by simp
  have first: "slot_context k' 0 = pcb_context b" by (simp add: slot_context_def k'0(2))
  have wf: "sched_wf k'" using k'0(5,7) by (simp add: sched_wf_def)
  have ok: "sched_ok k'" using wf occ b(1) k'0(1,2) by (simp add: sched_ok_def)
  have sp: "spaces_ok k'"
    unfolding spaces_ok_def using wf occ first b(5) pages pg(1,3) assms(7) k'0(1) by (auto simp: slot_space_def slot_directory_def)
  have blank: "screen (fst (framebuffer_clear bus (screen_mem mach) (ports mach))) = replicate 2000 blank_cell"
    by (simp add: clear_memory screen_blank)
  have small: "length xs \<le> 2 ^ 22"
    using file_fits [OF assms(2,3,5)] cluster_need_bounds(1) [of "length xs"] by simp
  have "load_bytes (user_mem k') 0 (length xs) = load_bytes (memory k (Some frame)) 0 (length xs)"
    by (intro load_bytes_cong) (use small behind k'0(4) in \<open>simp add: user_mem_def unat_of_nat\<close>)
  then have mem: "load_bytes (user_mem k') 0 (length xs) = xs" using rest(4) by simp
  have tables: "segment_base (selected (gdt_install_tss tss_addr (gdt mach)) GDT_TSS_SELECTOR) = tss_addr"
    "\<forall>i < 64. gate_bytes (fst (initialize_idt isr_stub_table (idt mach) (ports mach)) ! i) =
       take 2 (le32 (isr_stub_table i)) @ [0x08, 0x00, 0x00, if 0x30 \<le> i \<and> i \<le> 0x3F then 0xEE else 0x8E] @ drop 2 (le32 (isr_stub_table i))"
    using segments [of tss_addr] interrupt_gates [of isr_stub_table "ports mach"] assms(9,10) by (auto simp: Let_def split_def)
  obtain m' where m': "kernel_setup bus isr_stub_table tss_addr pdl stack_ptr pad junkE junkF mach = Some (pcb_context b, m')" "kern m' = k'"
    "screen_mem m' = fst (framebuffer_clear bus (screen_mem mach) (ports mach))" "gdt m' = gdt_install_tss tss_addr (gdt mach)"
    "idt m' = fst (initialize_idt isr_stub_table (idt mach) (ports mach))" "tss m' = set_tss_kernel_current_stack stack_ptr (tss mach)"
    using run by fastforce
  show ?thesis
    unfolding m'(1) using tables by (simp add: m'(2-) b first ok sp mem acc [simplified] blank rest(2,3) k'0 set_tss_kernel_current_stack_def)
qed

section \<open>Properties\<close>

text \<open>
  C39: booting. On a disk with a file system whose root directory has the file \<open>shell\<close> of a size that is not a multiple of 2048, the kernel started with its
  zeroed memory and its initial tables sets itself up and runs the shell, provided that the uninitialised page directory entry happens to name the
  kernel's frame: the CPU gets a context at address 0 with the user stack and interrupts enabled; the process table has the shell as its only, running process; its
  address space is the current one, with the whole first page accessible and the content of the file at its start; the file system is ready and the disk is
  unchanged; the screen is blank, the task state segment is the one of the kernel with the kernel stack in it, and every interrupt vector below 64 leads to its
  stub, for the programs only those from 0x30 on. This is a state from which the separation of address spaces holds.
\<close>

theorem kernel_starts_shell:
  assumes "boot_ok (disk f)" and "fs_ok (disk f) D" and "2 \<in> D" and "kern mach = fresh_kernel f sp"
    and "listing (disk f) 2 (request_key shell_request) = Some (File xs)" and "length xs mod 2048 \<noteq> 0"
    and "pdl > KERNEL_VIRTUAL_ADDRESS_BASE" and "benign_entry junkE"
    and "gdt mach = global_descriptor_table" and "idt mach = interrupt_descriptor_table"
  shows "\<exists>c mach'. kernel_setup bus isr_stub_table tss_addr pdl stack_ptr pad junkE junkF mach = Some (c, mach') \<and>
    eip c = 0 \<and> esp (cpu c) = 0x3FFFFC \<and> eflags c = 0x202 \<and> c = slot_context (kern mach') 0 \<and>
    proc_state (process_list (kern mach') ! 0) = PROCESS_STATE_RUNNING \<and> active_process_count (kern mach') = 1 \<and>
    process_slot_occupied (kern mach') = (replicate 16 False)[0 := True] \<and> sched_ok (kern mach') \<and> spaces_ok (kern mach') \<and>
    accessible (kern mach') 0 (2 ^ 22) \<and> load_bytes (user_mem (kern mach')) 0 (length xs) = xs \<and>
    fs_inv (fsys (kern mach')) D \<and> disk (fsys (kern mach')) = disk f \<and>
    screen (screen_mem mach') = replicate 2000 blank_cell \<and> esp0 (tss mach') = stack_ptr + 8 \<and>
    segment_base (selected (gdt mach') GDT_TSS_SELECTOR) = tss_addr \<and>
    (\<forall>i < 64. gate_bytes (idt mach' ! i) = take 2 (le32 (isr_stub_table i)) @ [0x08, 0x00, 0x00, if 0x30 \<le> i \<and> i \<le> 0x3F then 0xEE else 0x8E] @
       drop 2 (le32 (isr_stub_table i)))"
  using assms by (rule boot_effect)

text \<open>A disk with a shell of 3000 bytes.\<close>

definition shell_file :: FAT32DriverRequest where
  "shell_file = shell_request\<lparr>r_buf := 0x100000, r_buffer_size := 3000\<rparr>"

lemma with_shell:
  "\<exists>f. write' formatted shell_file = Some (0, f) \<and> fs_inv f {2} \<and> listing (disk f) 2 (request_key shell_request) = Some (File (replicate 3000 7))"
proof -
  have r: "wf_request shell_file" "request_key shell_file = request_key shell_request" "request_key shell_file \<noteq> zero_key"
    "r_parent_cluster_number shell_file = 2" "r_buffer_size shell_file = 3000"
    using shell_request(1-3) by (simp_all add: shell_file_def wf_request_def request_key_def)
  have none: "listing (disk formatted) 2 (request_key shell_file) = None"
    by (simp add: formatted(4) r(2)) (simp add: shell_request_def request_key_def bytes_of_def dotdot_key_def)
  have room: "\<exists>i < 64. \<not> used (disk_dir (disk formatted) (r_parent_cluster_number shell_file) ! i)"
    using formatted_slot r(4) by (intro exI [of _ 5]) simp
  have "r_parent_cluster_number shell_file \<in> {2}" using r(4) by simp
  from write_file_effect [OF formatted(2) this r(1,3) _ _ room] none r show ?thesis
    by (auto simp: formatted(3,5) load_const cluster_need_def)
qed

theorem kernel_starts_shell_witness:
  "\<exists>f c mach'. write' formatted shell_file = Some (0, f) \<and>
     kernel_setup key_bus (\<lambda>i. 0xC0000000 + of_nat i) 0xC0101000 0xC0200000 0xC0003FF0 [0, 0, 0] zero_pde zero_flag (machine_of (fresh_kernel f (\<lambda>_ _. 0))) =
       Some (c, mach') \<and> eip c = 0 \<and> load_bytes (user_mem (kern mach')) 0 3000 = replicate 3000 7"
proof -
  obtain f where f: "write' formatted shell_file = Some (0, f)" "fs_inv f {2}"
    "listing (disk f) 2 (request_key shell_request) = Some (File (replicate 3000 7))" using with_shell by blast
  have d: "boot_ok (disk f)" "fs_ok (disk f) {2}" using f(2) by (simp_all add: fs_inv_def)
  have m: "kern (machine_of (fresh_kernel f (\<lambda>_ _. 0))) = fresh_kernel f (\<lambda>_ _. 0)" by (simp add: machine_of_def)
  let ?m = "machine_of (fresh_kernel f (\<lambda>_ _. 0))"
  have a: "0xC0200000 > KERNEL_VIRTUAL_ADDRESS_BASE" by (simp add: KERNEL_VIRTUAL_ADDRESS_BASE_def)
  have tables: "gdt ?m = global_descriptor_table" "idt ?m = interrupt_descriptor_table" by (simp_all add: machine_of_def)
  have len: "length (replicate 3000 (7 :: u8)) mod 2048 \<noteq> 0" by simp
  show ?thesis
    using kernel_starts_shell [OF d _ m f(3) len a zero_pde_benign tables, of key_bus "\<lambda>i. 0xC0000000 + of_nat i" "0xC0101000" "0xC0003FF0" "[0, 0, 0]" zero_flag] f(1)
    by (auto simp only: length_replicate insertI1 simp_thms)
qed

end
