(* ===== verification/Inserter.thy ===== *)
theory Inserter
  imports Fat32_Theorems
begin

text \<open>
  The inserter (\<open>main\<close> of \<open>src/src/external-inserter.c\<close>), a program of the host that puts a file into a disk image with the driver of the
  kernel: what it reads from its arguments and files, and what it prints and leaves in the image file. The files of the host are a map from names
  to contents; the memory from \<open>malloc\<close> has any content. The file buffer is a range of a flat memory, as in the kernel.
\<close>

section \<open>The standard library of the host\<close>

type_synonym host = "u8 list \<Rightarrow> u8 list option"

definition is_space :: "u8 \<Rightarrow> bool" where "is_space c \<longleftrightarrow> c = 32 \<or> 9 \<le> c \<and> c \<le> 13"
definition is_digit :: "u8 \<Rightarrow> bool" where "is_digit c \<longleftrightarrow> 48 \<le> c \<and> c \<le> 57"

definition digits_value :: "u8 list \<Rightarrow> nat" where
  "digits_value ds = foldl (\<lambda>n d. 10 * n + unat (d - 48)) 0 ds"

text \<open>
  \<open>sscanf(s, "%u", &v)\<close> for a variable with the value \<open>old\<close>: without a number the variable keeps its value, and a number that does
  not fit has no defined result.
\<close>

definition scan_unsigned :: "u8 list \<Rightarrow> u32 \<Rightarrow> u32 option" where
  "scan_unsigned s old =
     (let s = dropWhile is_space s;
          sign = (case s of c # _ \<Rightarrow> c = 43 \<or> c = 45 | [] \<Rightarrow> False);
          ds = takeWhile is_digit (if sign then tl s else s);
          n = digits_value ds
      in if ds = [] then Some old
         else if n < 2 ^ 32 then Some (if sign \<and> hd s = 45 then - of_nat n else of_nat n)
         else None)"

text \<open>\<open>sscanf(s, "%8s", p)\<close> on the bytes \<open>old\<close> at \<open>p\<close>: up to eight characters of the first word, and a terminating zero.\<close>

definition scan_word :: "nat \<Rightarrow> u8 list \<Rightarrow> u8 list \<Rightarrow> u8 list" where
  "scan_word n s old =
     (let w = take n (takeWhile (\<lambda>c. \<not> is_space c) (dropWhile is_space s))
      in if w = [] then old else w @ [0] @ drop (Suc (length w)) old)"

text \<open>\<open>%ld\<close> for a number that is not negative.\<close>

fun decimal :: "nat \<Rightarrow> u8 list" where
  "decimal n = (if n < 10 then [] else decimal (n div 10)) @ [48 + of_nat (n mod 10)]"

declare decimal.simps [simp del]

section \<open>The program\<close>

text \<open>\<open>fread(p, 4*1024*1024, 1, f)\<close> of a file: at most 4 MiB, and the rest of the buffer keeps its content.\<close>

definition read_file :: "mem \<Rightarrow> u32 \<Rightarrow> u8 list \<Rightarrow> mem" where
  "read_file m p bs = store_bytes m p (take IMAGE_SIZE bs)"

definition insert_message :: "int \<Rightarrow> string" where
  "insert_message retcode =
     (if retcode = 0 then ''Write success''
      else if retcode = 1 then ''Error: File/folder name already exist''
      else if retcode = 2 then ''Error: Invalid parent cluster''
      else ''Error: Unknown error'')"

definition usage :: "u8 list" where
  "usage = bytes_of ''inserter: ./inserter <file to insert> <parent cluster index> <storage>'' @ [10]"

definition banner :: "u8 list \<Rightarrow> nat \<Rightarrow> u8 list" where
  "banner name filesize =
     bytes_of ''Filename : '' @ name @ [10] @ bytes_of ''Filesize : '' @ decimal filesize @ bytes_of '' bytes'' @ [10]"

text \<open>The driver's static memory is zero when a program starts.\<close>

definition start_driver :: "image \<Rightarrow> mem \<Rightarrow> fs_state" where
  "start_driver image_storage m =
     \<lparr>cluster_map = replicate 512 0, dir_table_buf = replicate 64 zero_entry, cluster_buf = replicate CLUSTER_SIZE 0,
      disk = image_storage, ram = m\<rparr>"

definition insert_request :: "u32 \<Rightarrow> u8 list \<Rightarrow> u32 \<Rightarrow> nat \<Rightarrow> FAT32DriverRequest" where
  "insert_request file_buffer name parent filesize =
     (let bytes = scan_word 8 name (replicate 11 0)
      in \<lparr>r_buf = file_buffer, r_name = take 8 bytes, r_ext = drop 8 bytes, r_parent_cluster_number = parent,
          r_buffer_size = of_nat filesize\<rparr>)"

text \<open>
  The whole run: the exit code, the files of the host afterwards and what was printed. Without the image file the program reads through a null
  pointer.
\<close>

definition inserter_main :: "u8 list \<Rightarrow> image \<Rightarrow> mem \<Rightarrow> u32 \<Rightarrow> u8 list list \<Rightarrow> host \<Rightarrow> (int \<times> host \<times> u8 list) option" where
  "inserter_main pad image_storage m file_buffer argv files =
     (if length argv < 4 then Some (1, files, usage)
      else
        do { storage \<leftarrow> files (argv ! 3);
             image_storage \<leftarrow> Some (read_file image_storage 0 storage);
             (m, filesize) \<leftarrow> Some (case files (argv ! 1) of
                 None \<Rightarrow> (m, 0)
               | Some target \<Rightarrow> (read_file m file_buffer target, length target));
             s \<leftarrow> initialize_filesystem_fat32 pad (start_driver image_storage m);
             parent \<leftarrow> scan_unsigned (argv ! 2) 0;
             (retcode, s) \<leftarrow> write' s (insert_request file_buffer (argv ! 1) parent filesize);
             Some (0, files(argv ! 3 \<mapsto> load_bytes (disk s) 0 IMAGE_SIZE),
                   banner (argv ! 1) filesize @ bytes_of (insert_message retcode) @ [10]) })"

section \<open>Image files\<close>

text \<open>What the file system says about a disk depends on its clusters alone.\<close>

definition same_clusters :: "image \<Rightarrow> image \<Rightarrow> bool" where
  "same_clusters d d' \<longleftrightarrow> (\<forall>c. cluster_ok c \<longrightarrow> content d' c = content d c)"

lemma same_clusters_sym: "same_clusters d d' \<Longrightarrow> same_clusters d' d"
  by (simp add: same_clusters_def)

lemma same_fat: "same_clusters d d' \<Longrightarrow> disk_fat d' = disk_fat d"
  by (simp add: same_clusters_def flip: fat_of_content_1)

lemma same_boot: "same_clusters d d' \<Longrightarrow> boot_ok d' = boot_ok d"
  by (simp add: same_clusters_def boot_ok_def cluster_ok_def)

lemma same_dir: "same_clusters d d' \<Longrightarrow> in_use f p \<Longrightarrow> disk_dir d' p = disk_dir d p"
  by (simp add: same_clusters_def disk_dir_def cluster_ok_in_use)

lemma same_fs: "same_clusters d d' \<Longrightarrow> fs_ok d D \<Longrightarrow> fs_ok d' D"
  unfolding fs_ok_def same_fat by (rule tree_ok_cong) (simp_all add: same_dir [OF _ dir_in_use])

lemma same_file_data:
  assumes "same_clusters d d'" and "\<And>c. c \<in> set (file_clusters f e) \<Longrightarrow> cluster_ok c"
  shows "file_data d' f e = file_data d f e"
proof -
  have "map (content d') (file_clusters f e) = map (content d) (file_clusters f e)"
    using assms by (simp add: same_clusters_def)
  then show ?thesis by (simp only: file_data_def)
qed

lemma same_listing:
  assumes "same_clusters d d'" and "fs_ok d D" and "p \<in> D"
  shows "listing d' p = listing d p"
proof
  fix k
  note t = assms(2) [unfolded fs_ok_def]
  have tab: "disk_dir d' p = disk_dir d p" by (rule same_dir [OF assms(1) dir_in_use [OF t assms(3)]])
  have "node_of d' (disk_fat d) e = node_of d (disk_fat d) e" if look: "lookup (disk_dir d p) k = Some e" for e
  proof -
    obtain i where i: "i < 64" "e = disk_dir d p ! i" "used (disk_dir d p ! i)" "key_of (disk_dir d p ! i) = k" using lookup_index [OF tree_table [OF t assms(3)] look] .
    have "cluster_ok c" if "e_filesize e \<noteq> 0" "c \<in> set (file_clusters (disk_fat d) e)" for c
      using claim_in_use [OF t assms(3) i(1), of c] that i(2) by (simp add: claim_file cluster_ok_in_use)
    then show ?thesis using same_file_data [OF assms(1)] by (simp add: node_of_def)
  qed
  then show "listing d' p k = listing d p k"
    by (cases "lookup (disk_dir d p) k") (simp_all add: listing_def tab same_fat [OF assms(1)])
qed

text \<open>The image file of a disk, read into memory again.\<close>

lemma length_image: "length (load_bytes d 0 IMAGE_SIZE) = IMAGE_SIZE"
  by (simp add: load_bytes_def)

lemma read_image:
  "same_clusters d (read_file m 0 (load_bytes d 0 IMAGE_SIZE))"
  unfolding same_clusters_def
proof (intro allI impI)
  fix c :: u32 assume c: "cluster_ok c"
  show "content (read_file m 0 (load_bytes d 0 IMAGE_SIZE)) c = content d c"
    unfolding content_def CLUSTER_SIZE_eq
  proof (rule load_bytes_cong)
    fix i :: nat assume "i < 2048"
    then have "unat (2048 * c + of_nat i) < IMAGE_SIZE"
      using cluster_offset [OF c, of i] c by (simp add: cluster_ok_def IMAGE_SIZE_def)
    then show "read_file m 0 (load_bytes d 0 IMAGE_SIZE) (2048 * c + of_nat i) = d (2048 * c + of_nat i)"
      by (simp add: read_file_def store_bytes_def length_image)
  qed
qed

section \<open>The run\<close>

lemma read_file_data: "length bs \<le> IMAGE_SIZE \<Longrightarrow> load_bytes (read_file m p bs) p (length bs) = bs"
  using load_store_bytes [of bs m p] by (simp add: read_file_def IMAGE_SIZE_def)

lemma length_scan_word: "length (scan_word 8 s (replicate 11 0)) = 11"
  by (simp add: scan_word_def Let_def)

lemma insert_request:
  "wf_request (insert_request fb name parent n)" "r_parent_cluster_number (insert_request fb name parent n) = parent"
  "r_buf (insert_request fb name parent n) = fb" "r_buffer_size (insert_request fb name parent n) = of_nat n"
  by (simp_all add: insert_request_def Let_def wf_request_def length_scan_word)

lemma inserter_disk:
  assumes "boot_ok d" and "fs_ok d D"
  obtains s where "initialize_filesystem_fat32 pad (start_driver d m) = Some s" "disk s = d" "ram s = m" "fs_inv s D"
  using initialize_effect [of "start_driver d m" pad D] assms by (auto simp: start_driver_def)

lemma inserter_effect:
  assumes "4 \<le> length argv" and "files (argv ! 3) = Some storage" and "files (argv ! 1) = Some target"
    and "target \<noteq> []" and "length target \<le> IMAGE_SIZE" and "scan_unsigned (argv ! 2) 0 = Some parent"
    and d: "d = read_file image_storage 0 storage" and r: "r = insert_request file_buffer (argv ! 1) parent (length target)"
    and "boot_ok d" and "fs_ok d D" and "parent \<in> D" and "request_key r \<noteq> zero_key" and "listing d parent (request_key r) = None"
    and "\<exists>i < 64. \<not> used (disk_dir d parent ! i)" and "cluster_need (length target) \<le> length (frees (disk_fat d) 3)"
  shows "\<exists>image. inserter_main pad image_storage m file_buffer argv files =
       Some (0, files(argv ! 3 \<mapsto> image), banner (argv ! 1) (length target) @ bytes_of ''Write success'' @ [10]) \<and>
     length image = IMAGE_SIZE \<and>
     (\<forall>m'. boot_ok (read_file m' 0 image) \<and> fs_ok (read_file m' 0 image) D \<and>
       (\<forall>q \<in> D. listing (read_file m' 0 image) q =
          (if q = parent then (listing d q)(request_key r \<mapsto> File target) else listing d q)))"
proof -
  let ?m = "read_file m file_buffer target"
  have size: "unat (of_nat (length target) :: u32) = length target"
    using assms(5) by (simp add: unat_of_nat IMAGE_SIZE_def)
  then have "of_nat (length target) \<noteq> (0 :: u32)" using assms(4) by (metis length_0_conv unat_0)
  obtain s where s: "initialize_filesystem_fat32 pad (start_driver d ?m) = Some s" "disk s = d" "ram s = ?m" "fs_inv s D"
    by (rule inserter_disk [OF assms(9,10)])
  obtain s' where s': "write' s r = Some (0, s')" "fs_inv s' D"
    and l: "\<forall>q \<in> D. listing (disk s') q = (if q = parent then (listing d q)(request_key r \<mapsto> File target) else listing d q)"
    using write_file_effect [OF s(4), of r] \<open>of_nat (length target) \<noteq> (0 :: u32)\<close> assms(11-15) read_file_data [OF assms(5)]
    by (auto simp: s(2,3) r insert_request size)
  let ?image = "load_bytes (disk s') 0 IMAGE_SIZE"
  have run: "inserter_main pad image_storage m file_buffer argv files =
       Some (0, files(argv ! 3 \<mapsto> ?image), banner (argv ! 1) (length target) @ bytes_of ''Write success'' @ [10])"
    using assms(1-3,6) s(1) s'(1) [unfolded r] by (simp add: inserter_main_def d [symmetric] insert_message_def)
  have same: "same_clusters (disk s') (read_file m' 0 ?image)" for m' by (rule read_image)
  have "boot_ok (disk s')" "fs_ok (disk s') D" using s'(2) by (simp_all add: fs_inv_def)
  then show ?thesis
    using run length_image [of "disk s'"] same_boot [OF same] same_fs [OF same] same_listing [OF same] l
    by (intro exI [of _ ?image]) simp
qed

text \<open>
  C34: the inserter. For an image file with a file system, a file of at most 4 MiB and a name that the chosen directory does not have yet, it
  prints that it succeeded and replaces the image file by one that, whoever reads it, holds the same file system with the new file in that
  directory; every other name of every directory keeps its meaning.
\<close>

theorem inserter_inserts:
  assumes "4 \<le> length argv" and "files (argv ! 3) = Some storage" and "files (argv ! 1) = Some target"
    and "target \<noteq> []" and "length target \<le> IMAGE_SIZE" and "scan_unsigned (argv ! 2) 0 = Some parent"
    and d: "d = read_file image_storage 0 storage" and r: "r = insert_request file_buffer (argv ! 1) parent (length target)"
    and "boot_ok d" and "fs_ok d D" and "parent \<in> D" and "request_key r \<noteq> zero_key" and "listing d parent (request_key r) = None"
    and "\<exists>i < 64. \<not> used (disk_dir d parent ! i)" and "cluster_need (length target) \<le> length (frees (disk_fat d) 3)"
  shows "\<exists>image. inserter_main pad image_storage m file_buffer argv files =
       Some (0, files(argv ! 3 \<mapsto> image), banner (argv ! 1) (length target) @ bytes_of ''Write success'' @ [10]) \<and>
     length image = IMAGE_SIZE \<and>
     (\<forall>m'. boot_ok (read_file m' 0 image) \<and> fs_ok (read_file m' 0 image) D \<and>
       (\<forall>q \<in> D. listing (read_file m' 0 image) q =
          (if q = parent then (listing d q)(request_key r \<mapsto> File target) else listing d q)))"
  using assms by (rule inserter_effect)

text \<open>The shell of 3000 bytes is put into the root directory of a freshly formatted image.\<close>

definition host_files :: host where
  "host_files = [bytes_of ''shell'' \<mapsto> replicate 3000 7, bytes_of ''disk'' \<mapsto> load_bytes (disk formatted) 0 IMAGE_SIZE]"

definition insert_shell :: "u8 list list" where
  "insert_shell = [bytes_of ''inserter'', bytes_of ''shell'', bytes_of ''2'', bytes_of ''disk'']"

lemma replicate_2: "replicate 2 x = [x, x]"
  by (simp add: numeral_2_eq_2)

lemma insert_shell:
  "4 \<le> length insert_shell" "host_files (insert_shell ! 3) = Some (load_bytes (disk formatted) 0 IMAGE_SIZE)"
  "host_files (insert_shell ! 1) = Some (replicate 3000 7)" "scan_unsigned (insert_shell ! 2) 0 = Some 2"
  "request_key (insert_request fb (insert_shell ! 1) 2 n) = (bytes_of ''shell'' @ [0, 0, 0], replicate 3 0)"
proof -
  show "4 \<le> length insert_shell" "host_files (insert_shell ! 3) = Some (load_bytes (disk formatted) 0 IMAGE_SIZE)"
    "host_files (insert_shell ! 1) = Some (replicate 3000 7)"
    by (simp_all add: insert_shell_def host_files_def bytes_of_def)
  show "scan_unsigned (insert_shell ! 2) 0 = Some 2"
    by (simp add: insert_shell_def bytes_of_def scan_unsigned_def digits_value_def is_space_def is_digit_def)
  show "request_key (insert_request fb (insert_shell ! 1) 2 n) = (bytes_of ''shell'' @ [0, 0, 0], replicate 3 0)"
    by (simp add: insert_shell_def bytes_of_def is_space_def insert_request_def Let_def scan_word_def request_key_def replicate_2)
qed

definition example_disk :: image where
  "example_disk = read_file (\<lambda>_. 0) 0 (load_bytes (disk formatted) 0 IMAGE_SIZE)"

lemma example_disk:
  "boot_ok example_disk" "fs_ok example_disk {2}" "listing example_disk 2 = listing (disk formatted) 2"
  "disk_fat example_disk = disk_fat (disk formatted)" "\<exists>i < 64. \<not> used (disk_dir example_disk 2 ! i)"
proof -
  have same: "same_clusters (disk formatted) example_disk" unfolding example_disk_def by (rule read_image)
  have ok: "boot_ok (disk formatted)" "fs_ok (disk formatted) {2}" using formatted(2) by (simp_all add: fs_inv_def)
  show "boot_ok example_disk" "fs_ok example_disk {2}" "listing example_disk 2 = listing (disk formatted) 2"
    "disk_fat example_disk = disk_fat (disk formatted)"
    using same_boot [OF same] same_fs [OF same ok(2)] same_listing [OF same ok(2)] same_fat [OF same] ok(1) by simp_all
  have "disk_dir example_disk 2 = disk_dir (disk formatted) 2"
    using same_dir [OF same dir_in_use [OF ok(2) [unfolded fs_ok_def]]] by simp
  then show "\<exists>i < 64. \<not> used (disk_dir example_disk 2 ! i)" using formatted_slot by (auto intro!: exI [of _ 5])
qed

theorem inserter_inserts_witness:
  "\<exists>image. inserter_main [0, 0, 0] (\<lambda>_. 0) (\<lambda>_. 0) 0x100000 insert_shell host_files =
       Some (0, host_files(bytes_of ''disk'' \<mapsto> image), banner (bytes_of ''shell'') 3000 @ bytes_of ''Write success'' @ [10]) \<and>
     listing (read_file (\<lambda>_. 1) 0 image) 2 (bytes_of ''shell'' @ [0, 0, 0], replicate 3 0) = Some (File (replicate 3000 7))"
proof -
  let ?d = example_disk
  note d = example_disk
  let ?r = "insert_request 0x100000 (insert_shell ! 1) 2 (length (replicate 3000 (7 :: u8)))"
  note key = insert_shell(5) [of "0x100000" "length (replicate 3000 (7 :: u8))"]
  have k: "request_key ?r \<noteq> zero_key" unfolding key by (simp add: zero_key_def bytes_of_def replicate_8)
  have new: "listing ?d 2 (request_key ?r) = None"
    unfolding key d(3) formatted(4) by (simp add: bytes_of_def dotdot_key_def)
  have room: "cluster_need (length (replicate 3000 (7 :: u8))) \<le> length (frees (disk_fat ?d) 3)"
    unfolding d(4) formatted(5) by (simp add: cluster_need_def)
  have t: "replicate 3000 (7 :: u8) \<noteq> []" "length (replicate 3000 (7 :: u8)) \<le> IMAGE_SIZE" "2 \<in> {2 :: u32}"
    by (simp_all add: IMAGE_SIZE_def)
  have args: "insert_shell ! 3 = bytes_of ''disk''" "insert_shell ! 1 = bytes_of ''shell''" by (simp_all add: insert_shell_def)
  obtain image where image: "inserter_main [0, 0, 0] (\<lambda>_. 0) (\<lambda>_. 0) 0x100000 insert_shell host_files =
       Some (0, host_files(insert_shell ! 3 \<mapsto> image),
             banner (insert_shell ! 1) (length (replicate 3000 (7 :: u8))) @ bytes_of ''Write success'' @ [10])"
    "listing (read_file (\<lambda>_. 1) 0 image) 2 = (listing ?d 2)(request_key ?r \<mapsto> File (replicate 3000 7))"
    using inserter_inserts [OF insert_shell(1-3) t(1,2) insert_shell(4) example_disk_def refl d(1,2) t(3) k new d(5) room, of "[0, 0, 0]" "\<lambda>_. 0"]
    by auto
  have "listing (read_file (\<lambda>_. 1) 0 image) 2 (bytes_of ''shell'' @ [0, 0, 0], replicate 3 0) = Some (File (replicate 3000 7))"
    unfolding image(2) key by (rule fun_upd_same)
  then show ?thesis using image(1) unfolding args length_replicate by blast
qed

end
