(* ===== verification/Build.thy ===== *)
theory Build
  imports Boot Inserter
begin

text \<open>
  The path of the shell from the host to the CPU: the inserter puts the binary into the disk image, and the kernel that boots from
  this image runs it.
\<close>

lemma shell_argument:
  "scan_unsigned (bytes_of ''2'') 0 = Some 2" "request_key (insert_request fb (bytes_of ''shell'') 2 n) = request_key shell_request"
proof -
  show "scan_unsigned (bytes_of ''2'') 0 = Some 2" using insert_shell(4) by (simp add: insert_shell_def)
  show "request_key (insert_request fb (bytes_of ''shell'') 2 n) = request_key shell_request"
    using insert_shell(5) [of fb n] by (simp add: insert_shell_def) (simp add: request_key_def shell_request_def replicate_3)
qed

text \<open>
  C20: from the host to the CPU. The build puts the shell into the image with \<open>inserter shell 2 <image>\<close>. If the image has a file system without
  a file of that name, with a free entry in its root and enough free clusters, and the size of the binary is not a multiple of 2048 (\<open>read\<close> has no result for
  such a file, so that shell would not boot), then the inserter reports success, and every kernel that boots from the new image, whatever was in the memory of driver
  and disk before, sets itself up and starts the shell, provided that the uninitialised page directory entry (\<open>paging.c:139\<close>) happens to name the kernel's frame: the
  process table has the shell as its only, running process, the CPU gets address 0, the first page of the process is accessible and holds exactly the binary
  at its start.
\<close>

theorem inserted_shell_boots:
  assumes args: "argv = [bytes_of ''inserter'', bytes_of ''shell'', bytes_of ''2'', name]"
    and files: "files name = Some storage" "files (bytes_of ''shell'') = Some binary"
    and binary: "length binary mod 2048 \<noteq> 0" "length binary \<le> IMAGE_SIZE"
    and d: "d = read_file image_storage 0 storage" and ok: "boot_ok d" "fs_ok d D"
    and free: "listing d 2 (request_key shell_request) = None" "\<exists>i < 64. \<not> used (disk_dir d 2 ! i)"
      "cluster_need (length binary) \<le> length (frees (disk_fat d) 3)"
    and kernel: "pdl > KERNEL_VIRTUAL_ADDRESS_BASE" "benign_entry junkE"
  shows "\<exists>image. inserter_main pad image_storage m file_buffer argv files =
       Some (0, files(name \<mapsto> image), banner (bytes_of ''shell'') (length binary) @ bytes_of ''Write success'' @ [10]) \<and>
     (\<forall>f m' sp mach. disk f = read_file m' 0 image \<and> kern mach = fresh_kernel f sp \<and> gdt mach = global_descriptor_table \<and> idt mach = interrupt_descriptor_table \<longrightarrow>
       (\<exists>c mach'. kernel_setup bus isr_stub_table tss_addr pdl stack_ptr pad junkE junkF mach = Some (c, mach') \<and>
          eip c = 0 \<and> c = slot_context (kern mach') 0 \<and> proc_state (process_list (kern mach') ! 0) = PROCESS_STATE_RUNNING \<and>
          process_slot_occupied (kern mach') = (replicate 16 False)[0 := True] \<and>
          accessible (kern mach') 0 (2 ^ 22) \<and> load_bytes (user_mem (kern mach')) 0 (length binary) = binary \<and> fs_inv (fsys (kern mach')) D))"
proof -
  let ?r = "insert_request file_buffer (argv ! 1) 2 (length binary)"
  have a: "4 \<le> length argv" "files (argv ! 3) = Some storage" "files (argv ! 1) = Some binary" "scan_unsigned (argv ! 2) 0 = Some 2"
    using files shell_argument(1) by (simp_all add: args)
  have key: "request_key ?r = request_key shell_request" using shell_argument(2) by (simp add: args)
  have root: "2 \<in> D" using tree_dirs [OF ok(2) [unfolded fs_ok_def], of ROOT_CLUSTER_NUMBER] by (simp add: ROOT_CLUSTER_NUMBER_def)
  have new: "binary \<noteq> []" "request_key ?r \<noteq> zero_key" "listing d 2 (request_key ?r) = None"
    unfolding key using binary(1) shell_request(2) free(1) by auto
  obtain image where run: "inserter_main pad image_storage m file_buffer argv files =
       Some (0, files(argv ! 3 \<mapsto> image), banner (argv ! 1) (length binary) @ bytes_of ''Write success'' @ [10])"
    and image: "\<And>m'. boot_ok (read_file m' 0 image)" "\<And>m'. fs_ok (read_file m' 0 image) D"
      "\<And>m'. listing (read_file m' 0 image) 2 = (listing d 2)(request_key shell_request \<mapsto> File binary)"
    using inserter_effect [OF a(1-3) new(1) binary(2) a(4) d refl ok root new(2,3) free(2,3), of pad m, unfolded key] root by auto
  have "\<exists>c mach'. kernel_setup bus isr_stub_table tss_addr pdl stack_ptr pad junkE junkF mach = Some (c, mach') \<and>
          eip c = 0 \<and> c = slot_context (kern mach') 0 \<and> proc_state (process_list (kern mach') ! 0) = PROCESS_STATE_RUNNING \<and>
          process_slot_occupied (kern mach') = (replicate 16 False)[0 := True] \<and>
          accessible (kern mach') 0 (2 ^ 22) \<and> load_bytes (user_mem (kern mach')) 0 (length binary) = binary \<and> fs_inv (fsys (kern mach')) D"
    if "disk f = read_file m' 0 image" "kern mach = fresh_kernel f sp" "gdt mach = global_descriptor_table" "idt mach = interrupt_descriptor_table"
    for f m' sp mach
    using boot_effect [of f D mach sp binary pdl junkE bus isr_stub_table tss_addr stack_ptr pad junkF] image [of m'] root binary(1) kernel that by auto
  then show ?thesis using run by (auto simp: args)
qed

theorem inserted_shell_boots_witness:
  "\<exists>image c mach'. inserter_main [0, 0, 0] (\<lambda>_. 0) (\<lambda>_. 0) 0x100000 insert_shell host_files =
       Some (0, host_files(bytes_of ''disk'' \<mapsto> image), banner (bytes_of ''shell'') 3000 @ bytes_of ''Write success'' @ [10]) \<and>
     kernel_setup key_bus (\<lambda>i. 0xC0000000 + of_nat i) 0xC0101000 0xC0200000 0xC0003FF0 [0, 0, 0] zero_pde zero_flag
       (machine_of (fresh_kernel (start_driver (read_file (\<lambda>_. 1) 0 image) (\<lambda>_. 0)) (\<lambda>_ _. 0))) = Some (c, mach') \<and>
     eip c = 0 \<and> load_bytes (user_mem (kern mach')) 0 3000 = replicate 3000 7"
proof -
  let ?binary = "replicate 3000 (7 :: u8)"
  have files: "host_files (bytes_of ''disk'') = Some (load_bytes (disk formatted) 0 IMAGE_SIZE)" "host_files (bytes_of ''shell'') = Some ?binary"
    using insert_shell(2,3) by (simp_all add: insert_shell_def)
  have b: "length ?binary mod 2048 \<noteq> 0" "length ?binary \<le> IMAGE_SIZE" by (simp_all add: IMAGE_SIZE_def)
  have new: "listing example_disk 2 (request_key shell_request) = None"
    unfolding example_disk(3) formatted(4) by (simp add: shell_request_def request_key_def bytes_of_def dotdot_key_def)
  have room: "cluster_need (length ?binary) \<le> length (frees (disk_fat example_disk) 3)"
    unfolding example_disk(4) formatted(5) by (simp add: cluster_need_def)
  have k: "0xC0200000 > KERNEL_VIRTUAL_ADDRESS_BASE" by (simp add: KERNEL_VIRTUAL_ADDRESS_BASE_def)
  have m: "disk (start_driver d m) = d" "kern (machine_of k) = k" "gdt (machine_of k) = global_descriptor_table"
    "idt (machine_of k) = interrupt_descriptor_table" for d m and k :: kernel by (simp_all add: start_driver_def machine_of_def)
  show ?thesis
    using inserted_shell_boots [OF insert_shell_def files b example_disk_def example_disk(1,2) new example_disk(5) room k zero_pde_benign,
        of "[0, 0, 0]" "\<lambda>_. 0" "0x100000" key_bus "\<lambda>i. 0xC0000000 + of_nat i" "0xC0101000" "0xC0003FF0" zero_flag] m
    unfolding length_replicate by blast
qed

end
