(* ===== verification/Clock.thy ===== *)
theory Clock
  imports Prelude
begin

text \<open>
  The clock program (\<open>src/src/clock.c\<close>): reading the real-time clock and the adjustment to the local time. \<open>out_byte\<close> and \<open>in_byte\<close> are
  declared but not defined in the repository; they and the state of the chip are parameters. What is relied on of the chip
  is the hypothesis \<open>rtc_chip\<close>.
\<close>

section \<open>Definitions\<close>

definition CURRENT_YEAR :: u32 where "CURRENT_YEAR = 2024"
definition cmos_address :: int where "cmos_address = 0x70"
definition cmos_data :: int where "cmos_data = 0x71"

text \<open>The global variables.\<close>

record clock =
  century_register :: int
  second :: u8
  minute :: u8
  hour :: u8
  day :: u8
  month :: u8
  year :: u32

type_synonym 'd out_byte = "int \<Rightarrow> int \<Rightarrow> 'd \<Rightarrow> 'd"
type_synonym 'd in_byte = "int \<Rightarrow> 'd \<Rightarrow> int \<times> 'd"

definition get_update_in_progress_flag :: "'d out_byte \<Rightarrow> 'd in_byte \<Rightarrow> 'd \<Rightarrow> int \<times> 'd" where
  "get_update_in_progress_flag out_byte in_byte d =
     (let d = out_byte cmos_address 0x0A d; (v, d) = in_byte cmos_data d in (v AND 0x80, d))"

definition get_RTC_register :: "'d out_byte \<Rightarrow> 'd in_byte \<Rightarrow> int \<Rightarrow> 'd \<Rightarrow> u8 \<times> 'd" where
  "get_RTC_register out_byte in_byte r d =
     (let d = out_byte cmos_address r d; (v, d) = in_byte cmos_data d in (word_of_int v, d))"

partial_function (option) wait_update :: "'d out_byte \<Rightarrow> 'd in_byte \<Rightarrow> 'd \<Rightarrow> 'd option" where
  "wait_update out_byte in_byte d =
     (case get_update_in_progress_flag out_byte in_byte d of (f, d) \<Rightarrow>
        if f \<noteq> 0 then wait_update out_byte in_byte d else Some d)"

text \<open>One pass over the registers; \<open>century\<close> is a local variable of \<open>read_rtc\<close>.\<close>

definition read_registers :: "'d out_byte \<Rightarrow> 'd in_byte \<Rightarrow> clock \<times> u8 \<Rightarrow> 'd \<Rightarrow> (clock \<times> u8) \<times> 'd" where
  "read_registers out_byte in_byte g d =
     (let (clk, century) = g;
          (v, d) = get_RTC_register out_byte in_byte 0x00 d; clk = clk\<lparr>second := v\<rparr>;
          (v, d) = get_RTC_register out_byte in_byte 0x02 d; clk = clk\<lparr>minute := v\<rparr>;
          (v, d) = get_RTC_register out_byte in_byte 0x04 d; clk = clk\<lparr>hour := v\<rparr>;
          (v, d) = get_RTC_register out_byte in_byte 0x07 d; clk = clk\<lparr>day := v\<rparr>;
          (v, d) = get_RTC_register out_byte in_byte 0x08 d; clk = clk\<lparr>month := v\<rparr>;
          (v, d) = get_RTC_register out_byte in_byte 0x09 d; clk = clk\<lparr>year := ucast v\<rparr>;
          (century, d) = (if century_register clk \<noteq> 0 then get_RTC_register out_byte in_byte (century_register clk) d else (century, d))
      in ((clk, century), d))"

text \<open>The loop that reads until two passes agree.\<close>

partial_function (option) read_twice :: "'d out_byte \<Rightarrow> 'd in_byte \<Rightarrow> clock \<times> u8 \<Rightarrow> 'd \<Rightarrow> ((clock \<times> u8) \<times> 'd) option" where
  "read_twice out_byte in_byte g d =
     do { d \<leftarrow> wait_update out_byte in_byte d;
          (g', d) \<leftarrow> Some (read_registers out_byte in_byte g d);
          if second (fst g) \<noteq> second (fst g') \<or> minute (fst g) \<noteq> minute (fst g') \<or> hour (fst g) \<noteq> hour (fst g')
          then read_twice out_byte in_byte g' d else Some (g', d) }"

text \<open>The two conversions, with the arithmetic in \<open>int\<close>, and the year.\<close>

definition from_bcd :: "u8 \<Rightarrow> u8" where
  "from_bcd x = word_of_int ((uint x AND 0x0F) + (uint x div 16) * 10)"

definition convert_bcd :: "clock \<times> u8 \<Rightarrow> clock \<times> u8" where
  "convert_bcd g =
     (let (clk, century) = g in
      (clk\<lparr>second := from_bcd (second clk), minute := from_bcd (minute clk),
           hour := word_of_int (((uint (hour clk) AND 0x0F) + ((uint (hour clk) AND 0x70) div 16) * 10) OR (uint (hour clk) AND 0x80)),
           day := from_bcd (day clk), month := from_bcd (month clk),
           year := (year clk AND 0x0F) + (year clk div 16) * 10\<rparr>,
       if century_register clk \<noteq> 0 then from_bcd century else century))"

definition convert_hour :: "u8 \<Rightarrow> u8" where
  "convert_hour h = word_of_int (((uint h AND 0x7F) + 12) mod 24)"

definition read_rtc :: "'d out_byte \<Rightarrow> 'd in_byte \<Rightarrow> u8 \<Rightarrow> clock \<Rightarrow> 'd \<Rightarrow> (clock \<times> 'd) option" where
  "read_rtc out_byte in_byte century clk d =
     do { d \<leftarrow> wait_update out_byte in_byte d;
          (g, d) \<leftarrow> Some (read_registers out_byte in_byte (clk, century) d);
          (g, d) \<leftarrow> read_twice out_byte in_byte g d;
          (registerB, d) \<leftarrow> Some (get_RTC_register out_byte in_byte 0x0B d);
          (clk, century) \<leftarrow> Some (if registerB AND 0x04 = 0 then convert_bcd g else g);
          clk \<leftarrow> Some (if registerB AND 0x02 = 0 \<and> hour clk AND 0x80 \<noteq> 0 then clk\<lparr>hour := convert_hour (hour clk)\<rparr> else clk);
          clk \<leftarrow> Some (if century_register clk \<noteq> 0 then clk\<lparr>year := year clk + ucast century * 100\<rparr>
                      else let y = year clk + (CURRENT_YEAR div 100) * 100 in clk\<lparr>year := (if y < CURRENT_YEAR then y + 100 else y)\<rparr>);
          Some (clk, d) }"

text \<open>What \<open>main\<close> does to the time in each turn of its loop before it prints it: the step to UTC+7.\<close>

definition local_hour :: "clock \<Rightarrow> clock" where
  "local_hour clk =
     (let clk = clk\<lparr>hour := hour clk + 7\<rparr> in if hour clk > 24 then clk\<lparr>hour := hour clk - 24\<rparr> else clk)"

definition local_minute :: "clock \<Rightarrow> clock" where
  "local_minute clk = (if minute clk > 60 then clk\<lparr>minute := minute clk - 60\<rparr> else clk)"

definition local_second :: "clock \<Rightarrow> clock" where
  "local_second clk = (if second clk > 60 then clk\<lparr>second := second clk - 60\<rparr> else clk)"

section \<open>The chip\<close>

text \<open>
  A real-time clock behind the address and the data port: the address port selects a register, the data port shows its content. The registers change at updates.
  \<open>calm\<close> is a number of accesses for which the chip certainly does not update them; without it a register may show anything. The data sheet of these chips gives:
  when bit 7 of register A is clear, no update begins for at least 244 microseconds, in which the program makes more than 16 accesses; the bit is set only shortly
  before and during an update, not more than 32 accesses before the registers change; it is set for finitely many reads; and when it is found clear after an update was seen, the next update is
  almost a second away, more than 64 accesses. So the program must not be suspended for long in the middle of reading.
\<close>

definition rtc_chip ::
  "'d out_byte \<Rightarrow> 'd in_byte \<Rightarrow> ('d \<Rightarrow> int) \<Rightarrow> ('d \<Rightarrow> int \<Rightarrow> u8) \<Rightarrow> ('d \<Rightarrow> nat) \<Rightarrow> ('d \<Rightarrow> bool) \<Rightarrow> ('d \<Rightarrow> nat) \<Rightarrow> bool" where
  "rtc_chip out_byte in_byte sel regs calm updated delay \<longleftrightarrow>
     (\<forall>v d. sel (out_byte 0x70 v d) = v \<and> updated (out_byte 0x70 v d) = updated d \<and> delay (out_byte 0x70 v d) \<le> delay d \<and>
        (0 < calm d \<longrightarrow> regs (out_byte 0x70 v d) = regs d \<and> calm d \<le> calm (out_byte 0x70 v d) + 1)) \<and>
     (\<forall>d. 0 < calm d \<longrightarrow> regs (snd (in_byte 0x71 d)) = regs d \<and> calm d \<le> calm (snd (in_byte 0x71 d)) + 1) \<and>
     (\<forall>d. sel d = 0x0A \<longrightarrow>
        (if bit (fst (in_byte 0x71 d)) 7 then calm d < 32 \<and> updated (snd (in_byte 0x71 d)) \<and> delay (snd (in_byte 0x71 d)) < delay d
         else 16 \<le> calm (snd (in_byte 0x71 d)) \<and> (updated d \<longrightarrow> 64 \<le> calm (snd (in_byte 0x71 d))))) \<and>
     (\<forall>d. sel d \<noteq> 0x0A \<and> 0 < calm d \<longrightarrow> word_of_int (fst (in_byte 0x71 d)) = regs d (sel d))"

lemma and_0x80: "v AND 0x80 = 0 \<longleftrightarrow> \<not> bit (v :: int) 7"
  using and_exp_eq_0_iff_not_bit [of v 7] by simp

lemma flag_effect:
  assumes "rtc_chip out_byte in_byte sel regs calm updated delay"
  shows "\<exists>f d'. get_update_in_progress_flag out_byte in_byte d = (f, d') \<and> (2 \<le> calm d \<longrightarrow> regs d' = regs d) \<and>
    (if f \<noteq> 0 then calm d < 33 \<and> updated d' \<and> delay d' < delay d else 16 \<le> calm d' \<and> (updated d \<longrightarrow> 64 \<le> calm d'))"
proof -
  let ?d = "out_byte 0x70 0x0A d"
  obtain v d' where v: "in_byte 0x71 ?d = (v, d')" by fastforce
  have d: "sel ?d = 0x0A" "updated ?d = updated d" "delay ?d \<le> delay d"
    and kept: "0 < calm d \<Longrightarrow> regs ?d = regs d \<and> calm d \<le> calm ?d + 1"
    using assms unfolding rtc_chip_def by blast+
  have r: "0 < calm ?d \<Longrightarrow> regs d' = regs ?d" using assms v unfolding rtc_chip_def by (metis snd_conv)
  have flag: "if bit v 7 then calm ?d < 32 \<and> updated d' \<and> delay d' < delay ?d else 16 \<le> calm d' \<and> (updated ?d \<longrightarrow> 64 \<le> calm d')"
    using assms [unfolded rtc_chip_def, THEN conjunct2, THEN conjunct2, THEN conjunct1, rule_format, OF d(1)] by (simp only: v fst_conv snd_conv)
  have "2 \<le> calm d \<longrightarrow> regs d' = regs d" using r kept by force
  have c: "calm d \<le> calm ?d + 1" using kept by (cases "calm d = 0") simp_all
  have "if v AND 0x80 \<noteq> 0 then calm d < 33 \<and> updated d' \<and> delay d' < delay d else 16 \<le> calm d' \<and> (updated d \<longrightarrow> 64 \<le> calm d')"
    using flag c d(2,3) by (auto simp: and_0x80 split: if_splits)
  with \<open>2 \<le> calm d \<longrightarrow> regs d' = regs d\<close> show ?thesis using v by (simp add: get_update_in_progress_flag_def cmos_address_def cmos_data_def)
qed

text \<open>The wait ends in a calm; if it did not end at once, in a long one.\<close>

lemma wait_effect:
  assumes "rtc_chip out_byte in_byte sel regs calm updated delay"
  shows "\<exists>d'. wait_update out_byte in_byte d = Some d' \<and> 16 \<le> calm d' \<and> (updated d \<longrightarrow> 64 \<le> calm d') \<and>
    ((2 \<le> calm d \<longrightarrow> regs d' = regs d) \<or> 64 \<le> calm d')"
proof (induction "delay d" arbitrary: d rule: less_induct)
  case less
  obtain f d' where f: "get_update_in_progress_flag out_byte in_byte d = (f, d')" "2 \<le> calm d \<longrightarrow> regs d' = regs d"
    "if f \<noteq> 0 then calm d < 33 \<and> updated d' \<and> delay d' < delay d else 16 \<le> calm d' \<and> (updated d \<longrightarrow> 64 \<le> calm d')"
    using flag_effect [OF assms] by blast
  show ?case
  proof (cases "f = 0")
    case True
    then show ?thesis using f by (subst wait_update.simps) auto
  next
    case False
    then obtain d'' where "wait_update out_byte in_byte d' = Some d''" "16 \<le> calm d''" "64 \<le> calm d''" using less [of d'] f(3) by auto
    then show ?thesis using f(1) False by (subst wait_update.simps) auto
  qed
qed

lemma wait_long_calm:
  assumes "rtc_chip out_byte in_byte sel regs calm updated delay" and "33 \<le> calm d"
  shows "\<exists>d'. wait_update out_byte in_byte d = Some d' \<and> 16 \<le> calm d' \<and> regs d' = regs d"
proof -
  obtain f d' where f: "get_update_in_progress_flag out_byte in_byte d = (f, d')" "2 \<le> calm d \<longrightarrow> regs d' = regs d"
    "if f \<noteq> 0 then calm d < 33 \<and> updated d' \<and> delay d' < delay d else 16 \<le> calm d' \<and> (updated d \<longrightarrow> 64 \<le> calm d')"
    using flag_effect [OF assms(1)] by blast
  then have "f = 0" using assms(2) by (auto split: if_splits)
  then show ?thesis using f assms(2) by (subst wait_update.simps) simp
qed

lemma register_effect:
  assumes "rtc_chip out_byte in_byte sel regs calm updated delay" and "r \<noteq> 0x0A" and "2 \<le> calm d"
  shows "\<exists>d'. get_RTC_register out_byte in_byte r d = (regs d r, d') \<and> regs d' = regs d \<and> calm d \<le> calm d' + 2"
proof -
  let ?d = "out_byte 0x70 r d"
  obtain v d' where v: "in_byte 0x71 ?d = (v, d')" by fastforce
  have d: "sel ?d = r" "regs ?d = regs d" "calm d \<le> calm ?d + 1" using assms(1,3) unfolding rtc_chip_def by auto
  then have c: "0 < calm ?d" using assms(3) by simp
  have "word_of_int v = regs ?d r" "regs d' = regs ?d" "calm ?d \<le> calm d' + 1"
    using assms(1,2) v d(1) c unfolding rtc_chip_def by (metis fst_conv snd_conv)+
  then show ?thesis using v d by (simp add: get_RTC_register_def cmos_address_def cmos_data_def)
qed

text \<open>The variables after one pass.\<close>

definition shown :: "(int \<Rightarrow> u8) \<Rightarrow> clock \<Rightarrow> clock" where
  "shown reg clk = clk\<lparr>second := reg 0, minute := reg 2, hour := reg 4, day := reg 7, month := reg 8, year := ucast (reg 9)\<rparr>"

lemma shown_shown [simp]: "shown r (shown r' clk) = shown r clk" "century_register (shown r clk) = century_register clk"
  by (simp_all add: shown_def)

text \<open>A pass makes twelve accesses.\<close>

lemma pass_effect:
  assumes chip: "rtc_chip out_byte in_byte sel regs calm updated delay" and "century_register clk = 0" and calm: "12 \<le> calm d"
  shows "\<exists>d'. read_registers out_byte in_byte (clk, c) d = ((shown (regs d) clk, c), d') \<and> regs d' = regs d \<and> calm d \<le> calm d' + 12"
proof -
  note reg = register_effect [OF chip]
  obtain d0 where 0: "get_RTC_register out_byte in_byte 0x00 d = (regs d 0, d0)" "regs d0 = regs d" "calm d \<le> calm d0 + 2"
    using reg [of 0 d] calm by fastforce
  obtain d2 where 2: "get_RTC_register out_byte in_byte 0x02 d0 = (regs d 2, d2)" "regs d2 = regs d" "calm d \<le> calm d2 + 4"
    using reg [of 2 d0] calm 0(2,3) by fastforce
  obtain d4 where 4: "get_RTC_register out_byte in_byte 0x04 d2 = (regs d 4, d4)" "regs d4 = regs d" "calm d \<le> calm d4 + 6"
    using reg [of 4 d2] calm 2(2,3) by fastforce
  obtain d7 where 7: "get_RTC_register out_byte in_byte 0x07 d4 = (regs d 7, d7)" "regs d7 = regs d" "calm d \<le> calm d7 + 8"
    using reg [of 7 d4] calm 4(2,3) by fastforce
  obtain d8 where 8: "get_RTC_register out_byte in_byte 0x08 d7 = (regs d 8, d8)" "regs d8 = regs d" "calm d \<le> calm d8 + 10"
    using reg [of 8 d7] calm 7(2,3) by fastforce
  obtain d9 where 9: "get_RTC_register out_byte in_byte 0x09 d8 = (regs d 9, d9)" "regs d9 = regs d" "calm d \<le> calm d9 + 12"
    using reg [of 9 d8] calm 8(2,3) by fastforce
  show ?thesis using 0 2 4 7 8 9 assms(2) by (simp add: read_registers_def shown_def Let_def)
qed

text \<open>The second reading: it agrees with the first one, or an update has passed and the third one agrees with the second.\<close>

lemma read_twice_agrees:
  assumes chip: "rtc_chip out_byte in_byte sel regs calm updated delay" and cent: "century_register clk = 0"
    and d1: "wait_update out_byte in_byte d = Some d1" "16 \<le> calm d1" "regs d1 = regs d"
  shows "\<exists>d'. read_twice out_byte in_byte (shown (regs d) clk, c) d = Some ((shown (regs d') clk, c), d') \<and> 4 \<le> calm d'"
proof -
  obtain d2 where d2: "read_registers out_byte in_byte (shown (regs d) clk, c) d1 = ((shown (regs d) clk, c), d2)" "regs d2 = regs d" "calm d1 \<le> calm d2 + 12"
    using pass_effect [OF chip, of "shown (regs d) clk" d1 c] cent d1(2,3) by auto
  have "read_twice out_byte in_byte (shown (regs d) clk, c) d = Some ((shown (regs d) clk, c), d2)"
    using d1(1) d2(1) by (subst read_twice.simps) simp
  then show ?thesis using d2(2,3) d1(2) by (intro exI [of _ d2]) simp
qed

lemma read_twice_effect:
  assumes chip: "rtc_chip out_byte in_byte sel regs calm updated delay" and cent: "century_register clk = 0" and calm: "2 \<le> calm d"
  shows "\<exists>d'. read_twice out_byte in_byte (shown (regs d) clk, c) d = Some ((shown (regs d') clk, c), d') \<and> 4 \<le> calm d'"
proof -
  obtain d1 where d1: "wait_update out_byte in_byte d = Some d1" "16 \<le> calm d1" "(2 \<le> calm d \<longrightarrow> regs d1 = regs d) \<or> 64 \<le> calm d1"
    using wait_effect [OF chip] by blast
  show ?thesis
  proof (cases "regs d1 = regs d")
    case True
    then show ?thesis using read_twice_agrees [OF chip cent d1(1,2)] by blast
  next
    case False
    then have long: "64 \<le> calm d1" using d1(3) calm by blast
    obtain d2 where d2: "read_registers out_byte in_byte (shown (regs d) clk, c) d1 = ((shown (regs d1) clk, c), d2)" "regs d2 = regs d1" "calm d1 \<le> calm d2 + 12"
      using pass_effect [OF chip, of "shown (regs d) clk" d1 c] cent long by auto
    obtain d3 where "wait_update out_byte in_byte d2 = Some d3" "16 \<le> calm d3" "regs d3 = regs d2"
      using wait_long_calm [OF chip, of d2] d2(3) long by auto
    then obtain d4 where "read_twice out_byte in_byte (shown (regs d2) clk, c) d2 = Some ((shown (regs d4) clk, c), d4)" "4 \<le> calm d4"
      using read_twice_agrees [OF chip cent] by blast
    then show ?thesis using d1(1) d2 long by (subst read_twice.simps) auto
  qed
qed

text \<open>The conversions on the variables, without a century register.\<close>

definition converted :: "u8 \<Rightarrow> clock \<Rightarrow> clock" where
  "converted registerB clk =
     (let clk = (if registerB AND 0x04 = 0 then fst (convert_bcd (clk, 0)) else clk);
          clk = (if registerB AND 0x02 = 0 \<and> hour clk AND 0x80 \<noteq> 0 then clk\<lparr>hour := convert_hour (hour clk)\<rparr> else clk);
          y = year clk + 2000
      in clk\<lparr>year := (if y < 2024 then y + 100 else y)\<rparr>)"

lemma read_rtc_effect:
  assumes chip: "rtc_chip out_byte in_byte sel regs calm updated delay" and cent: "century_register clk = 0"
  shows "\<exists>d'. read_rtc out_byte in_byte century clk d = Some (converted (regs d' 0x0B) (shown (regs d') clk), d') \<and> 2 \<le> calm d'"
proof -
  obtain d1 where d1: "wait_update out_byte in_byte d = Some d1" "16 \<le> calm d1" using wait_effect [OF chip] by blast
  obtain d2 where d2: "read_registers out_byte in_byte (clk, century) d1 = ((shown (regs d1) clk, century), d2)" "regs d2 = regs d1" "calm d1 \<le> calm d2 + 12"
    using pass_effect [OF chip cent, of d1 century] d1(2) by auto
  obtain d3 where d3: "read_twice out_byte in_byte (shown (regs d1) clk, century) d2 = Some ((shown (regs d3) clk, century), d3)" "4 \<le> calm d3"
    using read_twice_effect [OF chip cent, of d2 century] d1(2) d2(2,3) by auto
  obtain d4 where d4: "get_RTC_register out_byte in_byte 0x0B d3 = (regs d3 0x0B, d4)" "regs d4 = regs d3" "calm d3 \<le> calm d4 + 2"
    using register_effect [OF chip, of "0x0B" d3] d3(2) by fastforce
  have bcd: "convert_bcd (x, century) = (fst (convert_bcd (x, 0)), century)" if "century_register x = 0" for x
    using that by (simp add: convert_bcd_def)
  have keep: "century_register (fst (convert_bcd (x, 0))) = century_register x"
    "century_register (if b then x\<lparr>hour := h\<rparr> else x) = century_register x" for x b h by (simp_all add: convert_bcd_def)
  have "read_rtc out_byte in_byte century clk d = Some (converted (regs d3 0x0B) (shown (regs d3) clk), d4)"
    using d1 d2 d3 d4
    by (cases "regs d3 0x0B AND 0x04 = 0") (simp_all add: read_rtc_def converted_def cent bcd keep Let_def CURRENT_YEAR_def split del: if_split)
  then show ?thesis using d4(2,3) d3(2) by (intro exI [of _ d4]) simp
qed

section \<open>Encodings of the time\<close>

text \<open>How a chip stores a number, binary or in two decimal digits, and the hour of a 12-hour clock with bit 7 for the afternoon.\<close>

definition stored :: "bool \<Rightarrow> nat \<Rightarrow> u8" where
  "stored bcd n = of_nat (if bcd then n div 10 * 16 + n mod 10 else n)"

definition stored_hour :: "bool \<Rightarrow> bool \<Rightarrow> nat \<Rightarrow> u8" where
  "stored_hour bcd h24 h = (if h24 then stored bcd h
     else stored bcd (if h mod 12 = 0 then 12 else h mod 12) OR (if 12 \<le> h then 0x80 else 0))"

definition stores_time :: "bool \<Rightarrow> bool \<Rightarrow> nat \<Rightarrow> nat \<Rightarrow> nat \<Rightarrow> nat \<Rightarrow> nat \<Rightarrow> nat \<Rightarrow> (int \<Rightarrow> u8) \<Rightarrow> bool" where
  "stores_time bcd h24 y mo d h mi s reg \<longleftrightarrow> y < 100 \<and> mo < 100 \<and> d < 100 \<and> h < 24 \<and> mi < 60 \<and> s < 60 \<and>
     reg 0 = stored bcd s \<and> reg 2 = stored bcd mi \<and> reg 4 = stored_hour bcd h24 h \<and> reg 7 = stored bcd d \<and> reg 8 = stored bcd mo \<and>
     reg 9 = stored bcd y \<and> (reg 0x0B AND 0x04 = 0 \<longleftrightarrow> bcd) \<and> (reg 0x0B AND 0x02 = 0 \<longleftrightarrow> \<not> h24)"

lemma and_15: "x AND 15 = x mod 16" for x :: int
  using take_bit_eq_mask [of 4 x] by (simp add: take_bit_eq_mod mask_eq_exp_minus_1)

lemma and_15_u32: "x AND 15 = x mod 16" for x :: u32
  using take_bit_eq_mask [of 4 x] by (simp add: take_bit_eq_mod mask_eq_exp_minus_1)

lemma uint_stored: "n < 100 \<Longrightarrow> uint (stored bcd n) = int (if bcd then n div 10 * 16 + n mod 10 else n)"
proof -
  assume n: "n < 100"
  have "(if bcd then n div 10 * 16 + n mod 10 else n) < 256" using n by auto
  then show ?thesis by (simp add: stored_def unsigned_of_nat take_bit_eq_mod)
qed

lemma bcd_digits: "(n div 10 * 16 + n mod 10) mod 16 = n mod 10" "(n div 10 * 16 + n mod 10) div 16 = n div (10 :: nat)"
proof -
  have "n mod 10 < 16" by (rule less_trans [of _ 10]) simp_all
  then show "(n div 10 * 16 + n mod 10) mod 16 = n mod 10" "(n div 10 * 16 + n mod 10) div 16 = n div 10" by simp_all
qed

lemma from_bcd_stored: "n < 100 \<Longrightarrow> from_bcd (stored True n) = of_nat n"
proof -
  assume n: "n < 100"
  have u: "uint (stored True n) = int (n div 10 * 16 + n mod 10)" using uint_stored [OF n, of True] by simp
  have "uint (stored True n) AND 15 = int (n mod 10)" unfolding and_15 u zmod_int [symmetric, of _ 16, simplified] by (simp only: bcd_digits)
  moreover have "uint (stored True n) div 16 = int (n div 10)" unfolding u using zdiv_int [of _ 16, symmetric] by (simp only: bcd_digits of_nat_numeral)
  moreover have "int (n mod 10) + int (n div 10) * 10 = int n" by presburger
  ultimately have "from_bcd (stored True n) = word_of_int (int n)" by (simp only: from_bcd_def)
  then show ?thesis by simp
qed

lemma year_stored:
  assumes "n < 100"
  shows "(ucast (stored True n) AND 15) + ucast (stored True n) div 16 * 10 = (of_nat n :: u32)"
proof -
  let ?N = "n div 10 * 16 + n mod 10"
  have "?N < 256" using assms by auto
  then have "unat (stored True n) = ?N" unfolding stored_def if_True by (subst unat_of_nat) simp
  moreover have "unat (ucast x :: u32) = unat x" for x :: u8
  proof -
    have "unat x < 2 ^ LENGTH(8)" by (rule unsigned_less)
    then show ?thesis by (simp add: unsigned_ucast_eq take_bit_eq_mod)
  qed
  ultimately have u: "unat (ucast (stored True n) :: u32) = ?N" by simp
  have "unat (ucast (stored True n) mod 16 :: u32) = n mod 10" "unat (ucast (stored True n) div 16 :: u32) = n div 10"
    using u by (simp_all only: unat_mod unat_div bcd_digits unat_numeral) (simp_all add: bcd_digits)
  then have "(ucast (stored True n) mod 16 :: u32) = of_nat (n mod 10)" "(ucast (stored True n) div 16 :: u32) = of_nat (n div 10)"
    by (metis of_nat_unat ucast_id)+
  then have "(ucast (stored True n) AND 15) + ucast (stored True n) div 16 * 10 = (of_nat (n mod 10 + n div 10 * 10) :: u32)"
    by (simp only: and_15_u32 of_nat_add of_nat_mult of_nat_numeral)
  then show ?thesis by (simp only: mod_mult_div_eq mod_div_mult_eq)
qed

definition decoded_hour :: "bool \<Rightarrow> bool \<Rightarrow> u8 \<Rightarrow> u8" where
  "decoded_hour bcd h24 r =
     (let r = (if bcd then word_of_int (((uint r AND 0x0F) + ((uint r AND 0x70) div 16) * 10) OR (uint r AND 0x80)) else r)
      in if \<not> h24 \<and> r AND 0x80 \<noteq> 0 then convert_hour r else r)"

lemma hours:
  assumes "h < 24"
  shows "decoded_hour bcd h24 (stored_hour bcd h24 h) = of_nat (if h24 then h else if h = 0 then 12 else if h = 12 then 0 else h)"
proof -
  have "list_all (\<lambda>h. list_all (\<lambda>bcd. list_all (\<lambda>h24. decoded_hour bcd h24 (stored_hour bcd h24 h) =
      of_nat (if h24 then h else if h = 0 then 12 else if h = 12 then 0 else h)) [True, False]) [True, False]) [0..<24]"
    by code_simp
  then show ?thesis using assms by (cases bcd; cases h24) (auto simp: list_all_iff)
qed

lemma converted_shown:
  assumes "registerB AND 0x04 = 0 \<longleftrightarrow> bcd" and "registerB AND 0x02 = 0 \<longleftrightarrow> \<not> h24"
  shows "converted registerB (shown reg clk) =
    (let num = (\<lambda>x. if bcd then from_bcd x else x);
         y = (if bcd then (ucast (reg 9) AND 15) + ucast (reg 9) div 16 * 10 else ucast (reg 9)) + 2000
     in clk\<lparr>second := num (reg 0), minute := num (reg 2), hour := decoded_hour bcd h24 (reg 4), day := num (reg 7), month := num (reg 8),
          year := (if y < 2024 then y + 100 else y)\<rparr>)"
  by (cases bcd; cases h24)
    (simp_all add: assms converted_def shown_def convert_bcd_def decoded_hour_def Let_def)

text \<open>The local time: 17 o'clock UTC becomes 24 instead of 0; minutes and seconds of a clock stay.\<close>

lemma local_hour_of:
  assumes "h < 24" and "hour clk = of_nat h"
  shows "hour (local_hour clk) = of_nat (if h < 18 then h + 7 else h - 17)"
proof -
  have "list_all (\<lambda>h. (if (of_nat h + 7 :: u8) > 24 then of_nat h + 7 - 24 else of_nat h + 7) = (of_nat (if h < 18 then h + 7 else h - 17) :: u8)) [0..<24]"
    by code_simp
  then have "(if (of_nat h + 7 :: u8) > 24 then of_nat h + 7 - 24 else of_nat h + 7) = (of_nat (if h < 18 then h + 7 else h - 17) :: u8)"
    using assms(1) unfolding list_all_iff by auto
  then show ?thesis using assms(2) by (simp add: local_hour_def Let_def split: if_splits)
qed

lemma local_same: "minute clk \<le> 60 \<Longrightarrow> local_minute clk = clk" "second clk \<le> 60 \<Longrightarrow> local_second clk = clk"
  by (simp_all add: local_minute_def local_second_def)

section \<open>Properties\<close>

text \<open>The variables that a time should give; noon and midnight of a 12-hour clock are swapped.\<close>

definition time_shown :: "bool \<Rightarrow> nat \<Rightarrow> nat \<Rightarrow> nat \<Rightarrow> nat \<Rightarrow> nat \<Rightarrow> nat \<Rightarrow> clock \<Rightarrow> clock" where
  "time_shown h24 y mo d h mi s clk = clk\<lparr>
      second := of_nat s, minute := of_nat mi, hour := of_nat (if h24 then h else if h = 0 then 12 else if h = 12 then 0 else h),
      day := of_nat d, month := of_nat mo, year := of_nat (if y < 24 then 2100 + y else 2000 + y)\<rparr>"

lemma converted_time:
  assumes "stores_time bcd h24 y mo d h mi s reg"
  shows "converted (reg 0x0B) (shown reg clk) = time_shown h24 y mo d h mi s clk"
proof -
  have t: "y < 100" "mo < 100" "d < 100" "h < 24" "mi < 100" "s < 100" using assms by (simp_all add: stores_time_def)
  have y: "(of_nat y + 2000 < (2024 :: u32)) \<longleftrightarrow> y < 24"
  proof -
    have "(of_nat y + 2000 :: u32) = of_nat (y + 2000)" "(2024 :: u32) = of_nat 2024" by simp_all
    moreover have "(of_nat (y + 2000) :: u32) < of_nat 2024 \<longleftrightarrow> y + 2000 < 2024" using t(1) by (subst of_nat_word_less_iff) (simp add: take_bit_eq_mod)
    ultimately show ?thesis by simp
  qed
  have bin: "(ucast (stored False y) :: u32) = of_nat y" using t(1) by (simp add: stored_def unsigned_of_nat take_bit_eq_mod)
  note hh = hours [OF t(4), of bcd h24]
  have num: "(if bcd then from_bcd (stored bcd n) else stored bcd n) = of_nat n" if "n < 100" for n
    using from_bcd_stored [OF that] by (simp add: stored_def)
  have yy: "(if bcd then (ucast (stored bcd y) AND 15) + ucast (stored bcd y) div 16 * 10 else ucast (stored bcd y)) + 2000 = (of_nat y + 2000 :: u32)"
    using year_stored [OF t(1)] bin by (cases bcd) simp_all
  have yr: "(if y < 24 then of_nat y + 2000 + 100 else of_nat y + 2000 :: u32) = of_nat (if y < 24 then 2100 + y else 2000 + y)" by simp
  have modes: "reg 0x0B AND 0x04 = 0 \<longleftrightarrow> bcd" "reg 0x0B AND 0x02 = 0 \<longleftrightarrow> \<not> h24" and regs: "reg 0 = stored bcd s"
    "reg 2 = stored bcd mi" "reg 4 = stored_hour bcd h24 h" "reg 7 = stored bcd d" "reg 8 = stored bcd mo" "reg 9 = stored bcd y"
    using assms unfolding stores_time_def by blast+
  show ?thesis
    unfolding converted_shown [OF modes] regs Let_def yy y num [OF t(2)] num [OF t(3)] num [OF t(5)] num [OF t(6)] hh yr time_shown_def ..
qed

text \<open>
  C40: reading the clock. On a chip whose registers change at updates and show anything meanwhile, \<open>read_rtc\<close> returns, and what it returns is one consistent reading: if
  the registers hold a time at the end of the call, in any of the four encodings, the variables hold the seconds, minutes, day and month of that time and the year as the
  next one from 2024 on with these two digits. The hour is right on a 24-hour clock; on a 12-hour clock noon is read as 0 and midnight as 12.
\<close>

theorem read_rtc_decodes:
  assumes "rtc_chip out_byte in_byte sel regs calm updated delay" and "century_register clk = 0"
  shows "\<exists>clk' dev'. read_rtc out_byte in_byte century clk dev = Some (clk', dev') \<and> 0 < calm dev' \<and>
    (\<forall>bcd h24 y mo d h mi s. stores_time bcd h24 y mo d h mi s (regs dev') \<longrightarrow> clk' = time_shown h24 y mo d h mi s clk)"
  using read_rtc_effect [OF assms, of century dev] converted_time by fastforce

text \<open>
  A chip with a 12-hour clock, in the middle of an update that lasts for three more reads of the flag, with garbage in the registers. Then
  it shows 12:34:56 in the afternoon of 17 June 2024.
\<close>

definition noon_reg :: "int \<Rightarrow> u8" where
  "noon_reg = (\<lambda>_. 0)(0 := 0x56, 2 := 0x34, 4 := 0x92, 7 := 0x17, 8 := 0x06, 9 := 0x24)"

definition example_regs :: "int \<times> nat \<Rightarrow> int \<Rightarrow> u8" where
  "example_regs d = (if 0 < snd d then (\<lambda>_. 0xFF) else noon_reg)"

definition example_out :: "(int \<times> nat) out_byte" where
  "example_out port v d = (if port = 0x70 then (v, snd d) else d)"

definition example_in :: "(int \<times> nat) in_byte" where
  "example_in port d = (if fst d = 0x0A then (if 0 < snd d then 0x80 else 0, (fst d, snd d - 1)) else (uint (example_regs d (fst d)), d))"

lemma example_chip: "rtc_chip example_out example_in fst example_regs (\<lambda>d. if 0 < snd d then 0 else 1000) (\<lambda>_. True) snd"
  by (auto simp: rtc_chip_def example_out_def example_in_def example_regs_def numeral_eq_Suc bit_simps)

theorem read_rtc_decodes_witness:
  "\<exists>clk dev. read_rtc example_out example_in 0 \<lparr>century_register = 0, second = 0, minute = 0, hour = 0, day = 0, month = 0, year = 0\<rparr> (0, 3) = Some (clk, dev) \<and>
     minute clk = 34 \<and> hour clk = 0 \<and> year clk = 2024"
proof -
  let ?clk = "\<lparr>century_register = 0, second = 0, minute = 0, hour = 0, day = 0, month = 0, year = 0\<rparr>"
  have t: "stores_time True False 24 6 17 12 34 56 noon_reg"
    by (simp add: stores_time_def noon_reg_def stored_def stored_hour_def)
  obtain clk' dev' where r: "read_rtc example_out example_in 0 ?clk (0, 3) = Some (clk', dev')" "\<not> 0 < snd dev'"
    "\<forall>bcd h24 y mo d h mi s. stores_time bcd h24 y mo d h mi s (example_regs dev') \<longrightarrow> clk' = time_shown h24 y mo d h mi s ?clk"
    using read_rtc_decodes [OF example_chip, of ?clk 0 "(0, 3)"] by (auto split: if_splits)
  have "example_regs dev' = noon_reg" using r(2) by (simp add: example_regs_def)
  then have "stores_time True False 24 6 17 12 34 56 (example_regs dev')" using t by simp
  then have "clk' = time_shown False 24 6 17 12 34 56 ?clk" using r(3) by blast
  then show ?thesis using r(1) by (simp add: time_shown_def)
qed

end
