(* ===== verification/Clock_Main.thy ===== *)
theory Clock_Main
  imports Clock Shell
begin

text \<open>
  The main loop of the clock program (\<open>src/src/clock.c\<close>) on the machine: it reads the time and prints it with system call 6. The code passes a
  row and a column where the call takes a length and a colour, and adds the number to the address of the literal \<open>"0"\<close>.
\<close>

text \<open>The \<open>syscall\<close> of this program is the same sequence of instructions as the one of the shell.\<close>

definition clock_syscall :: "'d bus \<Rightarrow> u32 \<Rightarrow> u32 \<Rightarrow> u32 \<Rightarrow> u32 \<Rightarrow> 'd machine \<Rightarrow> 'd machine option" where
  "clock_syscall bus n b c d mach = map_option snd (main_interrupt_handler bus mach (call_frame n b c d))"

definition print_digits :: "'d bus \<Rightarrow> (string \<Rightarrow> u32) \<Rightarrow> u8 \<Rightarrow> u32 \<Rightarrow> 'd machine \<Rightarrow> 'd machine option" where
  "print_digits bus lit v column mach =
     (if v > 10 then
        do { mach \<leftarrow> clock_syscall bus 6 (lit ''0'') 24 column mach; clock_syscall bus 6 (lit ''0'' + ucast v) 24 (column + 1) mach }
      else
        do { mach \<leftarrow> clock_syscall bus 6 (lit ''0'' + ucast (v div 10)) 24 column mach;
             clock_syscall bus 6 (lit ''0'' + ucast (v mod 10)) 24 (column + 1) mach })"

text \<open>One turn of the loop; \<open>century\<close> is what the uninitialised local variable of \<open>read_rtc\<close> holds.\<close>

definition clock_turn ::
  "'d out_byte \<Rightarrow> 'd in_byte \<Rightarrow> 'd bus \<Rightarrow> (string \<Rightarrow> u32) \<Rightarrow> u8 \<Rightarrow> clock \<times> 'd machine \<Rightarrow> (clock \<times> 'd machine) option" where
  "clock_turn out_byte in_byte bus lit century st =
     (case st of (clk, mach) \<Rightarrow>
      do { (clk, d) \<leftarrow> read_rtc out_byte in_byte century clk (dev (ports mach));
           mach \<leftarrow> Some (mach\<lparr>ports := (ports mach)\<lparr>dev := d\<rparr>\<rparr>);
           clk \<leftarrow> Some (local_hour clk);
           mach \<leftarrow> print_digits bus lit (hour clk) 72 mach;
           mach \<leftarrow> clock_syscall bus 6 (lit '':'') 24 74 mach;
           clk \<leftarrow> Some (local_minute clk);
           mach \<leftarrow> print_digits bus lit (minute clk) 75 mach;
           mach \<leftarrow> clock_syscall bus 6 (lit '':'') 24 77 mach;
           clk \<leftarrow> Some (local_second clk);
           mach \<leftarrow> print_digits bus lit (second clk) 78 mach;
           Some (clk, mach) })"

text \<open>\<open>main\<close> never returns; these are its first turns.\<close>

fun clock_turns ::
  "'d out_byte \<Rightarrow> 'd in_byte \<Rightarrow> 'd bus \<Rightarrow> (string \<Rightarrow> u32) \<Rightarrow> u8 list \<Rightarrow> clock \<times> 'd machine \<Rightarrow> (clock \<times> 'd machine) option" where
  "clock_turns out_byte in_byte bus lit [] st = Some st"
| "clock_turns out_byte in_byte bus lit (century # rest) st =
     Option.bind (clock_turn out_byte in_byte bus lit century st) (clock_turns out_byte in_byte bus lit rest)"

text \<open>The clock leaves the kernel alone: memory, file system and processes stay as they were.\<close>

lemma clock_syscall_kern: "clock_syscall bus 6 b c d mach = Some mach' \<Longrightarrow> kern mach' = kern mach"
  using puts_call [of bus b c d mach] by (auto simp: clock_syscall_def shell_syscall_def [symmetric])

lemma print_digits_kern: "print_digits bus lit v column mach = Some mach' \<Longrightarrow> kern mach' = kern mach"
  by (auto simp: print_digits_def bind_eq_Some_conv dest!: clock_syscall_kern split: if_splits)

lemma clock_turn_kern: "clock_turn out_byte in_byte bus lit century (clk, mach) = Some (clk', mach') \<Longrightarrow> kern mach' = kern mach"
  by (auto simp: clock_turn_def bind_eq_Some_conv dest!: print_digits_kern clock_syscall_kern)

end
