(* ===== verification/Spec2Isabelle.thy ===== *)
theory Spec2Isabelle
  imports Disk Shell_Example Fat32_History Build Clock_Main
begin

text \<open>
  A verification development for a small operating system for 32-bit x86 (the C files under \<open>src/src\<close>): boot, segment and interrupt
  tables, drivers for keyboard, text screen and ATA disk, a FAT32-like file system, paging, processes with a round-robin scheduler,
  system calls, and two user programs, a shell and a clock.

  \<^bold>\<open>How the parts interact.\<close> \<open>kernel_setup\<close> initialises the tables and drivers, formats or loads the file system, creates the
  shell process and switches to it. From then on the kernel only runs in \<open>main_interrupt_handler\<close>: the timer interrupt
  saves the context of the running process and switches to the next one, the keyboard interrupt stores a character, and interrupt 0x30 is a system
  call, which works on the file system, the keyboard buffer, the screen or the process table and on the memory of the caller.

  \<^bold>\<open>Theories and sources.\<close>
  \<^item> \<open>Prelude\<close>, \<open>CMemory\<close>: machine words, bounded list access, flat memory with wrapping addresses, C strings; the locale
    \<open>byte_memory\<close> with its interpretation on flat memory.
  \<^item> \<open>CString\<close> (\<open>string.c\<close>): memset, memcpy, memcmp, memmove, strtok, strchr, strspn, strcmp, strcpy, strncpy.
  \<^item> \<open>Storage\<close> (\<open>external-inserter.c\<close>, the cluster functions of \<open>fat32.c\<close>) and \<open>Layout\<close> (\<open>fat32.h\<close>): the 4 MiB image, its blocks and
    clusters, and the packed structs with their byte layout.
  \<^item> \<open>Fat32\<close> (\<open>fat32.c\<close>): the driver, one definition for each function and loop. \<open>Fat32_Spec\<close> has the abstract view, a directory as a map from
    names to files and directories, and the invariant; \<open>Fat32_Tree\<close>, \<open>Fat32_Write\<close>, \<open>Fat32_Format\<close>, \<open>Fat32_Ops\<close>, \<open>Fat32_Delete\<close>, \<open>Fat32_Dir\<close>
    and \<open>Fat32_Move\<close> prove what each operation does to it; \<open>Fat32_Theorems\<close> has the properties, and \<open>Fat32_History\<close> a specification on trees of
    directories that the driver implements over whole histories of calls.
  \<^item> \<open>Inserter\<close> (\<open>main\<close> of \<open>external-inserter.c\<close>): the run of the inserter on the files of the host; \<open>Build\<close> follows the shell from there to the
    CPU of the kernel that boots from the image.
  \<^item> \<open>Paging\<close> (\<open>paging.c\<close>), \<open>Process\<close>, \<open>Process_Theorems\<close> (\<open>process.c\<close>), \<open>Scheduler\<close> (\<open>scheduler.c\<close>).
  \<^item> \<open>Portio\<close> (\<open>portio.c\<close>), \<open>Pic\<close> (the interrupt controllers, \<open>interrupt.c\<close>), \<open>Keyboard\<close>, \<open>Framebuffer\<close>, \<open>Disk\<close>, \<open>Gdt\<close>, \<open>Idt\<close>: the
    drivers and tables of the files of the same names.
  \<^item> \<open>Interrupt\<close>, \<open>Interrupt_Theorems\<close> (\<open>interrupt.c\<close>): system calls and the interrupt handler on the state of the whole machine;
    \<open>runs\<close> is the relation of all executions, in which programs change their memory in any way between interrupts.
  \<^item> \<open>Boot\<close> (\<open>kernel.c\<close>): \<open>kernel_setup\<close>.
  \<^item> The shell (\<open>user-shell.c\<close>), a program that reaches the machine only through the interrupt handler: \<open>Shell_Input\<close> (its own string
    functions and line editing), \<open>Shell\<close> (system calls, \<open>mkdir\<close>, \<open>rm\<close>), \<open>Shell_Cd\<close>, \<open>Shell_Commands\<close> (\<open>ls\<close>, \<open>cat\<close>, \<open>cp\<close>, \<open>mv\<close>), \<open>Shell_Ps\<close>,
    \<open>Shell_Prompt\<close> (\<open>print_dir_tree\<close>) and \<open>Shell_Main\<close> (\<open>find\<close>, \<open>parseCommand\<close> and the main loop). \<open>Shell_Theorems\<close> shows what typed
    lines do to the tree of directories, \<open>Shell_Line\<close> how key strokes become a line, \<open>Shell_Cat\<close> what \<open>cat\<close> shows, \<open>Shell_Turn\<close> a whole
    turn of the main loop, and \<open>Shell_Example\<close> a machine on which all of this runs.
  \<^item> \<open>Clock\<close>, \<open>Clock_Main\<close> (\<open>clock.c\<close>): reading and decoding the real-time clock, and the loop that prints it.

  \<^bold>\<open>State and errors.\<close> C structs are records and arrays are lists, updated with \<open>put_at\<close> and read with \<open>get_at\<close>, which give \<^const>\<open>None\<close> out of
  bounds; integers are words of their width. \<^const>\<open>None\<close> stands for an access outside of an object or for a loop that never ends
  (\<open>partial_function (option)\<close>); every property that an operation does its work states that the result is \<open>Some\<close>. The one bound is that of \<open>find_in_directory\<close>, which calls
  itself for every directory: it takes the number of stack frames that are left, and \<^const>\<open>None\<close> is the overflow of the stack.

  \<^bold>\<open>Parameters.\<close> Devices are parameters: a bus maps port accesses to changes of a device state of any type. What is relied on is named
  by a predicate (\<open>pic_chip\<close>, \<open>vga_crtc\<close>, \<open>ata_bus\<close>, \<open>rtc_chip\<close>) that states documented behaviour of the chip, and each has an example
  instance in a witness; \<open>keyboard_at\<close> says which scan codes the keyboard delivers. The content of uninitialised local variables, the bytes behind a string literal, and the addresses of local variables
  and literals of user programs are parameters as well.

  What the predicates on devices say: \<open>ata_bus\<close> is a drive with 28-bit block addresses that transfers exactly the sectors it was asked for, answers with busy before the data
  of each sector and may be unready for a while after that, and does nothing defined when a command comes in the middle of a transfer; \<open>rtc_chip\<close> is a clock whose registers
  change, and show anything while they do, except for the calm periods that the update flag announces.

  \<^bold>\<open>Memory.\<close> The content of physical memory is kept by page frame (\<open>memory\<close> in \<open>kernel\<close>), so what a program sees at an address is decided by CR3, the page
  directory it names and the entry of the page (\<open>backing\<close>, \<open>user_mem\<close>). Addresses without a user page share a place of their own (\<open>None\<close>), which stands for no memory: the
  kernel does not check the pointers of a system call, so with a pointer to such an address the source reaches kernel memory or faults, and the result of the model
  means nothing. Every property of the kernel that follows pointers therefore requires them to be in user pages (\<open>accessible\<close>, and \<open>user_pointers\<close> for
  each system call of a run). The properties of the shell do not repeat this: they are about a shell whose buffers, local variables and literals are in its user page, as on the example
  machine, and hold on the model whatever is mapped. When the kernel reads a file into a new
  process it does not matter who calls: the read has a result only if the whole clusters it transfers are in user pages (\<open>kernel_read\<close>). The kernel survives a change of CR3 while it runs only if the directory maps it
  (\<open>maps_kernel\<close>, \<open>enter_directory\<close>), and for a new directory that depends on an uninitialised variable (\<open>paging.c:139\<close>), so the properties of process creation and of
  booting assume that it names the frame of the kernel (\<open>benign_entry\<close>), and \<open>create_loses_kernel\<close> shows that they must.

  \<^bold>\<open>Assumptions.\<close> The properties of the shell assume that its buffers do not
  overlap (\<open>apart\<close>) and that its string literals are in memory (\<open>literals\<close>). Interrupts are atomic, as interrupt gates disable
  interrupts.

  \<^bold>\<open>Not modelled.\<close> The assembly files (entry, interrupt stubs, context load) and linker scripts; the code of \<open>mv\<close> in the shell behind the first
  chain of returns, which cannot be reached.
\<close>

end
